(* ===== verification/Prelude.thy ===== *)
theory Prelude
  imports Complex_Main "HOL-Library.AList" "HOL-Library.Char_ord" "HOL-Library.List_Lexorder" "HOL-Library.Multiset"
begin

text \<open>
  The shared layer of the development: thrown errors as values of a sum type, the string, array,
  \<open>Set\<close> and \<open>Map\<close> operations of the JavaScript standard library that the modelled code calls,
  and the generic lemmas the component theories rest on.

  A string is a list of code units. The type \<^typ>\<open>char\<close> restricts a code unit to eight bits,
  so the case and white-space tables below are those of the Latin-1 range; no modelled function
  treats any code unit above that range specially except white space in \<open>String.prototype.trim\<close>.
\<close>

section \<open>Thrown errors\<close>

text \<open>\<open>throw new Error(code)\<close> is the value \<^term>\<open>Inl (Error code)\<close>.\<close>

datatype error = Error string

type_synonym 'a result = "error + 'a"

named_theorems result_simps \<open>inversion of the result combinators\<close>
named_theorems js_simps \<open>evaluation rules of the library operations\<close>

definition throw :: "string \<Rightarrow> 'a result" where
  "throw code = Inl (Error code)"

definition bindR :: "'a result \<Rightarrow> ('a \<Rightarrow> 'b result) \<Rightarrow> 'b result" where
  "bindR m f = (case m of Inl e \<Rightarrow> Inl e | Inr x \<Rightarrow> f x)"

text \<open>\<open>if (!ok) throw new Error(code)\<close> before the rest of the function.\<close>

definition ensure :: "bool \<Rightarrow> string \<Rightarrow> 'a result \<Rightarrow> 'a result" where
  "ensure ok code rest = (if ok then rest else throw code)"

lemma bindR_Inl [simp]: "bindR (Inl e) f = Inl e"
  by (simp add: bindR_def)

lemma bindR_Inr [simp]: "bindR (Inr x) f = f x"
  by (simp add: bindR_def)

lemma throw_not_Inr [simp]: "throw c \<noteq> Inr x" "Inr x \<noteq> throw c"
  by (simp_all add: throw_def)

lemma throw_eq_Inl [simp]: "throw c = Inl e \<longleftrightarrow> e = Error c"
  by (auto simp: throw_def)

lemma throw_inj [simp]: "throw c = throw d \<longleftrightarrow> c = d"
  by (auto simp: throw_def)

lemma bindR_throw [simp]: "bindR (throw c) f = throw c"
  by (simp add: throw_def)

lemma bindR_eq_Inr [result_simps]:
  "bindR m f = Inr y \<longleftrightarrow> (\<exists>x. m = Inr x \<and> f x = Inr y)"
  by (cases m) auto

lemma bindR_eq_Inl [result_simps]:
  "bindR m f = Inl e \<longleftrightarrow> m = Inl e \<or> (\<exists>x. m = Inr x \<and> f x = Inl e)"
  by (cases m) auto

lemma ensure_eq_Inr [result_simps]:
  "ensure ok c r = Inr y \<longleftrightarrow> ok \<and> r = Inr y"
  by (simp add: ensure_def)

lemma ensure_eq_Inl [result_simps]:
  "ensure ok c r = Inl e \<longleftrightarrow> (\<not> ok \<and> e = Error c) \<or> (ok \<and> r = Inl e)"
  by (auto simp: ensure_def)

lemma ensure_True [simp]: "ensure True c r = r"
  by (simp add: ensure_def)

lemma ensure_False [simp]: "ensure False c r = throw c"
  by (simp add: ensure_def)

section \<open>Strings\<close>

definition starts_with :: "string \<Rightarrow> string \<Rightarrow> bool" where
  "starts_with s p \<longleftrightarrow> take (length p) s = p"

definition ends_with :: "string \<Rightarrow> string \<Rightarrow> bool" where
  "ends_with s p \<longleftrightarrow> length p \<le> length s \<and> drop (length s - length p) s = p"

fun str_includes :: "string \<Rightarrow> string \<Rightarrow> bool" where
  "str_includes [] p \<longleftrightarrow> p = []"
| "str_includes (c # s) p \<longleftrightarrow> starts_with (c # s) p \<or> str_includes s p"

text \<open>White space of \<open>trim\<close>: tab, line feed, vertical tab, form feed, carriage return, space and
  the no-break space.\<close>

definition is_space :: "char \<Rightarrow> bool" where
  "is_space c \<longleftrightarrow> of_char c \<in> {9::nat, 10, 11, 12, 13, 32, 160}"

definition trim :: "string \<Rightarrow> string" where
  "trim s = rev (dropWhile is_space (rev (dropWhile is_space s)))"

definition has_text :: "string \<Rightarrow> bool" where
  "has_text s \<longleftrightarrow> trim s \<noteq> []"

definition lower_char :: "char \<Rightarrow> char" where
  "lower_char c = (let n = of_char c :: nat in
     if (65 \<le> n \<and> n \<le> 90) \<or> (192 \<le> n \<and> n \<le> 222 \<and> n \<noteq> 215) then char_of (n + 32) else c)"

definition to_lower :: "string \<Rightarrow> string" where
  "to_lower s = map lower_char s"

text \<open>\<open>replace(/\\/g, "/")\<close>.\<close>

definition slashes :: "string \<Rightarrow> string" where
  "slashes s = map (\<lambda>c. if c = CHR 92 then CHR ''/'' else c) s"

text \<open>Tests of characters evaluate over \<^typ>\<open>int\<close>, whose numerals are binary.\<close>

lemma char_code_eq: "of_char c = (numeral k :: nat) \<longleftrightarrow> of_char c = (numeral k :: int)"
  by (rule of_nat_eq_iff[where ?'a = int, of "of_char c" "numeral k", unfolded of_nat_of_char of_nat_numeral, symmetric])

lemma is_space_code [code]:
  "is_space c \<longleftrightarrow> (let n = of_char c :: int in
     n = 9 \<or> n = 10 \<or> n = 11 \<or> n = 12 \<or> n = 13 \<or> n = 32 \<or> n = 160)"
  by (simp add: is_space_def char_code_eq Let_def)

lemma starts_with_iff: "starts_with s p \<longleftrightarrow> (\<exists>t. s = p @ t)"
  unfolding starts_with_def by (metis append_eq_conv_conj append_take_drop_id)

lemma ends_with_iff: "ends_with s p \<longleftrightarrow> (\<exists>t. s = t @ p)"
proof
  assume "ends_with s p"
  then show "\<exists>t. s = t @ p"
    unfolding ends_with_def by (metis append_take_drop_id)
next
  assume "\<exists>t. s = t @ p"
  then show "ends_with s p"
    unfolding ends_with_def by auto
qed

lemma includes_iff: "str_includes s p \<longleftrightarrow> (\<exists>a b. s = a @ p @ b)"
proof (induction s p rule: str_includes.induct)
  case (1 p)
  then show ?case by auto
next
  case (2 c s p)
  show ?case
  proof
    assume "str_includes (c # s) p"
    then consider t where "c # s = p @ t" | a b where "s = a @ p @ b"
      using 2 by (auto simp: starts_with_iff)
    then show "\<exists>a b. c # s = a @ p @ b"
    proof cases
      case 1
      then show ?thesis by (metis append_Nil)
    next
      case 2
      then show ?thesis by (metis append_Cons)
    qed
  next
    assume "\<exists>a b. c # s = a @ p @ b"
    then obtain a b where e: "c # s = a @ p @ b" by blast
    show "str_includes (c # s) p"
    proof (cases a)
      case Nil
      with e have "starts_with (c # s) p" by (auto simp: starts_with_iff)
      then show ?thesis by simp
    next
      case (Cons d a')
      then show ?thesis using e 2 by auto
    qed
  qed
qed

lemma includes_refl [simp]: "str_includes s s"
  by (metis append_Nil append_Nil2 includes_iff)

lemma ends_with_refl [simp]: "ends_with s s"
  by (simp add: ends_with_def)

lemma length_to_lower [simp]: "length (to_lower s) = length s"
  by (simp add: to_lower_def)

section \<open>Arrays and sets\<close>

text \<open>\<open>[...new Set(xs)]\<close>: the first occurrence of every element, in order.\<close>

fun uniq :: "'a list \<Rightarrow> 'a list" where
  "uniq [] = []"
| "uniq (x # xs) = x # removeAll x (uniq xs)"

lemma set_uniq [simp]: "set (uniq xs) = set xs"
  by (induction xs) auto

lemma distinct_uniq [simp]: "distinct (uniq xs)"
  by (induction xs) (auto simp: distinct_removeAll)

lemma uniq_distinct: "distinct xs \<Longrightarrow> uniq xs = xs"
  by (induction xs) auto

lemma length_uniq_le: "length (uniq xs) \<le> length xs"
proof (induction xs)
  case Nil
  then show ?case by simp
next
  case (Cons x xs)
  have "length (removeAll x (uniq xs)) \<le> length xs"
    using length_removeAll_less_eq Cons.IH by (rule le_trans)
  then show ?case by simp
qed

lemma set_map_filter: "set (List.map_filter f xs) = {y. \<exists>x\<in>set xs. f x = Some y}"
  by (induction xs) (auto simp: List.map_filter_simps split: option.splits)

text \<open>A loop over an array keeps what its body keeps.\<close>

lemma fold_inv:
  assumes "P s" and "\<And>x s. x \<in> set xs \<Longrightarrow> P s \<Longrightarrow> P (f x s)"
  shows "P (fold f xs s)"
  using assms(1)
proof (rule fold_invariant[of xs "\<lambda>x. x \<in> set xs", rotated])
  show "x \<in> set xs \<Longrightarrow> P s \<Longrightarrow> P (f x s)" for x s by (rule assms(2))
qed simp

text \<open>\<open>new Set(xs).size !== xs.length\<close> is a duplicate test.\<close>

lemma length_uniq_eq_iff: "length (uniq xs) = length xs \<longleftrightarrow> distinct xs"
proof (induction xs)
  case Nil
  then show ?case by simp
next
  case (Cons x xs)
  have le: "length (removeAll x (uniq xs)) \<le> length (uniq xs)"
    by (rule length_removeAll_less_eq)
  have lt: "x \<in> set xs \<Longrightarrow> length (removeAll x (uniq xs)) < length (uniq xs)"
    by (rule length_removeAll_less) simp
  have eq: "x \<notin> set xs \<Longrightarrow> removeAll x (uniq xs) = uniq xs"
    by (simp add: removeAll_id)
  show ?case
    using Cons.IH le lt eq length_uniq_le[of xs] by (cases "x \<in> set xs") auto
qed

text \<open>\<open>Array.prototype.sort\<close> is a stable sort; for a consistent comparator its result is determined,
  and insertion sort computes it.\<close>

fun js_insert :: "('a \<Rightarrow> 'a \<Rightarrow> int) \<Rightarrow> 'a \<Rightarrow> 'a list \<Rightarrow> 'a list" where
  "js_insert cmp x [] = [x]"
| "js_insert cmp x (y # ys) = (if cmp x y \<le> 0 then x # y # ys else y # js_insert cmp x ys)"

definition js_sort :: "('a \<Rightarrow> 'a \<Rightarrow> int) \<Rightarrow> 'a list \<Rightarrow> 'a list" where
  "js_sort cmp xs = foldr (js_insert cmp) xs []"

text \<open>\<open>a < b ? -1 : a > b ? 1 : 0\<close>, and the default order of \<open>sort()\<close>: code units.\<close>

definition compare_text :: "string \<Rightarrow> string \<Rightarrow> int" where
  "compare_text a b = (if a < b then -1 else if a > b then 1 else 0)"

lemma compare_text_le: "compare_text a b \<le> 0 \<longleftrightarrow> a \<le> b"
  by (auto simp: compare_text_def)

lemma compare_text_eq0: "compare_text a b = 0 \<longleftrightarrow> a = b"
  by (auto simp: compare_text_def)

text \<open>\<open>c || d\<close> on numbers: the second comparison when the first is zero.\<close>

definition orElse :: "int \<Rightarrow> int \<Rightarrow> int" where
  "orElse c d = (if c \<noteq> 0 then c else d)"

lemma mset_js_insert [simp]: "mset (js_insert cmp x xs) = add_mset x (mset xs)"
  by (induction xs) auto

lemma mset_js_sort [simp]: "mset (js_sort cmp xs) = mset xs"
  by (induction xs) (auto simp: js_sort_def)

lemma set_js_sort [simp]: "set (js_sort cmp xs) = set xs"
  by (metis mset_js_sort set_mset_mset)

lemma length_js_sort [simp]: "length (js_sort cmp xs) = length xs"
  by (metis mset_js_sort size_mset)

lemma distinct_js_sort [simp]: "distinct (js_sort cmp xs) = distinct xs"
  by (metis mset_js_sort mset_eq_imp_distinct_iff)

lemma js_sort_Nil [simp]: "js_sort cmp [] = []"
  by (simp add: js_sort_def)

lemma js_sort_Nil_iff [simp]: "js_sort cmp xs = [] \<longleftrightarrow> xs = []"
  by (metis length_0_conv length_js_sort)

lemma sorted_le_last:
  assumes "sorted (map f xs)" and "x \<in> set xs"
  shows "f x \<le> f (last xs)"
  using assms
proof (induction xs)
  case (Cons y ys)
  then show ?case by (cases ys) auto
qed simp

text \<open>The contract a comparator has with the sort: it orders by a key.\<close>

locale comparator =
  fixes cmp :: "'a \<Rightarrow> 'a \<Rightarrow> int"
    and key :: "'a \<Rightarrow> 'k::linorder"
  assumes cmp_key: "cmp a b \<le> 0 \<longleftrightarrow> key a \<le> key b"
begin

lemma js_insert_insort: "js_insert cmp x xs = insort_key key x xs"
  by (induction xs) (auto simp: cmp_key)

lemma js_sort_sort_key: "js_sort cmp xs = sort_key key xs"
  by (induction xs) (auto simp: js_sort_def sort_key_def js_insert_insort)

lemma sorted_js_sort: "sorted (map key (js_sort cmp xs))"
  by (simp add: js_sort_sort_key)

lemma js_sort_stable: "filter (\<lambda>y. key y = k) (js_sort cmp xs) = filter (\<lambda>y. key y = k) xs"
  by (simp add: js_sort_sort_key sort_key_stable)

lemma hd_js_sort_min:
  assumes "x \<in> set xs"
  shows "key (hd (js_sort cmp xs)) \<le> key x"
proof -
  from assms have x: "x \<in> set (js_sort cmp xs)" by simp
  then obtain h t where ht: "js_sort cmp xs = h # t"
    by (cases "js_sort cmp xs") auto
  have "sorted (key h # map key t)" using sorted_js_sort[of xs] ht by simp
  with x ht show ?thesis by auto
qed

lemma js_sort_perm_eq:
  assumes "inj_on key (set xs)" and "mset xs = mset ys"
  shows "js_sort cmp xs = js_sort cmp ys"
proof -
  have "set ys = set xs" using assms(2) by (metis set_mset_mset)
  moreover have "sorted (map key (js_sort cmp ys))" by (rule sorted_js_sort)
  ultimately show ?thesis
    unfolding js_sort_sort_key
    using assms properties_for_sort_key[of "sort_key key ys" xs key]
    by (metis (mono_tags, lifting) mset_sort properties_for_sort_key set_sort sort_key_stable
        sorted_sort_key sort_key_inj_key_eq)
qed

end

interpretation text_order: comparator compare_text "\<lambda>s. s"
  by unfold_locales (simp add: compare_text_le)

section \<open>Maps\<close>

text \<open>
  A JavaScript \<open>Map\<close> or record keeps its entries in insertion order: an association list with
  distinct keys, where \<open>set\<close> overwrites in place or appends (\<^const>\<open>AList.update\<close>) and \<open>delete\<close>
  removes (\<^const>\<open>AList.delete\<close>).
\<close>

type_synonym ('k, 'v) jsmap = "('k \<times> 'v) list"

definition map_get :: "('k, 'v) jsmap \<Rightarrow> 'k \<Rightarrow> 'v option" where
  "map_get m k = map_of m k"

definition map_has :: "('k, 'v) jsmap \<Rightarrow> 'k \<Rightarrow> bool" where
  "map_has m k \<longleftrightarrow> map_of m k \<noteq> None"

definition map_set :: "('k, 'v) jsmap \<Rightarrow> 'k \<Rightarrow> 'v \<Rightarrow> ('k, 'v) jsmap" where
  "map_set m k v = AList.update k v m"

definition map_del :: "('k, 'v) jsmap \<Rightarrow> 'k \<Rightarrow> ('k, 'v) jsmap" where
  "map_del m k = AList.delete k m"

definition map_values :: "('k, 'v) jsmap \<Rightarrow> 'v list" where
  "map_values m = map snd m"

definition map_ok :: "('k, 'v) jsmap \<Rightarrow> bool" where
  "map_ok m \<longleftrightarrow> distinct (map fst m)"

text \<open>The interface the stateful components rely on.\<close>

locale keyed_store =
  fixes get :: "'m \<Rightarrow> 'k \<Rightarrow> 'v option"
    and put :: "'m \<Rightarrow> 'k \<Rightarrow> 'v \<Rightarrow> 'm"
    and del :: "'m \<Rightarrow> 'k \<Rightarrow> 'm"
    and ok :: "'m \<Rightarrow> bool"
  assumes get_put: "get (put m k v) k' = (if k' = k then Some v else get m k')"
    and get_del: "get (del m k) k' = (if k' = k then None else get m k')"
    and ok_put: "ok m \<Longrightarrow> ok (put m k v)"
    and ok_del: "ok m \<Longrightarrow> ok (del m k)"
begin

lemma get_put_same: "get (put m k v) k = Some v"
  by (simp add: get_put)

lemma get_put_other: "k' \<noteq> k \<Longrightarrow> get (put m k v) k' = get m k'"
  by (simp add: get_put)

lemma get_del_same: "get (del m k) k = None"
  by (simp add: get_del)

lemma get_put_put: "get (put (put m k v) k w) = get (put m k w)"
  by (rule ext) (simp add: get_put)

text \<open>A predicate on the values survives an update by a value that satisfies it.\<close>

lemma all_values_put:
  assumes "\<And>j w. get m j = Some w \<Longrightarrow> P j w" and "P k v" and "get (put m k v) j = Some w"
  shows "P j w"
  using assms by (auto simp: get_put split: if_splits)

end

interpretation js: keyed_store map_get map_set map_del map_ok
proof
  fix m :: "('a, 'b) jsmap" and k k' v
  show "map_get (map_set m k v) k' = (if k' = k then Some v else map_get m k')"
    by (simp add: map_get_def map_set_def update_conv)
  show "map_get (map_del m k) k' = (if k' = k then None else map_get m k')"
    by (simp add: map_get_def map_del_def delete_conv)
  show "map_ok m \<Longrightarrow> map_ok (map_set m k v)"
    by (simp add: map_ok_def map_set_def distinct_update)
  show "map_ok m \<Longrightarrow> map_ok (map_del m k)"
    by (simp add: map_ok_def map_del_def distinct_delete)
qed

declare js.get_put_same [simp] js.get_put_other [simp] js.get_del_same [simp]

lemma map_has_iff: "map_has m k \<longleftrightarrow> map_get m k \<noteq> None"
  by (simp add: map_has_def map_get_def)

lemma map_get_Nil [simp]: "map_get [] k = None"
  by (simp add: map_get_def)

lemma map_get_values: "map_get m k = Some v \<Longrightarrow> v \<in> set (map_values m)"
  unfolding map_get_def map_values_def by (drule map_of_SomeD) force

lemma map_values_get: "map_ok m \<Longrightarrow> v \<in> set (map_values m) \<Longrightarrow> \<exists>k. map_get m k = Some v"
  unfolding map_get_def map_values_def map_ok_def by force

lemma map_ok_Nil [simp]: "map_ok []"
  by (simp add: map_ok_def)

text \<open>The first element a predicate holds for: \<open>Array.prototype.find\<close> is \<^const>\<open>find\<close>.\<close>

lemma find_SomeD: "find P xs = Some x \<Longrightarrow> P x \<and> x \<in> set xs"
  by (induction xs) (auto split: if_splits)

lemma find_None_iff_all: "find P xs = None \<longleftrightarrow> list_all (\<lambda>x. \<not> P x) xs"
  by (induction xs) auto

section \<open>Decimal numerals\<close>

text \<open>\<open>String(n)\<close> and template interpolation of an integer.\<close>

fun nat_str :: "nat \<Rightarrow> string" where
  "nat_str n = (if n < 10 then [char_of (48 + n)] else nat_str (n div 10) @ [char_of (48 + n mod 10)])"

declare nat_str.simps [simp del]

lemma nat_str_code [code]:
  "nat_str n = (if n < 10 then [char_of (48 + int n)] else nat_str (n div 10) @ [char_of (48 + int (n mod 10))])"
proof -
  have "(char_of (48 + int k) :: char) = char_of (48 + k)" for k by (metis char_of_nat of_nat_add of_nat_numeral)
  then show ?thesis by (subst nat_str.simps) simp
qed

definition int_str :: "int \<Rightarrow> string" where
  "int_str i = (if i < 0 then CHR ''-'' # nat_str (nat (- i)) else nat_str (nat i))"

definition is_digit :: "char \<Rightarrow> bool" where
  "is_digit c \<longleftrightarrow> (48::nat) \<le> of_char c \<and> (of_char c :: nat) \<le> 57"

lemma is_digit_code [code]: "is_digit c \<longleftrightarrow> 48 \<le> (of_char c :: int) \<and> (of_char c :: int) \<le> 57"
proof -
  have "(of_char c :: int) = int (of_char c)" by (simp add: of_nat_of_char)
  then show ?thesis unfolding is_digit_def by linarith
qed

definition digits_val :: "string \<Rightarrow> nat" where
  "digits_val s = foldl (\<lambda>a c. 10 * a + (of_char c - 48)) 0 s"

lemma of_char_digit [simp]: "d < 10 \<Longrightarrow> of_char (char_of (48 + d) :: char) = (48 + d :: nat)"
  by (simp add: of_char_of)

lemma digits_val_nat_str [simp]: "digits_val (nat_str n) = n"
proof (induction n rule: nat_str.induct)
  case (1 n)
  show ?case
  proof (cases "n < 10")
    case True
    then show ?thesis by (subst nat_str.simps) (simp add: digits_val_def)
  next
    case False
    with 1 show ?thesis by (subst nat_str.simps) (simp add: digits_val_def)
  qed
qed

text \<open>The value of a digit string over the binary integers, which evaluate fast.\<close>

definition digits_i :: "string \<Rightarrow> int" where
  "digits_i s = foldl (\<lambda>a c. 10 * a + (of_char c - 48)) 0 s"

lemma digits_int:
  assumes "list_all is_digit s"
  shows "digits_i s = int (digits_val s)"
proof -
  have c: "int (of_char c) = of_char c" for c :: char by (rule of_nat_of_char)
  have "foldl (\<lambda>a c. 10 * a + (of_char c - 48)) (int k) s = int (foldl (\<lambda>a c. 10 * a + (of_char c - 48)) k s)" for k
    using assms
  proof (induction s arbitrary: k)
    case (Cons d s)
    have "10 * int k + (of_char d - 48) = int (10 * k + (of_char d - 48))"
      using Cons.prems by (simp add: is_digit_def of_nat_diff c)
    then show ?case using Cons.IH[of "10 * k + (of_char d - 48)"] Cons.prems
      by (simp only: foldl.simps list.pred_inject)
  qed simp
  from this[of 0] show ?thesis by (simp add: digits_i_def digits_val_def)
qed

lemma nat_str_inj [simp]: "nat_str m = nat_str n \<longleftrightarrow> m = n"
  by (metis digits_val_nat_str)

lemma nat_str_digits: "list_all is_digit (nat_str n)"
proof (induction n rule: nat_str.induct)
  case (1 n)
  have "is_digit (char_of (48 + d))" if "d < 10" for d :: nat
    using that by (simp add: is_digit_def)
  with 1 show ?case by (subst nat_str.simps) simp
qed

lemma nat_str_ne [simp]: "nat_str n \<noteq> []"
  by (subst nat_str.simps) simp

lemma int_str_inj [simp]: "int_str i = int_str j \<longleftrightarrow> i = j"
proof -
  have nodash: "nat_str n \<noteq> CHR ''-'' # s" for n s
    using nat_str_digits[of n] by (auto simp: is_digit_def)
  show ?thesis
    using nodash nodash[symmetric] by (auto simp: int_str_def)
qed

text \<open>\<open>xs.join(sep)\<close>.\<close>

fun join_with :: "string \<Rightarrow> string list \<Rightarrow> string" where
  "join_with sep [] = []"
| "join_with sep [x] = x"
| "join_with sep (x # y # xs) = x @ sep @ join_with sep (y # xs)"

text \<open>The character class \<open>[a-f0-9]\<close>.\<close>

definition hex_lower :: "char \<Rightarrow> bool" where
  "hex_lower c \<longleftrightarrow> is_digit c \<or> (97 \<le> (of_char c :: nat) \<and> (of_char c :: nat) \<le> 102)"

lemma hex_lower_code [code]: "hex_lower c \<longleftrightarrow> is_digit c \<or> (97 \<le> (of_char c :: int) \<and> (of_char c :: int) \<le> 102)"
proof -
  have "(of_char c :: int) = int (of_char c)" by (simp add: of_nat_of_char)
  then show ?thesis unfolding hex_lower_def by linarith
qed

end
