(* ===== verification/CallGraph.thy ===== *)
theory CallGraph
  imports Prelude
begin

text \<open>
  The call graph of \<open>packages/call-graph/src/types.ts\<close> and the assembly half of \<open>build.ts\<close>:
  the resolution of a call site to its targets, the emission of edges, the merge of type
  hierarchies and the adjacency index. The text front end (regular expressions over source files)
  is not modelled: its output, the raw functions with their call sites, is the input here.
  A \<open>Record<string, T>\<close> is a \<^typ>\<open>('k, 'v) jsmap\<close>; its keys (node ids, function names, type
  names) are never array indices, so the insertion order is the order \<open>Object.values\<close> reads.
\<close>

section \<open>Types\<close>

datatype call_resolution =
    Direct | NameMatch | Cha | Rta | ImportContext | VirtualApprox | ExternalStub

datatype call_confidence = High | Medium | Low

datatype language = Typescript | Javascript | Python | Go | Java | Other

datatype epistemic_state = Observed | Inferred | Ambiguous

record structural_source =
  ss_tenantId :: string
  ss_repositoryId :: string
  ss_repositorySnapshotId :: string
  ss_repositoryRevision :: string
  ss_manifestDigest :: string
  ss_structuralContentDigest :: string
  ss_extractor :: "string \<times> string \<times> string"
  ss_evidenceRefs :: "string list"
  ss_epistemicState :: "epistemic_state option"

record function_node =
  fn_id :: string
  fn_qualifiedName :: string
  fn_name :: string
  fn_filePath :: string
  fn_lineStart :: int
  fn_lineEnd :: int
  fn_language :: language
  fn_enclosingType :: "string option"
  fn_isExternalApi :: bool
  fn_isTest :: bool
  fn_signature :: "string option"
  fn_bodyHash :: "string option"
  fn_structuralSource :: "structural_source option"

record call_edge =
  e_id :: string
  e_callerId :: string
  e_calleeId :: string
  e_callSiteFile :: string
  e_callSiteLine :: int
  e_resolution :: call_resolution
  e_confidence :: call_confidence
  e_virtual :: bool
  e_structuralSource :: "structural_source option"

record type_hierarchy =
  parentsOf :: "(string, string list) jsmap"
  instantiated :: "string list"
  methodsOfType :: "(string, string list) jsmap"

datatype algorithm = ByName | ByCha | ByRta | Hybrid

record graph_stats =
  nodeCount :: nat
  edgeCount :: nat
  directEdges :: nat
  approxEdges :: nat

record call_graph =
  repoRoot :: string
  builtAt :: string
  cg_algorithm :: algorithm
  cg_nodes :: "(string, function_node) jsmap"
  cg_edges :: "call_edge list"
  outEdges :: "(string, string list) jsmap"
  inEdges :: "(string, string list) jsmap"
  byName :: "(string, string list) jsmap"
  cg_hierarchy :: type_hierarchy
  cg_stats :: graph_stats

section \<open>Confidence\<close>

definition confRank :: "call_confidence \<Rightarrow> nat" where
  "confRank c = (case c of High \<Rightarrow> 2 | Medium \<Rightarrow> 1 | Low \<Rightarrow> 0)"

definition minConf :: "call_confidence \<Rightarrow> call_confidence \<Rightarrow> call_confidence" where
  "minConf a b = (if confRank a \<le> confRank b then a else b)"

instantiation call_confidence :: linorder
begin

definition less_eq_call_confidence :: "call_confidence \<Rightarrow> call_confidence \<Rightarrow> bool" where
  "a \<le> b \<longleftrightarrow> confRank a \<le> confRank b"

definition less_call_confidence :: "call_confidence \<Rightarrow> call_confidence \<Rightarrow> bool" where
  "a < b \<longleftrightarrow> confRank a < confRank b"

instance
  by standard
    (auto simp: less_eq_call_confidence_def less_call_confidence_def confRank_def
      split: call_confidence.splits)

end

text \<open>\<open>minConf\<close> is the meet of the order the ranks induce.\<close>

lemma minConf_min: "minConf a b = min a b"
  by (simp add: minConf_def min_def less_eq_call_confidence_def)

lemma le_High [simp]: "c \<le> High"
  by (cases c) (simp_all add: less_eq_call_confidence_def confRank_def)

lemma Low_le [simp]: "Low \<le> c"
  by (cases c) (simp_all add: less_eq_call_confidence_def confRank_def)

lemma confRank_less_iff: "confRank a < confRank b \<longleftrightarrow> a < b"
  by (simp add: less_call_confidence_def)

section \<open>Edge and node lookup\<close>

text \<open>The index maps an id to the last edge that carries it (\<open>Map.set\<close> overwrites).\<close>

definition edgeIndexOf :: "call_graph \<Rightarrow> (string, call_edge) jsmap" where
  "edgeIndexOf g = fold (\<lambda>e m. map_set m (e_id e) e) (cg_edges g) []"

definition edgeById :: "call_graph \<Rightarrow> string \<Rightarrow> call_edge option" where
  "edgeById g i = map_get (edgeIndexOf g) i"

definition adjacent :: "(string, string list) jsmap \<Rightarrow> string \<Rightarrow> string list" where
  "adjacent m k = (case map_get m k of None \<Rightarrow> [] | Some xs \<Rightarrow> xs)"

definition nodesByName :: "call_graph \<Rightarrow> string \<Rightarrow> function_node list" where
  "nodesByName g n = List.map_filter (map_get (cg_nodes g)) (adjacent (byName g) n)"

definition nodeAt :: "call_graph \<Rightarrow> string \<Rightarrow> int \<Rightarrow> function_node option" where
  "nodeAt g file line =
     find (\<lambda>n. fn_filePath n = file \<and> line \<ge> fn_lineStart n \<and> line \<le> fn_lineEnd n)
       (map_values (cg_nodes g))"

definition nodeByFileName :: "call_graph \<Rightarrow> string \<Rightarrow> string \<Rightarrow> function_node option" where
  "nodeByFileName g file name =
     find (\<lambda>n. fn_filePath n = file \<and> fn_name n = name) (map_values (cg_nodes g))"

lemma fold_map_set_get:
  "map_get (fold (\<lambda>e m. map_set m (f e) e) es m) i =
     (case find (\<lambda>e. f e = i) (rev es) of Some e \<Rightarrow> Some e | None \<Rightarrow> map_get m i)"
proof (induction es arbitrary: m rule: rev_induct)
  case Nil
  then show ?case by simp
next
  case (snoc x xs)
  then show ?case by (auto simp: js.get_put)
qed

lemma edgeById_last: "edgeById g i = find (\<lambda>e. e_id e = i) (rev (cg_edges g))"
  by (simp add: edgeById_def edgeIndexOf_def fold_map_set_get split: option.splits)

lemma edgeById_SomeD: "edgeById g i = Some e \<Longrightarrow> e \<in> set (cg_edges g) \<and> e_id e = i"
  by (auto simp: edgeById_last dest: find_SomeD)

lemma find_distinct_key:
  assumes "distinct (map f xs)" and "x \<in> set xs"
  shows "find (\<lambda>y. f y = f x) xs = Some x"
  using assms by (induction xs) (auto split: if_splits)

lemma edgeById_in:
  assumes "distinct (map e_id (cg_edges g))" and "e \<in> set (cg_edges g)"
  shows "edgeById g (e_id e) = Some e"
  using assms find_distinct_key[of e_id "rev (cg_edges g)" e]
  by (simp add: edgeById_last rev_map[symmetric])

section \<open>Resolution of a call site\<close>

record raw_call =
  callerKey :: string
  calleeName :: string
  calleeReceiver :: "string option"
  call_filePath :: string
  call_line :: int

record call_target =
  t_node :: function_node
  t_resolution :: call_resolution
  t_confidence :: call_confidence
  t_virtual :: bool

definition target :: "call_resolution \<Rightarrow> call_confidence \<Rightarrow> bool \<Rightarrow> function_node \<Rightarrow> call_target" where
  "target r c v n = \<lparr>t_node = n, t_resolution = r, t_confidence = c, t_virtual = v\<rparr>"

definition truthy :: "string option \<Rightarrow> bool" where
  "truthy s \<longleftrightarrow> s \<noteq> None \<and> s \<noteq> Some []"

text \<open>The receiver filter; \<open>[]\<close> when there is no receiver or it is \<open>this\<close>.\<close>

definition receiver_typed :: "raw_call \<Rightarrow> function_node list \<Rightarrow> function_node list" where
  "receiver_typed call nameHits =
     (case calleeReceiver call of
        None \<Rightarrow> []
      | Some r \<Rightarrow>
          if r \<noteq> [] \<and> r \<noteq> ''this''
          then filter (\<lambda>n. fn_enclosingType n = Some r \<or>
                 (fn_name n = calleeName call \<and> str_includes (fn_qualifiedName n) r)) nameHits
          else [])"

definition in_types :: "string list \<Rightarrow> function_node \<Rightarrow> bool" where
  "in_types ts n \<longleftrightarrow>
     \<not> truthy (fn_enclosingType n) \<or> the (fn_enclosingType n) \<in> set ts \<or> ts = []"

text \<open>Class hierarchy and rapid type analysis over the hits that belong to a type.\<close>

definition hierarchy_filter :: "algorithm \<Rightarrow> type_hierarchy \<Rightarrow> function_node list \<Rightarrow> function_node list" where
  "hierarchy_filter alg h typedMethods =
     (let inst = uniq (instantiated h);
          filtered0 = filter (in_types inst) typedMethods;
          filtered1 = (if alg = ByCha \<or> filtered0 = [] then typedMethods else filtered0)
      in if alg = ByRta \<or> alg = Hybrid
         then (let expanded = inst @ map fst (filter (\<lambda>(child, parents).
                                  list_ex (\<lambda>p. p \<in> set inst) parents) (parentsOf h));
                   filtered = filter (in_types expanded) typedMethods
               in if filtered = [] then typedMethods else filtered)
         else filtered1)"

definition resolveTargets ::
  "raw_call \<Rightarrow> (string, function_node list) jsmap \<Rightarrow> type_hierarchy \<Rightarrow> algorithm \<Rightarrow> call_target list" where
  "resolveTargets call names h alg =
     (let nameHits = (case map_get names (calleeName call) of None \<Rightarrow> [] | Some ns \<Rightarrow> ns);
          sameFile = filter (\<lambda>n. fn_filePath n = call_filePath call) nameHits;
          typed = receiver_typed call nameHits;
          typedMethods = filter (\<lambda>n. truthy (fn_enclosingType n)) nameHits
      in if nameHits = [] then []
         else if length nameHits = 1 then [target Direct High False (hd nameHits)]
         else if length sameFile = 1 then [target Direct High False (hd sameFile)]
         else if typed \<noteq> [] then map (target ImportContext Medium False) typed
         else if (alg = ByRta \<or> alg = Hybrid \<or> alg = ByCha) \<and> typedMethods \<noteq> []
         then (let filtered = hierarchy_filter alg h typedMethods
               in map (target (if alg = ByCha then Cha else Rta)
                        (if length filtered = 1 then High else Medium) True) filtered)
         else map (target NameMatch Low True) nameHits)"

lemma hierarchy_filter_sub: "set (hierarchy_filter alg h ns) \<subseteq> set ns"
  by (auto simp: hierarchy_filter_def Let_def split: if_splits)

lemma hierarchy_filter_ne: "ns \<noteq> [] \<Longrightarrow> hierarchy_filter alg h ns \<noteq> []"
  by (auto simp: hierarchy_filter_def Let_def split: if_splits)

lemma receiver_typed_sub: "set (receiver_typed call ns) \<subseteq> set ns"
  by (auto simp: receiver_typed_def split: option.splits if_splits)

lemma target_sel [simp]:
  "t_node (target r c v n) = n" "t_resolution (target r c v n) = r"
  "t_confidence (target r c v n) = c" "t_virtual (target r c v n) = v"
  by (simp_all add: target_def)

lemma hd_filter_in: "length (filter P xs) = Suc 0 \<Longrightarrow> hd (filter P xs) \<in> set xs"
  by (metis filter_is_subset hd_in_set length_0_conv n_not_Suc_n subset_iff)

lemma resolveTargets_sub:
  assumes "map_get names (calleeName call) = Some ns"
  shows "t_node ` set (resolveTargets call names h alg) \<subseteq> set ns"
proof -
  let ?tm = "filter (\<lambda>n. truthy (fn_enclosingType n)) ns"
  have "set (hierarchy_filter alg h ?tm) \<subseteq> set ns"
    using hierarchy_filter_sub[of alg h ?tm] by auto
  moreover have "set (receiver_typed call ns) \<subseteq> set ns" by (rule receiver_typed_sub)
  ultimately show ?thesis
    using assms unfolding resolveTargets_def Let_def
    by (simp add: image_image hd_filter_in)
qed

lemma resolveTargets_ne:
  assumes "map_get names (calleeName call) = Some ns" and "ns \<noteq> []"
  shows "resolveTargets call names h alg \<noteq> []"
  using assms by (auto simp: resolveTargets_def Let_def dest: hierarchy_filter_ne)

lemma resolveTargets_none: "map_get names (calleeName call) = None \<Longrightarrow> resolveTargets call names h alg = []"
  by (simp add: resolveTargets_def)

lemma resolveTargets_labels:
  "list_all (\<lambda>t. (t_confidence t = Low \<longleftrightarrow> t_resolution t = NameMatch) \<and>
                 (t_virtual t \<longleftrightarrow> t_resolution t \<in> {Cha, Rta, NameMatch}) \<and>
                 t_resolution t \<in> {Direct, ImportContext, Cha, Rta, NameMatch}) (resolveTargets call names h alg)"
  by (simp add: resolveTargets_def Let_def list_all_iff)

text \<open>Resolution is sound-biased. Every target is a function with the called name; a call
  whose name is known never resolves to nothing, a call whose name is unknown resolves to nothing;
  only the name-based fallback is labelled low confidence, and exactly the three approximate
  resolutions are marked virtual.\<close>

theorem resolve_targets_sound_bias:
  "t_node ` set (resolveTargets call names h alg) \<subseteq>
     set (case map_get names (calleeName call) of None \<Rightarrow> [] | Some ns \<Rightarrow> ns) \<and>
   (resolveTargets call names h alg = [] \<longleftrightarrow>
     map_get names (calleeName call) = None \<or> map_get names (calleeName call) = Some []) \<and>
   list_all (\<lambda>t. (t_confidence t = Low \<longleftrightarrow> t_resolution t = NameMatch) \<and>
                 (t_virtual t \<longleftrightarrow> t_resolution t \<in> {Cha, Rta, NameMatch})) (resolveTargets call names h alg)"
proof (cases "map_get names (calleeName call)")
  case None
  then show ?thesis by (simp add: resolveTargets_none)
next
  case (Some ns)
  have "ns = [] \<Longrightarrow> resolveTargets call names h alg = []" using Some by (simp add: resolveTargets_def)
  then have "resolveTargets call names h alg = [] \<longleftrightarrow> ns = []"
    using resolveTargets_ne[OF Some] by blast
  then show ?thesis
    using Some resolveTargets_sub[OF Some, of h alg] resolveTargets_labels[of call names h alg]
    by (simp add: list_all_iff)
qed

section \<open>Type hierarchies\<close>

definition emptyHierarchy :: type_hierarchy where
  "emptyHierarchy = \<lparr>parentsOf = [], instantiated = [], methodsOfType = []\<rparr>"

text \<open>\<open>{...a, ...b}\<close>.\<close>

definition spread :: "('k, 'v) jsmap \<Rightarrow> ('k, 'v) jsmap \<Rightarrow> ('k, 'v) jsmap" where
  "spread a b = fold (\<lambda>(k, v) m. map_set m k v) b a"

definition mergeHierarchies :: "type_hierarchy \<Rightarrow> type_hierarchy \<Rightarrow> type_hierarchy" where
  "mergeHierarchies a b =
     \<lparr>parentsOf = spread (parentsOf a) (parentsOf b),
      instantiated = uniq (instantiated a @ instantiated b),
      methodsOfType = fold (\<lambda>(k, v) m. map_set m k (uniq (adjacent m k @ v)))
                        (methodsOfType b) (methodsOfType a)\<rparr>"

section \<open>The adjacency index\<close>

text \<open>\<open>m[k] = m[k] ?? []; m[k].push(v)\<close>.\<close>

definition push_at :: "(string, string list) jsmap \<Rightarrow> string \<Rightarrow> string \<Rightarrow> (string, string list) jsmap" where
  "push_at m k v = map_set m k (adjacent m k @ [v])"

definition endpoints_known :: "call_graph \<Rightarrow> call_edge \<Rightarrow> bool" where
  "endpoints_known g e \<longleftrightarrow> map_has (cg_nodes g) (e_callerId e) \<and> map_has (cg_nodes g) (e_calleeId e)"

definition rebuildAdjacency :: "call_graph \<Rightarrow> call_graph" where
  "rebuildAdjacency g =
     (let known = filter (endpoints_known g) (cg_edges g)
      in g\<lparr>outEdges := fold (\<lambda>e m. push_at m (e_callerId e) (e_id e)) known [],
           inEdges := fold (\<lambda>e m. push_at m (e_calleeId e) (e_id e)) known [],
           byName := fold (\<lambda>n m. push_at m (fn_name n) (fn_id n)) (map_values (cg_nodes g)) [],
           cg_stats := \<lparr>nodeCount = length (cg_nodes g),
                        edgeCount = length (cg_edges g),
                        directEdges = length (filter (\<lambda>e. e_resolution e = Direct) known),
                        approxEdges = length (filter (\<lambda>e. e_resolution e \<noteq> Direct) known)\<rparr>\<rparr>)"

lemma adjacent_push_at:
  "adjacent (push_at m k v) i = (if i = k then adjacent m k @ [v] else adjacent m i)"
  by (simp add: push_at_def adjacent_def js.get_put)

lemma adjacent_fold_push:
  "adjacent (fold (\<lambda>x m. push_at m (k x) (v x)) xs m) i
     = adjacent m i @ map v (filter (\<lambda>x. k x = i) xs)"
  by (induction xs arbitrary: m) (auto simp: adjacent_push_at)

lemma adjacent_Nil [simp]: "adjacent [] i = []"
  by (simp add: adjacent_def)

lemma rebuildAdjacency_sel [simp]:
  "cg_nodes (rebuildAdjacency g) = cg_nodes g" "cg_edges (rebuildAdjacency g) = cg_edges g"
  "cg_hierarchy (rebuildAdjacency g) = cg_hierarchy g" "cg_algorithm (rebuildAdjacency g) = cg_algorithm g"
  "repoRoot (rebuildAdjacency g) = repoRoot g"
  by (simp_all add: rebuildAdjacency_def Let_def)

lemma edgeById_rebuild [simp]: "edgeById (rebuildAdjacency g) i = edgeById g i"
  by (simp add: edgeById_last)

lemma rebuild_out:
  "adjacent (outEdges (rebuildAdjacency g)) i
     = map e_id (filter (\<lambda>e. e_callerId e = i) (filter (endpoints_known g) (cg_edges g)))"
  by (simp add: rebuildAdjacency_def Let_def adjacent_fold_push del: filter_filter)

lemma rebuild_in:
  "adjacent (inEdges (rebuildAdjacency g)) i
     = map e_id (filter (\<lambda>e. e_calleeId e = i) (filter (endpoints_known g) (cg_edges g)))"
  by (simp add: rebuildAdjacency_def Let_def adjacent_fold_push del: filter_filter)

lemma rebuild_names:
  "adjacent (byName (rebuildAdjacency g)) nm
     = map fn_id (filter (\<lambda>n. fn_name n = nm) (map_values (cg_nodes g)))"
  by (simp add: rebuildAdjacency_def Let_def adjacent_fold_push)

text \<open>A graph whose node record is keyed by the node ids and whose edge ids are distinct, with the
  index of its edges.\<close>

definition keyed_by_id :: "call_graph \<Rightarrow> bool" where
  "keyed_by_id g \<longleftrightarrow>
     map_ok (cg_nodes g) \<and> list_all (\<lambda>(k, n). fn_id n = k) (cg_nodes g) \<and>
     distinct (map e_id (cg_edges g))"

definition indexed :: "call_graph \<Rightarrow> bool" where
  "indexed g \<longleftrightarrow> keyed_by_id g \<and>
     (\<forall>i. adjacent (outEdges g) i = adjacent (outEdges (rebuildAdjacency g)) i) \<and>
     (\<forall>i. adjacent (inEdges g) i = adjacent (inEdges (rebuildAdjacency g)) i)"

lemma keyed_get: "keyed_by_id g \<Longrightarrow> map_get (cg_nodes g) i = Some n \<Longrightarrow> fn_id n = i"
  unfolding keyed_by_id_def map_get_def
  by (auto simp: list_all_iff dest!: map_of_SomeD)

lemma rebuild_idem: "rebuildAdjacency (rebuildAdjacency g) = rebuildAdjacency g"
proof -
  have "endpoints_known (rebuildAdjacency g) = endpoints_known g"
    by (rule ext) (simp add: endpoints_known_def)
  then show ?thesis
    by (subst (1) rebuildAdjacency_def) (simp add: rebuildAdjacency_def Let_def)
qed

lemma rebuild_indexed: "keyed_by_id g \<Longrightarrow> indexed (rebuildAdjacency g)"
  by (simp add: indexed_def rebuild_idem keyed_by_id_def)

end
