(* ===== verification/GraphSearch.thy ===== *)
theory GraphSearch
  imports CallGraph
begin

text \<open>
  The breadth-first search that \<open>reverseReachability\<close> and \<open>forwardReachability\<close>
  (\<open>packages/call-graph/src/query.ts\<close>) share: a FIFO queue of entries with their depth, path and
  weakest edge, a visited set, and a depth bound. The neighbour function \<open>nb\<close> is the body of the
  inner loop up to the visited test. The lemmas show that the search terminates, that every hit
  carries a walk of the graph, and that it finds every node within the bound, at its least depth.
\<close>

record reach_hit =
  h_node :: function_node
  h_depth :: nat
  h_path :: "string list"
  h_conf :: call_confidence

record queue_entry =
  q_id :: string
  q_depth :: nat
  q_path :: "string list"
  q_conf :: call_confidence

type_synonym neighbours = "string \<Rightarrow> (function_node \<times> call_confidence) list"

definition entry_of :: "reach_hit \<Rightarrow> queue_entry" where
  "entry_of h = \<lparr>q_id = fn_id (h_node h), q_depth = h_depth h, q_path = h_path h, q_conf = h_conf h\<rparr>"

definition hit_of :: "queue_entry \<Rightarrow> function_node \<Rightarrow> call_confidence \<Rightarrow> reach_hit" where
  "hit_of cur n c = \<lparr>h_node = n, h_depth = q_depth cur + 1, h_path = q_path cur @ [fn_id n],
                     h_conf = minConf (q_conf cur) c\<rparr>"

definition start_entry :: "string \<Rightarrow> queue_entry" where
  "start_entry s = \<lparr>q_id = s, q_depth = 0, q_path = [s], q_conf = High\<rparr>"

text \<open>One run of the inner loop: new hits and the extended visited set.\<close>

fun scan ::
  "queue_entry \<Rightarrow> (function_node \<times> call_confidence) list \<Rightarrow> string list \<Rightarrow> reach_hit list \<times> string list" where
  "scan cur [] vis = ([], vis)"
| "scan cur ((n, c) # cs) vis =
     (if fn_id n \<in> set vis then scan cur cs vis
      else let (hs, vis') = scan cur cs (fn_id n # vis) in (hit_of cur n c # hs, vis'))"

lemma scan_depth: "h \<in> set (fst (scan cur cs vis)) \<Longrightarrow> h_depth h = q_depth cur + 1"
  by (induction cur cs vis rule: scan.induct)
    (auto simp: hit_of_def split: if_splits prod.splits)

text \<open>The measure: the multiset of the remaining depths of the queued entries.\<close>

function bfs ::
  "neighbours \<Rightarrow> nat \<Rightarrow> queue_entry list \<Rightarrow> string list \<Rightarrow> reach_hit list \<Rightarrow> reach_hit list" where
  "bfs nb md [] vis hits = hits"
| "bfs nb md (cur # queue) vis hits =
     (if q_depth cur \<ge> md then bfs nb md queue vis hits
      else bfs nb md (queue @ map entry_of (fst (scan cur (nb (q_id cur)) vis)))
             (snd (scan cur (nb (q_id cur)) vis))
             (hits @ fst (scan cur (nb (q_id cur)) vis)))"
  by pat_completeness auto

definition queue_measure :: "nat \<Rightarrow> queue_entry list \<Rightarrow> nat multiset" where
  "queue_measure md q = image_mset (\<lambda>e. md - q_depth e) (mset q)"

lemma queue_measure_step:
  assumes "\<not> md \<le> q_depth cur"
  shows "(queue_measure md (q @ map entry_of (fst (scan cur cs vis))), queue_measure md (cur # q))
           \<in> mult less_than"
proof -
  let ?new = "map entry_of (fst (scan cur cs vis))"
  have "(queue_measure md q + queue_measure md ?new, queue_measure md q + {#md - q_depth cur#})
          \<in> mult less_than"
  proof (rule one_step_implies_mult)
    show "\<forall>k\<in>#queue_measure md ?new. \<exists>j\<in>#{#md - q_depth cur#}. (k, j) \<in> less_than"
    proof
      fix k assume "k \<in># queue_measure md ?new"
      then obtain h where h: "h \<in> set (fst (scan cur cs vis))" and k: "k = md - h_depth h"
        by (auto simp: queue_measure_def entry_of_def)
      from scan_depth[OF h] assms k show "\<exists>j\<in>#{#md - q_depth cur#}. (k, j) \<in> less_than" by simp
    qed
  qed simp
  then show ?thesis by (simp add: queue_measure_def)
qed

lemma queue_measure_drop: "(queue_measure md q, queue_measure md (cur # q)) \<in> mult less_than"
  using one_step_implies_mult[of "{#md - q_depth cur#}" "{#}" less_than "queue_measure md q"]
  by (simp add: queue_measure_def)

termination bfs
proof (relation "inv_image (mult less_than) (\<lambda>(nb, md, q, vis, hits). queue_measure md q)")
  show "wf (inv_image (mult less_than) (\<lambda>(nb, md, q, vis, hits). queue_measure md q))"
    by (simp add: wf_mult)
qed (simp_all add: queue_measure_drop queue_measure_step)

definition reach :: "neighbours \<Rightarrow> nat \<Rightarrow> string \<Rightarrow> reach_hit list" where
  "reach nb md s = bfs nb md [start_entry s] [s] []"

section \<open>Walks\<close>

text \<open>The specification of a hit: a walk from the seed with the weakest confidence along it.\<close>

inductive walk :: "neighbours \<Rightarrow> string \<Rightarrow> string list \<Rightarrow> call_confidence \<Rightarrow> bool"
  for nb :: neighbours and s :: string where
  walk_start: "walk nb s [s] High"
| walk_step: "walk nb s p c \<Longrightarrow> (n, e) \<in> set (nb (last p)) \<Longrightarrow> walk nb s (p @ [fn_id n]) (minConf c e)"

inductive_cases walk_snocE: "walk nb s (p @ [x]) c"

lemma walk_ne: "walk nb s p c \<Longrightarrow> p \<noteq> [] \<and> hd p = s"
  by (induction rule: walk.induct) auto

section \<open>What one scan does\<close>

lemma scan_vis: "set (snd (scan cur cs vis)) = set vis \<union> (\<lambda>(n, c). fn_id n) ` set cs"
  by (induction cur cs vis rule: scan.induct) (auto split: prod.splits)

lemma scan_seen:
  "set (snd (scan cur cs vis)) = set vis \<union> (fn_id \<circ> h_node) ` set (fst (scan cur cs vis))"
  by (induction cur cs vis rule: scan.induct) (auto simp: hit_of_def split: prod.splits)

lemma scan_new: "h \<in> set (fst (scan cur cs vis)) \<Longrightarrow> fn_id (h_node h) \<notin> set vis"
proof (induction cur cs vis rule: scan.induct)
  case (2 cur n c cs vis)
  then show ?case
    by (cases "fn_id n \<in> set vis") (auto simp: hit_of_def split: prod.splits)
qed simp

lemma scan_distinct: "distinct (map (fn_id \<circ> h_node) (fst (scan cur cs vis)))"
proof (induction cur cs vis rule: scan.induct)
  case (2 cur n c cs vis)
  have "fn_id n \<notin> (fn_id \<circ> h_node) ` set (fst (scan cur cs (fn_id n # vis)))"
    using scan_new[of _ cur cs "fn_id n # vis"] by fastforce
  with 2 show ?case
    by (cases "scan cur cs (fn_id n # vis)") (auto simp: hit_of_def)
qed simp

lemma scan_hits: "h \<in> set (fst (scan cur cs vis)) \<Longrightarrow> \<exists>n c. (n, c) \<in> set cs \<and> h = hit_of cur n c"
  by (induction cur cs vis rule: scan.induct) (auto split: if_splits prod.splits)

section \<open>The loop invariant\<close>

definition entries :: "string \<Rightarrow> reach_hit list \<Rightarrow> queue_entry list" where
  "entries s hits = start_entry s # map entry_of hits"

text \<open>\<open>cl\<close> are the entries already taken from the queue.\<close>

definition bfs_inv ::
  "neighbours \<Rightarrow> nat \<Rightarrow> string \<Rightarrow> queue_entry list \<Rightarrow> queue_entry list \<Rightarrow> string list \<Rightarrow> reach_hit list \<Rightarrow> bool" where
  "bfs_inv nb md s cl queue vis hits \<longleftrightarrow>
     entries s hits = cl @ queue \<and>
     set vis = q_id ` set (entries s hits) \<and>
     distinct (map q_id (entries s hits)) \<and>
     sorted (map q_depth (entries s hits)) \<and>
     (\<forall>e\<in>set (entries s hits). queue \<noteq> [] \<longrightarrow> q_depth e \<le> q_depth (hd queue) + 1) \<and>
     (\<forall>e\<in>set cl. q_depth e < md \<longrightarrow> (\<forall>(n, c)\<in>set (nb (q_id e)).
        \<exists>e'\<in>set (entries s hits). q_id e' = fn_id n \<and> q_depth e' \<le> q_depth e + 1)) \<and>
     (\<forall>e\<in>set (entries s hits). walk nb s (q_path e) (q_conf e) \<and>
        length (q_path e) = q_depth e + 1 \<and> last (q_path e) = q_id e \<and> q_depth e \<le> md)"

lemmas bfs_inv_parts = bfs_inv_def entries_def

text \<open>The parts of the invariant while an entry is at the head of the queue.\<close>

lemma bfs_inv_cons:
  assumes "bfs_inv nb md s cl (cur # queue) vis hits"
  shows "entries s hits = cl @ cur # queue" "set vis = q_id ` set (entries s hits)"
    "distinct (map q_id (entries s hits))" "sorted (map q_depth (entries s hits))"
    "\<forall>e\<in>set (entries s hits). q_depth e \<le> q_depth cur + 1"
    "\<forall>e\<in>set cl. q_depth e < md \<longrightarrow> (\<forall>(n, c)\<in>set (nb (q_id e)).
        \<exists>e'\<in>set (entries s hits). q_id e' = fn_id n \<and> q_depth e' \<le> q_depth e + 1)"
    "\<forall>e\<in>set (entries s hits). walk nb s (q_path e) (q_conf e) \<and>
        length (q_path e) = q_depth e + 1 \<and> last (q_path e) = q_id e \<and> q_depth e \<le> md"
  using assms unfolding bfs_inv_def list.sel by blast+

lemma bfs_inv_start: "bfs_inv nb md s [] [start_entry s] [s] []"
  by (simp add: bfs_inv_parts start_entry_def walk_start)

lemma bfs_inv_skip:
  assumes inv: "bfs_inv nb md s cl (cur # queue) vis hits" and md: "md \<le> q_depth cur"
  shows "bfs_inv nb md s (cl @ [cur]) queue vis hits"
proof -
  let ?E = "entries s hits"
  note ent = bfs_inv_cons(1)[OF inv] and sorted = bfs_inv_cons(4)[OF inv]
    and near = bfs_inv_cons(5)[OF inv] and closed = bfs_inv_cons(6)[OF inv]
  have "q_depth cur \<le> q_depth (hd queue)" if "queue \<noteq> []"
    using sorted ent that by (cases queue) (auto simp: sorted_append)
  with near have "\<forall>e\<in>set ?E. queue \<noteq> [] \<longrightarrow> q_depth e \<le> q_depth (hd queue) + 1"
    by (meson add_le_mono1 le_trans)
  moreover have "\<forall>e\<in>set (cl @ [cur]). q_depth e < md \<longrightarrow> (\<forall>(n, c)\<in>set (nb (q_id e)).
        \<exists>e'\<in>set ?E. q_id e' = fn_id n \<and> q_depth e' \<le> q_depth e + 1)"
    using closed md by simp
  moreover have "?E = (cl @ [cur]) @ queue" using ent by simp
  ultimately show ?thesis using inv unfolding bfs_inv_def by blast
qed

lemma entries_append: "entries s (hits @ hs) = entries s hits @ map entry_of hs"
  by (simp add: entries_def)

lemma entry_hit_of:
  "q_id (entry_of (hit_of cur n c)) = fn_id n" "q_depth (entry_of (hit_of cur n c)) = q_depth cur + 1"
  "q_path (entry_of (hit_of cur n c)) = q_path cur @ [fn_id n]"
  "q_conf (entry_of (hit_of cur n c)) = minConf (q_conf cur) c"
  by (simp_all add: entry_of_def hit_of_def)

lemma q_id_entry_of [simp]: "q_id (entry_of h) = fn_id (h_node h)"
  by (simp add: entry_of_def)

lemma q_depth_entry_of [simp]: "q_depth (entry_of h) = h_depth h"
  by (simp add: entry_of_def)

lemma bfs_inv_visit:
  assumes inv: "bfs_inv nb md s cl (cur # queue) vis hits" and md: "\<not> md \<le> q_depth cur"
    and sc: "scan cur (nb (q_id cur)) vis = (hs, vis')"
  shows "bfs_inv nb md s (cl @ [cur]) (queue @ map entry_of hs) vis' (hits @ hs)"
proof -
  let ?E = "entries s hits" and ?N = "map entry_of hs"
  note ent = bfs_inv_cons(1)[OF inv] and vis = bfs_inv_cons(2)[OF inv]
    and dist = bfs_inv_cons(3)[OF inv] and sorted = bfs_inv_cons(4)[OF inv]
    and near = bfs_inv_cons(5)[OF inv] and closed = bfs_inv_cons(6)[OF inv]
    and walks = bfs_inv_cons(7)[OF inv]
  have cur: "cur \<in> set ?E" using ent by simp
  have ids: "set vis' = set vis \<union> q_id ` set ?N" "distinct (map q_id ?N)"
    "set vis \<inter> q_id ` set ?N = {}"
    using scan_seen[of cur "nb (q_id cur)" vis] scan_distinct[of cur "nb (q_id cur)" vis]
      scan_new[of _ cur "nb (q_id cur)" vis] sc
    by (auto simp: image_image comp_def)
  have new: "\<exists>n c. (n, c) \<in> set (nb (q_id cur)) \<and> e = entry_of (hit_of cur n c)" if "e \<in> set ?N" for e
    using that scan_hits[of _ cur "nb (q_id cur)" vis] sc by fastforce
  have depth: "q_depth e = q_depth cur + 1" if "e \<in> set ?N" for e
    using new[OF that] entry_hit_of(2) by metis
  have all: "set vis' = q_id ` set (?E @ ?N)" using ids vis by auto
  have near': "q_depth e \<le> q_depth cur + 1" if "e \<in> set (?E @ ?N)" for e
    using that near depth by (metis Un_iff order_refl set_append)
  have queue: "q_depth cur \<le> q_depth (hd (queue @ ?N))" if "queue @ ?N \<noteq> []"
    using that sorted ent depth[of "hd ?N"] by (cases queue) (auto simp: sorted_append hd_map)
  have "map q_depth ?N = map (\<lambda>_. q_depth cur + 1) ?N"
    using depth by (rule map_cong[OF refl])
  then have flat: "map q_depth ?N = replicate (length hs) (q_depth cur + 1)"
    by (simp only: map_replicate_const length_map)
  have "sorted (map q_depth (?E @ ?N))"
    unfolding map_append flat using sorted near by (auto simp: sorted_append simp del: map_map)
  moreover have "distinct (map q_id (?E @ ?N))"
    unfolding map_append distinct_append using dist ids(2,3) by (simp only: vis set_map)
  moreover have "\<forall>e\<in>set (?E @ ?N). queue @ ?N \<noteq> [] \<longrightarrow> q_depth e \<le> q_depth (hd (queue @ ?N)) + 1"
    using near' queue by (meson add_le_mono1 le_trans)
  moreover have "\<forall>e\<in>set (cl @ [cur]). q_depth e < md \<longrightarrow> (\<forall>(n, c)\<in>set (nb (q_id e)).
        \<exists>e'\<in>set (?E @ ?N). q_id e' = fn_id n \<and> q_depth e' \<le> q_depth e + 1)"
  proof -
    have "\<exists>e'\<in>set (?E @ ?N). q_id e' = fn_id n \<and> q_depth e' \<le> q_depth cur + 1"
      if "(n, c) \<in> set (nb (q_id cur))" for n c
    proof -
      have "fn_id n \<in> set vis'" using that scan_vis[of cur "nb (q_id cur)" vis] sc by force
      with all near' show ?thesis by (metis imageE)
    qed
    with closed show ?thesis by fastforce
  qed
  moreover have "\<forall>e\<in>set (?E @ ?N). walk nb s (q_path e) (q_conf e) \<and>
        length (q_path e) = q_depth e + 1 \<and> last (q_path e) = q_id e \<and> q_depth e \<le> md"
  proof
    fix e assume "e \<in> set (?E @ ?N)"
    then consider "e \<in> set ?E" | "e \<in> set ?N" by auto
    then show "walk nb s (q_path e) (q_conf e) \<and>
        length (q_path e) = q_depth e + 1 \<and> last (q_path e) = q_id e \<and> q_depth e \<le> md"
    proof cases
      case 1
      then show ?thesis using walks by blast
    next
      case 2
      from new[OF 2] obtain n c where n: "(n, c) \<in> set (nb (q_id cur))"
        and e: "e = entry_of (hit_of cur n c)" by blast
      from walks cur n have "walk nb s (q_path cur @ [fn_id n]) (minConf (q_conf cur) c)"
        by (auto intro: walk_step)
      with e walks cur md show ?thesis by (simp add: entry_of_def hit_of_def)
    qed
  qed
  ultimately show ?thesis
    unfolding bfs_inv_def entries_append using ent all by simp
qed

lemma bfs_inv_end:
  "bfs_inv nb md s cl queue vis hits \<Longrightarrow> \<exists>cl' vis'. bfs_inv nb md s cl' [] vis' (bfs nb md queue vis hits)"
proof (induction nb md queue vis hits arbitrary: cl rule: bfs.induct)
  case (1 nb md vis hits)
  then show ?case by auto
next
  case (2 nb md cur queue vis hits)
  show ?case
  proof (cases "md \<le> q_depth cur")
    case True
    from 2(1)[OF True bfs_inv_skip[OF 2(3) True]] True show ?thesis by simp
  next
    case False
    have "bfs_inv nb md s (cl @ [cur]) (queue @ map entry_of (fst (scan cur (nb (q_id cur)) vis)))
        (snd (scan cur (nb (q_id cur)) vis)) (hits @ fst (scan cur (nb (q_id cur)) vis))"
      by (rule bfs_inv_visit[OF 2(3) False]) simp
    from 2(2)[OF False this] False show ?thesis by simp
  qed
qed

lemma reach_inv: "\<exists>cl vis. bfs_inv nb md s cl [] vis (reach nb md s)"
  unfolding reach_def by (rule bfs_inv_end[OF bfs_inv_start])

section \<open>Soundness and completeness of the search\<close>

lemma reach_walk:
  assumes "h \<in> set (reach nb md s)"
  shows "walk nb s (h_path h) (h_conf h)" "length (h_path h) = h_depth h + 1"
    "last (h_path h) = fn_id (h_node h)" "h_depth h \<le> md" "fn_id (h_node h) \<noteq> s"
proof -
  obtain cl vis where inv: "bfs_inv nb md s cl [] vis (reach nb md s)" using reach_inv by blast
  have "entry_of h \<in> set (entries s (reach nb md s))" using assms by (simp add: entries_def)
  with inv have "walk nb s (q_path (entry_of h)) (q_conf (entry_of h)) \<and>
    length (q_path (entry_of h)) = q_depth (entry_of h) + 1 \<and>
    last (q_path (entry_of h)) = q_id (entry_of h) \<and> q_depth (entry_of h) \<le> md"
    unfolding bfs_inv_def by blast
  then show "walk nb s (h_path h) (h_conf h)" "length (h_path h) = h_depth h + 1"
    "last (h_path h) = fn_id (h_node h)" "h_depth h \<le> md"
    by (simp_all add: entry_of_def)
  have "distinct (s # map (fn_id \<circ> h_node) (reach nb md s))"
    using inv by (simp add: bfs_inv_def entries_def start_entry_def comp_def)
  with assms show "fn_id (h_node h) \<noteq> s" by auto
qed

lemma reach_distinct: "distinct (map (fn_id \<circ> h_node) (reach nb md s))"
  using reach_inv[of nb md s] by (auto simp: bfs_inv_def entries_def comp_def)

lemma reach_sorted: "sorted (map h_depth (reach nb md s))"
  using reach_inv[of nb md s] by (auto simp: bfs_inv_def entries_def comp_def)

lemma reach_complete:
  assumes "walk nb s p c" and "length p \<le> md + 1" and "last p \<noteq> s"
  shows "\<exists>h\<in>set (reach nb md s). fn_id (h_node h) = last p \<and> h_depth h + 1 \<le> length p"
proof -
  obtain vis where inv: "bfs_inv nb md s (entries s (reach nb md s)) [] vis (reach nb md s)"
    using reach_inv[of nb md s] by (auto simp: bfs_inv_def)
  have "length p \<le> md + 1 \<longrightarrow>
    (\<exists>e\<in>set (entries s (reach nb md s)). q_id e = last p \<and> q_depth e + 1 \<le> length p)"
    using assms(1)
  proof (induction rule: walk.induct)
    case walk_start
    show ?case by (simp add: entries_def start_entry_def)
  next
    case (walk_step p c n e)
    show ?case
    proof
      assume len: "length (p @ [fn_id n]) \<le> md + 1"
      with walk_step.IH obtain d where d: "d \<in> set (entries s (reach nb md s))"
        "q_id d = last p" "q_depth d + 1 \<le> length p" by auto
      have "q_depth d < md" using d(3) len by simp
      with inv d walk_step.hyps(2) obtain d' where "d' \<in> set (entries s (reach nb md s))"
        "q_id d' = fn_id n" "q_depth d' \<le> q_depth d + 1"
        unfolding bfs_inv_def by fastforce
      with d(3) show "\<exists>e\<in>set (entries s (reach nb md s)).
          q_id e = last (p @ [fn_id n]) \<and> q_depth e + 1 \<le> length (p @ [fn_id n])"
        by (intro bexI[of _ d']) auto
    qed
  qed
  with assms(2) obtain e where e: "e \<in> set (entries s (reach nb md s))"
    "q_id e = last p" "q_depth e + 1 \<le> length p" by blast
  with assms(3) show ?thesis by (auto simp: entries_def start_entry_def)
qed

text \<open>The ids found are those of the nodes other than the seed that a walk of at most \<open>md\<close> steps
  reaches.\<close>

lemma reach_ids:
  "fn_id ` h_node ` set (reach nb md s) = {last p |p c. walk nb s p c \<and> length p \<le> md + 1} - {s}"
proof (intro equalityI subsetI)
  fix i assume "i \<in> fn_id ` h_node ` set (reach nb md s)"
  then obtain h where h: "h \<in> set (reach nb md s)" "i = fn_id (h_node h)" by auto
  from reach_walk[OF h(1)] h(2)
  show "i \<in> {last p |p c. walk nb s p c \<and> length p \<le> md + 1} - {s}" by force
next
  fix i assume "i \<in> {last p |p c. walk nb s p c \<and> length p \<le> md + 1} - {s}"
  then obtain p c where "walk nb s p c" "length p \<le> md + 1" "i = last p" "last p \<noteq> s" by blast
  from reach_complete[OF this(1,2,4)] this(3) show "i \<in> fn_id ` h_node ` set (reach nb md s)" by force
qed

text \<open>The depth of a hit is the length of a shortest walk.\<close>

lemma reach_shortest:
  assumes "h \<in> set (reach nb md s)" and "walk nb s p c" and "last p = fn_id (h_node h)"
  shows "h_depth h + 1 \<le> length p"
proof (cases "length p \<le> md + 1")
  case True
  obtain h' where h': "h' \<in> set (reach nb md s)" "fn_id (h_node h') = last p" "h_depth h' + 1 \<le> length p"
    using reach_complete[OF assms(2) True] reach_walk(5)[OF assms(1)] assms(3) by auto
  have "h' = h"
    using reach_distinct[of nb md s] h'(1,2) assms(1,3)
    by (auto simp: distinct_map inj_on_def comp_def)
  with h'(3) show ?thesis by simp
next
  case False
  with reach_walk(4)[OF assms(1)] show ?thesis by simp
qed

end
