(* ===== verification/CallGraphBuild.thy ===== *)
theory CallGraphBuild
  imports CallGraph
begin

text \<open>
  The assembly phase of \<open>buildCallGraph\<close> and \<open>reanalyzeFiles\<close> (\<open>packages/call-graph/src/build.ts\<close>):
  from the functions and call sites the text front end extracted to nodes, edges and the adjacency
  index. The main lemma is that the index built edge by edge is the one \<open>rebuildAdjacency\<close>
  computes from scratch.
\<close>

section \<open>Front-end output\<close>

text \<open>A raw function with its fingerprints (\<open>hashBody\<close>, first-line signature) and its call sites.\<close>

record raw_fn =
  rf_name :: string
  rf_filePath :: string
  rf_lineStart :: int
  rf_lineEnd :: int
  rf_language :: language
  rf_enclosingType :: "string option"
  rf_isTest :: bool
  rf_bodyHash :: string
  rf_signature :: "string option"
  rf_calls :: "raw_call list"

definition nodeId :: "string \<Rightarrow> string \<Rightarrow> int \<Rightarrow> string" where
  "nodeId file name line = file @ ''::'' @ name @ ''@'' @ int_str line"

definition node_of :: "raw_fn \<Rightarrow> function_node" where
  "node_of f =
     \<lparr>fn_id = nodeId (rf_filePath f) (rf_name f) (rf_lineStart f),
      fn_qualifiedName = rf_filePath f @ '':'' @
        (if truthy (rf_enclosingType f) then the (rf_enclosingType f) @ ''.'' else []) @ rf_name f,
      fn_name = rf_name f,
      fn_filePath = rf_filePath f,
      fn_lineStart = rf_lineStart f,
      fn_lineEnd = rf_lineEnd f,
      fn_language = rf_language f,
      fn_enclosingType = rf_enclosingType f,
      fn_isExternalApi = False,
      fn_isTest = rf_isTest f,
      fn_signature = rf_signature f,
      fn_bodyHash = Some (rf_bodyHash f),
      fn_structuralSource = None\<rparr>"

definition nodes_of :: "raw_fn list \<Rightarrow> (string, function_node) jsmap" where
  "nodes_of fns = fold (\<lambda>f m. map_set m (fn_id (node_of f)) (node_of f)) fns []"

definition push_node ::
  "(string, function_node list) jsmap \<Rightarrow> function_node \<Rightarrow> (string, function_node list) jsmap" where
  "push_node m n =
     map_set m (fn_name n) ((case map_get m (fn_name n) of None \<Rightarrow> [] | Some ns \<Rightarrow> ns) @ [n])"

definition names_of :: "function_node list \<Rightarrow> (string, function_node list) jsmap" where
  "names_of ns = fold (\<lambda>n m. push_node m n) ns []"

definition methods_of :: "raw_fn list \<Rightarrow> (string, string list) jsmap" where
  "methods_of fns = fold (\<lambda>f m. if truthy (rf_enclosingType f)
                       then push_at m (the (rf_enclosingType f)) (rf_name f) else m) fns []"

section \<open>Emission of edges\<close>

definition edge_key :: "raw_call \<Rightarrow> call_target \<Rightarrow> string" where
  "edge_key call t = callerKey call @ ''->'' @ fn_id (t_node t) @ ''@'' @ int_str (call_line call)"

definition edge_of :: "raw_call \<Rightarrow> call_target \<Rightarrow> call_edge" where
  "edge_of call t =
     \<lparr>e_id = edge_key call t, e_callerId = callerKey call, e_calleeId = fn_id (t_node t),
      e_callSiteFile = call_filePath call, e_callSiteLine = call_line call,
      e_resolution = t_resolution t, e_confidence = t_confidence t, e_virtual = t_virtual t,
      e_structuralSource = None\<rparr>"

record assembly =
  edgeKeys :: "string list"
  as_edges :: "call_edge list"
  as_out :: "(string, string list) jsmap"
  as_in :: "(string, string list) jsmap"
  as_direct :: nat
  as_approx :: nat

definition empty_assembly :: assembly where
  "empty_assembly = \<lparr>edgeKeys = [], as_edges = [], as_out = [], as_in = [], as_direct = 0, as_approx = 0\<rparr>"

definition emit_target :: "raw_call \<Rightarrow> call_target \<Rightarrow> assembly \<Rightarrow> assembly" where
  "emit_target call t st =
     (let key = edge_key call t; e = edge_of call t
      in if fn_id (t_node t) = callerKey call then st
         else if key \<in> set (edgeKeys st) then st
         else \<lparr>edgeKeys = key # edgeKeys st,
               as_edges = as_edges st @ [e],
               as_out = push_at (as_out st) (callerKey call) (e_id e),
               as_in = push_at (as_in st) (fn_id (t_node t)) (e_id e),
               as_direct = as_direct st + (if t_resolution t = Direct then 1 else 0),
               as_approx = as_approx st + (if t_resolution t = Direct then 0 else 1)\<rparr>)"

definition emit_call ::
  "(string, function_node list) jsmap \<Rightarrow> type_hierarchy \<Rightarrow> algorithm \<Rightarrow> raw_call \<Rightarrow> assembly \<Rightarrow> assembly" where
  "emit_call names h alg call st = fold (emit_target call) (resolveTargets call names h alg) st"

definition emit_fns ::
  "(string, function_node list) jsmap \<Rightarrow> type_hierarchy \<Rightarrow> algorithm \<Rightarrow> raw_fn list \<Rightarrow> assembly" where
  "emit_fns names h alg fns =
     fold (\<lambda>f st. fold (emit_call names h alg) (rf_calls f) st) fns empty_assembly"

text \<open>\<open>buildCallGraph\<close> after the extraction loop; \<open>inst\<close> and \<open>parents\<close> are what it accumulated.\<close>

definition assembleGraph ::
  "string \<Rightarrow> string \<Rightarrow> algorithm \<Rightarrow> string list \<Rightarrow> (string, string list) jsmap \<Rightarrow> raw_fn list \<Rightarrow> call_graph" where
  "assembleGraph rootDir now alg inst parents fns =
     (let h = \<lparr>parentsOf = parents, instantiated = uniq inst, methodsOfType = methods_of fns\<rparr>;
          nodes = nodes_of fns;
          names = names_of (map node_of fns);
          st = emit_fns names h alg fns
      in \<lparr>repoRoot = rootDir, builtAt = now, cg_algorithm = alg, cg_nodes = nodes,
          cg_edges = as_edges st, outEdges = as_out st, inEdges = as_in st,
          byName = map (\<lambda>(nm, ns). (nm, map fn_id ns)) names,
          cg_hierarchy = h,
          cg_stats = \<lparr>nodeCount = length nodes, edgeCount = length (as_edges st),
                     directEdges = as_direct st, approxEdges = as_approx st\<rparr>\<rparr>)"

text \<open>The resolution half of \<open>reanalyzeFiles\<close>: new functions resolved against survivors and new nodes.\<close>

record partial_analysis =
  pa_nodes :: "(string, function_node) jsmap"
  pa_edges :: "call_edge list"
  pa_hierarchy :: type_hierarchy

definition reanalyze ::
  "algorithm \<Rightarrow> string list \<Rightarrow> (string, string list) jsmap \<Rightarrow> raw_fn list \<Rightarrow> call_graph \<Rightarrow> partial_analysis" where
  "reanalyze alg inst parents fns survivor =
     (let newNodes = nodes_of fns;
          h = \<lparr>parentsOf = parents, instantiated = uniq inst, methodsOfType = methods_of fns\<rparr>;
          universe = spread (cg_nodes survivor) newNodes;
          names = names_of (map_values universe);
          merged = mergeHierarchies (cg_hierarchy survivor) h;
          st = fold (\<lambda>f st. fold (\<lambda>call st. if map_has newNodes (callerKey call)
                       then emit_call names merged alg call st else st) (rf_calls f) st)
                 fns empty_assembly
      in \<lparr>pa_nodes = newNodes, pa_edges = as_edges st, pa_hierarchy = h\<rparr>)"

section \<open>The incremental index is the rebuilt one\<close>

text \<open>What every emission step keeps: the index is the fold over the edges so far.\<close>

definition assembled :: "assembly \<Rightarrow> bool" where
  "assembled st \<longleftrightarrow>
     set (edgeKeys st) = e_id ` set (as_edges st) \<and> distinct (map e_id (as_edges st)) \<and>
     as_out st = fold (\<lambda>e m. push_at m (e_callerId e) (e_id e)) (as_edges st) [] \<and>
     as_in st = fold (\<lambda>e m. push_at m (e_calleeId e) (e_id e)) (as_edges st) [] \<and>
     as_direct st = length (filter (\<lambda>e. e_resolution e = Direct) (as_edges st)) \<and>
     as_approx st = length (filter (\<lambda>e. e_resolution e \<noteq> Direct) (as_edges st))"

lemma assembled_empty: "assembled empty_assembly"
  by (simp add: assembled_def empty_assembly_def)

lemma assembled_emit_target: "assembled st \<Longrightarrow> assembled (emit_target call t st)"
  by (auto simp: assembled_def emit_target_def Let_def edge_of_def)

text \<open>An invariant of one emission is one of the whole assembly.\<close>

lemma emit_fns_invariant:
  assumes "P empty_assembly"
    and "\<And>f call t st. f \<in> set fns \<Longrightarrow> call \<in> set (rf_calls f) \<Longrightarrow>
           t \<in> set (resolveTargets call names h alg) \<Longrightarrow> P st \<Longrightarrow> P (emit_target call t st)"
  shows "P (emit_fns names h alg fns)"
proof -
  have "P (emit_call names h alg call st)"
    if "f \<in> set fns" "call \<in> set (rf_calls f)" "P st" for f call st
    unfolding emit_call_def by (rule fold_inv[where P = P]) (use that assms(2) in auto)
  then have "P (fold (emit_call names h alg) (rf_calls f) st)" if "f \<in> set fns" "P st" for f st
    by (rule fold_inv[where P = P, rotated]) (use that in auto)
  then show ?thesis
    unfolding emit_fns_def by (rule fold_inv[where P = P, rotated]) (use assms(1) in auto)
qed

lemma assembled_emit_fns: "assembled (emit_fns names h alg fns)"
  by (rule emit_fns_invariant) (simp_all add: assembled_empty assembled_emit_target)

lemma push_node_get:
  "map_get (push_node m n) nm =
     (if nm = fn_name n then Some ((case map_get m nm of None \<Rightarrow> [] | Some ns \<Rightarrow> ns) @ [n])
      else map_get m nm)"
  by (simp add: push_node_def js.get_put)

lemma names_of_sub:
  assumes "map_get (names_of ns) nm = Some hits"
  shows "set hits \<subseteq> set ns"
proof -
  let ?P = "\<lambda>m. \<forall>nm hits. map_get m nm = Some hits \<longrightarrow> set hits \<subseteq> set ns"
  have "?P (names_of ns)" unfolding names_of_def
  proof (rule fold_inv)
    show "?P []" by simp
    fix n and m :: "(string, function_node list) jsmap" assume "n \<in> set ns" and "?P m"
    then show "?P (push_node m n)"
      by (auto simp: push_node_get split: option.splits) (metis subsetD)
  qed
  with assms show ?thesis by blast
qed

lemma names_of_ids:
  "map (\<lambda>(nm, ns). (nm, map fn_id ns)) (names_of ns) = fold (\<lambda>n m. push_at m (fn_name n) (fn_id n)) ns []"
proof -
  let ?g = "map (\<lambda>(nm, ns). (nm, map fn_id ns))"
  have upd: "?g (AList.update k v m) = AList.update k (map fn_id v) (?g m)" for k v m
    by (induction m) auto
  have get: "map_of (?g m) k = map_option (map fn_id) (map_of m k)" for m k
    by (induction m) auto
  have step: "?g (push_node m n) = push_at (?g m) (fn_name n) (fn_id n)" for m n
    by (simp add: push_node_def push_at_def map_set_def upd adjacent_def map_get_def get
        split: option.splits)
  have "?g (fold (\<lambda>n m. push_node m n) ns m) = fold (\<lambda>n m. push_at m (fn_name n) (fn_id n)) ns (?g m)" for m
    by (induction ns arbitrary: m) (simp_all add: step)
  from this[of "[]"] show ?thesis by (simp add: names_of_def)
qed

lemma nodes_of_has: "map_has (nodes_of fns) i \<longleftrightarrow> i \<in> fn_id ` node_of ` set fns"
proof -
  have "map_has (fold (\<lambda>f m. map_set m (fn_id (node_of f)) (node_of f)) fns m) i
          \<longleftrightarrow> map_has m i \<or> i \<in> fn_id ` node_of ` set fns" for m
    by (induction fns arbitrary: m) (auto simp: map_has_iff js.get_put)
  from this[of "[]"] show ?thesis by (simp add: nodes_of_def map_has_iff)
qed

lemma nodes_of_get:
  assumes "map_get (nodes_of fns) i = Some n"
  shows "fn_id n = i \<and> n \<in> node_of ` set fns"
proof -
  let ?P = "\<lambda>m. \<forall>i n. map_get m i = Some n \<longrightarrow> fn_id n = i \<and> n \<in> node_of ` set fns"
  have "?P (nodes_of fns)" unfolding nodes_of_def
    by (rule fold_inv) (simp_all add: js.get_put)
  with assms show ?thesis by blast
qed

lemma map_ok_nodes_of: "map_ok (nodes_of fns)"
  unfolding nodes_of_def by (rule fold_inv) (simp_all add: js.ok_put)

lemma nodes_of_distinct:
  assumes "distinct (map (\<lambda>f. fn_id (node_of f)) fns)"
  shows "nodes_of fns = map (\<lambda>f. (fn_id (node_of f), node_of f)) fns"
proof -
  have upd: "k \<notin> fst ` set m \<Longrightarrow> AList.update k v m = m @ [(k, v)]" for k v and m :: "(string, function_node) jsmap"
    by (induction m) auto
  have "fold (\<lambda>f m. map_set m (fn_id (node_of f)) (node_of f)) fns [] = map (\<lambda>f. (fn_id (node_of f), node_of f)) fns"
    using assms by (induction fns rule: rev_induct) (simp_all add: map_set_def upd image_image)
  then show ?thesis by (simp add: nodes_of_def)
qed

text \<open>Every emitted edge has its callee among the nodes, and its caller among the call sites' keys.\<close>

lemma emit_fns_endpoints:
  assumes "e \<in> set (as_edges (emit_fns (names_of (map node_of fns)) h alg fns))"
  shows "e_calleeId e \<in> fn_id ` node_of ` set fns \<and> e_callerId e \<noteq> e_calleeId e \<and>
    (\<exists>f\<in>set fns. \<exists>call\<in>set (rf_calls f). e_callerId e = callerKey call)"
proof -
  let ?P = "\<lambda>st. \<forall>e\<in>set (as_edges st). e_calleeId e \<in> fn_id ` node_of ` set fns \<and> e_callerId e \<noteq> e_calleeId e \<and>
    (\<exists>f\<in>set fns. \<exists>call\<in>set (rf_calls f). e_callerId e = callerKey call)"
  let ?names = "names_of (map node_of fns)"
  have "?P (emit_fns ?names h alg fns)"
  proof (rule emit_fns_invariant)
    show "?P empty_assembly" by (simp add: empty_assembly_def)
    fix f call t and st :: assembly
    assume f: "f \<in> set fns" and call: "call \<in> set (rf_calls f)"
      and t: "t \<in> set (resolveTargets call ?names h alg)" and P: "?P st"
    from t obtain hits where hits: "map_get ?names (calleeName call) = Some hits"
      by (cases "map_get ?names (calleeName call)") (simp_all add: resolveTargets_def)
    have "t_node t \<in> set hits" using resolveTargets_sub[OF hits] t by blast
    then have "t_node t \<in> node_of ` set fns" using names_of_sub[OF hits] by auto
    then show "?P (emit_target call t st)"
      using P f call by (auto simp: emit_target_def Let_def edge_of_def)
  qed
  with assms show ?thesis by blast
qed

lemma filter_all: "(\<And>x. x \<in> set xs \<Longrightarrow> P x) \<Longrightarrow> filter P xs = xs"
  by (induction xs) auto

lemma assembleGraph_keyed: "keyed_by_id (assembleGraph rootDir now alg inst parents fns)"
proof -
  have "list_all (\<lambda>(k, n). fn_id n = k) (nodes_of fns)"
    using nodes_of_get[of fns] map_ok_nodes_of[of fns]
    by (auto simp: list_all_iff map_ok_def map_get_def)
  then show ?thesis
    using assembled_emit_fns
    by (auto simp: keyed_by_id_def assembleGraph_def Let_def map_ok_nodes_of assembled_def)
qed

text \<open>Call sites come from extracted functions.\<close>

definition calls_owned :: "raw_fn list \<Rightarrow> bool" where
  "calls_owned fns \<longleftrightarrow>
     list_all (\<lambda>f. list_all (\<lambda>c. callerKey c = fn_id (node_of f)) (rf_calls f)) fns"

text \<open>The index \<open>buildCallGraph\<close> fills edge by edge is the index \<open>rebuildAdjacency\<close>
  recomputes from nodes and edges, statistics included; rebuilding a fresh graph changes nothing.\<close>

theorem build_index_is_rebuilt:
  assumes "calls_owned fns" and "distinct (map (\<lambda>f. fn_id (node_of f)) fns)"
  shows "rebuildAdjacency (assembleGraph rootDir now alg inst parents fns)
       = assembleGraph rootDir now alg inst parents fns"
proof -
  define g where "g = assembleGraph rootDir now alg inst parents fns"
  define st where "st = emit_fns (names_of (map node_of fns))
     \<lparr>parentsOf = parents, instantiated = uniq inst, methodsOfType = methods_of fns\<rparr> alg fns"
  have edges: "cg_edges g = as_edges st" and nodes: "cg_nodes g = nodes_of fns"
    by (simp_all add: g_def st_def assembleGraph_def Let_def)
  have known: "filter (endpoints_known g) (cg_edges g) = as_edges st"
    unfolding edges
  proof (rule filter_all)
    fix e assume "e \<in> set (as_edges st)"
    from emit_fns_endpoints[OF this[unfolded st_def]] assms(1)
    show "endpoints_known g e"
      by (auto simp: endpoints_known_def nodes nodes_of_has calls_owned_def list_all_iff)
  qed
  have vals: "map_values (nodes_of fns) = map node_of fns"
    by (simp add: nodes_of_distinct[OF assms(2)] map_values_def)
  have "assembled st" unfolding st_def by (rule assembled_emit_fns)
  then have "rebuildAdjacency g = g"
    unfolding rebuildAdjacency_def Let_def known
    by (simp add: g_def assembleGraph_def Let_def vals names_of_ids st_def[symmetric] assembled_def)
  then show ?thesis by (simp add: g_def)
qed

end
