(* ===== verification/CallGraphQuery.thy ===== *)
theory CallGraphQuery
  imports GraphSearch CallGraphBuild
begin

text \<open>
  The query layer of \<open>packages/call-graph/src/query.ts\<close>: reverse and forward reachability, wrappers,
  the impact subgraph and the propagation of confidence. The specification is a path relation on
  the edges of the graph; on an indexed graph the queries compute it exactly.
\<close>

section \<open>Reachability\<close>

record reach_opts =
  o_maxDepth :: "nat option"
  o_minConfidence :: "call_confidence option"
  o_excludeTests :: bool

definition no_opts :: reach_opts where
  "no_opts = \<lparr>o_maxDepth = None, o_minConfidence = None, o_excludeTests = False\<rparr>"

definition opt_depth :: "nat \<Rightarrow> reach_opts \<Rightarrow> nat" where
  "opt_depth d opts = (case o_maxDepth opts of None \<Rightarrow> d | Some n \<Rightarrow> n)"

definition opt_conf :: "reach_opts \<Rightarrow> call_confidence" where
  "opt_conf opts = (case o_minConfidence opts of None \<Rightarrow> Low | Some c \<Rightarrow> c)"

text \<open>The guards of the inner loop: one edge id to the caller it leads to, if any.\<close>

definition caller_step :: "call_graph \<Rightarrow> reach_opts \<Rightarrow> string \<Rightarrow> (function_node \<times> call_confidence) option" where
  "caller_step g opts eid =
     (case edgeById g eid of
        None \<Rightarrow> None
      | Some e \<Rightarrow>
          if confRank (e_confidence e) < confRank (opt_conf opts) then None
          else (case map_get (cg_nodes g) (e_callerId e) of
                  None \<Rightarrow> None
                | Some caller \<Rightarrow>
                    if o_excludeTests opts \<and> fn_isTest caller then None
                    else Some (caller, e_confidence e)))"

definition callee_step :: "call_graph \<Rightarrow> reach_opts \<Rightarrow> string \<Rightarrow> (function_node \<times> call_confidence) option" where
  "callee_step g opts eid =
     (case edgeById g eid of
        None \<Rightarrow> None
      | Some e \<Rightarrow>
          if confRank (e_confidence e) < confRank (opt_conf opts) then None
          else (case map_get (cg_nodes g) (e_calleeId e) of
                  None \<Rightarrow> None
                | Some callee \<Rightarrow> Some (callee, e_confidence e)))"

definition callers_of :: "call_graph \<Rightarrow> reach_opts \<Rightarrow> neighbours" where
  "callers_of g opts i = List.map_filter (caller_step g opts) (adjacent (inEdges g) i)"

definition callees_of :: "call_graph \<Rightarrow> reach_opts \<Rightarrow> neighbours" where
  "callees_of g opts i = List.map_filter (callee_step g opts) (adjacent (outEdges g) i)"

definition reverseReachability :: "call_graph \<Rightarrow> string \<Rightarrow> reach_opts \<Rightarrow> reach_hit list" where
  "reverseReachability g seed opts = reach (callers_of g opts) (opt_depth 3 opts) seed"

definition forwardReachability :: "call_graph \<Rightarrow> string \<Rightarrow> reach_opts \<Rightarrow> reach_hit list" where
  "forwardReachability g seed opts = reach (callees_of g opts) (opt_depth 2 opts) seed"

definition directCallers :: "call_graph \<Rightarrow> string \<Rightarrow> function_node list" where
  "directCallers g i = map h_node (reverseReachability g i (no_opts\<lparr>o_maxDepth := Some 1\<rparr>))"

definition directCallees :: "call_graph \<Rightarrow> string \<Rightarrow> function_node list" where
  "directCallees g i = map h_node (forwardReachability g i (no_opts\<lparr>o_maxDepth := Some 1\<rparr>))"

section \<open>Wrappers and the impact subgraph\<close>

definition is_wrapper :: "call_graph \<Rightarrow> nat \<Rightarrow> reach_hit \<Rightarrow> bool" where
  "is_wrapper g maxCallees h \<longleftrightarrow>
     0 < length (adjacent (outEdges g) (fn_id (h_node h))) \<and>
     length (adjacent (outEdges g) (fn_id (h_node h))) \<le> maxCallees"

definition findWrappers :: "call_graph \<Rightarrow> string list \<Rightarrow> nat option \<Rightarrow> nat option \<Rightarrow> function_node list" where
  "findWrappers g seeds maxCallees maxDepth =
     (let mc = (case maxCallees of None \<Rightarrow> 5 | Some n \<Rightarrow> n);
          md = (case maxDepth of None \<Rightarrow> 2 | Some n \<Rightarrow> n)
      in map_values (fold (\<lambda>seed m. fold (\<lambda>h m.
              if is_wrapper g mc h then map_set m (fn_id (h_node h)) (h_node h) else m)
            (reverseReachability g seed (no_opts\<lparr>o_maxDepth := Some md\<rparr>)) m) seeds []))"

record impact =
  i_seedNodeIds :: "string list"
  i_nodes :: "function_node list"
  i_edges :: "call_edge list"
  i_upstream :: "reach_hit list"
  i_wrappers :: "function_node list"

text \<open>The edges between two consecutive ids of a path.\<close>

definition link_edges :: "call_graph \<Rightarrow> string \<Rightarrow> string \<Rightarrow> call_edge list" where
  "link_edges g callee caller =
     filter (\<lambda>e. e_callerId e = caller) (List.map_filter (edgeById g) (adjacent (inEdges g) callee))"

fun path_edges :: "call_graph \<Rightarrow> string list \<Rightarrow> call_edge list" where
  "path_edges g (callee # caller # p) = link_edges g callee caller @ path_edges g (caller # p)"
| "path_edges g p = []"

type_synonym impact_acc = "(string, function_node) jsmap \<times> (string, call_edge) jsmap \<times> reach_hit list"

definition impact_hit :: "call_graph \<Rightarrow> reach_hit \<Rightarrow> impact_acc \<Rightarrow> impact_acc" where
  "impact_hit g h = (\<lambda>(nm, em, up).
     (map_set nm (fn_id (h_node h)) (h_node h),
      fold (\<lambda>e m. map_set m (e_id e) e) (path_edges g (h_path h)) em,
      up @ [h]))"

definition impact_seed :: "call_graph \<Rightarrow> reach_opts \<Rightarrow> string \<Rightarrow> impact_acc \<Rightarrow> impact_acc" where
  "impact_seed g opts seed = (\<lambda>(nm, em, up).
     fold (impact_hit g) (reverseReachability g seed opts)
       ((case map_get (cg_nodes g) seed of None \<Rightarrow> nm | Some n \<Rightarrow> map_set nm seed n), em, up))"

definition impactSubgraph ::
  "call_graph \<Rightarrow> string list \<Rightarrow> nat option \<Rightarrow> call_confidence option \<Rightarrow> impact" where
  "impactSubgraph g seeds maxDepth minC =
     (let md = (case maxDepth of None \<Rightarrow> 3 | Some n \<Rightarrow> n);
          opts = \<lparr>o_maxDepth = Some md, o_minConfidence = minC, o_excludeTests = False\<rparr>;
          (nm, em, up) = fold (impact_seed g opts) seeds ([], [], [])
      in \<lparr>i_seedNodeIds = seeds, i_nodes = map_values nm, i_edges = map_values em, i_upstream = up,
          i_wrappers = findWrappers g seeds None (Some (min 2 md))\<rparr>)"

definition propagateConfidence :: "call_confidence \<Rightarrow> reach_hit \<Rightarrow> call_confidence" where
  "propagateConfidence base h =
     (let c = minConf base (h_conf h);
          c1 = (if h_depth h \<ge> 3 \<and> c = High then Medium else c)
      in if h_depth h \<ge> 4 then Low else c1)"

section \<open>The path relation of the graph\<close>

text \<open>\<open>usable g opts e\<close>: an edge a reverse query follows.\<close>

definition usable :: "call_graph \<Rightarrow> reach_opts \<Rightarrow> call_edge \<Rightarrow> bool" where
  "usable g opts e \<longleftrightarrow> e \<in> set (cg_edges g) \<and> endpoints_known g e \<and> opt_conf opts \<le> e_confidence e \<and>
     (o_excludeTests opts \<longrightarrow> (\<forall>n. map_get (cg_nodes g) (e_callerId e) = Some n \<longrightarrow> \<not> fn_isTest n))"

text \<open>\<open>upstream g opts s es\<close>: the edges \<open>es\<close> lead from the seed \<open>s\<close> caller by caller.\<close>

fun upstream :: "call_graph \<Rightarrow> reach_opts \<Rightarrow> string \<Rightarrow> call_edge list \<Rightarrow> bool" where
  "upstream g opts s [] \<longleftrightarrow> True"
| "upstream g opts s (e # es) \<longleftrightarrow> usable g opts e \<and> e_calleeId e = s \<and> upstream g opts (e_callerId e) es"

definition top_of :: "string \<Rightarrow> call_edge list \<Rightarrow> string" where
  "top_of s es = last (s # map e_callerId es)"

lemma upstream_snoc:
  "upstream g opts s (es @ [e]) \<longleftrightarrow> upstream g opts s es \<and> usable g opts e \<and> e_calleeId e = top_of s es"
  by (induction es arbitrary: s) (auto simp: top_of_def)

definition weakest :: "call_edge list \<Rightarrow> call_confidence" where
  "weakest es = fold (\<lambda>e c. minConf c (e_confidence e)) es High"

lemma weakest_le: "e \<in> set es \<Longrightarrow> weakest es \<le> e_confidence e"
proof (induction es rule: rev_induct)
  case (snoc x xs)
  then show ?case by (auto simp: weakest_def minConf_min min_le_iff_disj)
qed simp

text \<open>On an indexed graph the neighbour lists are the usable edges.\<close>

lemma callers_of_iff:
  assumes "indexed g"
  shows "(n, c) \<in> set (callers_of g opts i) \<longleftrightarrow>
    (\<exists>e. usable g opts e \<and> e_calleeId e = i \<and> e_confidence e = c \<and> map_get (cg_nodes g) (e_callerId e) = Some n)"
    (is "?L \<longleftrightarrow> ?R")
proof -
  have adj: "adjacent (inEdges g) i
      = map e_id (filter (\<lambda>e. e_calleeId e = i) (filter (endpoints_known g) (cg_edges g)))"
    using assms rebuild_in by (simp add: indexed_def)
  have dist: "distinct (map e_id (cg_edges g))" using assms by (simp add: indexed_def keyed_by_id_def)
  have step: "caller_step g opts (e_id e) = Some (n, c) \<longleftrightarrow>
      usable g opts e \<and> e_confidence e = c \<and> map_get (cg_nodes g) (e_callerId e) = Some n"
    if "e \<in> set (cg_edges g)" "endpoints_known g e" for e
    using that edgeById_in[OF dist that(1)]
    by (auto simp: caller_step_def usable_def less_eq_call_confidence_def split: option.splits)
  have "?L \<longleftrightarrow> (\<exists>e\<in>set (cg_edges g). endpoints_known g e \<and> e_calleeId e = i \<and>
      caller_step g opts (e_id e) = Some (n, c))"
    by (auto simp: callers_of_def adj set_map_filter)
  also have "\<dots> \<longleftrightarrow> ?R" using step by (auto simp: usable_def)
  finally show ?thesis .
qed

lemma callees_of_iff:
  assumes "indexed g" and "\<not> o_excludeTests opts"
  shows "(n, c) \<in> set (callees_of g opts i) \<longleftrightarrow>
    (\<exists>e. usable g opts e \<and> e_callerId e = i \<and> e_confidence e = c \<and> map_get (cg_nodes g) (e_calleeId e) = Some n)"
    (is "?L \<longleftrightarrow> ?R")
proof -
  have adj: "adjacent (outEdges g) i
      = map e_id (filter (\<lambda>e. e_callerId e = i) (filter (endpoints_known g) (cg_edges g)))"
    using assms rebuild_out by (simp add: indexed_def)
  have dist: "distinct (map e_id (cg_edges g))" using assms by (simp add: indexed_def keyed_by_id_def)
  have step: "callee_step g opts (e_id e) = Some (n, c) \<longleftrightarrow>
      usable g opts e \<and> e_confidence e = c \<and> map_get (cg_nodes g) (e_calleeId e) = Some n"
    if "e \<in> set (cg_edges g)" "endpoints_known g e" for e
    using that edgeById_in[OF dist that(1)] assms(2)
    by (auto simp: callee_step_def usable_def less_eq_call_confidence_def split: option.splits)
  have "?L \<longleftrightarrow> (\<exists>e\<in>set (cg_edges g). endpoints_known g e \<and> e_callerId e = i \<and>
      callee_step g opts (e_id e) = Some (n, c))"
    by (auto simp: callees_of_def adj set_map_filter)
  also have "\<dots> \<longleftrightarrow> ?R" using step by (auto simp: usable_def)
  finally show ?thesis .
qed

text \<open>Walks of the search and paths of the graph are the same thing.\<close>

lemma walk_upstream:
  assumes "indexed g" and "walk (callers_of g opts) s p c"
  shows "\<exists>es. upstream g opts s es \<and> p = s # map e_callerId es \<and> c = weakest es"
  using assms(2)
proof (induction rule: walk.induct)
  case walk_start
  show ?case by (intro exI[of _ "[]"]) (simp add: weakest_def)
next
  case (walk_step p c n e)
  then obtain es where es: "upstream g opts s es" "p = s # map e_callerId es" "c = weakest es" by blast
  from walk_step.hyps(2) obtain x where x: "usable g opts x" "e_calleeId x = last p" "e_confidence x = e"
    "map_get (cg_nodes g) (e_callerId x) = Some n"
    using callers_of_iff[OF assms(1)] by blast
  have "fn_id n = e_callerId x" using keyed_get x(4) assms(1) by (auto simp: indexed_def)
  with es x show ?case
    by (intro exI[of _ "es @ [x]"]) (simp add: upstream_snoc top_of_def weakest_def)
qed

lemma upstream_walk:
  assumes "indexed g" and "upstream g opts s es"
  shows "walk (callers_of g opts) s (s # map e_callerId es) (weakest es)"
  using assms(2)
proof (induction es rule: rev_induct)
  case Nil
  then show ?case by (simp add: weakest_def walk_start)
next
  case (snoc x es)
  then have up: "upstream g opts s es" and x: "usable g opts x" "e_calleeId x = top_of s es"
    by (simp_all add: upstream_snoc)
  from x(1) obtain n where n: "map_get (cg_nodes g) (e_callerId x) = Some n"
    by (auto simp: usable_def endpoints_known_def map_has_iff)
  have "fn_id n = e_callerId x" using keyed_get n assms(1) by (auto simp: indexed_def)
  moreover have "(n, e_confidence x) \<in> set (callers_of g opts (last (s # map e_callerId es)))"
    using callers_of_iff[OF assms(1)] x n by (auto simp: top_of_def)
  ultimately show ?case
    using walk.walk_step[OF snoc.IH[OF up]] by (fastforce simp: weakest_def)
qed

lemma walk_downstream:
  assumes "indexed g" and "\<not> o_excludeTests opts" and "walk (callees_of g opts) s p c"
  shows "\<exists>es. upstream g opts (last p) es \<and> rev p = last p # map e_callerId es"
  using assms(3)
proof (induction rule: walk.induct)
  case walk_start
  show ?case by (intro exI[of _ "[]"]) simp
next
  case (walk_step p c n e)
  then obtain es where es: "upstream g opts (last p) es" "rev p = last p # map e_callerId es" by blast
  from walk_step.hyps(2) obtain x where x: "usable g opts x" "e_callerId x = last p"
    "map_get (cg_nodes g) (e_calleeId x) = Some n"
    using callees_of_iff[OF assms(1,2)] by blast
  have "fn_id n = e_calleeId x" using keyed_get x(3) assms(1) by (auto simp: indexed_def)
  with es x show ?case by (intro exI[of _ "x # es"]) simp
qed

lemma downstream_walk:
  assumes "indexed g" and "\<not> o_excludeTests opts" and "upstream g opts y es"
  shows "\<exists>c. walk (callees_of g opts) (top_of y es) (rev (y # map e_callerId es)) c"
  using assms(3)
proof (induction es arbitrary: y)
  case Nil
  then show ?case using walk_start by (auto simp: top_of_def)
next
  case (Cons e es)
  then have e: "usable g opts e" "e_calleeId e = y" and up: "upstream g opts (e_callerId e) es" by simp_all
  from Cons.IH[OF up] obtain c where
    c: "walk (callees_of g opts) (top_of (e_callerId e) es) (rev (e_callerId e # map e_callerId es)) c" by blast
  from e(1) obtain n where n: "map_get (cg_nodes g) (e_calleeId e) = Some n"
    by (auto simp: usable_def endpoints_known_def map_has_iff)
  have "fn_id n = y" using keyed_get n assms(1) e(2) by (auto simp: indexed_def)
  moreover have "(n, e_confidence e) \<in> set (callees_of g opts (last (rev (e_callerId e # map e_callerId es))))"
    using callees_of_iff[OF assms(1,2)] e(1) n by auto
  ultimately show ?case using walk.walk_step[OF c] by (fastforce simp: top_of_def)
qed

section \<open>The queries compute the path relation\<close>

lemma reverse_hit_path:
  assumes "indexed g" and "h \<in> set (reverseReachability g s opts)"
  shows "\<exists>es. upstream g opts s es \<and> h_path h = s # map e_callerId es \<and> length es = h_depth h \<and>
     h_conf h = weakest es \<and> top_of s es = fn_id (h_node h)"
proof -
  note w = reach_walk[OF assms(2)[unfolded reverseReachability_def]]
  from walk_upstream[OF assms(1) w(1)] obtain es where
    es: "upstream g opts s es" "h_path h = s # map e_callerId es" "h_conf h = weakest es" by blast
  have "top_of s es = fn_id (h_node h)" using w(3) es(2) by (simp only: top_of_def)
  moreover have "length es = h_depth h" using w(2) es(2) by simp
  ultimately show ?thesis using es by blast
qed

lemma reverse_complete:
  assumes "indexed g" and "upstream g opts s es" and "length es \<le> opt_depth 3 opts" and "top_of s es \<noteq> s"
  shows "\<exists>h\<in>set (reverseReachability g s opts). fn_id (h_node h) = top_of s es \<and> h_depth h \<le> length es"
  using reach_complete[OF upstream_walk[OF assms(1,2)]] assms(3,4)
  by (auto simp: reverseReachability_def top_of_def)

lemma reverse_shortest:
  assumes "indexed g" and "h \<in> set (reverseReachability g s opts)" and "upstream g opts s es"
    and "top_of s es = fn_id (h_node h)"
  shows "h_depth h \<le> length es"
  using reach_shortest[OF assms(2)[unfolded reverseReachability_def] upstream_walk[OF assms(1,3)]] assms(4)
  by (simp add: top_of_def)

text \<open>Claim C25: reverse reachability is exact. It reports the node \<open>x\<close> at depth \<open>d\<close> exactly when \<open>x\<close> is
  not the seed and \<open>d\<close> is the length of a shortest chain of usable call edges from \<open>x\<close> down to the
  seed and is within the bound: no caller in range is missed and none is invented.\<close>

theorem reverse_reachability_exact:
  assumes "indexed g"
  shows "(\<exists>h\<in>set (reverseReachability g s opts). fn_id (h_node h) = x \<and> h_depth h = d) \<longleftrightarrow>
     x \<noteq> s \<and> d \<le> opt_depth 3 opts \<and>
     (\<exists>es. upstream g opts s es \<and> top_of s es = x \<and> length es = d) \<and>
     (\<forall>es. upstream g opts s es \<and> top_of s es = x \<longrightarrow> d \<le> length es)"
    (is "?L \<longleftrightarrow> ?R")
proof
  assume ?L
  then obtain h where h: "h \<in> set (reverseReachability g s opts)" "fn_id (h_node h) = x" "h_depth h = d" by blast
  obtain es where es: "upstream g opts s es" "length es = h_depth h" "top_of s es = fn_id (h_node h)"
    using reverse_hit_path[OF assms h(1)] by blast
  have "d \<le> length es'" if "upstream g opts s es'" "top_of s es' = x" for es'
    using reverse_shortest[OF assms h(1) that(1)] that(2) h(2,3) by simp
  with es h(2,3) reach_walk(4,5)[OF h(1)[unfolded reverseReachability_def]] show ?R by blast
next
  assume ?R
  then obtain es where es: "upstream g opts s es" "top_of s es = x" "length es = d" "d \<le> opt_depth 3 opts"
    "x \<noteq> s" and least: "\<forall>es. upstream g opts s es \<and> top_of s es = x \<longrightarrow> d \<le> length es" by blast
  then obtain h where h: "h \<in> set (reverseReachability g s opts)" "fn_id (h_node h) = x" "h_depth h \<le> d"
    using reverse_complete[OF assms es(1)] by auto
  from reverse_hit_path[OF assms h(1)] least h(2) have "d \<le> h_depth h" by auto
  with h show ?L by force
qed

text \<open>Claim C26: a hit carries a witness of itself. Its path is the chain of callers of usable edges from
  the seed to the hit node, one per depth level, and its confidence is that of the weakest edge.\<close>

theorem reverse_hit_justified:
  assumes "indexed g" and "h \<in> set (reverseReachability g s opts)"
  shows "\<exists>es. upstream g opts s es \<and> h_path h = s # map e_callerId es \<and> length es = h_depth h \<and>
     last (h_path h) = fn_id (h_node h) \<and> h_conf h = weakest es \<and>
     list_all (\<lambda>e. h_conf h \<le> e_confidence e \<and> opt_conf opts \<le> e_confidence e) es"
proof -
  from reverse_hit_path[OF assms] obtain es where es: "upstream g opts s es"
    "h_path h = s # map e_callerId es" "length es = h_depth h" "h_conf h = weakest es"
    "top_of s es = fn_id (h_node h)" by blast
  have "list_all (\<lambda>e. opt_conf opts \<le> e_confidence e) es"
    using es(1) by (induction es arbitrary: s) (auto simp: usable_def)
  then have "list_all (\<lambda>e. h_conf h \<le> e_confidence e \<and> opt_conf opts \<le> e_confidence e) es"
    using weakest_le[of _ es] es(4) by (auto simp: list_all_iff)
  moreover have "last (h_path h) = fn_id (h_node h)" using es(2,5) by (simp only: top_of_def)
  ultimately show ?thesis using es by blast
qed

lemma forward_ids:
  assumes "indexed g" and "\<not> o_excludeTests opts" and "o_maxDepth opts = Some k"
  shows "(\<exists>h\<in>set (forwardReachability g x opts). fn_id (h_node h) = s) \<longleftrightarrow>
    s \<noteq> x \<and> (\<exists>es. upstream g opts s es \<and> top_of s es = x \<and> length es \<le> k)" (is "?L \<longleftrightarrow> ?R")
proof -
  let ?nb = "callees_of g opts"
  have "?L \<longleftrightarrow> s \<in> fn_id ` h_node ` set (reach ?nb k x)"
    using assms(3) by (auto simp: forwardReachability_def opt_depth_def)
  also have "\<dots> \<longleftrightarrow> s \<noteq> x \<and> (\<exists>p c. walk ?nb x p c \<and> length p \<le> k + 1 \<and> last p = s)"
    unfolding reach_ids by auto
  also have "\<dots> \<longleftrightarrow> ?R"
  proof (intro conj_cong refl iffI)
    assume "\<exists>p c. walk ?nb x p c \<and> length p \<le> k + 1 \<and> last p = s"
    then obtain p c where p: "walk ?nb x p c" "length p \<le> k + 1" "last p = s" by blast
    from walk_downstream[OF assms(1,2) p(1)] p(3) obtain es where
      es: "upstream g opts s es" "rev p = s # map e_callerId es" by auto
    have "top_of s es = hd p" using es(2) walk_ne[OF p(1)] by (metis last_rev rev_rev_ident top_of_def)
    moreover have "length p = length es + 1" using arg_cong[OF es(2), of length] by simp
    ultimately show "\<exists>es. upstream g opts s es \<and> top_of s es = x \<and> length es \<le> k"
      using es(1) p(2) walk_ne[OF p(1)] by auto
  next
    assume "\<exists>es. upstream g opts s es \<and> top_of s es = x \<and> length es \<le> k"
    then obtain es where es: "upstream g opts s es" "top_of s es = x" "length es \<le> k" by blast
    from downstream_walk[OF assms(1,2) es(1)] es(2) obtain c where
      "walk ?nb x (rev (s # map e_callerId es)) c" by blast
    with es(3) show "\<exists>p c. walk ?nb x p c \<and> length p \<le> k + 1 \<and> last p = s"
      by (intro exI[of _ "rev (s # map e_callerId es)"] exI[of _ c]) simp
  qed
  finally show ?thesis .
qed

text \<open>The two searches are dual. With the same bound and confidence filter, \<open>x\<close> is found
  upstream of \<open>s\<close> exactly when \<open>s\<close> is found downstream of \<open>x\<close>.\<close>

theorem forward_reverse_dual:
  assumes "indexed g" and "\<not> o_excludeTests opts" and "o_maxDepth opts = Some k"
  shows "(\<exists>h\<in>set (forwardReachability g x opts). fn_id (h_node h) = s) \<longleftrightarrow>
         (\<exists>h\<in>set (reverseReachability g s opts). fn_id (h_node h) = x)"
proof -
  have "(\<exists>h\<in>set (reverseReachability g s opts). fn_id (h_node h) = x) \<longleftrightarrow>
      s \<noteq> x \<and> (\<exists>es. upstream g opts s es \<and> top_of s es = x \<and> length es \<le> k)" (is "?L \<longleftrightarrow> ?R")
  proof
    assume ?L
    then obtain h where h: "h \<in> set (reverseReachability g s opts)" "fn_id (h_node h) = x" by blast
    from reverse_hit_path[OF assms(1) h(1)] reach_walk(4,5)[OF h(1)[unfolded reverseReachability_def]]
      h(2) assms(3)
    show ?R by (auto simp: opt_depth_def)
  next
    assume ?R
    then show ?L using reverse_complete[OF assms(1)] assms(3) by (fastforce simp: opt_depth_def)
  qed
  with forward_ids[OF assms] show ?thesis by blast
qed

section \<open>The impact subgraph is closed\<close>

lemma fold_set_has: "map_has (fold (\<lambda>x m. map_set m (k x) (v x)) xs m) i \<longleftrightarrow> map_has m i \<or> i \<in> k ` set xs"
  by (induction xs arbitrary: m) (auto simp: map_has_iff js.get_put)

lemma impact_hits:
  "fold (impact_hit g) hs (nm, em, up) =
     (fold (\<lambda>h m. map_set m (fn_id (h_node h)) (h_node h)) hs nm,
      fold (\<lambda>e m. map_set m (e_id e) e) (concat (map (path_edges g \<circ> h_path) hs)) em,
      up @ hs)"
  by (induction hs arbitrary: nm em up) (simp_all add: impact_hit_def)

text \<open>The node map after the loop: keyed by id, and with the known seeds and all hits in its domain.\<close>

definition impact_nodes_ok :: "(string, function_node) jsmap \<Rightarrow> bool" where
  "impact_nodes_ok nm \<longleftrightarrow> map_ok nm \<and> (\<forall>k n. map_get nm k = Some n \<longrightarrow> fn_id n = k)"

lemma impact_nodes_ok_set: "impact_nodes_ok nm \<Longrightarrow> fn_id n = k \<Longrightarrow> impact_nodes_ok (map_set nm k n)"
  by (auto simp: impact_nodes_ok_def js.get_put js.ok_put split: if_splits)

lemma impact_seeds:
  assumes "keyed_by_id g" and "impact_nodes_ok nm"
  shows "\<exists>nm'. fold (impact_seed g opts) seeds (nm, em, up) =
     (nm', fold (\<lambda>e m. map_set m (e_id e) e)
        (concat (map (path_edges g \<circ> h_path) (concat (map (\<lambda>s. reverseReachability g s opts) seeds)))) em,
      up @ concat (map (\<lambda>s. reverseReachability g s opts) seeds)) \<and>
     impact_nodes_ok nm' \<and>
     (\<forall>i. map_has nm' i \<longleftrightarrow> map_has nm i \<or> (i \<in> set seeds \<and> map_has (cg_nodes g) i) \<or>
        (\<exists>s\<in>set seeds. \<exists>h\<in>set (reverseReachability g s opts). fn_id (h_node h) = i))"
  using assms(2)
proof (induction seeds arbitrary: nm em up)
  case Nil
  then show ?case by simp
next
  case (Cons s seeds)
  define nm1 where "nm1 = (case map_get (cg_nodes g) s of None \<Rightarrow> nm | Some n \<Rightarrow> map_set nm s n)"
  define nm2 where "nm2 = fold (\<lambda>h m. map_set m (fn_id (h_node h)) (h_node h)) (reverseReachability g s opts) nm1"
  have ok1: "impact_nodes_ok nm1"
    using Cons.prems keyed_get[OF assms(1)]
    by (auto simp: nm1_def intro: impact_nodes_ok_set split: option.splits)
  have ok2: "impact_nodes_ok nm2"
    unfolding nm2_def by (rule fold_inv[where P = impact_nodes_ok]) (simp_all add: ok1 impact_nodes_ok_set)
  have dom2: "map_has nm2 i \<longleftrightarrow> map_has nm i \<or> (i = s \<and> map_has (cg_nodes g) i) \<or>
      (\<exists>h\<in>set (reverseReachability g s opts). fn_id (h_node h) = i)" for i
    unfolding nm2_def fold_set_has
    by (auto simp: nm1_def map_has_iff js.get_put split: option.splits)
  let ?hs = "reverseReachability g s opts"
  let ?em = "fold (\<lambda>e m. map_set m (e_id e) e) (concat (map (path_edges g \<circ> h_path) ?hs)) em"
  have step: "impact_seed g opts s (nm, em, up) = (nm2, ?em, up @ ?hs)"
    by (simp add: impact_seed_def nm1_def[symmetric] impact_hits nm2_def[symmetric])
  from Cons.IH[OF ok2, of ?em "up @ ?hs"] obtain nm' where nm':
    "fold (impact_seed g opts) seeds (nm2, ?em, up @ ?hs) =
     (nm', fold (\<lambda>e m. map_set m (e_id e) e)
        (concat (map (path_edges g \<circ> h_path) (concat (map (\<lambda>s. reverseReachability g s opts) seeds)))) ?em,
      (up @ ?hs) @ concat (map (\<lambda>s. reverseReachability g s opts) seeds))"
    "impact_nodes_ok nm'"
    and dom: "\<forall>i. map_has nm' i \<longleftrightarrow> map_has nm2 i \<or> (i \<in> set seeds \<and> map_has (cg_nodes g) i) \<or>
        (\<exists>s\<in>set seeds. \<exists>h\<in>set (reverseReachability g s opts). fn_id (h_node h) = i)"
    by blast
  show ?case
  proof (intro exI[of _ nm'] conjI)
    show "impact_nodes_ok nm'" by (rule nm'(2))
    show "\<forall>i. map_has nm' i \<longleftrightarrow> map_has nm i \<or> (i \<in> set (s # seeds) \<and> map_has (cg_nodes g) i) \<or>
        (\<exists>s\<in>set (s # seeds). \<exists>h\<in>set (reverseReachability g s opts). fn_id (h_node h) = i)"
      using dom dom2 by auto
  qed (use nm'(1) in \<open>simp add: step comp_def\<close>)
qed

lemma path_edges_in:
  assumes "e \<in> set (path_edges g p)"
  shows "\<exists>i. Suc i < length p \<and> e \<in> set (link_edges g (p ! i) (p ! Suc i))"
  using assms
proof (induction g p rule: path_edges.induct)
  case (1 g callee caller p)
  then consider "e \<in> set (link_edges g callee caller)" | "e \<in> set (path_edges g (caller # p))" by auto
  then show ?case
  proof cases
    case 1
    then show ?thesis by (intro exI[of _ 0]) simp
  next
    case 2
    from "1.IH"[OF 2] obtain i where "Suc i < length (caller # p)"
      "e \<in> set (link_edges g ((caller # p) ! i) ((caller # p) ! Suc i))" by blast
    then show ?thesis by (intro exI[of _ "Suc i"]) simp
  qed
qed simp_all

lemma link_edges_iff:
  assumes "indexed g"
  shows "e \<in> set (link_edges g callee caller) \<longleftrightarrow>
    e \<in> set (cg_edges g) \<and> endpoints_known g e \<and> e_calleeId e = callee \<and> e_callerId e = caller"
proof -
  have adj: "adjacent (inEdges g) callee
      = map e_id (filter (\<lambda>e. e_calleeId e = callee) (filter (endpoints_known g) (cg_edges g)))"
    using assms rebuild_in by (simp add: indexed_def)
  have dist: "distinct (map e_id (cg_edges g))" using assms by (simp add: indexed_def keyed_by_id_def)
  show ?thesis
    using edgeById_in[OF dist] by (auto simp: link_edges_def adj set_map_filter)
qed

text \<open>Every id on the path of a hit is the seed or itself a hit.\<close>

lemma upstream_take: "upstream g opts s es \<Longrightarrow> upstream g opts s (take n es)"
  by (induction es arbitrary: s n) (auto simp: take_Cons split: nat.splits)

lemma reverse_path_ids:
  assumes "indexed g" and "h \<in> set (reverseReachability g s opts)" and "i \<in> set (h_path h)"
  shows "i = s \<or> (\<exists>h'\<in>set (reverseReachability g s opts). fn_id (h_node h') = i)"
proof -
  from reverse_hit_path[OF assms(1,2)] obtain es where es: "upstream g opts s es"
    "h_path h = s # map e_callerId es" "length es = h_depth h" by blast
  from assms(3) es(2) obtain k where k: "k < Suc (length es)" "i = (s # map e_callerId es) ! k"
    by (metis in_set_conv_nth length_Cons length_map)
  have i: "top_of s (take k es) = i"
    using k by (cases k) (auto simp: top_of_def last_conv_nth take_map[symmetric])
  have "length (take k es) \<le> opt_depth 3 opts"
    using es(3) reach_walk(4)[OF assms(2)[unfolded reverseReachability_def]] by simp
  then show ?thesis
    using reverse_complete[OF assms(1) upstream_take[OF es(1), of k]] i by auto
qed

lemma impact_nodes_ids:
  assumes "impact_nodes_ok nm"
  shows "fn_id ` set (map_values nm) = {i. map_has nm i}"
  using assms map_values_get[of nm] map_get_values[of nm]
  by (fastforce simp: impact_nodes_ok_def map_has_iff)

lemma fold_index_values:
  assumes "e \<in> set (map_values (fold (\<lambda>e m. map_set m (e_id e) e) es []))"
  shows "e \<in> set es"
proof -
  let ?m = "fold (\<lambda>e m. map_set m (e_id e) e) es []"
  have "map_ok ?m" by (rule fold_inv[where P = map_ok]) (simp_all add: js.ok_put)
  from map_values_get[OF this assms] obtain i where "map_get ?m i = Some e" by blast
  then show ?thesis by (auto simp: fold_map_set_get split: option.splits dest: find_SomeD)
qed

text \<open>Claim C27: the impact subgraph is closed. Its nodes are the known seeds and everything found
  upstream of a seed, and each of its edges is a call edge of the graph between two of its nodes.\<close>

theorem impact_subgraph_closed:
  assumes "indexed g"
    and "opts = \<lparr>o_maxDepth = Some (case md of None \<Rightarrow> 3 | Some n \<Rightarrow> n), o_minConfidence = mc,
                 o_excludeTests = False\<rparr>"
  shows "fn_id ` set (i_nodes (impactSubgraph g seeds md mc)) =
      {s \<in> set seeds. map_has (cg_nodes g) s} \<union>
      (\<Union>s\<in>set seeds. (fn_id \<circ> h_node) ` set (reverseReachability g s opts)) \<and>
    set (i_edges (impactSubgraph g seeds md mc)) \<subseteq>
      {e \<in> set (cg_edges g). e_callerId e \<in> fn_id ` set (i_nodes (impactSubgraph g seeds md mc)) \<and>
                            e_calleeId e \<in> fn_id ` set (i_nodes (impactSubgraph g seeds md mc))}"
proof -
  let ?hits = "concat (map (\<lambda>s. reverseReachability g s opts) seeds)"
  let ?es = "concat (map (path_edges g \<circ> h_path) ?hits)"
  have keyed: "keyed_by_id g" using assms(1) by (simp add: indexed_def)
  have "impact_nodes_ok []" by (simp add: impact_nodes_ok_def)
  from impact_seeds[OF keyed this, of opts seeds "[]" "[]"] obtain nm where
    nm: "fold (impact_seed g opts) seeds ([], [], []) =
      (nm, fold (\<lambda>e m. map_set m (e_id e) e) ?es [], ?hits)" "impact_nodes_ok nm"
    and dom: "\<And>i. map_has nm i \<longleftrightarrow> (i \<in> set seeds \<and> map_has (cg_nodes g) i) \<or>
        (\<exists>s\<in>set seeds. \<exists>h\<in>set (reverseReachability g s opts). fn_id (h_node h) = i)"
    by (auto simp: map_has_iff)
  let ?I = "impactSubgraph g seeds md mc"
  have nodes: "i_nodes ?I = map_values nm"
    and edges: "i_edges ?I = map_values (fold (\<lambda>e m. map_set m (e_id e) e) ?es [])"
    using nm(1) by (simp_all add: impactSubgraph_def Let_def assms(2)[symmetric])
  have ids: "fn_id ` set (i_nodes ?I) = {i. map_has nm i}"
    unfolding nodes by (rule impact_nodes_ids[OF nm(2)])
  have "e \<in> set (cg_edges g) \<and> map_has nm (e_callerId e) \<and> map_has nm (e_calleeId e)"
    if e_in: "e \<in> set (i_edges ?I)" for e
  proof -
    from fold_index_values[OF e_in[unfolded edges]] obtain s h where s: "s \<in> set seeds"
      and h: "h \<in> set (reverseReachability g s opts)" and e: "e \<in> set (path_edges g (h_path h))" by auto
    from path_edges_in[OF e] obtain i where i: "Suc i < length (h_path h)"
      and "e \<in> set (link_edges g (h_path h ! i) (h_path h ! Suc i))" by blast
    then have l: "e \<in> set (cg_edges g)" "endpoints_known g e"
      "e_calleeId e = h_path h ! i" "e_callerId e = h_path h ! Suc i"
      using link_edges_iff[OF assms(1)] by blast+
    have "map_has nm x" if "x \<in> set (h_path h)" "map_has (cg_nodes g) x" for x
      using reverse_path_ids[OF assms(1) h that(1)] dom s that(2) by blast
    with l i show ?thesis by (auto simp: endpoints_known_def)
  qed
  moreover have "{i. map_has nm i} = {s \<in> set seeds. map_has (cg_nodes g) s} \<union>
      (\<Union>s\<in>set seeds. (fn_id \<circ> h_node) ` set (reverseReachability g s opts))"
    using dom by auto
  ultimately show ?thesis unfolding ids by auto
qed

section \<open>Confidence along a path\<close>

text \<open>Propagation only lowers confidence. The result is at most the base and at most the
  confidence of the hit, never high from three hops on, low from four hops on, and unchanged (the
  weaker of the two) below three.\<close>

theorem propagate_confidence_lowers:
  "propagateConfidence base h \<le> base \<and> propagateConfidence base h \<le> h_conf h \<and>
   \<not> (h_depth h \<ge> 3 \<and> propagateConfidence base h = High) \<and>
   (h_depth h < 4 \<or> propagateConfidence base h = Low) \<and>
   (h_depth h \<ge> 3 \<or> propagateConfidence base h = min base (h_conf h))"
proof -
  have m: "minConf base (h_conf h) = High \<Longrightarrow> base = High \<and> h_conf h = High"
    by (cases base; cases "h_conf h") (simp_all add: minConf_def confRank_def)
  show ?thesis
    by (auto simp: propagateConfidence_def Let_def minConf_min[symmetric] dest: m)
      (auto simp: minConf_min)
qed

section \<open>A sample repository\<close>

text \<open>\<open>a.ts\<close> defines \<open>f\<close> and \<open>g\<close>; \<open>h\<close> of \<open>b.ts\<close> calls \<open>g\<close>; \<open>k\<close> of \<open>c.ts\<close> calls \<open>h\<close>.\<close>

definition sample_fn :: "string \<Rightarrow> string \<Rightarrow> int \<Rightarrow> string list \<Rightarrow> raw_fn" where
  "sample_fn file name line callees =
     \<lparr>rf_name = name, rf_filePath = file, rf_lineStart = line, rf_lineEnd = line + 2,
      rf_language = Typescript, rf_enclosingType = None, rf_isTest = False, rf_bodyHash = ''0'',
      rf_signature = None,
      rf_calls = map (\<lambda>c. \<lparr>callerKey = nodeId file name line, calleeName = c, calleeReceiver = None,
                          call_filePath = file, call_line = line + 1\<rparr>) callees\<rparr>"

definition sample_fns :: "raw_fn list" where
  "sample_fns = [sample_fn ''a.ts'' ''f'' 1 [], sample_fn ''a.ts'' ''g'' 5 [],
                 sample_fn ''b.ts'' ''h'' 1 [''g''], sample_fn ''c.ts'' ''k'' 1 [''h'']]"

definition sample_graph :: call_graph where
  "sample_graph = rebuildAdjacency (assembleGraph ''/r'' ''t0'' Hybrid [] [] sample_fns)"

lemma sample_indexed: "indexed sample_graph"
  unfolding sample_graph_def by (rule rebuild_indexed[OF assembleGraph_keyed])

lemma sample_hits:
  "map (\<lambda>h. (fn_id (h_node h), h_depth h)) (reverseReachability sample_graph ''a.ts::g@5'' no_opts)
     = [(''b.ts::h@1'', 1), (''c.ts::k@1'', 2)]"
  by code_simp

lemma sample_reverse:
  "\<exists>h\<in>set (reverseReachability sample_graph ''a.ts::g@5'' no_opts). fn_id (h_node h) = ''c.ts::k@1'' \<and> h_depth h = 2"
proof -
  have "(''c.ts::k@1'', 2) \<in> set (map (\<lambda>h. (fn_id (h_node h), h_depth h))
      (reverseReachability sample_graph ''a.ts::g@5'' no_opts))"
    unfolding sample_hits by simp
  then show ?thesis by auto
qed

text \<open>The two-hop caller is found, and no shorter chain leads to it.\<close>

theorem reverse_reachability_exact_witness:
  "(\<exists>es. upstream sample_graph no_opts ''a.ts::g@5'' es \<and> top_of ''a.ts::g@5'' es = ''c.ts::k@1'' \<and> length es = 2) \<and>
   \<not> (\<exists>es. upstream sample_graph no_opts ''a.ts::g@5'' es \<and> top_of ''a.ts::g@5'' es = ''c.ts::k@1'' \<and> length es < 2)"
  using reverse_reachability_exact[OF sample_indexed, of "''a.ts::g@5''" no_opts "''c.ts::k@1''" 2] sample_reverse
  by (metis not_le)

lemma sample_hit:
  "reverseReachability sample_graph ''a.ts::g@5'' no_opts \<noteq> [] \<and>
   h_path (last (reverseReachability sample_graph ''a.ts::g@5'' no_opts)) = [''a.ts::g@5'', ''b.ts::h@1'', ''c.ts::k@1'']"
  by code_simp

theorem reverse_hit_justified_witness:
  "\<exists>es. upstream sample_graph no_opts ''a.ts::g@5'' es \<and>
     [''a.ts::g@5'', ''b.ts::h@1'', ''c.ts::k@1''] = ''a.ts::g@5'' # map e_callerId es"
proof -
  let ?hs = "reverseReachability sample_graph ''a.ts::g@5'' no_opts"
  have "last ?hs \<in> set ?hs" by (rule last_in_set[OF sample_hit[THEN conjunct1]])
  from reverse_hit_justified[OF sample_indexed this] obtain es where
    es: "upstream sample_graph no_opts ''a.ts::g@5'' es \<and> h_path (last ?hs) = ''a.ts::g@5'' # map e_callerId es"
    by (elim exE conjE) (rule that, rule conjI)
  show ?thesis
    by (rule exI, rule conjI[OF es[THEN conjunct1]]) (rule es[THEN conjunct2, unfolded sample_hit[THEN conjunct2]])
qed

theorem forward_reverse_dual_witness:
  "\<exists>h\<in>set (forwardReachability sample_graph ''c.ts::k@1'' (no_opts\<lparr>o_maxDepth := Some 3\<rparr>)). fn_id (h_node h) = ''a.ts::g@5''"
proof -
  have "\<exists>h\<in>set (reverseReachability sample_graph ''a.ts::g@5'' (no_opts\<lparr>o_maxDepth := Some 3\<rparr>)).
      fn_id (h_node h) = ''c.ts::k@1''" by code_simp
  then show ?thesis
    using forward_reverse_dual[OF sample_indexed, of "no_opts\<lparr>o_maxDepth := Some 3\<rparr>" 3] by (simp add: no_opts_def)
qed

theorem impact_subgraph_closed_witness:
  "fn_id ` set (i_nodes (impactSubgraph sample_graph [''a.ts::g@5''] None None)) =
     {''a.ts::g@5'', ''b.ts::h@1'', ''c.ts::k@1''} \<and>
   set (i_edges (impactSubgraph sample_graph [''a.ts::g@5''] None None)) \<subseteq> set (cg_edges sample_graph)"
proof -
  let ?o = "\<lparr>o_maxDepth = Some 3, o_minConfidence = None, o_excludeTests = False\<rparr>"
  have hits: "map (fn_id \<circ> h_node) (reverseReachability sample_graph ''a.ts::g@5'' ?o) = [''b.ts::h@1'', ''c.ts::k@1'']"
    by code_simp
  have "(fn_id \<circ> h_node) ` set (reverseReachability sample_graph ''a.ts::g@5'' ?o) = {''b.ts::h@1'', ''c.ts::k@1''}"
    using arg_cong[OF hits, of set] by simp
  moreover have "map_has (cg_nodes sample_graph) ''a.ts::g@5''" by code_simp
  ultimately show ?thesis
    using impact_subgraph_closed[OF sample_indexed, of ?o None None "[''a.ts::g@5'']"] by auto
qed

theorem build_index_is_rebuilt_witness:
  "rebuildAdjacency (assembleGraph ''/r'' ''t0'' Hybrid [] [] sample_fns)
     = assembleGraph ''/r'' ''t0'' Hybrid [] [] sample_fns"
proof (rule build_index_is_rebuilt)
  show "calls_owned sample_fns" by code_simp
  show "distinct (map (\<lambda>f. fn_id (node_of f)) sample_fns)" by code_simp
qed

end
