(* ===== verification/Incremental.thy ===== *)
theory Incremental
  imports CallGraphQuery
begin

text \<open>
  The incremental update of the call graph: change classification (\<open>change-detect.ts\<close>), the
  reset-recompute pipeline (\<open>incremental.ts\<close>) and its soundness check (\<open>validate.ts\<close>), all in
  \<open>packages/call-graph/src\<close>. What the text front end reads from a file (its functions, methods and
  signals) is the record \<open>file_view\<close>; a repository is a function from paths to views, where
  \<open>None\<close> is a file that does not exist.
\<close>

section \<open>Change sets\<close>

definition normPath :: "string \<Rightarrow> string" where
  "normPath p = (let q = slashes p in if starts_with q ''./'' then drop 2 q else q)"

definition methodStableKey :: "string \<Rightarrow> string \<Rightarrow> string option \<Rightarrow> string" where
  "methodStableKey file name ty =
     normPath file @ ''::'' @ (case ty of None \<Rightarrow> [] | Some t \<Rightarrow> t) @ ''::'' @ name"

definition nodeStableKey :: "function_node \<Rightarrow> string" where
  "nodeStableKey n = methodStableKey (fn_filePath n) (fn_name n) (fn_enclosingType n)"

datatype method_change_kind = BodyEdit | SignatureChange | MethodAdded | MethodDeleted

record method_change =
  mc_kind :: method_change_kind
  mc_filePath :: string
  mc_methodName :: string
  mc_enclosingType :: "string option"
  mc_previousNodeId :: "string option"
  mc_stableKey :: string
  mc_previousBodyHash :: "string option"
  mc_newBodyHash :: "string option"
  mc_previousSignature :: "string option"
  mc_newSignature :: "string option"

record structural_flags =
  hierarchyChanged :: bool
  importChanged :: bool
  dependencyManifestChanged :: bool
  largeStructural :: bool
  newPackagePaths :: "string list"

record change_set =
  cs_changedFiles :: "string list"
  cs_deletedFiles :: "string list"
  cs_addedFiles :: "string list"
  cs_methods :: "method_change list"
  cs_structural :: structural_flags
  cs_changedMethodFraction :: rat
  cs_previousMethodCount :: nat

record extracted_method =
  xm_name :: string
  xm_enclosingType :: "string option"
  xm_bodyHash :: string
  xm_signature :: string

record file_view =
  fv_hierarchySignal :: bool
  fv_importSignal :: bool
  fv_methods :: "extracted_method list"
  fv_isTest :: bool
  fv_fns :: "raw_fn list"
  fv_instantiated :: "string list"
  fv_parents :: "(string, string list) jsmap"

type_synonym repo_view = "string \<Rightarrow> file_view option"

definition manifest_names :: "string list" where
  "manifest_names = [''package.json'', ''package-lock.json'', ''pnpm-lock.yaml'', ''yarn.lock'', ''go.mod'',
     ''go.sum'', ''requirements.txt'', ''Pipfile'', ''Cargo.toml'', ''Gemfile'']"

text \<open>\<open>split("/").pop()\<close> and \<open>split("/")[0]\<close>.\<close>

definition last_segment :: "string \<Rightarrow> string" where
  "last_segment p = rev (takeWhile (\<lambda>c. c \<noteq> CHR ''/'') (rev p))"

definition first_segment :: "string \<Rightarrow> string" where
  "first_segment p = takeWhile (\<lambda>c. c \<noteq> CHR ''/'') p"

definition new_package_path :: "call_graph \<Rightarrow> string \<Rightarrow> bool" where
  "new_package_path prev file \<longleftrightarrow>
     first_segment file \<in> {''packages'', ''apps'', ''services'', ''libs''} \<and>
     \<not> list_ex (\<lambda>n. starts_with (fn_filePath n) (first_segment file @ ''/'')) (map_values (cg_nodes prev))"

text \<open>\<open>Set.add\<close> on an insertion-ordered set.\<close>

definition set_add :: "'a \<Rightarrow> 'a list \<Rightarrow> 'a list" where
  "set_add x s = (if x \<in> set s then s else s @ [x])"

definition deleted_change :: "string \<Rightarrow> function_node \<Rightarrow> method_change" where
  "deleted_change file n =
     \<lparr>mc_kind = MethodDeleted, mc_filePath = file, mc_methodName = fn_name n,
      mc_enclosingType = fn_enclosingType n, mc_previousNodeId = Some (fn_id n),
      mc_stableKey = nodeStableKey n, mc_previousBodyHash = fn_bodyHash n, mc_newBodyHash = None,
      mc_previousSignature = fn_signature n, mc_newSignature = None\<rparr>"

definition added_change :: "string \<Rightarrow> extracted_method \<Rightarrow> method_change" where
  "added_change file m =
     \<lparr>mc_kind = MethodAdded, mc_filePath = file, mc_methodName = xm_name m,
      mc_enclosingType = xm_enclosingType m, mc_previousNodeId = None,
      mc_stableKey = methodStableKey file (xm_name m) (xm_enclosingType m),
      mc_previousBodyHash = None, mc_newBodyHash = Some (xm_bodyHash m),
      mc_previousSignature = None, mc_newSignature = Some (xm_signature m)\<rparr>"

text \<open>The classification of one extracted method: signature first, then body, then a missing hash.\<close>

definition classify_method ::
  "(string, function_node) jsmap \<Rightarrow> string \<Rightarrow> extracted_method \<Rightarrow> method_change option" where
  "classify_method prevByKey file m =
     (case map_get prevByKey (methodStableKey file (xm_name m) (xm_enclosingType m)) of
        None \<Rightarrow> Some (added_change file m)
      | Some prev \<Rightarrow>
          let prevSig = (case fn_signature prev of None \<Rightarrow> [] | Some s \<Rightarrow> s);
              prevHash = (case fn_bodyHash prev of None \<Rightarrow> [] | Some s \<Rightarrow> s);
              change = (added_change file m)\<lparr>mc_previousNodeId := Some (fn_id prev)\<rparr>
          in if prevSig \<noteq> [] \<and> prevSig \<noteq> xm_signature m
             then Some (change\<lparr>mc_kind := SignatureChange, mc_previousBodyHash := Some prevHash,
                               mc_previousSignature := Some prevSig\<rparr>)
             else if prevHash \<noteq> [] \<and> prevHash \<noteq> xm_bodyHash m
             then Some (change\<lparr>mc_kind := BodyEdit, mc_previousBodyHash := Some prevHash,
                               mc_previousSignature := Some (if prevSig = [] then xm_signature m else prevSig)\<rparr>)
             else if prevHash = [] then Some (change\<lparr>mc_kind := BodyEdit\<rparr>)
             else None)"

record classify_state =
  k_deleted :: "string list"
  k_added :: "string list"
  k_modified :: "string list"
  k_methods :: "method_change list"
  k_hierarchy :: bool
  k_import :: bool
  k_manifest :: bool
  k_newPackages :: "string list"
  k_touched :: "string list"

definition classify_file ::
  "call_graph \<Rightarrow> (string, function_node) jsmap \<Rightarrow> repo_view \<Rightarrow> string \<Rightarrow> classify_state \<Rightarrow> classify_state" where
  "classify_file prev prevByKey view file st0 =
     (let here = filter (\<lambda>n. fn_filePath n = file) (map_values (cg_nodes prev));
          st = st0\<lparr>k_manifest := k_manifest st0 \<or> last_segment file \<in> set manifest_names,
                   k_newPackages := k_newPackages st0 @ (if new_package_path prev file then [file] else [])\<rparr>
      in case view file of
           None \<Rightarrow>
             st\<lparr>k_deleted := k_deleted st @ [file],
                k_touched := fold set_add (map nodeStableKey here) (k_touched st),
                k_methods := k_methods st @ map (deleted_change file) here\<rparr>
         | Some v \<Rightarrow>
             let keys = map (\<lambda>m. methodStableKey file (xm_name m) (xm_enclosingType m)) (fv_methods v);
                 gone = filter (\<lambda>n. nodeStableKey n \<notin> set keys) here
             in st\<lparr>k_hierarchy := k_hierarchy st \<or> fv_hierarchySignal v,
                   k_import := k_import st \<or> fv_importSignal v,
                   k_added := k_added st @ (if here = [] then [file] else []),
                   k_modified := k_modified st @ (if here = [] then [] else [file]),
                   k_touched := fold set_add (keys @ map nodeStableKey gone) (k_touched st),
                   k_methods := k_methods st @ List.map_filter (classify_method prevByKey file) (fv_methods v)
                                @ map (deleted_change file) gone\<rparr>)"

definition prev_by_key :: "call_graph \<Rightarrow> (string, function_node) jsmap" where
  "prev_by_key prev = fold (\<lambda>n m. map_set m (nodeStableKey n) n) (map_values (cg_nodes prev)) []"

definition classifyChanges :: "call_graph \<Rightarrow> string list \<Rightarrow> repo_view \<Rightarrow> change_set" where
  "classifyChanges prev changedFiles view =
     (let files = uniq (map normPath changedFiles);
          byKey = prev_by_key prev;
          count = (if length byKey = 0 then 1 else length byKey);
          st = fold (classify_file prev byKey view) files
                 \<lparr>k_deleted = [], k_added = [], k_modified = [], k_methods = [], k_hierarchy = False,
                  k_import = False, k_manifest = False, k_newPackages = [], k_touched = []\<rparr>
      in \<lparr>cs_changedFiles = k_modified st, cs_deletedFiles = k_deleted st, cs_addedFiles = k_added st,
          cs_methods = k_methods st,
          cs_structural =
            \<lparr>hierarchyChanged = k_hierarchy st, importChanged = k_import st,
             dependencyManifestChanged = k_manifest st,
             largeStructural = (k_manifest st \<or> k_newPackages st \<noteq> [] \<or> length files \<ge> 12 \<or>
                                length (k_deleted st) + length (k_added st) \<ge> 5),
             newPackagePaths = k_newPackages st\<rparr>,
          cs_changedMethodFraction = min 1 (of_nat (length (k_touched st)) / of_nat count),
          cs_previousMethodCount = count\<rparr>)"

datatype rebuild_reason =
    NoChangedFiles
  | ChangedMethodFraction rat rat
  | LargeStructuralChange
  | DependencyManifestChanged
  | ResetFileFraction rat rat

definition shouldFullRebuildFromChangeSet :: "change_set \<Rightarrow> rat \<Rightarrow> rebuild_reason option" where
  "shouldFullRebuildFromChangeSet cs thr =
     (if cs_changedMethodFraction cs \<ge> thr then Some (ChangedMethodFraction (cs_changedMethodFraction cs) thr)
      else if largeStructural (cs_structural cs) then Some LargeStructuralChange
      else if dependencyManifestChanged (cs_structural cs) then Some DependencyManifestChanged
      else None)"

section \<open>Atomic changes\<close>

datatype atomic_change =
    FileChanged string | FileDeleted string | FileAdded string
  | MethodBodyEdit string string "string option" | MethodSignatureChange string string "string option"
  | MethodAddedAt string string | MethodDeletedAt string string "string option"
  | HierarchyChanged string | ImportChanged string | StructuralChange string

definition atomic_method :: "method_change \<Rightarrow> atomic_change" where
  "atomic_method m =
     (case mc_kind m of
        BodyEdit \<Rightarrow> MethodBodyEdit (mc_filePath m) (mc_methodName m) (mc_previousNodeId m)
      | SignatureChange \<Rightarrow> MethodSignatureChange (mc_filePath m) (mc_methodName m) (mc_previousNodeId m)
      | MethodAdded \<Rightarrow> MethodAddedAt (mc_filePath m) (mc_methodName m)
      | MethodDeleted \<Rightarrow> MethodDeletedAt (mc_filePath m) (mc_methodName m) (mc_previousNodeId m))"

definition changeSetToAtomic :: "change_set \<Rightarrow> atomic_change list" where
  "changeSetToAtomic cs =
     map FileChanged (cs_changedFiles cs) @ map FileAdded (cs_addedFiles cs) @
     map FileDeleted (cs_deletedFiles cs) @ map atomic_method (cs_methods cs) @
     (if hierarchyChanged (cs_structural cs)
      then map HierarchyChanged (cs_changedFiles cs @ cs_addedFiles cs) else []) @
     (if importChanged (cs_structural cs)
      then map ImportChanged (cs_changedFiles cs @ cs_addedFiles cs) else []) @
     (if largeStructural (cs_structural cs) then [StructuralChange ''large_structural''] else [])"

section \<open>The affected region\<close>

datatype strategy = Eager | Conservative | HybridStrategy

record incremental_opts =
  io_strategy :: "strategy option"
  io_fullRebuildFileFraction :: "rat option"
  io_methodFractionThreshold :: "rat option"
  io_expansionHops :: "nat option"
  io_algorithm :: "algorithm option"
  io_excludeTests :: bool

definition default_opts :: incremental_opts where
  "default_opts = \<lparr>io_strategy = None, io_fullRebuildFileFraction = None, io_methodFractionThreshold = None,
                   io_expansionHops = None, io_algorithm = None, io_excludeTests = False\<rparr>"

record method_summary =
  ms_bodyEdits :: nat
  ms_signatureChanges :: nat
  ms_added :: nat
  ms_deleted :: nat

record affected_region =
  ar_strategy :: strategy
  ar_seedFiles :: "string list"
  ar_resetFiles :: "string list"
  ar_resetNodeIds :: "string list"
  ar_atomicChanges :: "atomic_change list"
  ar_hierarchyDirty :: bool
  ar_importDirty :: "bool option"
  ar_fullRebuild :: "rebuild_reason option"
  ar_methodSummary :: method_summary
  ar_changedMethodFraction :: rat

text \<open>\<open>edges.find((x) => x.id === eid)\<close>: the first edge with the id.\<close>

definition first_edge :: "call_graph \<Rightarrow> string \<Rightarrow> call_edge option" where
  "first_edge g eid = find (\<lambda>x. e_id x = eid) (cg_edges g)"

definition seed_nodes :: "call_graph \<Rightarrow> change_set \<Rightarrow> string list \<Rightarrow> string list" where
  "seed_nodes prev cs seedFiles =
     (let direct = fold set_add (filter (\<lambda>i. i \<noteq> []) (List.map_filter mc_previousNodeId (cs_methods cs))) [];
          ids = (if direct = []
                 then fold set_add (map fn_id (filter (\<lambda>n. fn_filePath n \<in> set seedFiles) (map_values (cg_nodes prev)))) []
                 else direct)
      in fold (\<lambda>m s. case mc_previousNodeId m of
                 None \<Rightarrow> s
               | Some i \<Rightarrow>
                   if i \<noteq> [] \<and> (mc_kind m = SignatureChange \<or> mc_kind m = MethodDeleted)
                   then fold set_add (map e_callerId (List.map_filter (first_edge prev) (adjacent (inEdges prev) i))) s
                   else s)
           (cs_methods cs) ids)"

text \<open>One hop from one node: the pair is the affected set and the next frontier.\<close>

definition visit :: "string \<Rightarrow> string list \<times> string list \<Rightarrow> string list \<times> string list" where
  "visit i = (\<lambda>(affected, next). if i \<in> set affected then (affected, next) else (affected @ [i], next @ [i]))"

definition expand_node ::
  "call_graph \<Rightarrow> strategy \<Rightarrow> change_set \<Rightarrow> string \<Rightarrow> string list \<times> string list \<Rightarrow> string list \<times> string list" where
  "expand_node prev strat cs i st =
     (let callers = map e_callerId (List.map_filter (first_edge prev) (adjacent (inEdges prev) i));
          callees = map e_calleeId (List.map_filter (first_edge prev) (adjacent (outEdges prev) i));
          expandCallees = (strat = Eager \<or> hierarchyChanged (cs_structural cs) \<or>
            list_ex (\<lambda>m. mc_previousNodeId m = Some i \<and> mc_kind m \<noteq> BodyEdit) (cs_methods cs));
          st1 = fold visit callers st
      in if expandCallees then fold visit callees st1 else st1)"

fun expand_hops :: "call_graph \<Rightarrow> strategy \<Rightarrow> change_set \<Rightarrow> nat \<Rightarrow> string list \<Rightarrow> string list \<Rightarrow> string list" where
  "expand_hops prev strat cs 0 affected frontier = affected"
| "expand_hops prev strat cs (Suc h) affected frontier =
     (let (affected', next) = fold (expand_node prev strat cs) frontier (affected, [])
      in if next = [] then affected' else expand_hops prev strat cs h affected' next)"

definition broaden_virtual :: "call_graph \<Rightarrow> string list \<Rightarrow> string list" where
  "broaden_virtual prev affected =
     fold (\<lambda>e s. if e_virtual e \<or> e_resolution e = Cha \<or> e_resolution e = Rta \<or> e_resolution e = ImportContext
                 then set_add (e_calleeId e) (set_add (e_callerId e) s) else s)
       (cg_edges prev) affected"

text \<open>One pass of the closure loop, and the loop: it ends when a pass adds nothing.\<close>

definition closure_pass :: "call_edge list \<Rightarrow> string list \<Rightarrow> string list \<times> bool" where
  "closure_pass es affected =
     fold (\<lambda>e (s, closed). if e_calleeId e \<in> set s \<and> e_callerId e \<notin> set s
                           then (s @ [e_callerId e], False) else (s, closed)) es (affected, True)"

lemma closure_pass_grows:
  "fst (closure_pass es s) = s \<and> snd (closure_pass es s) \<or>
   (\<exists>x xs. fst (closure_pass es s) = s @ x # xs \<and> x \<notin> set s \<and> x \<in> e_callerId ` set es \<and> \<not> snd (closure_pass es s))"
  unfolding closure_pass_def
proof (induction es rule: rev_induct)
  case Nil
  then show ?case by simp
next
  case (snoc e es)
  then show ?case by (auto split: prod.splits)
qed

function caller_closure :: "call_edge list \<Rightarrow> string list \<Rightarrow> string list" where
  "caller_closure es s =
     (if snd (closure_pass es s) then fst (closure_pass es s) else caller_closure es (fst (closure_pass es s)))"
  by pat_completeness auto

termination caller_closure
proof (relation "measure (\<lambda>(es, s). card (e_callerId ` set es - set s))")
  fix es s assume "\<not> snd (closure_pass es s)"
  then obtain x xs where x: "fst (closure_pass es s) = s @ x # xs" "x \<notin> set s" "x \<in> e_callerId ` set es"
    using closure_pass_grows[of es s] by blast
  have "e_callerId ` set es - set (s @ x # xs) \<subset> e_callerId ` set es - set s"
    using x(2,3) by auto
  then have "card (e_callerId ` set es - set (s @ x # xs)) < card (e_callerId ` set es - set s)"
    by (intro psubset_card_mono) auto
  then show "((es, fst (closure_pass es s)), (es, s)) \<in> measure (\<lambda>(es, s). card (e_callerId ` set es - set s))"
    by (simp add: x(1))
qed simp

declare caller_closure.simps [simp del]

definition file_of_nodes :: "call_graph \<Rightarrow> string list \<Rightarrow> string list" where
  "file_of_nodes prev ids = map fn_filePath (List.map_filter (map_get (cg_nodes prev)) ids)"

definition summary_of :: "change_set \<Rightarrow> method_summary" where
  "summary_of cs =
     \<lparr>ms_bodyEdits = length (filter (\<lambda>m. mc_kind m = BodyEdit) (cs_methods cs)),
      ms_signatureChanges = length (filter (\<lambda>m. mc_kind m = SignatureChange) (cs_methods cs)),
      ms_added = length (filter (\<lambda>m. mc_kind m = MethodAdded) (cs_methods cs)),
      ms_deleted = length (filter (\<lambda>m. mc_kind m = MethodDeleted) (cs_methods cs))\<rparr>"

definition affected_nodes :: "call_graph \<Rightarrow> change_set \<Rightarrow> string list \<Rightarrow> strategy \<Rightarrow> nat \<Rightarrow> string list" where
  "affected_nodes prev cs seedFiles strat hops =
     (let seeds = seed_nodes prev cs seedFiles;
          expanded = expand_hops prev strat cs (if strat = Eager then min hops 8 else hops) seeds seeds;
          broad = (if hierarchyChanged (cs_structural cs) \<or> importChanged (cs_structural cs)
                   then broaden_virtual prev expanded else expanded)
      in caller_closure (cg_edges prev) broad)"

definition identifyAffectedRegion ::
  "call_graph \<Rightarrow> string list \<Rightarrow> repo_view \<Rightarrow> incremental_opts \<Rightarrow> affected_region" where
  "identifyAffectedRegion prev changedFiles view opts =
     (let strat = (case io_strategy opts of None \<Rightarrow> HybridStrategy | Some s \<Rightarrow> s);
          hops = (case io_expansionHops opts of Some h \<Rightarrow> h | None \<Rightarrow> if strat = Eager then 99 else 1);
          seedFiles = uniq (map normPath changedFiles);
          cs = classifyChanges prev seedFiles view;
          hd = hierarchyChanged (cs_structural cs);
          im = importChanged (cs_structural cs);
          region = \<lparr>ar_strategy = strat, ar_seedFiles = seedFiles, ar_resetFiles = [], ar_resetNodeIds = [],
                    ar_atomicChanges = changeSetToAtomic cs, ar_hierarchyDirty = hd, ar_importDirty = Some im,
                    ar_fullRebuild = None, ar_methodSummary = summary_of cs,
                    ar_changedMethodFraction = cs_changedMethodFraction cs\<rparr>;
          gate = shouldFullRebuildFromChangeSet cs
                   (case io_methodFractionThreshold opts of None \<Rightarrow> 1/4 | Some t \<Rightarrow> t)
      in if seedFiles = []
         then region\<lparr>ar_atomicChanges := [], ar_hierarchyDirty := False, ar_importDirty := None,
                     ar_fullRebuild := Some NoChangedFiles, ar_changedMethodFraction := 0\<rparr>
         else if gate \<noteq> None
         then region\<lparr>ar_resetFiles := seedFiles, ar_resetNodeIds := map fst (cg_nodes prev), ar_fullRebuild := gate\<rparr>
         else
           (let affected = affected_nodes prev cs seedFiles strat hops;
                resetFiles = fold set_add (seedFiles @ cs_addedFiles cs @ cs_deletedFiles cs
                               @ file_of_nodes prev affected) [];
                files = length (uniq (map fn_filePath (map_values (cg_nodes prev))));
                total = (if files = 0 then 1 else files);
                fraction = of_nat (length resetFiles) / of_nat (max total (length seedFiles));
                threshold = (case io_fullRebuildFileFraction opts of None \<Rightarrow> 2/5 | Some t \<Rightarrow> t)
            in if fraction \<ge> threshold \<and> length resetFiles \<ge> 5
               then region\<lparr>ar_resetFiles := resetFiles, ar_resetNodeIds := affected,
                           ar_fullRebuild := Some (ResetFileFraction fraction threshold)\<rparr>
               else region\<lparr>ar_resetFiles := resetFiles,
                           ar_resetNodeIds := map fn_id (filter (\<lambda>n. fn_filePath n \<in> set resetFiles)
                                                (map_values (cg_nodes prev)))\<rparr>))"

section \<open>Reset\<close>

definition cloneGraphShell :: "call_graph \<Rightarrow> call_graph" where
  "cloneGraphShell g = g\<lparr>outEdges := [], inEdges := [], byName := []\<rparr>"

record prune_result =
  pr_graph :: call_graph
  pr_prunedNodes :: nat
  pr_prunedEdges :: nat

definition prune_node ::
  "string \<Rightarrow> (string, function_node) jsmap \<times> nat \<Rightarrow> (string, function_node) jsmap \<times> nat" where
  "prune_node i = (\<lambda>(m, k). if map_has m i then (map_del m i, k + 1) else (m, k))"

definition pruneAffectedRegion :: "call_graph \<Rightarrow> string list \<Rightarrow> prune_result" where
  "pruneAffectedRegion graph reset =
     (let g = cloneGraphShell graph;
          (nodes, pruned) = fold prune_node reset (cg_nodes g, 0);
          kept = filter (\<lambda>e. e_callerId e \<notin> set reset \<and> e_calleeId e \<notin> set reset) (cg_edges g)
      in \<lparr>pr_graph = rebuildAdjacency (g\<lparr>cg_nodes := nodes, cg_edges := kept\<rparr>),
          pr_prunedNodes = pruned,
          pr_prunedEdges = length (cg_edges g) - length kept\<rparr>)"

section \<open>Recompute\<close>

text \<open>The two builds of the front end: all files of the repository, or the files to reanalyse.\<close>

definition views_of :: "repo_view \<Rightarrow> bool \<Rightarrow> string list \<Rightarrow> file_view list" where
  "views_of view excludeTests files =
     filter (\<lambda>v. \<not> (excludeTests \<and> fv_isTest v)) (List.map_filter view files)"

definition buildCallGraph :: "string \<Rightarrow> string \<Rightarrow> repo_view \<Rightarrow> string list \<Rightarrow> incremental_opts \<Rightarrow> call_graph" where
  "buildCallGraph rootDir now view files opts =
     (let vs = views_of view (io_excludeTests opts) files
      in assembleGraph rootDir now (case io_algorithm opts of None \<Rightarrow> Hybrid | Some a \<Rightarrow> a)
           (concat (map fv_instantiated vs)) (fold (\<lambda>v m. spread m (fv_parents v)) vs [])
           (concat (map fv_fns vs)))"

definition reanalyzeFiles :: "repo_view \<Rightarrow> string list \<Rightarrow> call_graph \<Rightarrow> incremental_opts \<Rightarrow> partial_analysis" where
  "reanalyzeFiles view files survivor opts =
     (let vs = views_of view (io_excludeTests opts) files
      in reanalyze (case io_algorithm opts of None \<Rightarrow> Hybrid | Some a \<Rightarrow> a)
           (concat (map fv_instantiated vs)) (fold (\<lambda>v m. spread m (fv_parents v)) vs [])
           (concat (map fv_fns vs)) survivor)"

text \<open>Merge of the partial analysis: nodes overwrite, edges are appended when both endpoints exist and
  the id is new.\<close>

definition merge_edge :: "(string, function_node) jsmap \<Rightarrow> call_edge \<Rightarrow> call_edge list \<Rightarrow> call_edge list" where
  "merge_edge nodes e es =
     (if \<not> (map_has nodes (e_callerId e) \<and> map_has nodes (e_calleeId e)) then es
      else if e_id e \<in> e_id ` set es then es
      else es @ [e])"

definition mergePartial :: "call_graph \<Rightarrow> partial_analysis \<Rightarrow> call_graph" where
  "mergePartial surviving pa =
     (let nodes = fold (\<lambda>(i, n) m. map_set m i n) (pa_nodes pa) (cg_nodes surviving)
      in surviving\<lparr>cg_nodes := nodes, cg_edges := fold (merge_edge nodes) (pa_edges pa) (cg_edges surviving)\<rparr>)"

record incremental_stats =
  is_fullRebuild :: bool
  is_changedFiles :: "string list"
  is_resetFiles :: "string list"
  is_prunedNodes :: nat
  is_prunedEdges :: nat
  is_reusedNodes :: nat
  is_reusedEdges :: nat
  is_recomputedNodes :: nat
  is_recomputedEdges :: nat

definition resetRecomputeCallGraph ::
  "call_graph \<Rightarrow> string list \<Rightarrow> repo_view \<Rightarrow> string list \<Rightarrow> string \<Rightarrow> incremental_opts \<Rightarrow>
   call_graph \<times> incremental_stats" where
  "resetRecomputeCallGraph prev changedFiles view files now opts =
     (let region = identifyAffectedRegion prev changedFiles view opts
      in if ar_fullRebuild region \<noteq> None
         then (let g = buildCallGraph (repoRoot prev) now view files opts
               in (g, \<lparr>is_fullRebuild = True, is_changedFiles = ar_seedFiles region,
                       is_resetFiles = ar_resetFiles region,
                       is_prunedNodes = nodeCount (cg_stats prev), is_prunedEdges = edgeCount (cg_stats prev),
                       is_reusedNodes = 0, is_reusedEdges = 0,
                       is_recomputedNodes = nodeCount (cg_stats g), is_recomputedEdges = edgeCount (cg_stats g)\<rparr>))
         else
           (let reset = fold set_add (ar_resetNodeIds region @
                          map fn_id (filter (\<lambda>n. fn_filePath n \<in> set (ar_resetFiles region)) (map_values (cg_nodes prev)))) [];
                pr = pruneAffectedRegion prev reset;
                pa = reanalyzeFiles view (filter (\<lambda>f. view f \<noteq> None) (ar_resetFiles region)) (pr_graph pr) opts;
                merged = mergePartial (pr_graph pr) pa;
                h = (if ar_hierarchyDirty region then mergeHierarchies (cg_hierarchy prev) (pa_hierarchy pa)
                     else mergeHierarchies (cg_hierarchy (pr_graph pr)) (pa_hierarchy pa));
                g = (rebuildAdjacency (merged\<lparr>cg_hierarchy := h\<rparr>))
                      \<lparr>builtAt := now,
                       cg_algorithm := (case io_algorithm opts of None \<Rightarrow> cg_algorithm prev | Some a \<Rightarrow> a),
                       cg_stats := \<lparr>nodeCount = length (cg_nodes merged), edgeCount = length (cg_edges merged),
                                    directEdges = length (filter (\<lambda>e. e_resolution e = Direct) (cg_edges merged)),
                                    approxEdges = length (filter (\<lambda>e. e_resolution e \<noteq> Direct) (cg_edges merged))\<rparr>\<rparr>;
                recomputed = length (cg_edges merged) - length (cg_edges (pr_graph pr))
            in (g, \<lparr>is_fullRebuild = False, is_changedFiles = ar_seedFiles region,
                    is_resetFiles = ar_resetFiles region,
                    is_prunedNodes = pr_prunedNodes pr, is_prunedEdges = pr_prunedEdges pr,
                    is_reusedNodes = length (cg_nodes g) - length (pa_nodes pa),
                    is_reusedEdges = length (cg_edges g) - recomputed,
                    is_recomputedNodes = length (pa_nodes pa), is_recomputedEdges = recomputed\<rparr>)))"

section \<open>Comparison with a full rebuild\<close>

definition stableKey :: "function_node \<Rightarrow> string" where
  "stableKey n = fn_filePath n @ ''::'' @ (case fn_enclosingType n of None \<Rightarrow> [] | Some t \<Rightarrow> t) @ ''::'' @ fn_name n"

definition call_pair :: "call_graph \<Rightarrow> call_edge \<Rightarrow> string option" where
  "call_pair g e =
     (case (map_get (cg_nodes g) (e_callerId e), map_get (cg_nodes g) (e_calleeId e)) of
        (Some a, Some b) \<Rightarrow> Some (stableKey a @ ''=>'' @ stableKey b)
      | _ \<Rightarrow> None)"

definition graphCallPairs :: "call_graph \<Rightarrow> string list" where
  "graphCallPairs g = uniq (List.map_filter (call_pair g) (cg_edges g))"

record soundness_report =
  sr_ok :: bool
  sr_missingEdges :: "string list"
  sr_extraEdges :: "string list"
  sr_missingNodes :: "string list"
  sr_edgeRecall :: rat
  sr_nodeRecall :: rat
  sr_fullNodeCount :: nat
  sr_incrementalNodeCount :: nat

definition validateAgainstFullRebuild :: "call_graph \<Rightarrow> call_graph \<Rightarrow> soundness_report" where
  "validateAgainstFullRebuild candidate full =
     (let pInc = graphCallPairs candidate; pFull = graphCallPairs full;
          missing = filter (\<lambda>e. e \<notin> set pInc) pFull;
          extra = filter (\<lambda>e. e \<notin> set pFull) pInc;
          fullNodes = uniq (map stableKey (map_values (cg_nodes full)));
          incNodes = uniq (map stableKey (map_values (cg_nodes candidate)));
          missingNodes = filter (\<lambda>n. n \<notin> set incNodes) fullNodes
      in \<lparr>sr_ok = (length missing = 0), sr_missingEdges = missing, sr_extraEdges = extra,
          sr_missingNodes = missingNodes,
          sr_edgeRecall = (if length pFull = 0 then 1
                           else of_nat (length pFull - length missing) / of_nat (length pFull)),
          sr_nodeRecall = (if length fullNodes = 0 then 1
                           else of_nat (length fullNodes - length missingNodes) / of_nat (length fullNodes)),
          sr_fullNodeCount = length fullNodes, sr_incrementalNodeCount = length incNodes\<rparr>)"

section \<open>The closure loop\<close>

lemma closure_pass_closed:
  assumes "snd (closure_pass es s)"
  shows "list_all (\<lambda>e. e_calleeId e \<in> set s \<longrightarrow> e_callerId e \<in> set s) es"
proof -
  have "snd (closure_pass es s) \<longrightarrow> fst (closure_pass es s) = s \<and>
          list_all (\<lambda>e. e_calleeId e \<in> set s \<longrightarrow> e_callerId e \<in> set s) es"
    unfolding closure_pass_def by (induction es rule: rev_induct) (auto split: prod.splits)
  with assms show ?thesis by blast
qed

lemma closure_pass_least:
  assumes "set s \<subseteq> T" and "\<And>e. e \<in> set es \<Longrightarrow> e_calleeId e \<in> T \<Longrightarrow> e_callerId e \<in> T"
  shows "set (fst (closure_pass es s)) \<subseteq> T"
  using assms(2) unfolding closure_pass_def
  by (induction es rule: rev_induct) (use assms(1) in \<open>auto split: prod.splits\<close>)

lemma caller_closure_spec:
  "set s \<subseteq> set (caller_closure es s) \<and>
   list_all (\<lambda>e. e_calleeId e \<in> set (caller_closure es s) \<longrightarrow> e_callerId e \<in> set (caller_closure es s)) es"
proof (induction es s rule: caller_closure.induct)
  case (1 es s)
  show ?case
  proof (cases "snd (closure_pass es s)")
    case True
    then have "fst (closure_pass es s) = s" using closure_pass_grows[of es s] by auto
    with True closure_pass_closed[OF True] show ?thesis by (subst (1 2 3) caller_closure.simps) simp
  next
    case False
    have "set s \<subseteq> set (fst (closure_pass es s))" using closure_pass_grows[of es s] by auto
    with 1[OF False] False show ?thesis by (subst (1 2 3) caller_closure.simps) auto
  qed
qed

lemma caller_closure_least:
  assumes "\<And>e. e \<in> set es \<Longrightarrow> e_calleeId e \<in> T \<Longrightarrow> e_callerId e \<in> T" and "set s \<subseteq> T"
  shows "set (caller_closure es s) \<subseteq> T"
  using assms
proof (induction es s rule: caller_closure.induct)
  case (1 es s)
  have "set (fst (closure_pass es s)) \<subseteq> T" by (rule closure_pass_least) (use 1(2,3) in blast)+
  with 1 show ?case by (subst caller_closure.simps) simp
qed

definition caller_closed :: "call_edge list \<Rightarrow> string set \<Rightarrow> bool" where
  "caller_closed es T \<longleftrightarrow> list_all (\<lambda>e. e_calleeId e \<in> T \<longrightarrow> e_callerId e \<in> T) es"

text \<open>The affected nodes are closed under callers. Whatever the strategy, the hop bound and
  the change set, a function whose callee is affected is affected: the closure loop returns, and
  with the least such set that contains its start.\<close>

theorem affected_nodes_caller_closed:
  "caller_closed (cg_edges prev) (set (affected_nodes prev cs seedFiles strat hops)) \<and>
   set (caller_closure es s) = \<Inter> {T. set s \<subseteq> T \<and> caller_closed es T}"
proof
  show "caller_closed (cg_edges prev) (set (affected_nodes prev cs seedFiles strat hops))"
    using caller_closure_spec by (simp add: affected_nodes_def Let_def caller_closed_def)
  have "set (caller_closure es s) \<in> {T. set s \<subseteq> T \<and> caller_closed es T}"
    using caller_closure_spec[of s es] by (simp add: caller_closed_def)
  moreover have "set (caller_closure es s) \<subseteq> T" if "set s \<subseteq> T" "caller_closed es T" for T
    by (rule caller_closure_least) (use that in \<open>auto simp: caller_closed_def list_all_iff\<close>)
  ultimately show "set (caller_closure es s) = \<Inter> {T. set s \<subseteq> T \<and> caller_closed es T}" by blast
qed

section \<open>The reset phase\<close>

definition dangling_free :: "call_graph \<Rightarrow> bool" where
  "dangling_free g \<longleftrightarrow> list_all (endpoints_known g) (cg_edges g)"

lemma map_del_length:
  fixes m :: "('k, 'v) jsmap"
  assumes "map_ok m" and "map_has m i"
  shows "length (map_del m i) + 1 = length m"
proof -
  have "distinct (map fst m) \<Longrightarrow> map_of m i \<noteq> None \<Longrightarrow> length (AList.delete i m) + 1 = length m"
  proof (induction m)
    case (Cons x m)
    show ?case
    proof (cases "fst x = i")
      case True
      with Cons.prems(1) have "i \<notin> fst ` set m" by auto
      then have "AList.delete i m = m" by simp
      with True show ?thesis by (cases x) simp
    next
      case False
      with Cons show ?thesis by (cases x) auto
    qed
  qed simp
  with assms show ?thesis by (simp add: map_ok_def map_has_def map_del_def)
qed

lemma map_del_sub: "set (map_del m i) \<subseteq> set m"
  by (auto simp: map_del_def AList.delete_eq)

lemma prune_fold:
  assumes "map_ok m"
  shows "map_ok (fst (fold prune_node reset (m, k))) \<and>
    (\<forall>i. map_get (fst (fold prune_node reset (m, k))) i = (if i \<in> set reset then None else map_get m i)) \<and>
    set (fst (fold prune_node reset (m, k))) \<subseteq> set m \<and>
    snd (fold prune_node reset (m, k)) + length (fst (fold prune_node reset (m, k))) = k + length m"
  using assms
proof (induction reset arbitrary: m k)
  case Nil
  then show ?case by simp
next
  case (Cons i reset)
  show ?case
  proof (cases "map_has m i")
    case True
    have len: "length m = length (map_del m i) + 1" using map_del_length[OF Cons.prems True] by simp
    have "prune_node i (m, k) = (map_del m i, k + 1)" using True by (simp add: prune_node_def)
    then show ?thesis
      using Cons.IH[OF js.ok_del[OF Cons.prems, of i], of "k + 1"] map_del_sub[of m i] len
      by (auto simp: js.get_del)
  next
    case False
    then have "prune_node i (m, k) = (m, k)" by (simp add: prune_node_def)
    then show ?thesis using False Cons.IH[OF Cons.prems, of k] by (auto simp: map_has_iff)
  qed
qed

lemma endpoints_known_cong: "cg_nodes g = cg_nodes h \<Longrightarrow> endpoints_known g = endpoints_known h"
  by (rule ext) (simp add: endpoints_known_def)

lemma prune_sel:
  "cg_nodes (pr_graph (pruneAffectedRegion g reset)) = fst (fold prune_node reset (cg_nodes g, 0))"
  "cg_edges (pr_graph (pruneAffectedRegion g reset)) =
     filter (\<lambda>e. e_callerId e \<notin> set reset \<and> e_calleeId e \<notin> set reset) (cg_edges g)"
  "cg_hierarchy (pr_graph (pruneAffectedRegion g reset)) = cg_hierarchy g"
  "pr_prunedNodes (pruneAffectedRegion g reset) = snd (fold prune_node reset (cg_nodes g, 0))"
  "pr_prunedEdges (pruneAffectedRegion g reset) = length (cg_edges g) -
     length (filter (\<lambda>e. e_callerId e \<notin> set reset \<and> e_calleeId e \<notin> set reset) (cg_edges g))"
  by (simp_all add: pruneAffectedRegion_def cloneGraphShell_def Let_def split_beta)

lemma prune_nodes_get:
  assumes "keyed_by_id g"
  shows "map_get (cg_nodes (pr_graph (pruneAffectedRegion g reset))) i =
     (if i \<in> set reset then None else map_get (cg_nodes g) i)"
  using prune_fold[of "cg_nodes g" reset 0] assms by (simp add: prune_sel keyed_by_id_def)

lemma prune_keyed:
  assumes "keyed_by_id g"
  shows "keyed_by_id (pr_graph (pruneAffectedRegion g reset))"
proof -
  have "map_ok (cg_nodes g)" using assms by (simp add: keyed_by_id_def)
  from prune_fold[OF this, of reset 0] assms show ?thesis
    unfolding keyed_by_id_def prune_sel
    by (auto simp: list_all_iff distinct_map_filter)
qed

lemma prune_indexed:
  assumes "keyed_by_id g"
  shows "indexed (pr_graph (pruneAffectedRegion g reset))"
proof -
  let ?h = "(cloneGraphShell g)\<lparr>cg_nodes := fst (fold prune_node reset (cg_nodes g, 0)),
     cg_edges := filter (\<lambda>e. e_callerId e \<notin> set reset \<and> e_calleeId e \<notin> set reset) (cg_edges g)\<rparr>"
  have eq: "pr_graph (pruneAffectedRegion g reset) = rebuildAdjacency ?h"
    by (simp add: pruneAffectedRegion_def cloneGraphShell_def Let_def split_beta)
  have "keyed_by_id ?h"
    using prune_keyed[OF assms, of reset] unfolding eq by (simp add: keyed_by_id_def)
  then show ?thesis unfolding eq by (rule rebuild_indexed)
qed

lemma prune_dangling_free:
  assumes "keyed_by_id g" and "dangling_free g"
  shows "dangling_free (pr_graph (pruneAffectedRegion g reset))"
  using assms(2) prune_nodes_get[OF assms(1), of reset]
  by (auto simp: dangling_free_def list_all_iff endpoints_known_def map_has_iff prune_sel(2))

text \<open>The reset phase removes exactly the reset nodes and their incident edges. A node survives
  unchanged or is in the reset set, no surviving edge touches a reset node, the counters account for
  everything removed, and the survivor's index is consistent.\<close>

theorem prune_exact:
  assumes "keyed_by_id g" and "dangling_free g"
    and "r = pruneAffectedRegion g reset"
  shows "map_get (cg_nodes (pr_graph r)) i = (if i \<in> set reset then None else map_get (cg_nodes g) i) \<and>
    cg_edges (pr_graph r) = filter (\<lambda>e. e_callerId e \<notin> set reset \<and> e_calleeId e \<notin> set reset) (cg_edges g) \<and>
    pr_prunedNodes r + length (cg_nodes (pr_graph r)) = length (cg_nodes g) \<and>
    pr_prunedEdges r + length (cg_edges (pr_graph r)) = length (cg_edges g) \<and>
    indexed (pr_graph r) \<and> dangling_free (pr_graph r)"
proof (intro conjI)
  have "map_ok (cg_nodes g)" using assms(1) by (simp add: keyed_by_id_def)
  then show "pr_prunedNodes r + length (cg_nodes (pr_graph r)) = length (cg_nodes g)"
    using prune_fold[of "cg_nodes g" reset 0] by (simp add: assms(3) prune_sel)
  show "pr_prunedEdges r + length (cg_edges (pr_graph r)) = length (cg_edges g)"
    by (simp add: assms(3) prune_sel)
qed (simp_all add: assms(3) prune_nodes_get[OF assms(1)] prune_sel(2)
      prune_indexed[OF assms(1)] prune_dangling_free[OF assms(1,2)])

section \<open>The merge keeps the graph well formed\<close>

lemma merge_nodes_ok:
  fixes new m :: "(string, function_node) jsmap"
  assumes "map_ok m" and "list_all (\<lambda>(k, n). fn_id n = k) m" and "list_all (\<lambda>(k, n). fn_id n = k) new"
  shows "map_ok (fold (\<lambda>(i, n) m. map_set m i n) new m) \<and>
    list_all (\<lambda>(k, n). fn_id n = k) (fold (\<lambda>(i, n) m. map_set m i n) new m)"
proof -
  have upd: "list_all (\<lambda>(k, n). fn_id n = k) m \<Longrightarrow> fn_id v = k \<Longrightarrow>
     list_all (\<lambda>(k, n). fn_id n = k) (AList.update k v m)" for k v and m :: "(string, function_node) jsmap"
    by (induction m) auto
  show ?thesis
  proof (rule fold_inv[where P = "\<lambda>m. map_ok m \<and> list_all (\<lambda>(k, n). fn_id n = k) m"])
    show "map_ok m \<and> list_all (\<lambda>(k, n). fn_id n = k) m" using assms(1,2) by simp
    fix x and m :: "(string, function_node) jsmap"
    assume "x \<in> set new" and m: "map_ok m \<and> list_all (\<lambda>(k, n). fn_id n = k) m"
    then have "fn_id (snd x) = fst x" using assms(3) by (auto simp: list_all_iff)
    with m upd[of m "snd x" "fst x"] show
      "map_ok ((\<lambda>(i, n) m. map_set m i n) x m) \<and> list_all (\<lambda>(k, n). fn_id n = k) ((\<lambda>(i, n) m. map_set m i n) x m)"
      by (simp add: split_beta js.ok_put) (simp add: map_set_def)
  qed
qed

lemma merge_nodes_has:
  "map_has m i \<Longrightarrow> map_has (fold (\<lambda>(i, n) m. map_set m i n) new m) i"
  by (rule fold_inv[where P = "\<lambda>m. map_has m i"]) (auto simp: map_has_iff js.get_put)

lemma merge_edges_ok:
  assumes "distinct (map e_id es)" and "list_all (\<lambda>e. map_has nodes (e_callerId e) \<and> map_has nodes (e_calleeId e)) es"
  shows "distinct (map e_id (fold (merge_edge nodes) new es)) \<and>
    list_all (\<lambda>e. map_has nodes (e_callerId e) \<and> map_has nodes (e_calleeId e)) (fold (merge_edge nodes) new es) \<and>
    set es \<subseteq> set (fold (merge_edge nodes) new es) \<and> set (fold (merge_edge nodes) new es) \<subseteq> set es \<union> set new"
  by (rule fold_inv[where P = "\<lambda>fs. distinct (map e_id fs) \<and>
       list_all (\<lambda>e. map_has nodes (e_callerId e) \<and> map_has nodes (e_calleeId e)) fs \<and>
       set es \<subseteq> set fs \<and> set fs \<subseteq> set es \<union> set new"])
    (use assms in \<open>auto simp: merge_edge_def\<close>)

lemma merge_wf:
  assumes "keyed_by_id g" and "dangling_free g" and "list_all (\<lambda>(k, n). fn_id n = k) (pa_nodes pa)"
  shows "keyed_by_id (mergePartial g pa)" "dangling_free (mergePartial g pa)"
    "set (cg_edges g) \<subseteq> set (cg_edges (mergePartial g pa))"
proof -
  let ?nodes = "fold (\<lambda>(i, n) m. map_set m i n) (pa_nodes pa) (cg_nodes g)"
  have g: "map_ok (cg_nodes g)" "list_all (\<lambda>(k, n). fn_id n = k) (cg_nodes g)" "distinct (map e_id (cg_edges g))"
    using assms(1) by (simp_all add: keyed_by_id_def)
  have "list_all (\<lambda>e. map_has ?nodes (e_callerId e) \<and> map_has ?nodes (e_calleeId e)) (cg_edges g)"
    using assms(2) by (auto simp: dangling_free_def endpoints_known_def list_all_iff intro: merge_nodes_has)
  from merge_edges_ok[OF g(3) this, of "pa_edges pa"] merge_nodes_ok[OF g(1,2) assms(3)]
  show "keyed_by_id (mergePartial g pa)" "dangling_free (mergePartial g pa)"
    "set (cg_edges g) \<subseteq> set (cg_edges (mergePartial g pa))"
    by (simp_all add: mergePartial_def Let_def keyed_by_id_def dangling_free_def endpoints_known_def list_all_iff)
qed

lemma nodes_of_keyed: "list_all (\<lambda>(k, n). fn_id n = k) (nodes_of fns)"
  using nodes_of_get[of fns] map_ok_nodes_of[of fns]
  by (auto simp: list_all_iff map_ok_def map_get_def)

lemma reanalyze_nodes_keyed: "list_all (\<lambda>(k, n). fn_id n = k) (pa_nodes (reanalyzeFiles view files g opts))"
  by (simp add: reanalyzeFiles_def reanalyze_def Let_def nodes_of_keyed)

text \<open>The index depends on nodes and edges only.\<close>

lemma indexed_cong:
  assumes "cg_nodes g = cg_nodes h" "cg_edges g = cg_edges h" "outEdges g = outEdges h" "inEdges g = inEdges h"
  shows "indexed g \<longleftrightarrow> indexed h"
  using endpoints_known_cong[OF assms(1)] assms
  by (simp add: indexed_def keyed_by_id_def rebuild_in rebuild_out)

section \<open>The reset-recompute pipeline\<close>

lemma set_fold_set_add [simp]: "set (fold set_add xs s) = set s \<union> set xs"
  by (induction xs arbitrary: s) (auto simp: set_add_def)

definition reset_ids :: "call_graph \<Rightarrow> affected_region \<Rightarrow> string list" where
  "reset_ids prev region =
     fold set_add (ar_resetNodeIds region @
       map fn_id (filter (\<lambda>n. fn_filePath n \<in> set (ar_resetFiles region)) (map_values (cg_nodes prev)))) []"

definition recomputed_graph :: "call_graph \<Rightarrow> affected_region \<Rightarrow> repo_view \<Rightarrow> incremental_opts \<Rightarrow> call_graph" where
  "recomputed_graph prev region view opts =
     (let surviving = pr_graph (pruneAffectedRegion prev (reset_ids prev region))
      in mergePartial surviving
           (reanalyzeFiles view (filter (\<lambda>f. view f \<noteq> None) (ar_resetFiles region)) surviving opts))"

lemma reset_recompute_graph:
  assumes "ar_fullRebuild (identifyAffectedRegion prev changed view opts) = None"
    and "region = identifyAffectedRegion prev changed view opts"
    and "g = fst (resetRecomputeCallGraph prev changed view files now opts)"
  shows "cg_nodes g = cg_nodes (recomputed_graph prev region view opts)"
    "cg_edges g = cg_edges (recomputed_graph prev region view opts)"
    "outEdges g = outEdges (rebuildAdjacency (recomputed_graph prev region view opts))"
    "inEdges g = inEdges (rebuildAdjacency (recomputed_graph prev region view opts))"
    "nodeCount (cg_stats g) = length (cg_nodes g)" "edgeCount (cg_stats g) = length (cg_edges g)"
    "directEdges (cg_stats g) + approxEdges (cg_stats g) = length (cg_edges g)"
proof -
  have cong: "rebuildAdjacency (m\<lparr>cg_hierarchy := h\<rparr>) = (rebuildAdjacency m)\<lparr>cg_hierarchy := h\<rparr>" for m h
    using endpoints_known_cong[of "m\<lparr>cg_hierarchy := h\<rparr>" m] by (simp add: rebuildAdjacency_def Let_def)
  note defs = assms(2,3) resetRecomputeCallGraph_def Let_def recomputed_graph_def reset_ids_def
  show "cg_nodes g = cg_nodes (recomputed_graph prev region view opts)"
    "cg_edges g = cg_edges (recomputed_graph prev region view opts)"
    "outEdges g = outEdges (rebuildAdjacency (recomputed_graph prev region view opts))"
    "inEdges g = inEdges (rebuildAdjacency (recomputed_graph prev region view opts))"
    "nodeCount (cg_stats g) = length (cg_nodes g)" "edgeCount (cg_stats g) = length (cg_edges g)"
    "directEdges (cg_stats g) + approxEdges (cg_stats g) = length (cg_edges g)"
    using assms(1) by (simp_all add: defs cong sum_length_filter_compl)
qed

text \<open>Claim C28: an incremental update yields a well-formed graph. From a well-formed previous graph the
  reset-recompute path returns a graph keyed by id, with distinct edge ids, no dangling edge, an index
  that is the rebuilt one and counters that match.\<close>

theorem reset_recompute_wellformed:
  assumes "keyed_by_id prev" and "dangling_free prev"
    and "ar_fullRebuild (identifyAffectedRegion prev changed view opts) = None"
    and "g = fst (resetRecomputeCallGraph prev changed view files now opts)"
  shows "indexed g \<and> dangling_free g \<and> nodeCount (cg_stats g) = length (cg_nodes g) \<and>
    edgeCount (cg_stats g) = length (cg_edges g) \<and>
    directEdges (cg_stats g) + approxEdges (cg_stats g) = edgeCount (cg_stats g)"
proof -
  let ?region = "identifyAffectedRegion prev changed view opts"
  let ?m = "recomputed_graph prev ?region view opts"
  note eqs = reset_recompute_graph[OF assms(3) refl assms(4)]
  have m: "keyed_by_id ?m" "dangling_free ?m"
    unfolding recomputed_graph_def Let_def
    by (rule merge_wf prune_keyed prune_dangling_free assms reanalyze_nodes_keyed)+
  have "indexed g"
    using rebuild_indexed[OF m(1)] eqs(1-4) by (subst indexed_cong[of g "rebuildAdjacency ?m"]) simp_all
  moreover have "dangling_free g"
    using m(2) endpoints_known_cong[OF eqs(1)] eqs(2) by (simp add: dangling_free_def)
  ultimately show ?thesis using eqs(5-7) by simp
qed

lemma region_reset_ids:
  assumes "keyed_by_id prev" and "ar_fullRebuild (identifyAffectedRegion prev changed view opts) = None"
    and "map_get (cg_nodes prev) i = Some n"
    and "i \<in> set (reset_ids prev (identifyAffectedRegion prev changed view opts))"
  shows "fn_filePath n \<in> set (ar_resetFiles (identifyAffectedRegion prev changed view opts))"
proof -
  let ?r = "identifyAffectedRegion prev changed view opts"
  have "ar_resetNodeIds ?r = map fn_id (filter (\<lambda>n. fn_filePath n \<in> set (ar_resetFiles ?r)) (map_values (cg_nodes prev)))"
    using assms(2) by (auto simp: identifyAffectedRegion_def Let_def split: if_splits)
  with assms(4) obtain n' where n': "n' \<in> set (map_values (cg_nodes prev))" "fn_id n' = i"
    "fn_filePath n' \<in> set (ar_resetFiles ?r)"
    by (auto simp: reset_ids_def)
  have "map_ok (cg_nodes prev)" using assms(1) by (simp add: keyed_by_id_def)
  from map_values_get[OF this n'(1)] obtain k where k: "map_get (cg_nodes prev) k = Some n'" by blast
  with keyed_get[OF assms(1) k] n'(2,3) assms(3) show ?thesis by simp
qed

text \<open>What lies outside the reset files survives. A call edge of the previous graph whose
  caller and callee are both in files that are not reset is an edge of the updated graph, verbatim.\<close>

theorem reset_recompute_keeps_untouched:
  assumes "keyed_by_id prev" and "dangling_free prev"
    and "ar_fullRebuild (identifyAffectedRegion prev changed view opts) = None"
    and "e \<in> set (cg_edges prev)"
    and "map_get (cg_nodes prev) (e_callerId e) = Some a"
    and "map_get (cg_nodes prev) (e_calleeId e) = Some b"
    and "fn_filePath a \<notin> set (ar_resetFiles (identifyAffectedRegion prev changed view opts))"
    and "fn_filePath b \<notin> set (ar_resetFiles (identifyAffectedRegion prev changed view opts))"
  shows "e \<in> set (cg_edges (fst (resetRecomputeCallGraph prev changed view files now opts)))"
proof -
  let ?r = "identifyAffectedRegion prev changed view opts"
  let ?s = "pr_graph (pruneAffectedRegion prev (reset_ids prev ?r))"
  have "e \<in> set (cg_edges ?s)"
    using assms(4,7,8) region_reset_ids[OF assms(1,3,5)] region_reset_ids[OF assms(1,3,6)]
    by (auto simp: prune_sel)
  then show ?thesis
    using merge_wf(3)[OF prune_keyed[OF assms(1)] prune_dangling_free[OF assms(1,2)] reanalyze_nodes_keyed]
    unfolding reset_recompute_graph(2)[OF assms(3) refl refl] recomputed_graph_def Let_def by blast
qed

section \<open>A call edge the update loses\<close>

text \<open>\<open>a.ts\<close> holds \<open>f\<close> and \<open>g\<close>, \<open>h\<close> of \<open>b.ts\<close> calls \<open>g\<close>, \<open>d.ts\<close> holds six further functions. The edit
  changes the body of \<open>f\<close> only.\<close>

definition method_of :: "raw_fn \<Rightarrow> extracted_method" where
  "method_of f = \<lparr>xm_name = rf_name f, xm_enclosingType = rf_enclosingType f, xm_bodyHash = rf_bodyHash f,
                 xm_signature = ''()''\<rparr>"

definition view_of :: "raw_fn list \<Rightarrow> file_view" where
  "view_of fns = \<lparr>fv_hierarchySignal = False, fv_importSignal = False, fv_methods = map method_of fns,
                 fv_isTest = False, fv_fns = fns, fv_instantiated = [], fv_parents = []\<rparr>"

definition edit_files :: "string list" where
  "edit_files = [''a.ts'', ''b.ts'', ''d.ts'']"

definition edit_view :: "string \<Rightarrow> repo_view" where
  "edit_view hash file =
     (if file = ''a.ts''
      then Some (view_of [(sample_fn ''a.ts'' ''f'' 1 [])\<lparr>rf_bodyHash := hash\<rparr>, sample_fn ''a.ts'' ''g'' 5 []])
      else if file = ''b.ts'' then Some (view_of [sample_fn ''b.ts'' ''h'' 1 [''g'']])
      else if file = ''d.ts''
      then Some (view_of (map (\<lambda>nm. sample_fn ''d.ts'' nm 1 []) [''p'', ''q'', ''r'', ''s'', ''t'', ''u'']))
      else None)"

definition edit_before :: call_graph where
  "edit_before = buildCallGraph ''/r'' ''t0'' (edit_view ''1'') edit_files default_opts"

definition edit_incremental :: call_graph where
  "edit_incremental = fst (resetRecomputeCallGraph edit_before [''a.ts''] (edit_view ''2'') edit_files ''t1'' default_opts)"

definition edit_rebuilt :: call_graph where
  "edit_rebuilt = buildCallGraph ''/r'' ''t1'' (edit_view ''2'') edit_files default_opts"

lemma edit_pairs:
  "graphCallPairs edit_rebuilt = [''b.ts::::h=>a.ts::::g'']" "graphCallPairs edit_incremental = []"
  by code_simp+

lemma edit_before_wf: "keyed_by_id edit_before" "dangling_free edit_before"
  unfolding edit_before_def buildCallGraph_def Let_def
  by (rule assembleGraph_keyed) code_simp

lemma edit_region:
  "ar_fullRebuild (identifyAffectedRegion edit_before [''a.ts''] (edit_view ''2'') default_opts) = None"
  "ar_resetFiles (identifyAffectedRegion edit_before [''a.ts''] (edit_view ''2'') default_opts) = [''a.ts'']"
  by code_simp+

text \<open>The incremental update can lose a call edge that a full rebuild has. The body of one
  function of \<open>a.ts\<close> changes; the pipeline does not fall back to a full build, resets the whole file
  \<open>a.ts\<close>, drops with it the edge from \<open>b.ts\<close> into the unchanged function \<open>g\<close>, and never reanalyses
  \<open>b.ts\<close>; the soundness check against the rebuilt graph reports the missing edge.\<close>

theorem incremental_loses_call_edge:
  "ar_fullRebuild (identifyAffectedRegion edit_before [''a.ts''] (edit_view ''2'') default_opts) = None \<and>
   ar_resetFiles (identifyAffectedRegion edit_before [''a.ts''] (edit_view ''2'') default_opts) = [''a.ts''] \<and>
   graphCallPairs edit_before = graphCallPairs edit_rebuilt \<and>
   sr_missingEdges (validateAgainstFullRebuild edit_incremental edit_rebuilt) = [''b.ts::::h=>a.ts::::g''] \<and>
   \<not> sr_ok (validateAgainstFullRebuild edit_incremental edit_rebuilt)"
proof -
  have "graphCallPairs edit_before = [''b.ts::::h=>a.ts::::g'']" by code_simp
  then show ?thesis by (simp add: edit_region validateAgainstFullRebuild_def Let_def edit_pairs)
qed

text \<open>The fraction the rebuild heuristic uses counts the methods that are still as they were: one of nine
  changed, the fraction is two ninths.\<close>

lemma edit_fraction:
  "cs_changedMethodFraction (classifyChanges edit_before [''a.ts''] (edit_view ''2'')) = 2/9 \<and>
   length (cs_methods (classifyChanges edit_before [''a.ts''] (edit_view ''2''))) = 1"
  by code_simp

lemma recall_bounds:
  fixes r :: rat
  assumes "r = (if length xs = 0 then 1 else of_nat (length xs - length (filter P xs)) / of_nat (length xs))"
  shows "0 \<le> r \<and> r \<le> 1 \<and> (r = 1 \<longleftrightarrow> filter P xs = [])"
proof -
  have "length (filter P xs) \<le> length xs" by (rule length_filter_le)
  then show ?thesis
    unfolding assms by (auto simp: divide_simps of_nat_diff)
qed

text \<open>The soundness check is exact. It accepts a candidate exactly when every call pair of the
  rebuilt graph is a call pair of the candidate; the recall lies in the unit interval and is one
  exactly on acceptance.\<close>

theorem validate_exact:
  "(sr_ok (validateAgainstFullRebuild c full) \<longleftrightarrow> set (graphCallPairs full) \<subseteq> set (graphCallPairs c)) \<and>
   set (sr_missingEdges (validateAgainstFullRebuild c full)) = set (graphCallPairs full) - set (graphCallPairs c) \<and>
   set (sr_extraEdges (validateAgainstFullRebuild c full)) = set (graphCallPairs c) - set (graphCallPairs full) \<and>
   0 \<le> sr_edgeRecall (validateAgainstFullRebuild c full) \<and> sr_edgeRecall (validateAgainstFullRebuild c full) \<le> 1 \<and>
   (sr_edgeRecall (validateAgainstFullRebuild c full) = 1 \<longleftrightarrow> sr_ok (validateAgainstFullRebuild c full))"
proof -
  have sub: "filter (\<lambda>e. e \<notin> set ys) xs = [] \<longleftrightarrow> set xs \<subseteq> set ys" for xs ys :: "string list"
    by (auto simp: filter_empty_conv)
  show ?thesis
    using recall_bounds[of _ "graphCallPairs full" "\<lambda>e. e \<notin> set (graphCallPairs c)", OF refl]
    by (auto simp: validateAgainstFullRebuild_def Let_def sub)
qed

theorem prune_exact_witness:
  "map_get (cg_nodes (pr_graph (pruneAffectedRegion edit_before [''a.ts::g@5'']))) ''a.ts::g@5'' = None \<and>
   indexed (pr_graph (pruneAffectedRegion edit_before [''a.ts::g@5'']))"
  using prune_exact[OF edit_before_wf refl, of "[''a.ts::g@5'']" "''a.ts::g@5''"] by simp

theorem reset_recompute_wellformed_witness: "indexed edit_incremental \<and> dangling_free edit_incremental"
  using reset_recompute_wellformed[OF edit_before_wf edit_region(1) refl]
  unfolding edit_incremental_def by simp

text \<open>An edit of \<open>d.ts\<close>, with the threshold raised so that it is not rebuilt, keeps the edge of \<open>b.ts\<close>.\<close>

definition raised_opts :: incremental_opts where
  "raised_opts = default_opts\<lparr>io_methodFractionThreshold := Some 1\<rparr>"

lemma edit_d_region:
  "ar_fullRebuild (identifyAffectedRegion edit_before [''d.ts''] (edit_view ''1'') raised_opts) = None"
  "ar_resetFiles (identifyAffectedRegion edit_before [''d.ts''] (edit_view ''1'') raised_opts) = [''d.ts'']"
  by code_simp+

theorem reset_recompute_keeps_untouched_witness:
  "hd (cg_edges edit_before) \<in>
     set (cg_edges (fst (resetRecomputeCallGraph edit_before [''d.ts''] (edit_view ''1'') edit_files ''t1'' raised_opts)))"
proof (rule reset_recompute_keeps_untouched[OF edit_before_wf edit_d_region(1), unfolded edit_d_region(2)])
  have "cg_edges edit_before \<noteq> []" by code_simp
  then show "hd (cg_edges edit_before) \<in> set (cg_edges edit_before)" by (rule hd_in_set)
  show "map_get (cg_nodes edit_before) (e_callerId (hd (cg_edges edit_before)))
      = Some (node_of (sample_fn ''b.ts'' ''h'' 1 [''g'']))" by code_simp
  show "map_get (cg_nodes edit_before) (e_calleeId (hd (cg_edges edit_before)))
      = Some (node_of ((sample_fn ''a.ts'' ''g'' 5 [])\<lparr>rf_bodyHash := ''0''\<rparr>))" by code_simp
qed (simp_all add: node_of_def sample_fn_def)

end
