(* ===== verification/Orchestrator.thy ===== *)
theory Orchestrator
  imports Prelude
begin

text \<open>
  The agent-graph runner of \<open>packages/orchestrator/src\<close>: the graph and state types (\<open>types.ts\<close>), the
  routing and the run loop (\<open>graph.ts\<close>), the plan of record (\<open>plan.ts\<close>) and the two product graphs
  (\<open>warden-product-graph.ts\<close>). A node handler is a function of the state that returns a new state or
  throws, in which case the state it may have mutated is part of the outcome. The main lemma says
  that the trace of a run is a path of the graph along the edges the router picks.
\<close>

section \<open>Types\<close>

datatype node_kind =
    KChangeIntel | KIndexCode | KCandidates | KExpand | KConfirm | KGenerate | KVerify | KReviewGate | KCustom

record node_def =
  gn_id :: string
  gn_kind :: node_kind
  gn_label :: string
  gn_contextContract :: string
  gn_fanOut :: "bool option"
  gn_stopWhen :: "string option"

datatype edge_kind = Sequence | FanOut | FanIn | OnSuccess | OnFailure | Branch

record edge_def =
  ge_id :: string
  ge_from :: string
  ge_to :: string
  ge_kind :: edge_kind
  ge_when :: "string option"

record agent_graph =
  ag_id :: string
  ag_title :: string
  ag_entry :: string
  ag_nodes :: "node_def list"
  ag_edges :: "edge_def list"
  ag_terminals :: "string list"

text \<open>The runner reads one field of a node output, a boolean \<open>ok\<close>; the rest is opaque.\<close>

record node_output =
  no_ok :: "bool option"
  no_payload :: string

record trace_entry =
  te_step :: nat
  te_nodeId :: string
  te_edgeId :: "string option"
  te_summary :: string
  te_ok :: bool

record graph_policy =
  gp_allowPr :: "bool option"
  gp_allowAutoMerge :: "bool option"
  gp_reasons :: "string list option"

record graph_state =
  gs_runId :: string
  gs_goal :: "string option"
  gs_providerSlug :: "string option"
  gs_changeId :: "string option"
  gs_verifyOk :: "bool option"
  gs_verifyOutput :: "string option"
  gs_filesChanged :: "string list"
  gs_policy :: "graph_policy option"
  gs_nodeOutputs :: "(string, node_output) jsmap"
  gs_errors :: "(string \<times> string) list"
  gs_trace :: "trace_entry list"

datatype handler_outcome = Returned graph_state | Threw graph_state string

type_synonym handler = "graph_state \<Rightarrow> node_def \<Rightarrow> handler_outcome"

record handlers =
  h_byNode :: "string \<Rightarrow> handler option"
  h_byKind :: "node_kind \<Rightarrow> handler option"

section \<open>Routing\<close>

definition getNode :: "agent_graph \<Rightarrow> string \<Rightarrow> node_def option" where
  "getNode g i = find (\<lambda>n. gn_id n = i) (ag_nodes g)"

definition outgoing :: "agent_graph \<Rightarrow> string \<Rightarrow> edge_def list" where
  "outgoing g i = filter (\<lambda>e. ge_from e = i) (ag_edges g)"

definition pickNextEdge :: "agent_graph \<Rightarrow> string \<Rightarrow> bool \<Rightarrow> edge_def option" where
  "pickNextEdge g i ok =
     (let outs = outgoing g i
      in if outs = [] then None
         else if \<not> ok then find (\<lambda>e. ge_kind e = OnFailure) outs
         else (case find (\<lambda>e. ge_kind e = OnSuccess \<or> ge_kind e = Sequence) outs of
                 Some e \<Rightarrow> Some e
               | None \<Rightarrow> find (\<lambda>e. ge_kind e = Branch \<or> ge_kind e = FanOut \<or> ge_kind e = FanIn) outs))"

section \<open>The run loop\<close>

datatype stopped = AtNode string | MaxSteps | NoEdge

record run_result =
  rr_state :: graph_state
  rr_stoppedAt :: stopped
  rr_ok :: bool

definition kind_name :: "node_kind \<Rightarrow> string" where
  "kind_name k = (case k of
     KChangeIntel \<Rightarrow> ''change_intel'' | KIndexCode \<Rightarrow> ''index_code'' | KCandidates \<Rightarrow> ''candidates''
   | KExpand \<Rightarrow> ''expand'' | KConfirm \<Rightarrow> ''confirm'' | KGenerate \<Rightarrow> ''generate'' | KVerify \<Rightarrow> ''verify''
   | KReviewGate \<Rightarrow> ''review_gate'' | KCustom \<Rightarrow> ''custom'')"

definition dry_run :: handler where
  "dry_run s n = Returned (s\<lparr>gs_nodeOutputs :=
     map_set (gs_nodeOutputs s) (gn_id n) \<lparr>no_ok = None, no_payload = kind_name (gn_kind n)\<rparr>\<rparr>)"

definition handler_for :: "handlers \<Rightarrow> bool \<Rightarrow> node_def \<Rightarrow> string \<Rightarrow> handler option" where
  "handler_for hs dryRunMissing n current =
     (case h_byNode hs current of
        Some h \<Rightarrow> Some h
      | None \<Rightarrow> (case h_byKind hs (gn_kind n) of
                   Some h \<Rightarrow> Some h
                 | None \<Rightarrow> if dryRunMissing then Some dry_run else None))"

text \<open>The verdict on a completed node, in the order the code overwrites it.\<close>

definition node_ok :: "node_def \<Rightarrow> graph_state \<Rightarrow> bool" where
  "node_ok n s =
     (let ok0 = (case map_get (gs_nodeOutputs s) (gn_id n) of
                   None \<Rightarrow> True
                 | Some out \<Rightarrow> (case no_ok out of None \<Rightarrow> True | Some b \<Rightarrow> b));
          ok1 = (if gn_kind n = KVerify \<and> gs_verifyOk s = Some False then False else ok0)
      in if gn_kind n = KReviewGate \<and> (case gs_policy s of None \<Rightarrow> False | Some p \<Rightarrow> gp_allowPr p = Some False)
         then False else ok1)"

text \<open>The try block and its handler: the state after the node and whether it is ok.\<close>

definition execute_node :: "handler \<Rightarrow> graph_state \<Rightarrow> node_def \<Rightarrow> string \<Rightarrow> graph_state \<times> bool" where
  "execute_node h s n current =
     (case h s n of
        Returned s' \<Rightarrow> (s', node_ok n s')
      | Threw s' msg \<Rightarrow>
          (s'\<lparr>gs_errors := gs_errors s' @ [(current, msg)],
              gs_nodeOutputs := map_set (gs_nodeOutputs s') (gn_id n) \<lparr>no_ok = Some False, no_payload = msg\<rparr>\<rparr>,
           False))"

definition push_trace :: "graph_state \<Rightarrow> trace_entry \<Rightarrow> graph_state" where
  "push_trace s t = s\<lparr>gs_trace := gs_trace s @ [t]\<rparr>"

definition push_error :: "graph_state \<Rightarrow> string \<Rightarrow> string \<Rightarrow> graph_state" where
  "push_error s i msg = s\<lparr>gs_errors := gs_errors s @ [(i, msg)]\<rparr>"

definition trace_of :: "nat \<Rightarrow> node_def \<Rightarrow> string \<Rightarrow> bool \<Rightarrow> string option \<Rightarrow> trace_entry" where
  "trace_of step n current ok edge =
     \<lparr>te_step = step, te_nodeId = current, te_edgeId = edge,
      te_summary = gn_label n @ '' ('' @ kind_name (gn_kind n) @ '')'', te_ok = ok\<rparr>"

text \<open>\<open>left\<close> is \<open>maxSteps - steps\<close>; an empty target id ends the loop like an exhausted budget.\<close>

fun run_loop :: "agent_graph \<Rightarrow> handlers \<Rightarrow> bool \<Rightarrow> nat \<Rightarrow> nat \<Rightarrow> string \<Rightarrow> graph_state \<Rightarrow> run_result" where
  "run_loop g hs dry 0 steps current s = \<lparr>rr_state = s, rr_stoppedAt = MaxSteps, rr_ok = False\<rparr>"
| "run_loop g hs dry (Suc left) steps current s =
     (if current = [] then \<lparr>rr_state = s, rr_stoppedAt = MaxSteps, rr_ok = False\<rparr>
      else case getNode g current of
        None \<Rightarrow> \<lparr>rr_state = push_error s current ''unknown node'', rr_stoppedAt = AtNode current, rr_ok = False\<rparr>
      | Some n \<Rightarrow>
          (case handler_for hs dry n current of
             None \<Rightarrow> \<lparr>rr_state = push_error s current ''no handler'', rr_stoppedAt = AtNode current, rr_ok = False\<rparr>
           | Some h \<Rightarrow>
               let (s1, ok) = execute_node h s n current;
                   terminal = current \<in> set (ag_terminals g)
               in if terminal \<and> ok
                  then \<lparr>rr_state = push_trace s1 (trace_of (Suc steps) n current ok None),
                        rr_stoppedAt = AtNode current, rr_ok = True\<rparr>
                  else (case pickNextEdge g current ok of
                          None \<Rightarrow> \<lparr>rr_state = push_trace s1 (trace_of (Suc steps) n current ok None),
                                  rr_stoppedAt = (if terminal then AtNode current else NoEdge),
                                  rr_ok = (ok \<and> terminal)\<rparr>
                        | Some e \<Rightarrow>
                            run_loop g hs dry left (Suc steps) (ge_to e)
                              (push_trace s1 (trace_of (Suc steps) n current ok (Some (ge_id e)))))))"

definition runAgentGraph ::
  "agent_graph \<Rightarrow> handlers \<Rightarrow> graph_state \<Rightarrow> nat option \<Rightarrow> bool option \<Rightarrow> run_result" where
  "runAgentGraph g hs initial maxSteps dryRunMissing =
     run_loop g hs (dryRunMissing \<noteq> Some False) (case maxSteps of None \<Rightarrow> 32 | Some n \<Rightarrow> n) 0 (ag_entry g) initial"

section \<open>The trace of a run is a path of the graph\<close>

text \<open>Handlers work on their own outputs; they do not touch the audit trace.\<close>

definition outcome_state :: "handler_outcome \<Rightarrow> graph_state" where
  "outcome_state o1 = (case o1 of Returned s \<Rightarrow> s | Threw s m \<Rightarrow> s)"

definition keeps_trace :: "handlers \<Rightarrow> bool" where
  "keeps_trace hs \<longleftrightarrow>
     (\<forall>h s n. (\<exists>i. h_byNode hs i = Some h) \<or> (\<exists>k. h_byKind hs k = Some h) \<longrightarrow>
        gs_trace (outcome_state (h s n)) = gs_trace s)"

text \<open>Two consecutive entries are linked by the edge the router picks for the first one's verdict.\<close>

definition linked :: "agent_graph \<Rightarrow> trace_entry \<Rightarrow> trace_entry \<Rightarrow> bool" where
  "linked g t u \<longleftrightarrow>
     (case pickNextEdge g (te_nodeId t) (te_ok t) of
        None \<Rightarrow> False
      | Some e \<Rightarrow> te_edgeId t = Some (ge_id e) \<and> te_nodeId u = ge_to e)"

fun path_of :: "agent_graph \<Rightarrow> string \<Rightarrow> trace_entry list \<Rightarrow> bool" where
  "path_of g i [] \<longleftrightarrow> True"
| "path_of g i [t] \<longleftrightarrow> te_nodeId t = i \<and> getNode g i \<noteq> None"
| "path_of g i (t # u # ts) \<longleftrightarrow>
     te_nodeId t = i \<and> getNode g i \<noteq> None \<and> linked g t u \<and> path_of g (te_nodeId u) (u # ts)"

lemma handler_keeps_trace:
  assumes "keeps_trace hs" and "handler_for hs dry n i = Some h"
  shows "gs_trace (outcome_state (h s m)) = gs_trace s"
proof (cases "h_byNode hs i")
  case (Some h')
  then have "h_byNode hs i = Some h" using assms(2) by (simp add: handler_for_def)
  then show ?thesis using assms(1) unfolding keeps_trace_def by blast
next
  case None
  note n = None
  show ?thesis
  proof (cases "h_byKind hs (gn_kind n)")
    case (Some h')
    then have "h_byKind hs (gn_kind n) = Some h" using assms(2) n by (simp add: handler_for_def)
    then show ?thesis using assms(1) unfolding keeps_trace_def by blast
  next
    case None
    then have "h = dry_run" using assms(2) n by (simp add: handler_for_def split: if_splits)
    then show ?thesis by (simp add: dry_run_def outcome_state_def)
  qed
qed

lemma execute_trace:
  assumes "gs_trace (outcome_state (h s n)) = gs_trace s"
  shows "gs_trace (fst (execute_node h s n i)) = gs_trace s"
  using assms by (simp add: execute_node_def outcome_state_def split: handler_outcome.splits)

lemma path_of_cons:
  "path_of g i (t # ts) \<longleftrightarrow> te_nodeId t = i \<and> getNode g i \<noteq> None \<and>
     (case ts of [] \<Rightarrow> True | u # us \<Rightarrow> linked g t u \<and> path_of g (te_nodeId u) ts)"
  by (cases ts) auto

text \<open>What a run of the loop appends: a path that starts at the current node, numbered from the
  current step, of at most the remaining length, and the verdict of the run is that of its last
  entry at a terminal.\<close>

definition run_spec :: "agent_graph \<Rightarrow> nat \<Rightarrow> nat \<Rightarrow> string \<Rightarrow> graph_state \<Rightarrow> run_result \<Rightarrow> trace_entry list \<Rightarrow> bool" where
  "run_spec g left steps current s r ts \<longleftrightarrow>
     gs_trace (rr_state r) = gs_trace s @ ts \<and> length ts \<le> left \<and> path_of g current ts \<and>
     map te_step ts = [Suc steps ..< Suc steps + length ts] \<and>
     (rr_ok r \<longrightarrow> ts \<noteq> [] \<and> te_ok (last ts) \<and> te_nodeId (last ts) \<in> set (ag_terminals g) \<and>
        rr_stoppedAt r = AtNode (te_nodeId (last ts)))"

lemma run_loop_spec:
  assumes "keeps_trace hs"
  shows "\<exists>ts. run_spec g left steps current s (run_loop g hs dry left steps current s) ts"
proof (induction left arbitrary: steps current s)
  case 0
  show ?case by (intro exI[of _ "[]"]) (simp add: run_spec_def)
next
  case (Suc left)
  show ?case
  proof (cases "current = [] \<or> getNode g current = None")
    case True
    then show ?thesis by (intro exI[of _ "[]"]) (auto simp: run_spec_def push_error_def)
  next
    case False
    then obtain n where ne: "current \<noteq> []" and n: "getNode g current = Some n" by blast
    show ?thesis
    proof (cases "handler_for hs dry n current")
      case None
      then show ?thesis using ne n
        by (intro exI[of _ "[]"]) (simp add: run_spec_def push_error_def)
    next
      case (Some h)
      obtain s1 ok where ex: "execute_node h s n current = (s1, ok)" by (cases "execute_node h s n current")
      have tr: "gs_trace s1 = gs_trace s"
        using execute_trace[of h s n current] handler_keeps_trace[OF assms Some, of s n] ex by simp
      let ?t = "\<lambda>e. trace_of (Suc steps) n current ok e"
      have sel: "te_nodeId (?t e) = current" "te_ok (?t e) = ok" "te_step (?t e) = Suc steps" "te_edgeId (?t e) = e" for e
        by (simp_all add: trace_of_def)
      show ?thesis
      proof (cases "(current \<in> set (ag_terminals g) \<and> ok) \<or> pickNextEdge g current ok = None")
        case True
        have "run_spec g (Suc left) steps current s (run_loop g hs dry (Suc left) steps current s) [?t None]"
          using True ne n Some ex tr by (auto simp: Let_def run_spec_def push_trace_def sel)
        then show ?thesis by blast
      next
        case False
        then obtain e where e: "pickNextEdge g current ok = Some e" by blast
        let ?s2 = "push_trace s1 (?t (Some (ge_id e)))"
        obtain ts where ts: "run_spec g left (Suc steps) (ge_to e) ?s2
            (run_loop g hs dry left (Suc steps) (ge_to e) ?s2) ts" using Suc.IH by blast
        have loop: "run_loop g hs dry (Suc left) steps current s = run_loop g hs dry left (Suc steps) (ge_to e) ?s2"
          using False ne n Some ex e by (auto simp: Let_def)
        have link: "linked g (?t (Some (ge_id e))) u" if "te_nodeId u = ge_to e" for u
          using that e by (simp add: linked_def sel)
        have up: "[Suc steps..<Suc steps + length (?t (Some (ge_id e)) # ts)]
            = Suc steps # [Suc (Suc steps)..<Suc (Suc steps) + length ts]"
          by (simp add: upt_rec)
        have "run_spec g (Suc left) steps current s (run_loop g hs dry (Suc left) steps current s)
            (?t (Some (ge_id e)) # ts)"
          using ts n tr link up unfolding run_spec_def loop
          by (cases ts) (auto simp: path_of_cons push_trace_def sel)
        then show ?thesis by blast
      qed
    qed
  qed
qed

text \<open>The audit trace of a run is a path of the graph. With handlers that leave the trace
  alone, a run appends at most \<open>maxSteps\<close> entries, numbered one by one from 1, that start at the entry
  node and follow, edge by edge, the routing rule for the recorded verdicts; a run reported ok ends
  with an ok entry at the terminal node it says it stopped at.\<close>

theorem run_trace_is_path:
  assumes "keeps_trace hs"
  shows "\<exists>ts. gs_trace (rr_state (runAgentGraph g hs s m d)) = gs_trace s @ ts \<and>
     length ts \<le> (case m of None \<Rightarrow> 32 | Some n \<Rightarrow> n) \<and> path_of g (ag_entry g) ts \<and>
     map te_step ts = [1 ..< Suc (length ts)] \<and>
     (rr_ok (runAgentGraph g hs s m d) \<longrightarrow> ts \<noteq> [] \<and> te_ok (last ts) \<and>
        te_nodeId (last ts) \<in> set (ag_terminals g) \<and>
        rr_stoppedAt (runAgentGraph g hs s m d) = AtNode (te_nodeId (last ts)))"
proof -
  obtain ts where "run_spec g (case m of None \<Rightarrow> 32 | Some n \<Rightarrow> n) 0 (ag_entry g) s (runAgentGraph g hs s m d) ts"
    using run_loop_spec[OF assms] unfolding runAgentGraph_def by blast
  then show ?thesis unfolding run_spec_def by (intro exI[of _ ts]) simp
qed

section \<open>The product graphs\<close>

definition edge :: "string \<Rightarrow> string \<Rightarrow> string \<Rightarrow> edge_kind \<Rightarrow> string option \<Rightarrow> edge_def" where
  "edge i a b k w = \<lparr>ge_id = i, ge_from = a, ge_to = b, ge_kind = k, ge_when = w\<rparr>"

definition wardenProductGraph :: agent_graph where
  "wardenProductGraph =
     \<lparr>ag_id = ''warden-product-v1'', ag_title = ''Warden product agent graph'', ag_entry = ''change_intel'',
      ag_nodes =
        [\<lparr>gn_id = ''change_intel'', gn_kind = KChangeIntel, gn_label = ''Change intel'', gn_contextContract = ''OpenAPI pair + changelog notes only'',
          gn_fanOut = None, gn_stopWhen = Some ''surfaces emitted''\<rparr>,
         \<lparr>gn_id = ''index_code'', gn_kind = KIndexCode, gn_label = ''Index codebase'', gn_contextContract = ''Consumer repo root; no full source retained beyond index'',
          gn_fanOut = None, gn_stopWhen = Some ''index ready''\<rparr>,
         \<lparr>gn_id = ''candidates'', gn_kind = KCandidates, gn_label = ''Candidate discovery'', gn_contextContract = ''Surfaces + codebase index'',
          gn_fanOut = Some True, gn_stopWhen = Some ''candidate set complete''\<rparr>,
         \<lparr>gn_id = ''expand'', gn_kind = KExpand, gn_label = ''Expand (call-graph)'', gn_contextContract = ''Candidate site + call-graph hops only'',
          gn_fanOut = Some True, gn_stopWhen = Some ''contexts expanded''\<rparr>,
         \<lparr>gn_id = ''confirm'', gn_kind = KConfirm, gn_label = ''Confirm impact'', gn_contextContract = ''Code slice only (not whole-repo LLM)'',
          gn_fanOut = None, gn_stopWhen = Some ''findings confirmed''\<rparr>,
         \<lparr>gn_id = ''generate'', gn_kind = KGenerate, gn_label = ''Generate patch + PR'', gn_contextContract = ''Findings + target files'',
          gn_fanOut = None, gn_stopWhen = Some ''draft ready''\<rparr>,
         \<lparr>gn_id = ''verify'', gn_kind = KVerify, gn_label = ''Verify (Warden / repair loop)'', gn_contextContract = ''Goal + verify command + repo sandbox'',
          gn_fanOut = None, gn_stopWhen = Some ''verify exit 0 or budget exhausted''\<rparr>,
         \<lparr>gn_id = ''review_gate'', gn_kind = KReviewGate, gn_label = ''Human review gate'', gn_contextContract = ''Draft + policy labels; never auto-merge by default'',
          gn_fanOut = None, gn_stopWhen = Some ''human decision''\<rparr>],
      ag_edges =
        [edge ''e1'' ''change_intel'' ''index_code'' Sequence (Some ''surfaces ready''),
         edge ''e2'' ''index_code'' ''candidates'' Sequence None,
         edge ''e3'' ''candidates'' ''expand'' FanOut (Some ''per candidate / batch''),
         edge ''e4'' ''expand'' ''confirm'' FanIn (Some ''contexts joined''),
         edge ''e5'' ''confirm'' ''generate'' OnSuccess (Some ''findings non-empty or adopt mode''),
         edge ''e6'' ''generate'' ''verify'' Sequence None,
         edge ''e7'' ''verify'' ''review_gate'' OnSuccess (Some ''verifyOk''),
         edge ''e8'' ''verify'' ''generate'' OnFailure (Some ''verify failed -- re-patch (bounded)'')],
      ag_terminals = [''review_gate'']\<rparr>"

definition wardenDebugGraph :: agent_graph where
  "wardenDebugGraph =
     \<lparr>ag_id = ''warden-debug-v1'', ag_title = ''Warden API debug (single loop node)'', ag_entry = ''verify'',
      ag_nodes =
        [\<lparr>gn_id = ''verify'', gn_kind = KVerify, gn_label = ''Warden tool loop'', gn_contextContract = ''goal + errorLog + repo + verifyCommand'',
          gn_fanOut = None, gn_stopWhen = Some ''verify pass or maxSteps''\<rparr>],
      ag_edges = [], ag_terminals = [''verify'']\<rparr>"

lemma pickNextEdge_SomeD:
  assumes "pickNextEdge g i ok = Some e"
  shows "e \<in> set (ag_edges g) \<and> ge_from e = i \<and> (ge_kind e = OnFailure \<longleftrightarrow> \<not> ok)"
  using assms
  by (auto simp: pickNextEdge_def outgoing_def Let_def dest!: find_SomeD split: if_splits option.splits)

lemma path_of_last_link: "path_of g i (us @ [a, b]) \<Longrightarrow> linked g a b"
proof (induction us arbitrary: i)
  case (Cons u us)
  then show ?case by (cases us) (auto simp: path_of_cons)
qed simp

text \<open>Only the success edge of \<open>verify\<close> enters the review gate.\<close>

lemma warden_gate_edge:
  assumes "e \<in> set (ag_edges wardenProductGraph)" and "ge_to e = ''review_gate''"
  shows "ge_from e = ''verify'' \<and> ge_kind e = OnSuccess"
  using assms by (auto simp: wardenProductGraph_def edge_def)


section \<open>A run\<close>

definition initial_state :: graph_state where
  "initial_state =
     \<lparr>gs_runId = ''run'', gs_goal = None, gs_providerSlug = None, gs_changeId = None, gs_verifyOk = None,
      gs_verifyOutput = None, gs_filesChanged = [], gs_policy = None, gs_nodeOutputs = [], gs_errors = [],
      gs_trace = []\<rparr>"

text \<open>The verification node passes, every other node is a dry run.\<close>

definition verify_passes :: handlers where
  "verify_passes =
     \<lparr>h_byNode = (\<lambda>i. if i = ''verify'' then Some (\<lambda>s n. Returned (s\<lparr>gs_verifyOk := Some True\<rparr>)) else None),
      h_byKind = (\<lambda>k. None)\<rparr>"

lemma verify_passes_keeps: "keeps_trace verify_passes"
  by (auto simp: keeps_trace_def verify_passes_def outcome_state_def split: if_splits)

lemma verify_passes_run: "rr_ok (runAgentGraph wardenProductGraph verify_passes initial_state None None)"
  by code_simp

theorem run_trace_is_path_witness:
  "\<exists>ts. gs_trace (rr_state (runAgentGraph wardenProductGraph verify_passes initial_state None None)) = ts \<and>
     length ts \<le> 32 \<and> path_of wardenProductGraph ''change_intel'' ts \<and>
     te_ok (last ts) \<and> te_nodeId (last ts) \<in> set [''review_gate'']"
proof -
  have "ag_entry wardenProductGraph = ''change_intel''" "ag_terminals wardenProductGraph = [''review_gate'']"
    "gs_trace initial_state = []"
    by (simp_all add: wardenProductGraph_def initial_state_def)
  with run_trace_is_path[OF verify_passes_keeps, of wardenProductGraph initial_state None None] verify_passes_run
  show ?thesis by (auto simp del: set_simps)
qed


section \<open>The plan of record\<close>

datatype step_status = Pending | Running | Done | Failed | Skipped

record plan_step =
  ps_id :: string
  ps_title :: string
  ps_action :: string
  ps_successCriteria :: "string list"
  ps_ref :: "string option"
  ps_status :: step_status
  ps_notes :: "string option"
  ps_evidence :: "string option"

datatype plan_kind = SpecDiff | BsgCampaign | Generic
datatype plan_agent = WardenAgent | TransformerAgent | SharedAgent

record agent_plan =
  ap_id :: string
  ap_kind :: plan_kind
  ap_title :: string
  ap_goal :: string
  ap_agent :: plan_agent
  ap_steps :: "plan_step list"
  ap_createdAt :: string
  ap_updatedAt :: string

record plan_progress =
  pp_total :: nat
  pp_done :: nat
  pp_failed :: nat
  pp_pending :: nat
  pp_complete :: bool

definition emptyPlan :: "string \<Rightarrow> string \<Rightarrow> plan_kind \<Rightarrow> string \<Rightarrow> string \<Rightarrow> plan_agent \<Rightarrow> agent_plan" where
  "emptyPlan newId now kind title goal agent =
     \<lparr>ap_id = newId, ap_kind = kind, ap_title = title, ap_goal = goal, ap_agent = agent, ap_steps = [],
      ap_createdAt = now, ap_updatedAt = now\<rparr>"

definition addStep :: "string \<Rightarrow> string \<Rightarrow> agent_plan \<Rightarrow> plan_step \<Rightarrow> step_status option \<Rightarrow> agent_plan" where
  "addStep newId now plan step status =
     plan\<lparr>ap_steps := ap_steps plan @
            [step\<lparr>ps_id := newId, ps_status := (case status of None \<Rightarrow> Pending | Some st \<Rightarrow> st)\<rparr>],
          ap_updatedAt := now\<rparr>"

text \<open>A patch sets the fields it carries.\<close>

record step_patch =
  sp_status :: "step_status option"
  sp_notes :: "string option"
  sp_evidence :: "string option"

definition patch_step :: "step_patch \<Rightarrow> plan_step \<Rightarrow> plan_step" where
  "patch_step p s = s\<lparr>ps_status := (case sp_status p of None \<Rightarrow> ps_status s | Some v \<Rightarrow> v),
                      ps_notes := (case sp_notes p of None \<Rightarrow> ps_notes s | Some v \<Rightarrow> Some v),
                      ps_evidence := (case sp_evidence p of None \<Rightarrow> ps_evidence s | Some v \<Rightarrow> Some v)\<rparr>"

definition updateStep :: "string \<Rightarrow> agent_plan \<Rightarrow> string \<Rightarrow> step_patch \<Rightarrow> agent_plan" where
  "updateStep now plan i p =
     plan\<lparr>ap_steps := map (\<lambda>s. if ps_id s = i then patch_step p s else s) (ap_steps plan), ap_updatedAt := now\<rparr>"

definition planProgress :: "agent_plan \<Rightarrow> plan_progress" where
  "planProgress plan =
     (let total = length (ap_steps plan);
          done1 = length (filter (\<lambda>s. ps_status s = Done) (ap_steps plan));
          failed = length (filter (\<lambda>s. ps_status s = Failed) (ap_steps plan));
          pending = length (filter (\<lambda>s. ps_status s = Pending \<or> ps_status s = Running) (ap_steps plan))
      in \<lparr>pp_total = total, pp_done = done1, pp_failed = failed, pp_pending = pending,
          pp_complete = (total > 0 \<and> pending = 0 \<and> failed = 0)\<rparr>)"

definition nextPendingStep :: "agent_plan \<Rightarrow> plan_step option" where
  "nextPendingStep plan = find (\<lambda>s. ps_status s = Pending) (ap_steps plan)"

text \<open>Progress counts every step in at most one class; the rest is skipped.\<close>

lemma plan_progress_counts:
  "pp_done (planProgress plan) + pp_failed (planProgress plan) + pp_pending (planProgress plan) +
     length (filter (\<lambda>s. ps_status s = Skipped) (ap_steps plan)) = pp_total (planProgress plan)"
proof -
  have "length (filter (\<lambda>s. ps_status s = Done) xs) + length (filter (\<lambda>s. ps_status s = Failed) xs) +
      length (filter (\<lambda>s. ps_status s = Pending \<or> ps_status s = Running) xs) +
      length (filter (\<lambda>s. ps_status s = Skipped) xs) = length xs" for xs :: "plan_step list"
  proof (induction xs)
    case (Cons x xs)
    then show ?case by (cases "ps_status x") simp_all
  qed simp
  then show ?thesis by (simp add: planProgress_def Let_def)
qed

text \<open>A complete plan has no step left to run; a plan with nothing pending that is not complete is empty,
  failed or still running.\<close>

lemma plan_complete_iff:
  "pp_complete (planProgress plan) \<longleftrightarrow>
     ap_steps plan \<noteq> [] \<and> list_all (\<lambda>s. ps_status s = Done \<or> ps_status s = Skipped) (ap_steps plan)"
proof -
  have st: "\<not> (st = Pending \<or> st = Running) \<and> st \<noteq> Failed \<longleftrightarrow> st = Done \<or> st = Skipped" for st
    by (cases st) auto
  show ?thesis
    using st by (auto simp: planProgress_def Let_def filter_empty_conv list_all_iff)
qed

end
