(* ===== verification/JsNum.thy ===== *)
theory JsNum
  imports Prelude
begin

text \<open>
  JavaScript numbers as the validators of the program see them: a finite value, an infinity or NaN.
  Finite values are rationals; the modelled code only compares, clamps and averages them, so the
  rounding of binary64 is not represented.
\<close>

datatype jsnum = Fin rat | PInf | NInf | NaN

definition is_finite :: "jsnum \<Rightarrow> bool" where
  "is_finite x \<longleftrightarrow> (case x of Fin q \<Rightarrow> True | _ \<Rightarrow> False)"

text \<open>\<open>Number.isInteger\<close>.\<close>

definition is_integer :: "jsnum \<Rightarrow> bool" where
  "is_integer x \<longleftrightarrow> (case x of Fin q \<Rightarrow> of_int \<lfloor>q\<rfloor> = q | _ \<Rightarrow> False)"

text \<open>\<open>Number.isSafeInteger\<close>.\<close>

definition is_safe_integer :: "jsnum \<Rightarrow> bool" where
  "is_safe_integer x \<longleftrightarrow>
     (case x of Fin q \<Rightarrow> of_int \<lfloor>q\<rfloor> = q \<and> \<bar>q\<bar> \<le> 9007199254740991 | _ \<Rightarrow> False)"

text \<open>\<open>x < y\<close> and \<open>x <= y\<close>: false as soon as an operand is NaN.\<close>

fun num_lt :: "jsnum \<Rightarrow> jsnum \<Rightarrow> bool" where
  "num_lt (Fin p) (Fin q) \<longleftrightarrow> p < q"
| "num_lt NaN y \<longleftrightarrow> False"
| "num_lt x NaN \<longleftrightarrow> False"
| "num_lt x NInf \<longleftrightarrow> False"
| "num_lt PInf y \<longleftrightarrow> False"
| "num_lt NInf y \<longleftrightarrow> True"
| "num_lt x PInf \<longleftrightarrow> True"

definition num_le :: "jsnum \<Rightarrow> jsnum \<Rightarrow> bool" where
  "num_le x y \<longleftrightarrow> num_lt x y \<or> (x = y \<and> x \<noteq> NaN)"

definition num_val :: "jsnum \<Rightarrow> rat" where
  "num_val x = (case x of Fin q \<Rightarrow> q | _ \<Rightarrow> 0)"

text \<open>\<open>Number.isFinite(v) && v >= 0 && v <= 1\<close>.\<close>

definition is_rate :: "jsnum \<Rightarrow> bool" where
  "is_rate x \<longleftrightarrow> is_finite x \<and> num_le (Fin 0) x \<and> num_le x (Fin 1)"

lemma num_le_Fin [simp]: "num_le (Fin p) (Fin q) \<longleftrightarrow> p \<le> q"
  by (auto simp: num_le_def)

lemma is_finite_iff: "is_finite x \<longleftrightarrow> (\<exists>q. x = Fin q)"
  by (cases x) (simp_all add: is_finite_def)

lemma is_rate_iff: "is_rate x \<longleftrightarrow> (\<exists>q. x = Fin q \<and> 0 \<le> q \<and> q \<le> 1)"
  by (cases x) (simp_all add: is_rate_def is_finite_def)

lemma is_safe_integer_finite: "is_safe_integer x \<Longrightarrow> is_finite x"
  by (cases x) (simp_all add: is_safe_integer_def is_finite_def)

lemma not_num_lt_finite:
  "is_finite x \<Longrightarrow> is_finite y \<Longrightarrow> \<not> num_lt x y \<longleftrightarrow> num_le y x"
  by (auto simp: is_finite_iff)

end
