(* ===== verification/JsTime.thy ===== *)
theory JsTime
  imports Prelude
begin

text \<open>
  Canonical timestamps, \<open>YYYY-MM-DDTHH:MM:SS.mmmZ\<close>: the strings that survive
  \<open>new Date(Date.parse(s)).toISOString() === s\<close>, which the program insists on before it stores an
  instant. \<open>canonical_ms\<close> is the milliseconds since 0000-01-01 of such a string. The main lemma is that
  the order of the strings, which is the order SQLite sorts by, is the order of the instants.
\<close>

definition leap :: "nat \<Rightarrow> bool" where
  "leap y \<longleftrightarrow> y mod 4 = 0 \<and> (y mod 100 \<noteq> 0 \<or> y mod 400 = 0)"

definition days_in_month :: "nat \<Rightarrow> nat \<Rightarrow> nat" where
  "days_in_month y m =
     (if m = 2 then (if leap y then 29 else 28) else if m \<in> {4, 6, 9, 11} then 30 else 31)"

fun days_before_year :: "nat \<Rightarrow> nat" where
  "days_before_year 0 = 0"
| "days_before_year (Suc y) = days_before_year y + (if leap y then 366 else 365)"

fun days_before_month :: "nat \<Rightarrow> nat \<Rightarrow> nat" where
  "days_before_month y 0 = 0"
| "days_before_month y (Suc m) = days_before_month y m + (if m = 0 then 0 else days_in_month y m)"

definition day_number :: "nat \<Rightarrow> nat \<Rightarrow> nat \<Rightarrow> nat" where
  "day_number y m d = days_before_year y + days_before_month y m + (d - 1)"

definition digits :: "nat \<Rightarrow> string \<Rightarrow> bool" where
  "digits n s \<longleftrightarrow> length s = n \<and> list_all is_digit s"

text \<open>The fields of the pattern, at their fixed positions.\<close>

definition field_at :: "nat \<Rightarrow> nat \<Rightarrow> string \<Rightarrow> string" where
  "field_at i n s = take n (drop i s)"

definition num_at :: "nat \<Rightarrow> nat \<Rightarrow> string \<Rightarrow> nat" where
  "num_at i n s = digits_val (field_at i n s)"

definition canonical_form :: "string \<Rightarrow> bool" where
  "canonical_form s \<longleftrightarrow> length s = 24 \<and>
     digits 4 (field_at 0 4 s) \<and> s ! 4 = CHR ''-'' \<and> digits 2 (field_at 5 2 s) \<and> s ! 7 = CHR ''-'' \<and>
     digits 2 (field_at 8 2 s) \<and> s ! 10 = CHR ''T'' \<and> digits 2 (field_at 11 2 s) \<and> s ! 13 = CHR '':'' \<and>
     digits 2 (field_at 14 2 s) \<and> s ! 16 = CHR '':'' \<and> digits 2 (field_at 17 2 s) \<and> s ! 19 = CHR ''.'' \<and>
     digits 3 (field_at 20 3 s) \<and> s ! 23 = CHR ''Z''"

definition canonical_date :: "string \<Rightarrow> bool" where
  "canonical_date s \<longleftrightarrow>
     1 \<le> num_at 5 2 s \<and> num_at 5 2 s \<le> 12 \<and>
     1 \<le> num_at 8 2 s \<and> num_at 8 2 s \<le> days_in_month (num_at 0 4 s) (num_at 5 2 s) \<and>
     num_at 11 2 s < 24 \<and> num_at 14 2 s < 60 \<and> num_at 17 2 s < 60"

definition ms_of :: "string \<Rightarrow> nat" where
  "ms_of s =
     (((day_number (num_at 0 4 s) (num_at 5 2 s) (num_at 8 2 s) * 24 + num_at 11 2 s) * 60
        + num_at 14 2 s) * 60 + num_at 17 2 s) * 1000 + num_at 20 3 s"

definition canonical_ms :: "string \<Rightarrow> int option" where
  "canonical_ms s =
     (if canonical_form s \<and> canonical_date s
      then Some (int (ms_of s))
      else None)"

section \<open>Digits compare like numbers\<close>

lemma digit_order: "is_digit c \<Longrightarrow> is_digit d \<Longrightarrow> c < d \<longleftrightarrow> (of_char c - 48 :: nat) < of_char d - 48"
  by (auto simp: is_digit_def less_char_def)

lemma digit_lt10: "is_digit c \<Longrightarrow> (of_char c - 48 :: nat) < 10"
  by (auto simp: is_digit_def)

lemma digit_inj: "is_digit c \<Longrightarrow> is_digit d \<Longrightarrow> (of_char c - 48 :: nat) = of_char d - 48 \<Longrightarrow> c = d"
  using digit_order[of c d] digit_order[of d c] by auto

lemma foldl_digits: "foldl (\<lambda>a c. 10 * a + (of_char c - 48)) k s = k * 10 ^ length s + digits_val s"
proof (induction s arbitrary: k)
  case Nil
  then show ?case by (simp add: digits_val_def)
next
  case (Cons c s)
  have "digits_val (c # s) = foldl (\<lambda>a c. 10 * a + (of_char c - 48)) (of_char c - 48) s"
    by (simp add: digits_val_def)
  also have "\<dots> = (of_char c - 48) * 10 ^ length s + digits_val s" by (rule Cons.IH)
  finally have 1: "digits_val (c # s) = (of_char c - 48) * 10 ^ length s + digits_val s" .
  have "foldl (\<lambda>a c. 10 * a + (of_char c - 48)) k (c # s)
      = (10 * k + (of_char c - 48)) * 10 ^ length s + digits_val s"
    unfolding foldl.simps by (rule Cons.IH)
  also have "\<dots> = k * 10 ^ length (c # s) + digits_val (c # s)"
    unfolding 1 by (simp only: length_Cons power_Suc add_mult_distrib mult.assoc mult.left_commute add.assoc)
  finally show ?case .
qed

lemma digits_val_Cons: "digits_val (c # s) = (of_char c - 48) * 10 ^ length s + digits_val s"
proof -
  have "digits_val (c # s) = foldl (\<lambda>a c. 10 * a + (of_char c - 48)) (of_char c - 48) s"
    by (simp add: digits_val_def)
  then show ?thesis by (simp only: foldl_digits)
qed

lemma digits_val_bound: "list_all is_digit s \<Longrightarrow> digits_val s < 10 ^ length s"
proof (induction s)
  case Nil
  then show ?case by (simp add: digits_val_def)
next
  case (Cons c s)
  then have "(of_char c - 48 :: nat) \<le> 9" and b: "digits_val s < 10 ^ length s" using digit_lt10[of c] by auto
  then have "(of_char c - 48 :: nat) * 10 ^ length s \<le> 9 * 10 ^ length s" by (intro mult_right_mono) auto
  from add_le_less_mono[OF this b] show ?case by (simp add: digits_val_Cons)
qed

text \<open>A leading part below decides a mixed-radix comparison.\<close>

lemma radix_less:
  fixes a b x y n :: nat
  assumes "x < n" "y < n"
  shows "a * n + x < b * n + y \<longleftrightarrow> a < b \<or> (a = b \<and> x < y)"
proof -
  have "a * n + x < b * n + y" if "a < b"
  proof -
    have "(a + 1) * n \<le> b * n" using that by (intro mult_right_mono) auto
    with assms show ?thesis by simp
  qed
  moreover have "\<not> a * n + x < b * n + y" if "b < a"
  proof -
    have "(b + 1) * n \<le> a * n" using that by (intro mult_right_mono) auto
    with assms show ?thesis by simp
  qed
  ultimately show ?thesis by (metis add_less_cancel_left linorder_neqE_nat)
qed

lemma radix_eq:
  fixes a b x y n :: nat
  assumes "x < n" "y < n"
  shows "a * n + x = b * n + y \<longleftrightarrow> a = b \<and> x = y"
  using radix_less[OF assms, of a b] radix_less[OF assms(2,1), of b a] by (metis nat_neq_iff)

lemma digits_val_less:
  assumes "list_all is_digit s" "list_all is_digit t" "length s = length t"
  shows "s < t \<longleftrightarrow> digits_val s < digits_val t"
  using assms
proof (induction s arbitrary: t)
  case Nil
  then show ?case by simp
next
  case (Cons c s)
  then obtain d t' where t: "t = d # t'" by (cases t) auto
  have IH: "s < t' \<longleftrightarrow> digits_val s < digits_val t'" using Cons t by simp
  have b: "digits_val s < 10 ^ length t'" "digits_val t' < 10 ^ length t'"
    using digits_val_bound[of s] digits_val_bound[of t'] Cons.prems t by auto
  have "c < d \<longleftrightarrow> (of_char c - 48 :: nat) < of_char d - 48" "c = d \<longleftrightarrow> (of_char c - 48 :: nat) = of_char d - 48"
    using digit_order digit_inj Cons.prems t by auto
  then show ?case
    using radix_less[OF b, of "of_char c - 48" "of_char d - 48"] IH Cons.prems(3) t
    by (auto simp: digits_val_Cons)
qed

lemma lex_append:
  fixes a b x y :: "'a::linorder list"
  assumes "length a = length b"
  shows "a @ x < b @ y \<longleftrightarrow> a < b \<or> (a = b \<and> x < y)"
  using assms
proof (induction a arbitrary: b)
  case (Cons c a)
  then show ?case by (cases b) auto
qed simp

text \<open>The same for blocks of varying length.\<close>

lemma blocks_less:
  fixes f :: "nat \<Rightarrow> nat"
  assumes "\<And>i. f i \<le> f (Suc i)" and "f a + x < f (Suc a)" and "f b + y < f (Suc b)"
  shows "f a + x < f b + y \<longleftrightarrow> a < b \<or> (a = b \<and> x < y)"
proof -
  have mono: "f i \<le> f j" if "i \<le> j" for i j
    using that assms(1) by (rule lift_Suc_mono_le[rotated])
  have "f a + x < f b + y" if "a < b" using mono[of "Suc a" b] that assms(2) by simp
  moreover have "\<not> f a + x < f b + y" if "b < a" using mono[of "Suc b" a] that assms(3) by simp
  ultimately show ?thesis by (metis add_less_cancel_left linorder_neqE_nat)
qed

section \<open>Days\<close>

lemma year_length: "days_before_month y 13 = (if leap y then 366 else 365)"
  by (simp add: numeral_eq_Suc days_in_month_def)

lemma month_block: "1 \<le> m \<Longrightarrow> 1 \<le> d \<Longrightarrow> d \<le> days_in_month y m \<Longrightarrow>
    days_before_month y m + (d - 1) < days_before_month y (Suc m)"
  by simp

lemma month_mono: "days_before_month y m \<le> days_before_month y (Suc m)"
  by simp

lemma year_block:
  assumes "1 \<le> m" "m \<le> 12" "1 \<le> d" "d \<le> days_in_month y m"
  shows "days_before_year y + (days_before_month y m + (d - 1)) < days_before_year (Suc y)"
proof -
  have "days_before_month y (Suc m) \<le> days_before_month y 13"
    by (rule lift_Suc_mono_le[of "days_before_month y"]) (use assms(2) month_mono in auto)
  with month_block[OF assms(1,3,4)] show ?thesis by (simp add: year_length split: if_splits)
qed

definition valid_date :: "nat \<Rightarrow> nat \<Rightarrow> nat \<Rightarrow> bool" where
  "valid_date y m d \<longleftrightarrow> 1 \<le> m \<and> m \<le> 12 \<and> 1 \<le> d \<and> d \<le> days_in_month y m"

lemma day_number_less:
  assumes "valid_date y m d" and "valid_date y' m' d'"
  shows "day_number y m d < day_number y' m' d' \<longleftrightarrow> y < y' \<or> (y = y' \<and> (m < m' \<or> (m = m' \<and> d < d')))"
proof -
  have year: "day_number y m d < day_number y' m' d' \<longleftrightarrow>
      y < y' \<or> (y = y' \<and> days_before_month y m + (d - 1) < days_before_month y' m' + (d' - 1))"
    unfolding day_number_def add.assoc
    by (rule blocks_less) (use assms year_block in \<open>auto simp: valid_date_def simp del: days_before_month.simps\<close>)
  have month: "days_before_month y m + (d - 1) < days_before_month y m' + (d' - 1) \<longleftrightarrow>
      m < m' \<or> (m = m' \<and> d < d')" if "y = y'"
  proof -
    have "days_before_month y' m + (d - 1) < days_before_month y' m' + (d' - 1) \<longleftrightarrow>
        m < m' \<or> (m = m' \<and> d - 1 < d' - 1)"
      by (rule blocks_less)
        (use assms month_mono month_block that in \<open>auto simp: valid_date_def simp del: days_before_month.simps\<close>)
    moreover have "d - 1 < d' - 1 \<longleftrightarrow> d < d'" using assms by (auto simp: valid_date_def)
    ultimately show ?thesis unfolding that by simp
  qed
  show ?thesis using year month by auto
qed

lemma day_number_eq:
  assumes "valid_date y m d" and "valid_date y' m' d'"
  shows "day_number y m d = day_number y' m' d' \<longleftrightarrow> y = y' \<and> m = m' \<and> d = d'"
  using day_number_less[OF assms] day_number_less[OF assms(2,1)] by (metis nat_neq_iff)

section \<open>String order is time order\<close>

lemma split_at: "i + n < length s \<Longrightarrow> drop i s = field_at i n s @ s ! (i + n) # drop (Suc (i + n)) s"
  unfolding field_at_def
  by (metis Cons_nth_drop_Suc add.commute append_take_drop_id drop_drop)

lemma canonical_split:
  assumes "canonical_form s"
  shows "s = field_at 0 4 s @ CHR ''-'' # field_at 5 2 s @ CHR ''-'' # field_at 8 2 s @ CHR ''T'' #
     field_at 11 2 s @ CHR '':'' # field_at 14 2 s @ CHR '':'' # field_at 17 2 s @ CHR ''.'' #
     field_at 20 3 s @ CHR ''Z'' # []"
proof -
  have len: "length s = 24" and seps: "s ! 4 = CHR ''-''" "s ! 7 = CHR ''-''" "s ! 10 = CHR ''T''"
    "s ! 13 = CHR '':''" "s ! 16 = CHR '':''" "s ! 19 = CHR ''.''" "s ! 23 = CHR ''Z''"
    using assms by (simp_all add: canonical_form_def)
  have "s = drop 0 s" by simp
  also have "\<dots> = field_at 0 4 s @ CHR ''-'' # drop 5 s" using split_at[of 0 4 s] len seps by simp
  also have "drop 5 s = field_at 5 2 s @ CHR ''-'' # drop 8 s" using split_at[of 5 2 s] len seps by simp
  also have "drop 8 s = field_at 8 2 s @ CHR ''T'' # drop 11 s" using split_at[of 8 2 s] len seps by simp
  also have "drop 11 s = field_at 11 2 s @ CHR '':'' # drop 14 s" using split_at[of 11 2 s] len seps by simp
  also have "drop 14 s = field_at 14 2 s @ CHR '':'' # drop 17 s" using split_at[of 14 2 s] len seps by simp
  also have "drop 17 s = field_at 17 2 s @ CHR ''.'' # drop 20 s" using split_at[of 17 2 s] len seps by simp
  also have "drop 20 s = field_at 20 3 s @ CHR ''Z'' # drop 24 s" using split_at[of 20 3 s] len seps by simp
  also have "drop 24 s = []" using len by simp
  finally show ?thesis .
qed

text \<open>A field followed by a fixed separator: it decides, or the rest does.\<close>

lemma field_less:
  assumes "digits n a" "digits n b"
  shows "a @ c # x < b @ c # y \<longleftrightarrow> digits_val a < digits_val b \<or> (digits_val a = digits_val b \<and> x < y)"
proof -
  have ab: "a < b \<longleftrightarrow> digits_val a < digits_val b" "b < a \<longleftrightarrow> digits_val b < digits_val a"
    using digits_val_less[of a b] digits_val_less[of b a] assms by (simp_all add: digits_def)
  then have "a = b \<longleftrightarrow> digits_val a = digits_val b" by (metis nat_neq_iff neqE)
  with ab(1) lex_append[of a b "c # x" "c # y"] assms show ?thesis by (simp add: digits_def)
qed

lemma canonical_string_less:
  assumes "canonical_form s" and "canonical_form t"
  shows "s < t \<longleftrightarrow>
    num_at 0 4 s < num_at 0 4 t \<or> (num_at 0 4 s = num_at 0 4 t \<and>
   (num_at 5 2 s < num_at 5 2 t \<or> (num_at 5 2 s = num_at 5 2 t \<and>
   (num_at 8 2 s < num_at 8 2 t \<or> (num_at 8 2 s = num_at 8 2 t \<and>
   (num_at 11 2 s < num_at 11 2 t \<or> (num_at 11 2 s = num_at 11 2 t \<and>
   (num_at 14 2 s < num_at 14 2 t \<or> (num_at 14 2 s = num_at 14 2 t \<and>
   (num_at 17 2 s < num_at 17 2 t \<or> (num_at 17 2 s = num_at 17 2 t \<and>
    num_at 20 3 s < num_at 20 3 t)))))))))))"
proof -
  have f: "digits 4 (field_at 0 4 u)" "digits 2 (field_at 5 2 u)" "digits 2 (field_at 8 2 u)"
    "digits 2 (field_at 11 2 u)" "digits 2 (field_at 14 2 u)" "digits 2 (field_at 17 2 u)"
    "digits 3 (field_at 20 3 u)" if "canonical_form u" for u
    using that by (simp_all add: canonical_form_def)
  note fs = f[OF assms(1)] and ft = f[OF assms(2)]
  show ?thesis
    unfolding num_at_def
    by (subst canonical_split[OF assms(1)], subst canonical_split[OF assms(2)])
      (simp only: field_less[OF fs(1) ft(1)] field_less[OF fs(2) ft(2)] field_less[OF fs(3) ft(3)]
        field_less[OF fs(4) ft(4)] field_less[OF fs(5) ft(5)] field_less[OF fs(6) ft(6)]
        field_less[OF fs(7) ft(7)] order_less_irrefl simp_thms)
qed

lemma num_at_bound: "digits n (field_at i n s) \<Longrightarrow> num_at i n s < 10 ^ n"
  unfolding num_at_def digits_def using digits_val_bound by metis

theorem canonical_order:
  assumes "canonical_ms s = Some a" and "canonical_ms t = Some b"
  shows "s < t \<longleftrightarrow> a < b"
proof -
  have s: "canonical_form s" "canonical_date s" and t: "canonical_form t" "canonical_date t"
    using assms by (simp_all add: canonical_ms_def split: if_splits)
  have ds: "valid_date (num_at 0 4 s) (num_at 5 2 s) (num_at 8 2 s)"
    and dt: "valid_date (num_at 0 4 t) (num_at 5 2 t) (num_at 8 2 t)"
    using s t by (simp_all add: canonical_date_def valid_date_def)
  have b: "num_at 11 2 u < 24" "num_at 14 2 u < 60" "num_at 17 2 u < 60" "num_at 20 3 u < 1000"
    if "canonical_form u" "canonical_date u" for u
    using that num_at_bound[of 3 20 u] by (simp_all add: canonical_date_def canonical_form_def)
  note bs = b[OF s] and bt = b[OF t]
  have ab: "a = int (ms_of s)" "b = int (ms_of t)"
    using assms s t by (simp_all add: canonical_ms_def)
  have "ms_of s < ms_of t \<longleftrightarrow> s < t"
    unfolding ms_of_def canonical_string_less[OF s(1) t(1)] radix_less[OF bs(4) bt(4)]
      radix_less[OF bs(3) bt(3)] radix_less[OF bs(2) bt(2)] radix_less[OF bs(1) bt(1)]
      day_number_less[OF ds dt] radix_eq[OF bs(3) bt(3)] radix_eq[OF bs(2) bt(2)] radix_eq[OF bs(1) bt(1)]
      day_number_eq[OF ds dt]
    by blast
  with ab show ?thesis by simp
qed

section \<open>Evaluation over the integers\<close>

text \<open>The same computation over \<^typ>\<open>int\<close>, whose numerals evaluate in binary.\<close>

definition leap_i :: "int \<Rightarrow> bool" where
  "leap_i y \<longleftrightarrow> y mod 4 = 0 \<and> (y mod 100 \<noteq> 0 \<or> y mod 400 = 0)"

definition month_i :: "int \<Rightarrow> int \<Rightarrow> int" where
  "month_i y m = (if m = 2 then (if leap_i y then 29 else 28) else if m = 4 \<or> m = 6 \<or> m = 9 \<or> m = 11 then 30 else 31)"

definition year_days_i :: "int \<Rightarrow> int" where
  "year_days_i y = 365 * y + (y + 3) div 4 + (y + 399) div 400 - (y + 99) div 100"

fun month_days_i :: "int \<Rightarrow> nat \<Rightarrow> int" where
  "month_days_i y 0 = 0"
| "month_days_i y (Suc m) = month_days_i y m + (if m = 0 then 0 else month_i y (int m))"

definition canonical_date_i :: "int \<Rightarrow> int \<Rightarrow> int \<Rightarrow> int \<Rightarrow> int \<Rightarrow> int \<Rightarrow> bool" where
  "canonical_date_i y m d h mi sec \<longleftrightarrow>
     1 \<le> m \<and> m \<le> 12 \<and> 1 \<le> d \<and> d \<le> month_i y m \<and> h < 24 \<and> mi < 60 \<and> sec < 60"

definition ms_i :: "int \<Rightarrow> int \<Rightarrow> int \<Rightarrow> int \<Rightarrow> int \<Rightarrow> int \<Rightarrow> int \<Rightarrow> int" where
  "ms_i y m d h mi sec f =
     ((((year_days_i y + month_days_i y (nat m) + (d - 1)) * 24 + h) * 60 + mi) * 60 + sec) * 1000 + f"

lemma div_step:
  fixes x y z k :: int
  assumes "0 < k" and "x = y + k" and "z = y + (k - 1)"
  shows "x div k = z div k + (if y mod k = 0 then 1 else 0)"
proof -
  let ?r = "y mod k"
  have r: "0 \<le> ?r" "?r < k" using assms by simp_all
  have "(y + (k - 1)) div k = (?r + (k - 1) + (y div k) * k) div k"
    by (simp only: mod_div_mult_eq add.assoc add.commute add.left_commute)
  also have "\<dots> = y div k + (?r + (k - 1)) div k" by (rule div_mult_self1) (use assms in simp)
  also have "(?r + (k - 1)) div k = (if ?r = 0 then 0 else 1)"
  proof (cases "?r = 0")
    case True
    have "(k - 1) div k = 0" by (rule div_pos_pos_trivial) (use assms in auto)
    with True show ?thesis by simp
  next
    case False
    have "(?r + (k - 1)) div k = ((?r - 1) + k) div k" by (simp add: algebra_simps)
    also have "\<dots> = (?r - 1) div k + 1" by (rule div_add_self2) (use assms in simp)
    also have "(?r - 1) div k = 0" by (rule div_pos_pos_trivial) (use False r in auto)
    finally show ?thesis using False by simp
  qed
  finally show ?thesis using assms by simp
qed

lemma leap_int: "leap_i (int y) = leap y"
  unfolding leap_i_def leap_def by presburger

lemma month_int: "month_i (int y) (int m) = int (days_in_month y m)"
  unfolding month_i_def days_in_month_def leap_int by simp

lemma month_days_int: "month_days_i (int y) m = int (days_before_month y m)"
  by (induction m) (simp_all add: month_int)

lemma leap_count:
  fixes a b c y :: int
  assumes "r \<Longrightarrow> q" and "q \<Longrightarrow> p"
  shows "365 * (1 + y) + (a + (if p then 1 else 0)) + (c + (if r then 1 else 0)) - (b + (if q then 1 else 0)) =
    365 * y + a + c - b + (if p \<and> (\<not> q \<or> r) then 366 else 365)"
  using assms by (cases p; cases q; cases r; simp)

lemma year_days_int: "year_days_i (int y) = int (days_before_year y)"
proof (induction y)
  case (Suc y)
  have d: "(int (Suc y) + 3) div 4 = (int y + 3) div 4 + (if int y mod 4 = 0 then 1 else 0)"
    "(int (Suc y) + 99) div 100 = (int y + 99) div 100 + (if int y mod 100 = 0 then 1 else 0)"
    "(int (Suc y) + 399) div 400 = (int y + 399) div 400 + (if int y mod 400 = 0 then 1 else 0)"
    by (rule div_step; simp)+
  have "x mod 400 = 0 \<Longrightarrow> x mod 100 = 0" "x mod 100 = 0 \<Longrightarrow> x mod 4 = 0" for x :: int
    using dvd_trans[of 100 400 x] dvd_trans[of 4 100 x] by (simp_all add: dvd_eq_mod_eq_0[symmetric])
  note dvd = this[of "int y"]
  have "year_days_i (int (Suc y)) = year_days_i (int y) + (if leap_i (int y) then 366 else 365)"
    unfolding year_days_i_def leap_i_def d unfolding of_nat_Suc by (rule leap_count) (rule dvd, assumption)+
  with Suc show ?case by (simp add: leap_int)
qed (simp add: year_days_i_def)

lemma canonical_ms_code [code]:
  "canonical_ms s =
     (if canonical_form s then
        (let n = (\<lambda>i k. digits_i (field_at i k s));
             y = n 0 4; m = n 5 2; d = n 8 2; h = n 11 2; mi = n 14 2; sec = n 17 2
         in if canonical_date_i y m d h mi sec then Some (ms_i y m d h mi sec (n 20 3)) else None)
      else None)"
proof (cases "canonical_form s")
  case True
  have f: "digits_i (field_at 0 4 s) = int (num_at 0 4 s)" "digits_i (field_at 5 2 s) = int (num_at 5 2 s)"
    "digits_i (field_at 8 2 s) = int (num_at 8 2 s)" "digits_i (field_at 11 2 s) = int (num_at 11 2 s)"
    "digits_i (field_at 14 2 s) = int (num_at 14 2 s)" "digits_i (field_at 17 2 s) = int (num_at 17 2 s)"
    "digits_i (field_at 20 3 s) = int (num_at 20 3 s)"
    using True by (simp_all add: canonical_form_def digits_def digits_int num_at_def)
  have date: "canonical_date_i (int y) (int m) (int d) (int h) (int mi) (int sec) \<longleftrightarrow>
      1 \<le> m \<and> m \<le> 12 \<and> 1 \<le> d \<and> d \<le> days_in_month y m \<and> h < 24 \<and> mi < 60 \<and> sec < 60" for y m d h mi sec
    unfolding canonical_date_i_def month_int by auto
  have ms: "ms_i (int y) (int m) (int d) (int h) (int mi) (int sec) (int f) =
      int ((((day_number y m d * 24 + h) * 60 + mi) * 60 + sec) * 1000 + f)" if "1 \<le> d" for y m d h mi sec f
    using that unfolding ms_i_def nat_int year_days_int month_days_int day_number_def by (simp add: of_nat_diff)
  show ?thesis
    using True ms unfolding Let_def f date by (simp add: canonical_ms_def canonical_date_def ms_of_def)
qed (simp add: canonical_ms_def)

end
