(* ===== verification/Lifecycle.thy ===== *)
theory Lifecycle
  imports Prelude
begin

text \<open>
  The interface of a transition table: the states a component allows next, and a rank that every
  transition raises. Its clients keep an append-only history of the states they went through; the
  lemmas bound that history and show that no state is entered twice and that states without
  successors are final.
\<close>

locale lifecycle =
  fixes allowed :: "'s \<Rightarrow> 's list"
    and rank :: "'s \<Rightarrow> nat"
    and top_rank :: nat
  assumes rank_step: "t \<in> set (allowed s) \<Longrightarrow> rank s < rank t"
    and rank_bound: "rank s \<le> top_rank"
begin

text \<open>A list of states in which each is allowed after the one before it.\<close>

fun run :: "'s list \<Rightarrow> bool" where
  "run (s # t # ss) \<longleftrightarrow> t \<in> set (allowed s) \<and> run (t # ss)"
| "run ss \<longleftrightarrow> True"

lemma run_append: "run (ss @ [s]) \<Longrightarrow> t \<in> set (allowed s) \<Longrightarrow> run (ss @ [s, t])"
proof (induction ss)
  case (Cons a ss)
  then show ?case by (cases ss) auto
qed simp

lemma run_ranks: "run ss \<Longrightarrow> sorted_wrt (<) (map rank ss)"
proof (induction ss rule: run.induct)
  case (1 s t ss)
  then have "rank s < rank t" and s: "sorted_wrt (<) (rank t # map rank ss)"
    using rank_step by auto
  then have "rank s < rank u" if "u \<in> set ss" for u using that by fastforce
  with \<open>rank s < rank t\<close> s show ?case by auto
qed simp_all

lemma run_distinct: "run ss \<Longrightarrow> distinct ss"
proof -
  assume "run ss"
  then have "sorted_wrt (<) (map rank ss)" by (rule run_ranks)
  then show "distinct ss" by (induction ss) auto
qed

lemma run_length: "run ss \<Longrightarrow> length ss \<le> Suc top_rank"
proof -
  assume "run ss"
  then have s: "sorted_wrt (<) (map rank ss)" by (rule run_ranks)
  then have "distinct (map rank ss)" by (simp add: strict_sorted_iff)
  then have "length ss = card (rank ` set ss)" by (metis distinct_card length_map set_map)
  also have "\<dots> \<le> card {..top_rank}" using rank_bound by (intro card_mono) auto
  finally show ?thesis by simp
qed

lemma no_self_loop: "s \<notin> set (allowed s)"
  using rank_step by blast

text \<open>States that a state leads to, in any number of steps.\<close>

lemma leads_rank: "(\<lambda>s t. t \<in> set (allowed s))\<^sup>*\<^sup>* s t \<Longrightarrow> rank s \<le> rank t"
  by (induction rule: rtranclp_induct) (auto dest: rank_step)

lemma leads_final: "(\<lambda>s t. t \<in> set (allowed s))\<^sup>*\<^sup>* s t \<Longrightarrow> allowed s = [] \<Longrightarrow> t = s"
  by (induction rule: converse_rtranclp_induct) auto

lemma leads_antisym:
  assumes "(\<lambda>s t. t \<in> set (allowed s))\<^sup>*\<^sup>* s t" and "(\<lambda>s t. t \<in> set (allowed s))\<^sup>*\<^sup>* t s"
  shows "s = t"
  using assms(1)
proof (cases rule: converse_rtranclpE)
  case (step u)
  then have "rank s < rank t" using rank_step leads_rank by (meson order.strict_trans2)
  with leads_rank[OF assms(2)] show ?thesis by simp
qed

end

end
