(* ===== verification/AdapterLifecycle.thy ===== *)
theory AdapterLifecycle
  imports JsNum JsTime Lifecycle
begin

text \<open>
  The control-plane registry of trained adapters, \<open>packages/platform/src/adapter-lifecycle.ts\<close>: the
  transition table, registration and transition with their validators in the order of the code, and
  the promotion gate. \<open>Date.parse\<close> is implementation-defined outside the ISO format and is the
  parameter \<open>dp\<close> (\<^term>\<open>None\<close> for NaN). The lemmas are the registry invariant, its preservation by
  every operation and what it says of reachable registries.
\<close>

section \<open>Types\<close>

datatype adapter_state =
    Registered | Evaluated | Shadow | Canary | Promoted | Monitored | RolledBack | Retired

record base_model_binding =
  bm_modelId :: string
  bm_license :: string
  bm_evidenceRef :: string

datatype consent_status = Granted | Denied | Revoked | Missing

record dataset_binding =
  ds_datasetId :: string
  ds_lineageRefs :: "string list"
  ds_consentStatus :: consent_status
  ds_consentEvidence :: "string list"
  ds_representative :: bool
  ds_sampleCount :: jsnum
  ds_minimumSampleCount :: jsnum
  ds_sufficiencyEvidence :: "string list"

record evaluation_binding =
  ev_reportRef :: string
  ev_passed :: bool
  ev_successRate :: jsnum
  ev_regressionRate :: jsnum

record threshold_binding =
  th_minimumSuccessRate :: jsnum
  th_maximumRegressionRate :: jsnum

record infrastructure_binding =
  in_approved :: bool
  in_marker :: string
  in_evidenceRef :: string

record window_binding =
  mw_startsAt :: string
  mw_endsAt :: string

record rollback_binding =
  rb_servingRevision :: string
  rb_artifactDigest :: string

record approver_binding =
  apv_principalId :: string
  apv_approvedAt :: string
  apv_evidenceRef :: string

record canary_binding =
  cn_passed :: bool
  cn_observedAt :: string
  cn_evidenceRefs :: "string list"

record adapter_event =
  ae_revision :: nat
  ae_from :: "adapter_state option"
  ae_to :: adapter_state
  ae_actorId :: string
  ae_occurredAt :: string
  ae_evidenceRefs :: "string list"

record adapter_record =
  ar_tenantId :: string
  ar_adapterId :: string
  ar_state :: adapter_state
  ar_revision :: nat
  ar_baseModel :: base_model_binding
  ar_artifactDigest :: string
  ar_trainingDataset :: dataset_binding
  ar_heldOutEvaluation :: "evaluation_binding option"
  ar_promotionThresholds :: "threshold_binding option"
  ar_approvedInfrastructure :: "infrastructure_binding option"
  ar_servingRevision :: "string option"
  ar_monitoringWindow :: "window_binding option"
  ar_rollbackTarget :: "rollback_binding option"
  ar_approver :: "approver_binding option"
  ar_canaryEvidence :: "canary_binding option"
  ar_evidenceRefs :: "string list"
  ar_history :: "adapter_event list"

record register_input =
  ri_tenantId :: string
  ri_adapterId :: string
  ri_baseModel :: base_model_binding
  ri_artifactDigest :: string
  ri_trainingDataset :: dataset_binding
  ri_actorId :: string
  ri_occurredAt :: string
  ri_evidenceRefs :: "string list"

text \<open>A field of a spread object: missing, present but undefined, or given.\<close>

datatype 'a field = Absent | Undefined | Given 'a

record adapter_bindings =
  b_heldOutEvaluation :: "evaluation_binding field"
  b_promotionThresholds :: "threshold_binding field"
  b_approvedInfrastructure :: "infrastructure_binding field"
  b_servingRevision :: "string field"
  b_monitoringWindow :: "window_binding field"
  b_rollbackTarget :: "rollback_binding field"
  b_approver :: "approver_binding field"
  b_canaryEvidence :: "canary_binding field"

record transition_input =
  ti_tenantId :: string
  ti_adapterId :: string
  ti_to :: adapter_state
  ti_actorId :: string
  ti_occurredAt :: string
  ti_evidenceRefs :: "string list"
  ti_bindings :: "adapter_bindings option"

type_synonym date_parse = "string \<Rightarrow> int option"
type_synonym adapter_registry = "(string, adapter_record) jsmap"

section \<open>Validators\<close>

definition allowed_transitions :: "adapter_state \<Rightarrow> adapter_state list" where
  "allowed_transitions s = (case s of
     Registered \<Rightarrow> [Evaluated, Retired]
   | Evaluated \<Rightarrow> [Shadow, Retired]
   | Shadow \<Rightarrow> [Canary, Retired]
   | Canary \<Rightarrow> [Promoted, RolledBack]
   | Promoted \<Rightarrow> [Monitored, RolledBack]
   | Monitored \<Rightarrow> [RolledBack, Retired]
   | RolledBack \<Rightarrow> [Retired]
   | Retired \<Rightarrow> [])"

definition hasEvidence :: "string list \<Rightarrow> bool" where
  "hasEvidence vs \<longleftrightarrow> length vs > 0 \<and> list_all has_text vs"

definition isDigest :: "string \<Rightarrow> bool" where
  "isDigest s \<longleftrightarrow> starts_with s ''sha256:'' \<and> length s = 71 \<and> list_all hex_lower (drop 7 s)"

definition validTime :: "date_parse \<Rightarrow> string \<Rightarrow> bool" where
  "validTime dp s \<longleftrightarrow> has_text s \<and> dp s \<noteq> None"

definition parsed :: "date_parse \<Rightarrow> string \<Rightarrow> int" where
  "parsed dp s = (case dp s of None \<Rightarrow> 0 | Some t \<Rightarrow> t)"

text \<open>\<open>Date.parse(a) < Date.parse(b)\<close>, false when either is NaN.\<close>

definition parsed_lt :: "date_parse \<Rightarrow> string \<Rightarrow> string \<Rightarrow> bool" where
  "parsed_lt dp a b \<longleftrightarrow> (case (dp a, dp b) of (Some x, Some y) \<Rightarrow> x < y | _ \<Rightarrow> False)"

definition parsed_le :: "date_parse \<Rightarrow> string \<Rightarrow> string \<Rightarrow> bool" where
  "parsed_le dp a b \<longleftrightarrow> (case (dp a, dp b) of (Some x, Some y) \<Rightarrow> x \<le> y | _ \<Rightarrow> False)"

definition requireIdentity :: "string option list \<Rightarrow> 'a result \<Rightarrow> 'a result" where
  "requireIdentity vs rest =
     ensure (list_all (\<lambda>v. case v of None \<Rightarrow> True | Some s \<Rightarrow> has_text s) vs)
       ''adapter_lifecycle_identity_required'' rest"

definition requireEvidence :: "string list \<Rightarrow> 'a result \<Rightarrow> 'a result" where
  "requireEvidence vs rest = ensure (hasEvidence vs) ''adapter_lifecycle_evidence_required'' rest"

definition requireTime :: "date_parse \<Rightarrow> string \<Rightarrow> 'a result \<Rightarrow> 'a result" where
  "requireTime dp s rest = ensure (validTime dp s) ''adapter_lifecycle_time_invalid'' rest"

definition requireDigest :: "string \<Rightarrow> 'a result \<Rightarrow> 'a result" where
  "requireDigest s rest = ensure (isDigest s) ''adapter_lifecycle_artifact_digest_invalid'' rest"

definition validateBaseModel :: "base_model_binding \<Rightarrow> 'a result \<Rightarrow> 'a result" where
  "validateBaseModel b rest =
     ensure (has_text (bm_modelId b) \<and> has_text (bm_license b) \<and> has_text (bm_evidenceRef b))
       ''adapter_lifecycle_binding_invalid'' rest"

definition validateDataset :: "dataset_binding \<Rightarrow> 'a result \<Rightarrow> 'a result" where
  "validateDataset d rest =
     ensure (has_text (ds_datasetId d) \<and> hasEvidence (ds_lineageRefs d))
       ''adapter_lifecycle_dataset_lineage_required''
     (ensure (is_integer (ds_sampleCount d) \<and> \<not> num_lt (ds_sampleCount d) (Fin 0) \<and>
              is_integer (ds_minimumSampleCount d) \<and> \<not> num_lt (ds_minimumSampleCount d) (Fin 1))
       ''adapter_lifecycle_dataset_sufficiency_invalid''
     (ensure (list_all has_text (ds_consentEvidence d) \<and> list_all has_text (ds_sufficiencyEvidence d))
       ''adapter_lifecycle_binding_invalid'' rest))"

definition on_given :: "'a field \<Rightarrow> ('a \<Rightarrow> bool) \<Rightarrow> bool" where
  "on_given f P \<longleftrightarrow> (case f of Given v \<Rightarrow> P v | _ \<Rightarrow> True)"

definition bindings_valid :: "date_parse \<Rightarrow> adapter_bindings \<Rightarrow> bool" where
  "bindings_valid dp b \<longleftrightarrow>
     on_given (b_heldOutEvaluation b) (\<lambda>e. has_text (ev_reportRef e) \<and> is_rate (ev_successRate e) \<and> is_rate (ev_regressionRate e)) \<and>
     on_given (b_promotionThresholds b) (\<lambda>t. is_rate (th_minimumSuccessRate t) \<and> is_rate (th_maximumRegressionRate t)) \<and>
     on_given (b_approvedInfrastructure b) (\<lambda>i. has_text (in_marker i) \<and> has_text (in_evidenceRef i)) \<and>
     on_given (b_servingRevision b) has_text \<and>
     on_given (b_monitoringWindow b) (\<lambda>w. validTime dp (mw_startsAt w) \<and> validTime dp (mw_endsAt w) \<and>
        \<not> parsed_le dp (mw_endsAt w) (mw_startsAt w)) \<and>
     on_given (b_rollbackTarget b) (\<lambda>r. has_text (rb_servingRevision r) \<and> isDigest (rb_artifactDigest r)) \<and>
     on_given (b_approver b) (\<lambda>a. has_text (apv_principalId a) \<and> validTime dp (apv_approvedAt a) \<and> has_text (apv_evidenceRef a)) \<and>
     on_given (b_canaryEvidence b) (\<lambda>c. validTime dp (cn_observedAt c) \<and> list_all has_text (cn_evidenceRefs c))"

definition validateBindings :: "date_parse \<Rightarrow> adapter_bindings option \<Rightarrow> 'a result \<Rightarrow> 'a result" where
  "validateBindings dp bs rest =
     (case bs of None \<Rightarrow> rest | Some b \<Rightarrow> ensure (bindings_valid dp b) ''adapter_lifecycle_binding_invalid'' rest)"

definition registryKey :: "string \<Rightarrow> string \<Rightarrow> string" where
  "registryKey t a = nat_str (length t) @ '':'' @ t @ a"

section \<open>The promotion gate\<close>

definition opt_holds :: "'a option \<Rightarrow> ('a \<Rightarrow> bool) \<Rightarrow> bool" where
  "opt_holds v P \<longleftrightarrow> (case v of None \<Rightarrow> False | Some x \<Rightarrow> P x)"

definition assertPromotionReady :: "adapter_record \<Rightarrow> 'a result \<Rightarrow> 'a result" where
  "assertPromotionReady r rest =
     (let d = ar_trainingDataset r in
      ensure (ds_consentStatus d = Granted \<and> ds_consentEvidence d \<noteq> []) ''adapter_promotion_consent_required''
     (ensure (ds_representative d \<and> \<not> num_lt (ds_sampleCount d) (ds_minimumSampleCount d) \<and> ds_sufficiencyEvidence d \<noteq> [])
        ''adapter_promotion_representative_data_required''
     (ensure (opt_holds (ar_approvedInfrastructure r) (\<lambda>i. in_approved i \<and> has_text (in_marker i) \<and> has_text (in_evidenceRef i)))
        ''adapter_promotion_infrastructure_approval_required''
     (ensure (ar_heldOutEvaluation r \<noteq> None) ''adapter_promotion_evaluation_required''
     (ensure (opt_holds (ar_heldOutEvaluation r) ev_passed) ''adapter_promotion_evaluation_failed''
     (ensure (ar_approver r \<noteq> None) ''adapter_promotion_human_approval_required''
     (ensure (opt_holds (ar_canaryEvidence r) (\<lambda>c. cn_passed c \<and> cn_evidenceRefs c \<noteq> [])) ''adapter_promotion_canary_evidence_required''
     (ensure (opt_holds (ar_servingRevision r) has_text) ''adapter_promotion_serving_revision_required''
     (ensure (ar_monitoringWindow r \<noteq> None) ''adapter_promotion_monitoring_window_required''
     (ensure (ar_rollbackTarget r \<noteq> None) ''adapter_promotion_rollback_target_required''
     (ensure (ar_promotionThresholds r \<noteq> None) ''adapter_promotion_thresholds_required''
     (ensure (\<not> (num_lt (ev_successRate (the (ar_heldOutEvaluation r))) (th_minimumSuccessRate (the (ar_promotionThresholds r))) \<or>
                  num_lt (th_maximumRegressionRate (the (ar_promotionThresholds r))) (ev_regressionRate (the (ar_heldOutEvaluation r)))))
        ''adapter_promotion_threshold_not_met'' rest))))))))))))"

section \<open>The registry operations\<close>

definition initial_event :: "register_input \<Rightarrow> adapter_event" where
  "initial_event i =
     \<lparr>ae_revision = 1, ae_from = None, ae_to = Registered, ae_actorId = ri_actorId i,
      ae_occurredAt = ri_occurredAt i, ae_evidenceRefs = ri_evidenceRefs i\<rparr>"

definition initial_record :: "register_input \<Rightarrow> adapter_record" where
  "initial_record i =
     \<lparr>ar_tenantId = ri_tenantId i, ar_adapterId = ri_adapterId i, ar_state = Registered, ar_revision = 1,
      ar_baseModel = ri_baseModel i, ar_artifactDigest = ri_artifactDigest i,
      ar_trainingDataset = ri_trainingDataset i, ar_heldOutEvaluation = None, ar_promotionThresholds = None,
      ar_approvedInfrastructure = None, ar_servingRevision = None, ar_monitoringWindow = None,
      ar_rollbackTarget = None, ar_approver = None, ar_canaryEvidence = None,
      ar_evidenceRefs = uniq (ri_evidenceRefs i), ar_history = [initial_event i]\<rparr>"

definition register ::
  "date_parse \<Rightarrow> adapter_registry \<Rightarrow> register_input \<Rightarrow> (adapter_registry \<times> adapter_record) result" where
  "register dp m i =
     requireIdentity [Some (ri_tenantId i), Some (ri_adapterId i), Some (ri_actorId i)]
    (requireTime dp (ri_occurredAt i)
    (requireEvidence (ri_evidenceRefs i)
    (validateBaseModel (ri_baseModel i)
    (requireDigest (ri_artifactDigest i)
    (validateDataset (ri_trainingDataset i)
    (let key = registryKey (ri_tenantId i) (ri_adapterId i)
     in if map_has m key then throw ''adapter_lifecycle_conflict''
        else Inr (map_set m key (initial_record i), initial_record i)))))))"

definition overlay :: "'a field \<Rightarrow> 'a option \<Rightarrow> 'a option" where
  "overlay f old = (case f of Absent \<Rightarrow> old | Undefined \<Rightarrow> None | Given v \<Rightarrow> Some v)"

definition apply_bindings :: "adapter_bindings option \<Rightarrow> adapter_record \<Rightarrow> adapter_record" where
  "apply_bindings bs r =
     (case bs of None \<Rightarrow> r | Some b \<Rightarrow>
        r\<lparr>ar_heldOutEvaluation := overlay (b_heldOutEvaluation b) (ar_heldOutEvaluation r),
          ar_promotionThresholds := overlay (b_promotionThresholds b) (ar_promotionThresholds r),
          ar_approvedInfrastructure := overlay (b_approvedInfrastructure b) (ar_approvedInfrastructure r),
          ar_servingRevision := overlay (b_servingRevision b) (ar_servingRevision r),
          ar_monitoringWindow := overlay (b_monitoringWindow b) (ar_monitoringWindow r),
          ar_rollbackTarget := overlay (b_rollbackTarget b) (ar_rollbackTarget r),
          ar_approver := overlay (b_approver b) (ar_approver r),
          ar_canaryEvidence := overlay (b_canaryEvidence b) (ar_canaryEvidence r)\<rparr>)"

definition candidate :: "adapter_record \<Rightarrow> transition_input \<Rightarrow> adapter_record" where
  "candidate cur i =
     (apply_bindings (ti_bindings i) cur)
       \<lparr>ar_state := ti_to i,
        ar_revision := ar_revision cur + 1,
        ar_evidenceRefs := uniq (ar_evidenceRefs cur @ ti_evidenceRefs i),
        ar_history := ar_history cur @
          [\<lparr>ae_revision = ar_revision cur + 1, ae_from = Some (ar_state cur), ae_to = ti_to i,
            ae_actorId = ti_actorId i, ae_occurredAt = ti_occurredAt i, ae_evidenceRefs = ti_evidenceRefs i\<rparr>]\<rparr>"

definition transition ::
  "date_parse \<Rightarrow> adapter_registry \<Rightarrow> transition_input \<Rightarrow> (adapter_registry \<times> adapter_record) result" where
  "transition dp m i =
     requireIdentity [Some (ti_tenantId i), Some (ti_adapterId i), Some (ti_actorId i)]
    (requireTime dp (ti_occurredAt i)
    (requireEvidence (ti_evidenceRefs i)
    (let key = registryKey (ti_tenantId i) (ti_adapterId i)
     in case map_get m key of
          None \<Rightarrow> throw ''adapter_lifecycle_not_found''
        | Some cur \<Rightarrow>
            if ar_state cur = Retired then throw ''adapter_lifecycle_terminal''
            else if ti_to i \<notin> set (allowed_transitions (ar_state cur)) then throw ''adapter_lifecycle_transition_denied''
            else if parsed_lt dp (ti_occurredAt i) (ae_occurredAt (last (ar_history cur)))
            then throw ''adapter_lifecycle_time_regressed''
            else validateBindings dp (ti_bindings i)
              (let next = candidate cur i; store = Inr (map_set m key next, next)
               in if ti_to i = Promoted then assertPromotionReady next store else store))))"

definition get_adapter :: "adapter_registry \<Rightarrow> string \<Rightarrow> string \<Rightarrow> adapter_record option result" where
  "get_adapter m t a = requireIdentity [Some t, Some a] (Inr (map_get m (registryKey t a)))"

text \<open>\<open>lc\<close> is \<open>String.prototype.localeCompare\<close>.\<close>

definition list_adapters :: "(string \<Rightarrow> string \<Rightarrow> int) \<Rightarrow> adapter_registry \<Rightarrow> string \<Rightarrow> adapter_record list result" where
  "list_adapters lc m t =
     requireIdentity [Some t]
       (Inr (js_sort (\<lambda>l r. lc (ar_adapterId l) (ar_adapterId r))
               (filter (\<lambda>r. ar_tenantId r = t) (map_values m))))"

section \<open>The transition table as a lifecycle\<close>

definition adapter_rank :: "adapter_state \<Rightarrow> nat" where
  "adapter_rank s = (case s of Registered \<Rightarrow> 0 | Evaluated \<Rightarrow> 1 | Shadow \<Rightarrow> 2 | Canary \<Rightarrow> 3 | Promoted \<Rightarrow> 4
     | Monitored \<Rightarrow> 5 | RolledBack \<Rightarrow> 6 | Retired \<Rightarrow> 7)"

interpretation adapter: lifecycle allowed_transitions adapter_rank 7
proof
  show "t \<in> set (allowed_transitions s) \<Longrightarrow> adapter_rank s < adapter_rank t" for s t
    by (cases s) (auto simp: allowed_transitions_def adapter_rank_def)
  show "adapter_rank s \<le> 7" for s
    by (cases s) (simp_all add: adapter_rank_def)
qed

section \<open>The invariant\<close>

text \<open>What the promotion gate promises of a record.\<close>

definition promotion_ready :: "adapter_record \<Rightarrow> bool" where
  "promotion_ready r \<longleftrightarrow>
     ds_consentStatus (ar_trainingDataset r) = Granted \<and> ds_consentEvidence (ar_trainingDataset r) \<noteq> [] \<and>
     ds_representative (ar_trainingDataset r) \<and>
     \<not> num_lt (ds_sampleCount (ar_trainingDataset r)) (ds_minimumSampleCount (ar_trainingDataset r)) \<and>
     ds_sufficiencyEvidence (ar_trainingDataset r) \<noteq> [] \<and>
     (\<exists>inf ev ap cn sv w rb th.
        ar_approvedInfrastructure r = Some inf \<and> in_approved inf \<and> has_text (in_marker inf) \<and> has_text (in_evidenceRef inf) \<and>
        ar_heldOutEvaluation r = Some ev \<and> ev_passed ev \<and> ar_approver r = Some ap \<and>
        ar_canaryEvidence r = Some cn \<and> cn_passed cn \<and> cn_evidenceRefs cn \<noteq> [] \<and>
        ar_servingRevision r = Some sv \<and> has_text sv \<and> ar_monitoringWindow r = Some w \<and>
        ar_rollbackTarget r = Some rb \<and> ar_promotionThresholds r = Some th \<and>
        \<not> num_lt (ev_successRate ev) (th_minimumSuccessRate th) \<and>
        \<not> num_lt (th_maximumRegressionRate th) (ev_regressionRate ev))"

lemma assertPromotionReady_iff:
  "assertPromotionReady r rest = Inr x \<longleftrightarrow> promotion_ready r \<and> rest = Inr x"
  unfolding assertPromotionReady_def promotion_ready_def Let_def
  by (auto simp: result_simps opt_holds_def split: option.splits)

definition history_ok :: "date_parse \<Rightarrow> adapter_record \<Rightarrow> bool" where
  "history_ok dp r \<longleftrightarrow>
     ar_history r \<noteq> [] \<and> ar_revision r = length (ar_history r) \<and>
     map ae_revision (ar_history r) = [1 ..< Suc (length (ar_history r))] \<and>
     ae_to (hd (ar_history r)) = Registered \<and> ae_to (last (ar_history r)) = ar_state r \<and>
     map ae_from (ar_history r) = None # map Some (butlast (map ae_to (ar_history r))) \<and>
     adapter.run (map ae_to (ar_history r)) \<and>
     (\<forall>e\<in>set (ar_history r). validTime dp (ae_occurredAt e) \<and> hasEvidence (ae_evidenceRefs e)) \<and>
     sorted (map (\<lambda>e. parsed dp (ae_occurredAt e)) (ar_history r))"

definition record_ok :: "date_parse \<Rightarrow> string \<Rightarrow> adapter_record \<Rightarrow> bool" where
  "record_ok dp key r \<longleftrightarrow> key = registryKey (ar_tenantId r) (ar_adapterId r) \<and> history_ok dp r \<and>
     (ar_state r = Promoted \<longrightarrow> promotion_ready r)"

definition registry_ok :: "date_parse \<Rightarrow> adapter_registry \<Rightarrow> bool" where
  "registry_ok dp m \<longleftrightarrow> map_ok m \<and> (\<forall>k r. map_get m k = Some r \<longrightarrow> record_ok dp k r)"

lemmas register_unfold = register_def requireIdentity_def requireTime_def requireEvidence_def
  validateBaseModel_def requireDigest_def validateDataset_def Let_def

lemma register_InrD:
  assumes "register dp m i = Inr (m', r)"
  shows "m' = map_set m (registryKey (ri_tenantId i) (ri_adapterId i)) (initial_record i)" "r = initial_record i"
    "\<not> map_has m (registryKey (ri_tenantId i) (ri_adapterId i))"
    "validTime dp (ri_occurredAt i)" "hasEvidence (ri_evidenceRefs i)"
  using assms by (auto simp: register_unfold result_simps split: if_splits)

lemma transition_InrD:
  assumes "transition dp m i = Inr (m', r)"
  shows "\<exists>cur. map_get m (registryKey (ti_tenantId i) (ti_adapterId i)) = Some cur \<and>
     ti_to i \<in> set (allowed_transitions (ar_state cur)) \<and>
     \<not> parsed_lt dp (ti_occurredAt i) (ae_occurredAt (last (ar_history cur))) \<and>
     validTime dp (ti_occurredAt i) \<and> hasEvidence (ti_evidenceRefs i) \<and>
     r = candidate cur i \<and> m' = map_set m (registryKey (ti_tenantId i) (ti_adapterId i)) r \<and>
     (ti_to i = Promoted \<longrightarrow> promotion_ready r)"
  using assms
  by (auto simp: transition_def requireIdentity_def requireTime_def requireEvidence_def validateBindings_def
      Let_def result_simps assertPromotionReady_iff split: option.splits if_splits)

lemma candidate_sel [simp]:
  "ar_tenantId (candidate cur i) = ar_tenantId cur" "ar_adapterId (candidate cur i) = ar_adapterId cur"
  "ar_state (candidate cur i) = ti_to i" "ar_revision (candidate cur i) = ar_revision cur + 1"
  "ar_history (candidate cur i) = ar_history cur @
     [\<lparr>ae_revision = ar_revision cur + 1, ae_from = Some (ar_state cur), ae_to = ti_to i,
       ae_actorId = ti_actorId i, ae_occurredAt = ti_occurredAt i, ae_evidenceRefs = ti_evidenceRefs i\<rparr>]"
  by (simp_all add: candidate_def apply_bindings_def split: option.splits)

lemma history_ok_initial:
  assumes "validTime dp (ri_occurredAt i)" and "hasEvidence (ri_evidenceRefs i)"
  shows "history_ok dp (initial_record i)"
  using assms by (simp add: history_ok_def initial_record_def initial_event_def)

lemma history_ok_candidate:
  assumes ok: "history_ok dp cur" and step: "ti_to i \<in> set (allowed_transitions (ar_state cur))"
    and time: "\<not> parsed_lt dp (ti_occurredAt i) (ae_occurredAt (last (ar_history cur)))"
    and valid: "validTime dp (ti_occurredAt i)" "hasEvidence (ti_evidenceRefs i)"
  shows "history_ok dp (candidate cur i)"
proof -
  let ?h = "ar_history cur"
  have ne: "?h \<noteq> []" and last: "ae_to (last ?h) = ar_state cur" using ok by (simp_all add: history_ok_def)
  obtain bs where bs: "map ae_to ?h = bs @ [ar_state cur]"
    using ne last by (metis append_butlast_last_id last_map map_is_Nil_conv)
  have "adapter.run (map ae_to ?h)" using ok by (simp add: history_ok_def)
  then have run: "adapter.run (map ae_to ?h @ [ti_to i])"
    using adapter.run_append[of bs "ar_state cur" "ti_to i"] step bs by simp
  have last_valid: "validTime dp (ae_occurredAt (last ?h))" using ok ne by (simp add: history_ok_def)
  have le: "parsed dp (ae_occurredAt (last ?h)) \<le> parsed dp (ti_occurredAt i)"
    using time valid(1) last_valid by (auto simp: parsed_lt_def parsed_def validTime_def split: option.splits)
  have sorted: "sorted (map (\<lambda>e. parsed dp (ae_occurredAt e)) ?h)" using ok by (simp add: history_ok_def)
  have "parsed dp (ae_occurredAt e) \<le> parsed dp (ti_occurredAt i)" if "e \<in> set ?h" for e
    using sorted_le_last[OF sorted that] le by simp
  with sorted have "sorted (map (\<lambda>e. parsed dp (ae_occurredAt e)) ?h @ [parsed dp (ti_occurredAt i)])"
    by (auto simp: sorted_append)
  moreover have "map ae_from ?h @ [Some (ar_state cur)] = None # map Some (butlast (map ae_to ?h @ [ti_to i]))"
    unfolding butlast_snoc using ok bs by (simp add: history_ok_def)
  moreover have "map ae_revision ?h @ [ar_revision cur + 1] = [1 ..< Suc (length (?h @ [x]))]" for x :: adapter_event
    using ok ne by (simp add: history_ok_def Suc_le_eq)
  ultimately show ?thesis
    using ok ne run valid by (simp add: history_ok_def)
qed

lemma promotion_ready_candidate:
  "ti_to i \<noteq> Promoted \<or> promotion_ready (candidate cur i) \<Longrightarrow>
     ar_state (candidate cur i) = Promoted \<longrightarrow> promotion_ready (candidate cur i)"
  by auto

lemma registry_ok_empty: "registry_ok dp []"
  by (simp add: registry_ok_def)

lemma registry_ok_register:
  assumes "registry_ok dp m" and "register dp m i = Inr (m', r)"
  shows "registry_ok dp m'"
proof -
  note d = register_InrD[OF assms(2)]
  have "record_ok dp (registryKey (ri_tenantId i) (ri_adapterId i)) (initial_record i)"
    using history_ok_initial[OF d(4,5)] by (simp add: record_ok_def initial_record_def)
  with assms(1) d(1) show ?thesis
    by (auto simp: registry_ok_def js.get_put js.ok_put split: if_splits)
qed

lemma registry_ok_transition:
  assumes "registry_ok dp m" and "transition dp m i = Inr (m', r)"
  shows "registry_ok dp m'"
proof -
  let ?key = "registryKey (ti_tenantId i) (ti_adapterId i)"
  obtain cur where cur: "map_get m ?key = Some cur" and step: "ti_to i \<in> set (allowed_transitions (ar_state cur))"
    and time: "\<not> parsed_lt dp (ti_occurredAt i) (ae_occurredAt (last (ar_history cur)))"
    and valid: "validTime dp (ti_occurredAt i)" "hasEvidence (ti_evidenceRefs i)"
    and r: "r = candidate cur i" and m': "m' = map_set m ?key r" and ready: "ti_to i = Promoted \<longrightarrow> promotion_ready r"
    using transition_InrD[OF assms(2)] by blast
  have old: "record_ok dp ?key cur" using assms(1) cur by (simp add: registry_ok_def)
  have "record_ok dp ?key r"
    using old ready history_ok_candidate[OF _ step time valid] by (simp add: record_ok_def r)
  with assms(1) show ?thesis
    by (auto simp: registry_ok_def m' js.get_put js.ok_put split: if_splits)
qed

section \<open>Reachable registries\<close>

inductive registry_step :: "date_parse \<Rightarrow> adapter_registry \<Rightarrow> adapter_registry \<Rightarrow> bool" for dp where
  step_register: "register dp m i = Inr (m', r) \<Longrightarrow> registry_step dp m m'"
| step_transition: "transition dp m i = Inr (m', r) \<Longrightarrow> registry_step dp m m'"

inductive registry_reachable :: "date_parse \<Rightarrow> adapter_registry \<Rightarrow> bool" for dp where
  reach_empty: "registry_reachable dp []"
| reach_step: "registry_reachable dp m \<Longrightarrow> registry_step dp m m' \<Longrightarrow> registry_reachable dp m'"

inductive_cases registry_stepE: "registry_step dp m m'"

lemma reachable_ok: "registry_reachable dp m \<Longrightarrow> registry_ok dp m"
proof (induction rule: registry_reachable.induct)
  case reach_empty
  show ?case by (rule registry_ok_empty)
next
  case (reach_step m m')
  from reach_step.hyps(2) show ?case
    by (rule registry_stepE) (use reach_step.IH registry_ok_register registry_ok_transition in blast)+
qed

text \<open>Claim C30: every record of a reachable registry is sound. Its history is numbered 1 to its revision,
  starts at \<open>registered\<close>, follows the transition table, ends in its state, is ordered in time and
  evidenced, and has at most eight entries; and a record in state \<open>promoted\<close> passed the promotion gate
  with the evidence it holds.\<close>

theorem reachable_records_sound:
  assumes "registry_reachable dp m" and "map_get m key = Some r"
  shows "key = registryKey (ar_tenantId r) (ar_adapterId r) \<and> history_ok dp r \<and>
     length (ar_history r) \<le> 8 \<and> distinct (map ae_to (ar_history r)) \<and>
     (ar_state r = Promoted \<longrightarrow> promotion_ready r)"
proof -
  have ok: "record_ok dp key r" using reachable_ok[OF assms(1)] assms(2) by (simp add: registry_ok_def)
  then have run: "adapter.run (map ae_to (ar_history r))" by (simp add: record_ok_def history_ok_def)
  from adapter.run_length[OF run] adapter.run_distinct[OF run] ok show ?thesis
    by (simp add: record_ok_def)
qed

section \<open>Isolation\<close>

lemma takeWhile_digits:
  assumes "list_all is_digit ds" and "\<not> is_digit c"
  shows "takeWhile is_digit (ds @ c # rest) = ds" "drop (length ds) (ds @ c # rest) = c # rest"
  using assms by (induction ds) auto

lemma registryKey_inj: "registryKey t a = registryKey t' a' \<longleftrightarrow> t = t' \<and> a = a'"
proof
  assume eq: "registryKey t a = registryKey t' a'"
  have colon: "\<not> is_digit (CHR '':'')" by (simp add: is_digit_def)
  have tw: "takeWhile is_digit (registryKey u b) = nat_str (length u)" for u b
    using takeWhile_digits(1)[OF nat_str_digits colon] by (simp add: registryKey_def)
  have "nat_str (length t) = nat_str (length t')" using eq tw by metis
  then have len: "length t = length t'" by simp
  then have "t @ a = t' @ a'" using eq by (simp add: registryKey_def)
  with len show "t = t' \<and> a = a'" by simp
qed simp

text \<open>Operations on one adapter leave every other adapter alone. A registration or transition
  that succeeds for one tenant and adapter id is what \<open>get\<close> returns for it afterwards, and \<open>get\<close> for
  any other pair, of any tenant, answers as before.\<close>

theorem registry_isolation:
  assumes "transition dp m i = Inr (m', r)"
  shows "get_adapter m' (ti_tenantId i) (ti_adapterId i) = Inr (Some r) \<and>
    ar_state r = ti_to i \<and>
    ((t, a) = (ti_tenantId i, ti_adapterId i) \<or> get_adapter m' t a = get_adapter m t a)"
proof -
  obtain cur where "r = candidate cur i" "m' = map_set m (registryKey (ti_tenantId i) (ti_adapterId i)) r"
    using transition_InrD[OF assms] by blast
  moreover have "has_text (ti_tenantId i)" "has_text (ti_adapterId i)"
    using assms by (auto simp: transition_def requireIdentity_def result_simps)
  ultimately show ?thesis
    by (auto simp: get_adapter_def requireIdentity_def js.get_put registryKey_inj)
qed

section \<open>When a transition is granted\<close>

definition request_ok :: "date_parse \<Rightarrow> transition_input \<Rightarrow> bool" where
  "request_ok dp i \<longleftrightarrow> has_text (ti_tenantId i) \<and> has_text (ti_adapterId i) \<and> has_text (ti_actorId i) \<and>
     validTime dp (ti_occurredAt i) \<and> hasEvidence (ti_evidenceRefs i)"

definition gate_open :: "date_parse \<Rightarrow> adapter_record \<Rightarrow> transition_input \<Rightarrow> bool" where
  "gate_open dp cur i \<longleftrightarrow>
     (case ti_bindings i of None \<Rightarrow> True | Some b \<Rightarrow> bindings_valid dp b) \<and>
     (if ti_to i = Promoted then promotion_ready (candidate cur i) else True)"


section \<open>A worked registry\<close>

fun run_transitions :: "date_parse \<Rightarrow> adapter_registry \<Rightarrow> transition_input list \<Rightarrow> adapter_registry option" where
  "run_transitions dp m [] = Some m"
| "run_transitions dp m (i # is) =
     (case transition dp m i of Inl e \<Rightarrow> None | Inr (m', r) \<Rightarrow> run_transitions dp m' is)"

lemma run_transitions_reachable:
  "registry_reachable dp m \<Longrightarrow> run_transitions dp m is = Some m' \<Longrightarrow> registry_reachable dp m'"
proof (induction "is" arbitrary: m)
  case (Cons i rest)
  obtain m1 r where go: "transition dp m i = Inr (m1, r)" and rest: "run_transitions dp m1 rest = Some m'"
    using Cons.prems(2) by (auto split: sum.splits prod.splits)
  from reach_step[OF Cons.prems(1) step_transition[OF go]] rest show ?case by (rule Cons.IH)
qed simp

definition sample_digest_text :: string where
  "sample_digest_text = ''sha256:'' @ replicate 64 (CHR ''a'')"

definition sample_register :: register_input where
  "sample_register =
     \<lparr>ri_tenantId = ''t'', ri_adapterId = ''a'', ri_baseModel = \<lparr>bm_modelId = ''m'', bm_license = ''mit'', bm_evidenceRef = ''e''\<rparr>,
      ri_artifactDigest = sample_digest_text,
      ri_trainingDataset = \<lparr>ds_datasetId = ''d'', ds_lineageRefs = [''l''], ds_consentStatus = Granted, ds_consentEvidence = [''c''],
        ds_representative = True, ds_sampleCount = Fin 10, ds_minimumSampleCount = Fin 5, ds_sufficiencyEvidence = [''s'']\<rparr>,
      ri_actorId = ''ana'', ri_occurredAt = ''2026-01-01T00:00:00.000Z'', ri_evidenceRefs = [''e0'']\<rparr>"

definition sample_bindings :: adapter_bindings where
  "sample_bindings =
     \<lparr>b_heldOutEvaluation = Given \<lparr>ev_reportRef = ''r'', ev_passed = True, ev_successRate = Fin (9/10), ev_regressionRate = Fin 0\<rparr>,
      b_promotionThresholds = Given \<lparr>th_minimumSuccessRate = Fin (1/2), th_maximumRegressionRate = Fin (1/10)\<rparr>,
      b_approvedInfrastructure = Given \<lparr>in_approved = True, in_marker = ''k'', in_evidenceRef = ''e''\<rparr>,
      b_servingRevision = Given ''s1'',
      b_monitoringWindow = Given \<lparr>mw_startsAt = ''2026-01-02T00:00:00.000Z'', mw_endsAt = ''2026-01-03T00:00:00.000Z''\<rparr>,
      b_rollbackTarget = Given \<lparr>rb_servingRevision = ''s0'', rb_artifactDigest = sample_digest_text\<rparr>,
      b_approver = Given \<lparr>apv_principalId = ''bo'', apv_approvedAt = ''2026-01-02T00:00:00.000Z'', apv_evidenceRef = ''e''\<rparr>,
      b_canaryEvidence = Given \<lparr>cn_passed = True, cn_observedAt = ''2026-01-02T00:00:00.000Z'', cn_evidenceRefs = [''e'']\<rparr>\<rparr>"

definition sample_transition :: "adapter_state \<Rightarrow> adapter_bindings option \<Rightarrow> transition_input" where
  "sample_transition s b = \<lparr>ti_tenantId = ''t'', ti_adapterId = ''a'', ti_to = s, ti_actorId = ''ana'',
     ti_occurredAt = ''2026-01-01T00:00:00.000Z'', ti_evidenceRefs = [''e1''], ti_bindings = b\<rparr>"

definition sample_path :: "transition_input list" where
  "sample_path = [sample_transition Evaluated None, sample_transition Shadow None, sample_transition Canary None,
     sample_transition Promoted (Some sample_bindings)]"

definition sample_start :: adapter_registry where
  "sample_start = [(registryKey ''t'' ''a'', initial_record sample_register)]"

lemma sample_start_reachable: "registry_reachable canonical_ms sample_start"
proof -
  have "register canonical_ms [] sample_register = Inr (sample_start, initial_record sample_register)" by code_simp
  then show ?thesis by (rule reach_step[OF reach_empty step_register])
qed

definition sample_registry :: adapter_registry where
  "sample_registry = the (run_transitions canonical_ms sample_start sample_path)"

definition sample_record :: adapter_record where
  "sample_record = the (map_get sample_registry (registryKey ''t'' ''a''))"

lemma sample_run: "run_transitions canonical_ms sample_start sample_path = Some sample_registry"
  by code_simp

lemma sample_lookup: "map_get sample_registry (registryKey ''t'' ''a'') = Some sample_record \<and> ar_state sample_record = Promoted"
  by code_simp

theorem reachable_records_sound_witness:
  "promotion_ready sample_record \<and> ar_state sample_record = Promoted"
  using reachable_records_sound[OF run_transitions_reachable[OF sample_start_reachable sample_run]
      sample_lookup[THEN conjunct1]] sample_lookup[THEN conjunct2]
  by (elim conjE) (rule conjI, drule (1) mp)

theorem registry_isolation_witness:
  "\<exists>m' r. transition canonical_ms sample_start (sample_transition Retired None) = Inr (m', r) \<and> ar_state r = Retired \<and>
     get_adapter m' ''t2'' ''a'' = get_adapter sample_start ''t2'' ''a''"
proof -
  let ?i = "sample_transition Retired None"
  have "isl (transition canonical_ms sample_start ?i) = False" by code_simp
  then obtain m' r where go: "transition canonical_ms sample_start ?i = Inr (m', r)"
    by (cases "transition canonical_ms sample_start ?i") auto
  have "(''t2'', ''a'') \<noteq> (ti_tenantId ?i, ti_adapterId ?i)" by code_simp
  with registry_isolation[OF go, of "''t2''" "''a''"] go show ?thesis
    by (intro exI[of _ m'] exI[of _ r]) (simp add: sample_transition_def)
qed

end
