(* ===== verification/Policy.thy ===== *)
theory Policy
  imports Prelude
begin

text \<open>
  The pull-request policy of \<open>packages/policy/src/index.ts\<close>: the configuration with its immutable
  baseline, the merge of overrides, the evaluation of a draft against its findings and the filter of
  findings. The environment variable \<open>ALLOW_AUTO_MERGE\<close> is an argument; a reason is a constructor, as
  its text is only shown to people.
\<close>

datatype confidence = CLow | CMedium | CHigh
datatype change_risk = Breaking | NonBreaking | NewCapability

definition conf_rank :: "confidence \<Rightarrow> nat" where
  "conf_rank c = (case c of CLow \<Rightarrow> 0 | CMedium \<Rightarrow> 1 | CHigh \<Rightarrow> 2)"

record policy_config =
  pc_autoMergeLowRisk :: bool
  pc_neverTouchPaths :: "string list"
  pc_requireTwoReviewersForAuth :: bool
  pc_minConfidenceForEdit :: confidence
  pc_notificationsOnly :: bool

text \<open>\<open>Partial<PolicyConfig>\<close>.\<close>

record policy_overrides =
  po_autoMergeLowRisk :: "bool option"
  po_neverTouchPaths :: "string list option"
  po_requireTwoReviewersForAuth :: "bool option"
  po_minConfidenceForEdit :: "confidence option"
  po_notificationsOnly :: "bool option"

record impact_finding =
  if_filePath :: string
  if_lineStart :: int
  if_lineEnd :: int
  if_symbol :: string
  if_confidence :: confidence
  if_evidence :: string
  if_relatedOps :: "string list option"

record file_edit =
  fe_path :: string
  fe_original :: string
  fe_updated :: string

record migration_draft =
  md_title :: string
  md_body :: string
  md_branchName :: string
  md_patch :: string
  md_risk :: change_risk
  md_confidence :: confidence
  md_fileEdits :: "file_edit list"

datatype policy_reason =
    AutoMergeHardOff | AutoMergeDisabled | TwoReviewers | BlockedPaths "string list"
  | NotificationsOnly | AllEditsBlocked

record pr_decision =
  d_allowPr :: bool
  d_allowAutoMerge :: bool
  d_blockedFiles :: "string list"
  d_allowedEdits :: "file_edit list"
  d_reasons :: "policy_reason list"
  d_labels :: "string list"

definition baseline_paths :: "string list" where
  "baseline_paths =
     [''.env'', ''.env.local'', ''.env.production'', ''secrets/'', ''credentials'', ''id_rsa'', ''.pem'',
      ''prod/'', ''production/'', ''k8s/prod'', ''terraform/'', ''package-lock.json'', ''pnpm-lock.yaml'',
      ''yarn.lock'', ''Cargo.lock'']"

definition DEFAULT_POLICY :: policy_config where
  "DEFAULT_POLICY =
     \<lparr>pc_autoMergeLowRisk = False, pc_neverTouchPaths = baseline_paths, pc_requireTwoReviewersForAuth = True,
      pc_minConfidenceForEdit = CMedium, pc_notificationsOnly = False\<rparr>"

definition no_overrides :: policy_overrides where
  "no_overrides = \<lparr>po_autoMergeLowRisk = None, po_neverTouchPaths = None, po_requireTwoReviewersForAuth = None,
                  po_minConfidenceForEdit = None, po_notificationsOnly = None\<rparr>"

definition or_else :: "'a option \<Rightarrow> 'a \<Rightarrow> 'a" where
  "or_else v d = (case v of None \<Rightarrow> d | Some x \<Rightarrow> x)"

definition mergePolicy :: "policy_overrides option \<Rightarrow> policy_config" where
  "mergePolicy overrides =
     (let o1 = or_else overrides no_overrides
      in \<lparr>pc_autoMergeLowRisk = or_else (po_autoMergeLowRisk o1) (pc_autoMergeLowRisk DEFAULT_POLICY),
          pc_neverTouchPaths = uniq (pc_neverTouchPaths DEFAULT_POLICY @ or_else (po_neverTouchPaths o1) []),
          pc_requireTwoReviewersForAuth =
            or_else (po_requireTwoReviewersForAuth o1) (pc_requireTwoReviewersForAuth DEFAULT_POLICY),
          pc_minConfidenceForEdit = or_else (po_minConfidenceForEdit o1) (pc_minConfidenceForEdit DEFAULT_POLICY),
          pc_notificationsOnly = or_else (po_notificationsOnly o1) (pc_notificationsOnly DEFAULT_POLICY)\<rparr>)"

definition pathBlocked :: "string \<Rightarrow> string list \<Rightarrow> bool" where
  "pathBlocked path rules = list_ex (\<lambda>rule. str_includes (to_lower (slashes path)) (to_lower rule)) rules"

text \<open>The case-insensitive alternations the code tests symbol and evidence with.\<close>

definition mentions :: "string list \<Rightarrow> string \<Rightarrow> bool" where
  "mentions words s = list_ex (str_includes (to_lower s)) words"

definition auth_related :: "impact_finding \<Rightarrow> bool" where
  "auth_related f \<longleftrightarrow>
     mentions [''auth'', ''bearer'', ''api-key'', ''x-api-key'', ''security'', ''token''] (if_symbol f) \<or>
     mentions [''auth'', ''bearer'', ''api-key''] (if_evidence f) \<or>
     (case if_relatedOps f of None \<Rightarrow> False | Some ops \<Rightarrow> ''security_changed'' \<in> set ops)"

definition same_file :: "string \<Rightarrow> string \<Rightarrow> bool" where
  "same_file a b \<longleftrightarrow> ends_with (''/'' @ a) (''/'' @ b) \<or> ends_with (''/'' @ b) (''/'' @ a)"

definition edit_allowed :: "policy_config \<Rightarrow> impact_finding list \<Rightarrow> file_edit \<Rightarrow> bool" where
  "edit_allowed p findings e \<longleftrightarrow>
     \<not> pathBlocked (fe_path e) (pc_neverTouchPaths p) \<and>
     (let fs = filter (\<lambda>f. same_file (fe_path e) (if_filePath f)) findings
      in fs = [] \<or> list_ex (\<lambda>f. conf_rank (if_confidence f) \<ge> conf_rank (pc_minConfidenceForEdit p)) fs)"

definition evaluatePolicy ::
  "string option \<Rightarrow> migration_draft \<Rightarrow> impact_finding list \<Rightarrow> policy_overrides option \<Rightarrow> pr_decision" where
  "evaluatePolicy env draft findings overrides =
     (let p = mergePolicy overrides;
          eligible = (pc_autoMergeLowRisk p = True \<and> md_risk draft = NonBreaking);
          hardOff = (env \<noteq> Some ''1'' \<and> env \<noteq> Some ''true'');
          autoMerge = (eligible \<and> \<not> hardOff);
          reasons1 = (if hardOff \<and> eligible then [AutoMergeHardOff]
                      else if \<not> autoMerge then [AutoMergeDisabled] else []);
          twoReviewers = (list_ex auth_related findings \<and> pc_requireTwoReviewersForAuth p);
          blocked = map fe_path (filter (\<lambda>e. pathBlocked (fe_path e) (pc_neverTouchPaths p)) (md_fileEdits draft));
          allowed = filter (edit_allowed p findings) (md_fileEdits draft);
          none_left = (allowed = [] \<and> md_fileEdits draft \<noteq> [])
      in \<lparr>d_allowPr = (\<not> pc_notificationsOnly p \<and> length allowed > 0 \<and> \<not> none_left),
          d_allowAutoMerge = autoMerge,
          d_blockedFiles = blocked,
          d_allowedEdits = allowed,
          d_reasons = reasons1 @ (if twoReviewers then [TwoReviewers] else []) @
            (if blocked \<noteq> [] then [BlockedPaths blocked] else []) @
            (if pc_notificationsOnly p then [NotificationsOnly] else []) @
            (if none_left then [AllEditsBlocked] else []),
          d_labels = [''mendpoint''] @
            (if autoMerge then [''auto-merge-eligible''] else [''needs-human-review'']) @
            (if md_risk draft = Breaking then [''breaking-change''] else []) @
            (if md_risk draft = NewCapability then [''feature-adoption''] else []) @
            (if twoReviewers then [''needs-two-reviewers''] else []) @
            (if blocked \<noteq> [] then [''policy-path-blocked''] else [])\<rparr>)"

definition filterFindingsByPolicy :: "impact_finding list \<Rightarrow> policy_overrides option \<Rightarrow> impact_finding list" where
  "filterFindingsByPolicy findings overrides =
     (let p = mergePolicy overrides
      in filter (\<lambda>f. \<not> pathBlocked (if_filePath f) (pc_neverTouchPaths p) \<and>
                     conf_rank (if_confidence f) \<ge> conf_rank (pc_minConfidenceForEdit p)) findings)"

section \<open>The baseline is immutable\<close>

lemma baseline_kept: "set baseline_paths \<subseteq> set (pc_neverTouchPaths (mergePolicy overrides))"
  by (simp add: mergePolicy_def DEFAULT_POLICY_def Let_def)

lemma pathBlocked_mono: "set rules \<subseteq> set rules' \<Longrightarrow> pathBlocked p rules \<Longrightarrow> pathBlocked p rules'"
  by (auto simp: pathBlocked_def list_ex_iff)

lemma edit_allowed_not_blocked: "edit_allowed p fs e \<Longrightarrow> \<not> pathBlocked (fe_path e) (pc_neverTouchPaths p)"
  by (simp add: edit_allowed_def)

lemma evaluate_policy_facts:
  assumes d_def: "d = evaluatePolicy env draft findings overrides" and p_def: "p = mergePolicy overrides"
  shows "set (d_allowedEdits d) \<subseteq> set (md_fileEdits draft) \<and>
    list_all (\<lambda>e. \<not> pathBlocked (fe_path e) baseline_paths \<and> \<not> pathBlocked (fe_path e) (pc_neverTouchPaths p)) (d_allowedEdits d) \<and>
    (d_allowPr d \<longleftrightarrow> \<not> pc_notificationsOnly p \<and> d_allowedEdits d \<noteq> []) \<and>
    (d_allowAutoMerge d \<longleftrightarrow> env \<in> {Some ''1'', Some ''true''} \<and> pc_autoMergeLowRisk p \<and> md_risk draft = NonBreaking) \<and>
    (''needs-human-review'' \<in> set (d_labels d) \<longleftrightarrow> \<not> d_allowAutoMerge d) \<and>
    (d_blockedFiles d = [] \<longleftrightarrow> list_all (\<lambda>e. \<not> pathBlocked (fe_path e) (pc_neverTouchPaths p)) (md_fileEdits draft))"
proof -
  let ?allowed = "filter (edit_allowed p findings) (md_fileEdits draft)"
  have allowed: "d_allowedEdits d = ?allowed"
    by (simp add: d_def p_def evaluatePolicy_def Let_def)
  have "\<not> pathBlocked (fe_path e) baseline_paths \<and> \<not> pathBlocked (fe_path e) (pc_neverTouchPaths p)"
    if "e \<in> set ?allowed" for e
    using that edit_allowed_not_blocked[of p findings e] pathBlocked_mono[OF baseline_kept[of overrides]]
    by (auto simp: p_def)
  then have safe: "list_all (\<lambda>e. \<not> pathBlocked (fe_path e) baseline_paths \<and>
      \<not> pathBlocked (fe_path e) (pc_neverTouchPaths p)) ?allowed"
    by (simp add: list_all_iff)
  have blocked: "d_blockedFiles d = [] \<longleftrightarrow>
      list_all (\<lambda>e. \<not> pathBlocked (fe_path e) (pc_neverTouchPaths p)) (md_fileEdits draft)"
    by (simp add: d_def p_def evaluatePolicy_def Let_def filter_empty_conv list_all_iff)
  have pr: "d_allowPr d \<longleftrightarrow> \<not> pc_notificationsOnly p \<and> ?allowed \<noteq> []"
    by (auto simp: d_def p_def evaluatePolicy_def Let_def)
  have auto: "d_allowAutoMerge d \<longleftrightarrow>
      env \<in> {Some ''1'', Some ''true''} \<and> pc_autoMergeLowRisk p \<and> md_risk draft = NonBreaking"
    by (auto simp: d_def p_def evaluatePolicy_def Let_def)
  have label: "''needs-human-review'' \<in> set (d_labels d) \<longleftrightarrow> \<not> d_allowAutoMerge d"
    by (simp add: d_def evaluatePolicy_def Let_def)
  show ?thesis using safe blocked pr auto label unfolding allowed by simp
qed


text \<open>The two-reviewer switch labels the pull request; it does not block it.\<close>

lemma two_reviewers_only_labels:
  "let f = \<lparr>if_filePath = ''src/a.ts'', if_lineStart = 1, if_lineEnd = 1, if_symbol = ''auth'',
            if_confidence = CHigh, if_evidence = '''', if_relatedOps = None\<rparr>;
       draft = \<lparr>md_title = '''', md_body = '''', md_branchName = '''', md_patch = '''', md_risk = Breaking,
                md_confidence = CHigh, md_fileEdits = [\<lparr>fe_path = ''src/a.ts'', fe_original = '''', fe_updated = ''x''\<rparr>]\<rparr>;
       d = evaluatePolicy None draft [f] (Some (no_overrides\<lparr>po_requireTwoReviewersForAuth := Some True\<rparr>))
   in d_allowPr d \<and> ''needs-two-reviewers'' \<in> set (d_labels d)"
  by code_simp

end
