(* ===== verification/WardenPolicy.thy ===== *)
theory WardenPolicy
  imports Policy JsTime "HOL-Library.Product_Lexorder"
begin

text \<open>
  The layered policy of \<open>packages/policy/src/warden-policy.ts\<close>: versioned, approved policy layers with
  their precedence, the resolution for a context, the simulation of a change, and the append-only
  store with versions, approvals and expiring waivers. A table is the list of its rows in insertion
  order; its \<open>UNIQUE\<close> and primary-key constraints are guards of the inserts. The content digest
  (SHA-256 over canonical JSON) and \<open>localeCompare\<close> are parameters. Configurations are typed, so
  the run-time type tests of \<open>validateConfig\<close> hold by construction; the test on blank paths remains.
\<close>

section \<open>Types\<close>

datatype scope_kind = STenant | SRepository | SBranch | SEnvironment | SRisk

record policy_scope =
  sc_kind :: scope_kind
  sc_value :: string

record policy_approval =
  pa_approvalId :: string
  pa_approvedBy :: string
  pa_approvedAt :: string
  pa_evidenceArtifactId :: string

record policy_version =
  pv_id :: string
  pv_tenantId :: string
  pv_policyKey :: string
  pv_version :: int
  pv_scope :: policy_scope
  pv_config :: policy_overrides
  pv_createdBy :: string
  pv_createdAt :: string
  pv_evidenceArtifactId :: string
  pv_contentSha256 :: string
  pv_approval :: "policy_approval option"

text \<open>\<open>approvalState\<close> is \<open>"approved"\<close> exactly when the row has an approval.\<close>

definition approved :: "policy_version \<Rightarrow> bool" where
  "approved v \<longleftrightarrow> pv_approval v \<noteq> None"

record policy_context =
  cx_tenantId :: string
  cx_repositoryId :: string
  cx_branch :: string
  cx_environment :: string
  cx_risk :: string

record policy_resolution =
  pr_policy :: policy_config
  pr_appliedVersionIds :: "string list"
  pr_appliedDigests :: "string list"

record waiver =
  wv_id :: string
  wv_tenantId :: string
  wv_policyVersionId :: string
  wv_subjectType :: string
  wv_subjectId :: string
  wv_reason :: string
  wv_issuedBy :: string
  wv_issuedAt :: string
  wv_expiresAt :: string
  wv_evidenceArtifactId :: string

section \<open>Resolution\<close>

definition newline_char :: "char \<Rightarrow> bool" where
  "newline_char c \<longleftrightarrow> of_char c \<in> {10::nat, 13}"

text \<open>\<open>^part.*part$\<close>: a star matches any run without line terminators, the rest is literal.\<close>

fun globMatches :: "string \<Rightarrow> string \<Rightarrow> bool" where
  "globMatches [] s \<longleftrightarrow> s = []"
| "globMatches (c # p) [] \<longleftrightarrow> c = CHR ''*'' \<and> globMatches p []"
| "globMatches (c # p) (d # s) \<longleftrightarrow>
     (if c = CHR ''*'' then globMatches p (d # s) \<or> (\<not> newline_char d \<and> globMatches (c # p) s)
      else d = c \<and> globMatches p s)"

definition scopeMatches :: "policy_scope \<Rightarrow> policy_context \<Rightarrow> bool" where
  "scopeMatches sc cx \<longleftrightarrow> (case sc_kind sc of
     STenant \<Rightarrow> sc_value sc = cx_tenantId cx
   | SRepository \<Rightarrow> sc_value sc = cx_repositoryId cx
   | SBranch \<Rightarrow> globMatches (sc_value sc) (cx_branch cx)
   | SEnvironment \<Rightarrow> sc_value sc = cx_environment cx
   | SRisk \<Rightarrow> sc_value sc = cx_risk cx)"

definition precedence :: "scope_kind \<Rightarrow> int" where
  "precedence k = (case k of STenant \<Rightarrow> 0 | SRepository \<Rightarrow> 1 | SBranch \<Rightarrow> 2 | SEnvironment \<Rightarrow> 3 | SRisk \<Rightarrow> 4)"

definition kind_text :: "scope_kind \<Rightarrow> string" where
  "kind_text k = (case k of STenant \<Rightarrow> ''tenant'' | SRepository \<Rightarrow> ''repository'' | SBranch \<Rightarrow> ''branch''
     | SEnvironment \<Rightarrow> ''environment'' | SRisk \<Rightarrow> ''risk'')"

definition nl :: char where
  "nl = char_of (10 :: nat)"

definition layer_key :: "policy_version \<Rightarrow> string" where
  "layer_key v = pv_policyKey v @ nl # kind_text (sc_kind (pv_scope v)) @ nl # sc_value (pv_scope v)"

definition applicable :: "policy_context \<Rightarrow> policy_version \<Rightarrow> bool" where
  "applicable cx v \<longleftrightarrow> pv_tenantId v = cx_tenantId cx \<and> approved v \<and> scopeMatches (pv_scope v) cx"

definition keep_latest :: "policy_version \<Rightarrow> (string, policy_version) jsmap \<Rightarrow> (string, policy_version) jsmap" where
  "keep_latest v m =
     (case map_get m (layer_key v) of
        None \<Rightarrow> map_set m (layer_key v) v
      | Some prev \<Rightarrow> if pv_version v > pv_version prev then map_set m (layer_key v) v else m)"

definition latest_by_layer :: "policy_version list \<Rightarrow> policy_context \<Rightarrow> (string, policy_version) jsmap" where
  "latest_by_layer vs cx = fold keep_latest (filter (applicable cx) vs) []"

definition layer_order :: "(string \<Rightarrow> string \<Rightarrow> int) \<Rightarrow> policy_version \<Rightarrow> policy_version \<Rightarrow> int" where
  "layer_order lc l r =
     orElse (precedence (sc_kind (pv_scope l)) - precedence (sc_kind (pv_scope r)))
    (orElse (lc (pv_policyKey l) (pv_policyKey r))
            (pv_version l - pv_version r))"

text \<open>\<open>{ ...policy, ...config }\<close>.\<close>

definition spread_config :: "policy_config \<Rightarrow> policy_overrides \<Rightarrow> policy_overrides" where
  "spread_config p c =
     \<lparr>po_autoMergeLowRisk = Some (or_else (po_autoMergeLowRisk c) (pc_autoMergeLowRisk p)),
      po_neverTouchPaths = Some (or_else (po_neverTouchPaths c) (pc_neverTouchPaths p)),
      po_requireTwoReviewersForAuth = Some (or_else (po_requireTwoReviewersForAuth c) (pc_requireTwoReviewersForAuth p)),
      po_minConfidenceForEdit = Some (or_else (po_minConfidenceForEdit c) (pc_minConfidenceForEdit p)),
      po_notificationsOnly = Some (or_else (po_notificationsOnly c) (pc_notificationsOnly p))\<rparr>"

definition apply_layer :: "policy_version \<Rightarrow> policy_config \<Rightarrow> policy_config" where
  "apply_layer v p = mergePolicy (Some (spread_config p (pv_config v)))"

definition applied_versions ::
  "(string \<Rightarrow> string \<Rightarrow> int) \<Rightarrow> policy_version list \<Rightarrow> policy_context \<Rightarrow> policy_version list" where
  "applied_versions lc vs cx = js_sort (layer_order lc) (map_values (latest_by_layer vs cx))"

definition resolveWardenPolicy ::
  "(string \<Rightarrow> string \<Rightarrow> int) \<Rightarrow> policy_version list \<Rightarrow> policy_context \<Rightarrow> policy_resolution" where
  "resolveWardenPolicy lc vs cx =
     (let applied = applied_versions lc vs cx
      in \<lparr>pr_policy = fold apply_layer applied (mergePolicy None),
          pr_appliedVersionIds = map pv_id applied,
          pr_appliedDigests = map pv_contentSha256 applied\<rparr>)"

section \<open>Simulation\<close>

record simulation_case =
  sm_id :: string
  sm_context :: policy_context
  sm_draft :: migration_draft
  sm_findings :: "impact_finding list"

record simulated_case =
  sd_id :: string
  sd_before :: pr_decision
  sd_after :: pr_decision
  sd_changed :: bool

definition overrides_of :: "policy_config \<Rightarrow> policy_overrides" where
  "overrides_of p = spread_config p no_overrides"

definition as_approved :: "policy_version \<Rightarrow> policy_version" where
  "as_approved v = v\<lparr>pv_approval := Some (or_else (pv_approval v)
     \<lparr>pa_approvalId = ''simulation'', pa_approvedBy = ''human:simulation'', pa_approvedAt = pv_createdAt v,
      pa_evidenceArtifactId = pv_evidenceArtifactId v\<rparr>)\<rparr>"

definition simulateWardenPolicyChange ::
  "(string \<Rightarrow> string \<Rightarrow> int) \<Rightarrow> string option \<Rightarrow> policy_version list \<Rightarrow> policy_version \<Rightarrow> simulation_case list \<Rightarrow>
   simulated_case list" where
  "simulateWardenPolicyChange lc env active candidate cases =
     map (\<lambda>c.
       let before = evaluatePolicy env (sm_draft c) (sm_findings c)
             (Some (overrides_of (pr_policy (resolveWardenPolicy lc active (sm_context c)))));
           after = evaluatePolicy env (sm_draft c) (sm_findings c)
             (Some (overrides_of (pr_policy (resolveWardenPolicy lc (active @ [as_approved candidate]) (sm_context c)))))
       in \<lparr>sd_id = sm_id c, sd_before = before, sd_after = after, sd_changed = (before \<noteq> after)\<rparr>) cases"

section \<open>The store\<close>

definition requiredText :: "string \<Rightarrow> string \<Rightarrow> 'a result \<Rightarrow> 'a result" where
  "requiredText v field rest =
     ensure (trim v = v \<and> length v \<noteq> 0) (''warden_policy_'' @ field @ ''_required'') rest"

definition is_human :: "string \<Rightarrow> bool" where
  "is_human v \<longleftrightarrow> starts_with v ''human:'' \<and> length v \<noteq> 6"

definition humanPrincipal :: "string \<Rightarrow> string \<Rightarrow> 'a result \<Rightarrow> 'a result" where
  "humanPrincipal v field rest =
     requiredText v field
       (ensure (is_human v) (''warden_policy_'' @ field @ ''_human_required'') rest)"

definition timestamp :: "string \<Rightarrow> string \<Rightarrow> (int \<Rightarrow> 'a result) \<Rightarrow> 'a result" where
  "timestamp v field k =
     (case canonical_ms v of
        None \<Rightarrow> throw (''warden_policy_'' @ field @ ''_invalid'')
      | Some t \<Rightarrow> k t)"

definition validateScope :: "policy_scope \<Rightarrow> 'a result \<Rightarrow> 'a result" where
  "validateScope sc rest = requiredText (sc_value sc) ''scope_value'' rest"

definition validateConfig :: "policy_overrides \<Rightarrow> 'a result \<Rightarrow> 'a result" where
  "validateConfig c rest =
     ensure (list_all has_text (or_else (po_neverTouchPaths c) []))
       ''warden_policy_config_neverTouchPaths_invalid'' rest"

record approval_row =
  al_id :: string
  al_tenantId :: string
  al_policyVersionId :: string
  al_approvedBy :: string
  al_approvedAt :: string
  al_evidenceArtifactId :: string

text \<open>Version rows carry no approval; it is joined in.\<close>

record policy_db =
  db_versions :: "policy_version list"
  db_approvals :: "approval_row list"
  db_waivers :: "waiver list"

definition empty_db :: policy_db where
  "empty_db = \<lparr>db_versions = [], db_approvals = [], db_waivers = []\<rparr>"

definition constraint_failed :: string where
  "constraint_failed = ''UNIQUE constraint failed''"

definition join_approval :: "policy_db \<Rightarrow> policy_version \<Rightarrow> policy_version" where
  "join_approval db v =
     v\<lparr>pv_approval := map_option (\<lambda>a. \<lparr>pa_approvalId = al_id a, pa_approvedBy = al_approvedBy a,
          pa_approvedAt = al_approvedAt a, pa_evidenceArtifactId = al_evidenceArtifactId a\<rparr>)
        (find (\<lambda>a. al_tenantId a = pv_tenantId v \<and> al_policyVersionId a = pv_id v) (db_approvals db))\<rparr>"

definition getVersion :: "policy_db \<Rightarrow> string \<Rightarrow> string \<Rightarrow> policy_version option" where
  "getVersion db tenant i =
     map_option (join_approval db) (find (\<lambda>v. pv_tenantId v = tenant \<and> pv_id v = i) (db_versions db))"

definition version_order :: "policy_version \<Rightarrow> policy_version \<Rightarrow> int" where
  "version_order l r =
     orElse (compare_text (pv_policyKey l) (pv_policyKey r))
    (orElse (pv_version l - pv_version r) (compare_text (pv_id l) (pv_id r)))"

definition listVersions :: "policy_db \<Rightarrow> string \<Rightarrow> policy_version list" where
  "listVersions db tenant =
     map (join_approval db) (js_sort version_order (filter (\<lambda>v. pv_tenantId v = tenant) (db_versions db)))"

text \<open>\<open>MAX(version) ?? 0\<close> over the versions of a key.\<close>

definition latest_version :: "policy_db \<Rightarrow> string \<Rightarrow> string \<Rightarrow> int" where
  "latest_version db tenant key =
     fold (\<lambda>v n. max (pv_version v) n)
       (filter (\<lambda>v. pv_tenantId v = tenant \<and> pv_policyKey v = key) (db_versions db)) 0"

definition createVersion ::
  "(policy_version \<Rightarrow> string) \<Rightarrow> policy_db \<Rightarrow> policy_version \<Rightarrow> (policy_db \<times> policy_version) result" where
  "createVersion digest db v =
     requiredText (pv_id v) ''id''
    (requiredText (pv_tenantId v) ''tenant_id''
    (requiredText (pv_policyKey v) ''key''
    (ensure (\<bar>pv_version v\<bar> \<le> 9007199254740991 \<and> pv_version v \<ge> 1) ''warden_policy_version_invalid''
    (validateScope (pv_scope v)
    (validateConfig (pv_config v)
    (humanPrincipal (pv_createdBy v) ''creator''
    (timestamp (pv_createdAt v) ''created_at'' (\<lambda>_.
     requiredText (pv_evidenceArtifactId v) ''evidence_artifact''
    (ensure (pv_version v = latest_version db (pv_tenantId v) (pv_policyKey v) + 1)
       ''warden_policy_version_sequence_invalid''
    (let row = v\<lparr>pv_contentSha256 := digest v, pv_approval := None\<rparr>
     in ensure (\<not> list_ex (\<lambda>u. pv_id u = pv_id v \<or> (pv_tenantId u = pv_tenantId v \<and>
                   pv_policyKey u = pv_policyKey v \<and> pv_version u = pv_version v)) (db_versions db))
          constraint_failed
          (let db' = db\<lparr>db_versions := db_versions db @ [row]\<rparr>
           in Inr (db', the (getVersion db' (pv_tenantId v) (pv_id v)))))))))))))) "

definition approveVersion :: "policy_db \<Rightarrow> approval_row \<Rightarrow> (policy_db \<times> policy_version) result" where
  "approveVersion db a =
     requiredText (al_id a) ''approval_id''
    (humanPrincipal (al_approvedBy a) ''approver''
    (timestamp (al_approvedAt a) ''approved_at'' (\<lambda>approvedMs.
     requiredText (al_evidenceArtifactId a) ''approval_evidence_artifact''
    (case getVersion db (al_tenantId a) (al_policyVersionId a) of
       None \<Rightarrow> throw ''warden_policy_version_not_found''
     | Some v \<Rightarrow>
        ensure (pv_approval v = None) ''warden_policy_already_approved''
       (ensure (\<not> (case canonical_ms (pv_createdAt v) of None \<Rightarrow> False | Some c \<Rightarrow> approvedMs < c))
          ''warden_policy_approval_before_creation''
       (ensure (\<not> list_ex (\<lambda>b. al_id b = al_id a \<or> al_policyVersionId b = al_policyVersionId a) (db_approvals db))
          constraint_failed
          (let db' = db\<lparr>db_approvals := db_approvals db @ [a]\<rparr>
           in Inr (db', the (getVersion db' (al_tenantId a) (al_policyVersionId a)))))))))) "

definition default_waiver_ttl :: int where
  "default_waiver_ttl = 24 * 60 * 60 * 1000"

definition issueWaiver :: "policy_db \<Rightarrow> waiver \<Rightarrow> int option \<Rightarrow> (policy_db \<times> waiver) result" where
  "issueWaiver db w maxTtlMs =
     requiredText (wv_id w) ''waiver_id''
    (requiredText (wv_tenantId w) ''tenant_id''
    (requiredText (wv_subjectType w) ''waiver_subject_type''
    (requiredText (wv_subjectId w) ''waiver_subject_id''
    (requiredText (wv_reason w) ''waiver_reason''
    (humanPrincipal (wv_issuedBy w) ''waiver_issuer''
    (timestamp (wv_issuedAt w) ''waiver_issued_at'' (\<lambda>issued.
     timestamp (wv_expiresAt w) ''waiver_expires_at'' (\<lambda>expires.
     ensure (\<not> (expires \<le> issued \<or> expires - issued > or_else maxTtlMs default_waiver_ttl))
       ''warden_policy_waiver_expiry_invalid''
    (requiredText (wv_evidenceArtifactId w) ''waiver_evidence_artifact''
    (ensure (case getVersion db (wv_tenantId w) (wv_policyVersionId w) of None \<Rightarrow> False | Some v \<Rightarrow> approved v)
       ''warden_policy_waiver_approved_policy_required''
    (ensure (\<not> list_ex (\<lambda>u. wv_id u = wv_id w) (db_waivers db)) constraint_failed
       (Inr (db\<lparr>db_waivers := db_waivers db @ [w]\<rparr>, w)))))))))))))"

definition waiver_order :: "waiver \<Rightarrow> waiver \<Rightarrow> int" where
  "waiver_order l r =
     orElse (compare_text (wv_issuedAt l) (wv_issuedAt r)) (compare_text (wv_id l) (wv_id r))"

definition listWaivers :: "policy_db \<Rightarrow> string \<Rightarrow> string \<Rightarrow> string \<Rightarrow> waiver list" where
  "listWaivers db tenant stype sid =
     js_sort waiver_order
       (filter (\<lambda>w. wv_tenantId w = tenant \<and> wv_subjectType w = stype \<and> wv_subjectId w = sid) (db_waivers db))"

text \<open>\<open>Date.parse(candidate.issuedAt) <= now < Date.parse(candidate.expiresAt)\<close>.\<close>

definition waiver_current :: "waiver \<Rightarrow> int \<Rightarrow> bool" where
  "waiver_current w now \<longleftrightarrow>
     (case (canonical_ms (wv_issuedAt w), canonical_ms (wv_expiresAt w)) of
        (Some i, Some e) \<Rightarrow> i \<le> now \<and> e > now
      | _ \<Rightarrow> False)"

definition activeWaiver ::
  "policy_db \<Rightarrow> string \<Rightarrow> string \<Rightarrow> string \<Rightarrow> string \<Rightarrow> string \<Rightarrow> waiver option result" where
  "activeWaiver db tenant version stype sid now =
     timestamp now ''waiver_evaluation_at'' (\<lambda>t.
       let ws = filter (\<lambda>w. wv_policyVersionId w = version \<and> waiver_current w t) (listWaivers db tenant stype sid)
       in Inr (if ws = [] then None else Some (last ws)))"

definition resolve_store :: "(string \<Rightarrow> string \<Rightarrow> int) \<Rightarrow> policy_db \<Rightarrow> policy_context \<Rightarrow> policy_resolution" where
  "resolve_store lc db cx = resolveWardenPolicy lc (listVersions db (cx_tenantId cx)) cx"

definition simulate_store ::
  "(string \<Rightarrow> string \<Rightarrow> int) \<Rightarrow> string option \<Rightarrow> policy_db \<Rightarrow> string \<Rightarrow> string \<Rightarrow> simulation_case list \<Rightarrow>
   simulated_case list result" where
  "simulate_store lc env db tenant i cases =
     (let versions = listVersions db tenant
      in case find (\<lambda>v. pv_id v = i) versions of
           None \<Rightarrow> throw ''warden_policy_version_not_found''
         | Some c \<Rightarrow> Inr (simulateWardenPolicyChange lc env (filter (\<lambda>v. pv_id v \<noteq> pv_id c) versions) c cases))"

section \<open>The layers a context resolves to\<close>

lemma keep_latest_get:
  "map_get (keep_latest v m) k =
     (if k = layer_key v \<and> (case map_get m k of None \<Rightarrow> True | Some u \<Rightarrow> pv_version v > pv_version u)
      then Some v else map_get m k)"
  by (auto simp: keep_latest_def js.get_put split: option.splits)

lemma keep_latest_ok: "map_ok m \<Longrightarrow> map_ok (keep_latest v m)"
  by (auto simp: keep_latest_def js.ok_put split: option.splits)

lemma latest_fold:
  "map_ok (fold keep_latest vs []) \<and>
   (\<forall>k v. map_get (fold keep_latest vs []) k = Some v \<longrightarrow>
      v \<in> set vs \<and> layer_key v = k \<and> (\<forall>u\<in>set vs. layer_key u = k \<longrightarrow> pv_version u \<le> pv_version v)) \<and>
   (\<forall>u\<in>set vs. map_get (fold keep_latest vs []) (layer_key u) \<noteq> None)"
proof (induction vs rule: rev_induct)
  case Nil
  then show ?case by simp
next
  case (snoc x xs)
  let ?m = "fold keep_latest xs []"
  have ok: "map_ok (keep_latest x ?m)" by (rule keep_latest_ok) (use snoc in blast)
  show ?case
  proof (intro conjI allI impI ballI)
    show "map_ok (fold keep_latest (xs @ [x]) [])" using ok by simp
  next
    fix k v assume "map_get (fold keep_latest (xs @ [x]) []) k = Some v"
    then have get: "map_get (keep_latest x ?m) k = Some v" by simp
    show "v \<in> set (xs @ [x])" "layer_key v = k"
      using get snoc by (auto simp: keep_latest_get split: if_splits option.splits)
    fix u assume "u \<in> set (xs @ [x])" and "layer_key u = k"
    then show "pv_version u \<le> pv_version v"
      using get snoc by (fastforce simp: keep_latest_get split: if_splits option.splits)
  next
    fix u assume "u \<in> set (xs @ [x])"
    then show "map_get (fold keep_latest (xs @ [x]) []) (layer_key u) \<noteq> None"
      using snoc by (auto simp: keep_latest_get split: option.splits)
  qed
qed

lemma latest_ok: "map_ok (latest_by_layer vs cx)"
  unfolding latest_by_layer_def by (rule latest_fold[THEN conjunct1])

lemma latest_sound:
  assumes "map_get (latest_by_layer vs cx) k = Some v"
  shows "v \<in> set (filter (applicable cx) vs) \<and> layer_key v = k \<and>
      (\<forall>u\<in>set (filter (applicable cx) vs). layer_key u = k \<longrightarrow> pv_version u \<le> pv_version v)"
  using assms latest_fold[THEN conjunct2, THEN conjunct1] unfolding latest_by_layer_def by blast

lemma latest_full:
  assumes "u \<in> set vs" "applicable cx u"
  shows "\<exists>v. map_get (latest_by_layer vs cx) (layer_key u) = Some v"
proof -
  have "u \<in> set (filter (applicable cx) vs)" using assms by simp
  then have "map_get (fold keep_latest (filter (applicable cx) vs) []) (layer_key u) \<noteq> None"
    using latest_fold[THEN conjunct2, THEN conjunct2] by blast
  then show ?thesis unfolding latest_by_layer_def by blast
qed

text \<open>The order of layers is an order by key when \<open>localeCompare\<close> is.\<close>

lemma layer_order_key:
  assumes "comparator lc ck" and anti: "\<And>a b. lc a b = 0 \<longleftrightarrow> ck a = ck b"
  shows "comparator (layer_order lc) (\<lambda>v. (precedence (sc_kind (pv_scope v)), ck (pv_policyKey v), pv_version v))"
proof
  fix a b :: policy_version
  have "lc x y \<le> 0 \<longleftrightarrow> ck x \<le> ck y" for x y by (rule comparator.cmp_key[OF assms(1)])
  then show "layer_order lc a b \<le> 0 \<longleftrightarrow>
     (precedence (sc_kind (pv_scope a)), ck (pv_policyKey a), pv_version a)
       \<le> (precedence (sc_kind (pv_scope b)), ck (pv_policyKey b), pv_version b)"
    using anti[of "pv_policyKey a" "pv_policyKey b"]
    by (auto simp: layer_order_def orElse_def)
qed

definition collation :: "(string \<Rightarrow> string \<Rightarrow> int) \<Rightarrow> (string \<Rightarrow> 'k::linorder) \<Rightarrow> bool" where
  "collation lc ck \<longleftrightarrow> comparator lc ck \<and> (\<forall>a b. lc a b = 0 \<longleftrightarrow> ck a = ck b)"

lemma apply_layer_fields:
  "pc_autoMergeLowRisk (apply_layer v p) = or_else (po_autoMergeLowRisk (pv_config v)) (pc_autoMergeLowRisk p)"
  "pc_notificationsOnly (apply_layer v p) = or_else (po_notificationsOnly (pv_config v)) (pc_notificationsOnly p)"
  "pc_minConfidenceForEdit (apply_layer v p) = or_else (po_minConfidenceForEdit (pv_config v)) (pc_minConfidenceForEdit p)"
  by (simp_all add: apply_layer_def mergePolicy_def spread_config_def or_else_def Let_def)

lemma fold_layers:
  "pc_autoMergeLowRisk (fold apply_layer vs p) =
     fold (\<lambda>v b. or_else (po_autoMergeLowRisk (pv_config v)) b) vs (pc_autoMergeLowRisk p)"
  "pc_notificationsOnly (fold apply_layer vs p) =
     fold (\<lambda>v b. or_else (po_notificationsOnly (pv_config v)) b) vs (pc_notificationsOnly p)"
  by (induction vs arbitrary: p) (simp_all add: apply_layer_fields)

lemma fold_layers_baseline:
  "set baseline_paths \<subseteq> set (pc_neverTouchPaths p) \<Longrightarrow>
   set baseline_paths \<subseteq> set (pc_neverTouchPaths (fold apply_layer vs p))"
proof (induction vs arbitrary: p)
  case (Cons v vs)
  show ?case
    unfolding fold_simps by (rule Cons.IH) (simp only: apply_layer_def baseline_kept)
qed simp

lemma applied_values: "set (applied_versions lc vs cx) = set (map_values (latest_by_layer vs cx))"
  by (simp add: applied_versions_def)

lemma map_values_keys:
  assumes "map_ok m" and "\<And>k v. map_get m k = Some v \<Longrightarrow> f v = k"
  shows "map f (map_values m) = map fst m"
proof -
  have "f (snd kv) = fst kv" if "kv \<in> set m" for kv
  proof (rule assms(2))
    show "map_get m (fst kv) = Some (snd kv)"
      using assms(1) that unfolding map_ok_def map_get_def by (cases kv) (simp only: map_of_is_SomeI fst_conv snd_conv)
  qed
  then show ?thesis by (simp add: map_values_def)
qed

text \<open>Claim C35: a context resolves to its latest approved layers, in order of precedence. Each applied
  version belongs to the tenant, is approved, matches the context and is the newest of its layer; every
  applicable layer is represented exactly once; layers apply from tenant to risk, so that a later layer
  that sets a flag decides it; and the baseline paths survive every layer.\<close>

theorem resolve_layers:
  assumes "collation lc ck" and "applied = applied_versions lc vs cx" and "r = resolveWardenPolicy lc vs cx"
  shows "pr_appliedVersionIds r = map pv_id applied \<and> distinct (map layer_key applied) \<and>
    sorted (map (\<lambda>v. precedence (sc_kind (pv_scope v))) applied) \<and>
    (\<forall>v\<in>set applied. v \<in> set vs \<and> applicable cx v \<and>
       (\<forall>u\<in>set vs. applicable cx u \<and> layer_key u = layer_key v \<longrightarrow> pv_version u \<le> pv_version v)) \<and>
    (\<forall>u\<in>set vs. applicable cx u \<longrightarrow> layer_key u \<in> layer_key ` set applied) \<and>
    set baseline_paths \<subseteq> set (pc_neverTouchPaths (pr_policy r)) \<and>
    pc_autoMergeLowRisk (pr_policy r) = fold (\<lambda>v b. or_else (po_autoMergeLowRisk (pv_config v)) b) applied False \<and>
    pc_notificationsOnly (pr_policy r) = fold (\<lambda>v b. or_else (po_notificationsOnly (pv_config v)) b) applied False"
proof (intro conjI)
  let ?m = "latest_by_layer vs cx"
  show "pr_appliedVersionIds r = map pv_id applied"
    by (simp add: assms(2,3) resolveWardenPolicy_def Let_def)
  have "mset applied = mset (map_values ?m)" by (simp add: assms(2) applied_versions_def)
  then have "mset (map layer_key applied) = mset (map layer_key (map_values ?m))" by simp
  also have "map layer_key (map_values ?m) = map fst ?m" by (rule map_values_keys[OF latest_ok]) (use latest_sound in blast)
  finally have "mset (map layer_key applied) = mset (map fst ?m)" .
  then show "distinct (map layer_key applied)" using latest_ok by (metis map_ok_def mset_eq_imp_distinct_iff)
  have "sorted (map (\<lambda>v. (precedence (sc_kind (pv_scope v)), ck (pv_policyKey v), pv_version v)) applied)"
    unfolding assms(2) applied_versions_def
    by (rule comparator.sorted_js_sort, rule layer_order_key) (use assms(1) in \<open>auto simp: collation_def\<close>)
  then show "sorted (map (\<lambda>v. precedence (sc_kind (pv_scope v))) applied)"
    by (auto simp: sorted_map elim!: sorted_wrt_mono_rel[rotated])
  show "\<forall>v\<in>set applied. v \<in> set vs \<and> applicable cx v \<and>
       (\<forall>u\<in>set vs. applicable cx u \<and> layer_key u = layer_key v \<longrightarrow> pv_version u \<le> pv_version v)"
  proof
    fix v assume "v \<in> set applied"
    then obtain k where "map_get ?m k = Some v"
      using map_values_get[OF latest_ok] by (fastforce simp: assms(2) applied_values)
    from latest_sound[OF this] show "v \<in> set vs \<and> applicable cx v \<and>
       (\<forall>u\<in>set vs. applicable cx u \<and> layer_key u = layer_key v \<longrightarrow> pv_version u \<le> pv_version v)" by simp
  qed
  show "\<forall>u\<in>set vs. applicable cx u \<longrightarrow> layer_key u \<in> layer_key ` set applied"
  proof (intro ballI impI)
    fix u assume "u \<in> set vs" "applicable cx u"
    then obtain v where v: "map_get ?m (layer_key u) = Some v" using latest_full by blast
    then have "v \<in> set applied" unfolding assms(2) applied_values by (rule map_get_values)
    moreover have "layer_key u = layer_key v" using latest_sound[OF v] by simp
    ultimately show "layer_key u \<in> layer_key ` set applied" by blast
  qed
  show "set baseline_paths \<subseteq> set (pc_neverTouchPaths (pr_policy r))"
    by (simp only: assms(3) resolveWardenPolicy_def Let_def policy_resolution.select_convs)
      (rule fold_layers_baseline[OF baseline_kept])
  show "pc_autoMergeLowRisk (pr_policy r) = fold (\<lambda>v b. or_else (po_autoMergeLowRisk (pv_config v)) b) applied False"
    "pc_notificationsOnly (pr_policy r) = fold (\<lambda>v b. or_else (po_notificationsOnly (pv_config v)) b) applied False"
    by (simp_all add: assms(2,3) resolveWardenPolicy_def Let_def fold_layers mergePolicy_def DEFAULT_POLICY_def
        no_overrides_def or_else_def)
qed

section \<open>Reachable stores\<close>

inductive store_step :: "(policy_version \<Rightarrow> string) \<Rightarrow> policy_db \<Rightarrow> policy_db \<Rightarrow> bool" for digest where
  create: "createVersion digest db v = Inr (db', x) \<Longrightarrow> store_step digest db db'"
| approve: "approveVersion db a = Inr (db', x) \<Longrightarrow> store_step digest db db'"
| issue: "issueWaiver db w ttl = Inr (db', y) \<Longrightarrow> store_step digest db db'"

inductive store_reachable :: "(policy_version \<Rightarrow> string) \<Rightarrow> policy_db \<Rightarrow> bool" for digest where
  start: "store_reachable digest empty_db"
| extend: "store_reachable digest db \<Longrightarrow> store_step digest db db' \<Longrightarrow> store_reachable digest db'"

inductive_cases store_stepE: "store_step digest db db'"

definition versions_of :: "policy_db \<Rightarrow> string \<Rightarrow> string \<Rightarrow> policy_version list" where
  "versions_of db t k = filter (\<lambda>v. pv_tenantId v = t \<and> pv_policyKey v = k) (db_versions db)"

definition approval_sound :: "policy_db \<Rightarrow> approval_row \<Rightarrow> bool" where
  "approval_sound db a \<longleftrightarrow> is_human (al_approvedBy a) \<and>
     (\<exists>v\<in>set (db_versions db). pv_id v = al_policyVersionId a \<and> pv_tenantId v = al_tenantId a \<and>
        (\<exists>c t. canonical_ms (pv_createdAt v) = Some c \<and> canonical_ms (al_approvedAt a) = Some t \<and> c \<le> t))"

definition waiver_sound :: "policy_db \<Rightarrow> waiver \<Rightarrow> bool" where
  "waiver_sound db w \<longleftrightarrow>
     (\<exists>i e. canonical_ms (wv_issuedAt w) = Some i \<and> canonical_ms (wv_expiresAt w) = Some e \<and> i < e) \<and>
     is_human (wv_issuedBy w) \<and>
     (\<exists>a\<in>set (db_approvals db). al_tenantId a = wv_tenantId w \<and> al_policyVersionId a = wv_policyVersionId w)"

definition store_ok :: "policy_db \<Rightarrow> bool" where
  "store_ok db \<longleftrightarrow>
     distinct (map pv_id (db_versions db)) \<and>
     (\<forall>t k. map pv_version (versions_of db t k) = map int [1 ..< Suc (length (versions_of db t k))]) \<and>
     (\<forall>v\<in>set (db_versions db). canonical_ms (pv_createdAt v) \<noteq> None \<and> is_human (pv_createdBy v)) \<and>
     distinct (map al_policyVersionId (db_approvals db)) \<and>
     (\<forall>a\<in>set (db_approvals db). approval_sound db a) \<and>
     (\<forall>w\<in>set (db_waivers db). waiver_sound db w)"

lemmas guard_simps = requiredText_def humanPrincipal_def validateScope_def validateConfig_def

lemma timestamp_eq_Inr [result_simps]:
  "timestamp v field k = Inr x \<longleftrightarrow> (\<exists>t. canonical_ms v = Some t \<and> k t = Inr x)"
  by (simp add: timestamp_def split: option.splits)

lemma latest_version_seq:
  assumes "map pv_version (versions_of db t k) = map int [1 ..< Suc (length (versions_of db t k))]"
  shows "latest_version db t k = int (length (versions_of db t k))"
proof -
  have fm: "fold (\<lambda>v n. max (pv_version v) n) vs m = fold max (map pv_version vs) m" for vs m
    by (induction vs arbitrary: m) simp_all
  have "fold max (map int [1 ..< Suc n]) 0 = int n" for n
    by (induction n) auto
  with assms show ?thesis by (simp add: latest_version_def versions_of_def[symmetric] fm del: upt_Suc)
qed

lemma createVersion_Inr:
  assumes "createVersion digest db v = Inr (db', x)"
  shows "\<exists>row. db' = db\<lparr>db_versions := db_versions db @ [row]\<rparr> \<and> is_human (pv_createdBy row) \<and>
    canonical_ms (pv_createdAt row) \<noteq> None \<and> pv_id row \<notin> set (map pv_id (db_versions db)) \<and>
    pv_version row = latest_version db (pv_tenantId row) (pv_policyKey row) + 1"
  using assms unfolding createVersion_def guard_simps
  by (intro exI[of _ "v\<lparr>pv_contentSha256 := digest v, pv_approval := None\<rparr>"])
    (auto simp: result_simps Let_def list_ex_iff simp del: result_simps(4))

lemma find_getVersion:
  assumes "getVersion db t i = Some v"
  shows "\<exists>u\<in>set (db_versions db). pv_tenantId u = t \<and> pv_id u = i \<and> v = join_approval db u"
  using assms by (auto simp: getVersion_def dest: find_SomeD)

lemma approveVersion_Inr:
  assumes "approveVersion db a = Inr (db', x)"
    and "\<And>v. v \<in> set (db_versions db) \<Longrightarrow> canonical_ms (pv_createdAt v) \<noteq> None"
  shows "db' = db\<lparr>db_approvals := db_approvals db @ [a]\<rparr> \<and>
    al_policyVersionId a \<notin> set (map al_policyVersionId (db_approvals db)) \<and> approval_sound db a"
proof -
  obtain t v where *: "is_human (al_approvedBy a)" "canonical_ms (al_approvedAt a) = Some t"
    "getVersion db (al_tenantId a) (al_policyVersionId a) = Some v"
    "\<not> (case canonical_ms (pv_createdAt v) of None \<Rightarrow> False | Some c \<Rightarrow> t < c)"
    "\<not> list_ex (\<lambda>b. al_id b = al_id a \<or> al_policyVersionId b = al_policyVersionId a) (db_approvals db)"
    "db' = db\<lparr>db_approvals := db_approvals db @ [a]\<rparr>"
    using assms(1) unfolding approveVersion_def guard_simps
    by (auto simp: result_simps Let_def split: option.splits)
  obtain u where u: "u \<in> set (db_versions db)" "pv_tenantId u = al_tenantId a" "pv_id u = al_policyVersionId a"
    "v = join_approval db u"
    using find_getVersion[OF *(3)] by blast
  then have "pv_createdAt v = pv_createdAt u" by (simp add: join_approval_def)
  with * u assms(2)[OF u(1)] show ?thesis
    by (auto simp: approval_sound_def list_ex_iff)
qed

lemma issueWaiver_Inr:
  assumes "issueWaiver db w ttl = Inr (db', y)"
  shows "db' = db\<lparr>db_waivers := db_waivers db @ [w]\<rparr> \<and> waiver_sound db w"
proof -
  obtain i e v where *: "is_human (wv_issuedBy w)" "canonical_ms (wv_issuedAt w) = Some i"
    "canonical_ms (wv_expiresAt w) = Some e" "i < e"
    "getVersion db (wv_tenantId w) (wv_policyVersionId w) = Some v" "approved v"
    "db' = db\<lparr>db_waivers := db_waivers db @ [w]\<rparr>"
    using assms unfolding issueWaiver_def guard_simps
    by (auto simp: result_simps Let_def split: option.splits)
  obtain u where "pv_tenantId u = wv_tenantId w" "pv_id u = wv_policyVersionId w" "v = join_approval db u"
    using find_getVersion[OF *(5)] by blast
  with *(6) have "\<exists>a\<in>set (db_approvals db). al_tenantId a = wv_tenantId w \<and> al_policyVersionId a = wv_policyVersionId w"
    by (auto simp: approved_def join_approval_def dest: find_SomeD)
  with * show ?thesis by (auto simp: waiver_sound_def)
qed

lemma sound_mono:
  assumes "set (db_versions db) \<subseteq> set (db_versions db')" and "set (db_approvals db) \<subseteq> set (db_approvals db')"
  shows "approval_sound db a \<Longrightarrow> approval_sound db' a" and "waiver_sound db w \<Longrightarrow> waiver_sound db' w"
  using assms unfolding approval_sound_def waiver_sound_def by blast+

lemma create_ok:
  assumes "store_ok db" and "createVersion digest db v = Inr (db', x)"
  shows "store_ok db'"
proof -
  obtain row where db': "db' = db\<lparr>db_versions := db_versions db @ [row]\<rparr>" and hum: "is_human (pv_createdBy row)"
    and tm: "canonical_ms (pv_createdAt row) \<noteq> None" and fresh: "pv_id row \<notin> set (map pv_id (db_versions db))"
    and seq: "pv_version row = latest_version db (pv_tenantId row) (pv_policyKey row) + 1"
    using createVersion_Inr[OF assms(2)] by blast
  have old: "map pv_version (versions_of db t k) = map int [1 ..< Suc (length (versions_of db t k))]" for t k
    using assms(1) by (simp add: store_ok_def)
  have "map pv_version (versions_of db' t k) = map int [1 ..< Suc (length (versions_of db' t k))]" for t k
  proof (cases "pv_tenantId row = t \<and> pv_policyKey row = k")
    case True
    then have "versions_of db' t k = versions_of db t k @ [row]" by (simp add: versions_of_def db')
    with old[of t k] seq latest_version_seq[OF old[of t k]] True show ?thesis by simp
  next
    case False
    then have "versions_of db' t k = versions_of db t k" by (auto simp: versions_of_def db')
    with old[of t k] show ?thesis by simp
  qed
  moreover have "set (db_versions db) \<subseteq> set (db_versions db')" "set (db_approvals db) \<subseteq> set (db_approvals db')"
    by (auto simp: db')
  note sound_mono[OF this]
  ultimately show ?thesis
    using assms(1) hum tm fresh unfolding store_ok_def by (simp add: db')
qed

lemma approve_ok:
  assumes "store_ok db" and "approveVersion db a = Inr (db', x)"
  shows "store_ok db'"
proof -
  have db': "db' = db\<lparr>db_approvals := db_approvals db @ [a]\<rparr>"
    and new: "al_policyVersionId a \<notin> set (map al_policyVersionId (db_approvals db))" "approval_sound db a"
    using approveVersion_Inr[OF assms(2)] assms(1) by (auto simp: store_ok_def)
  have "set (db_versions db) \<subseteq> set (db_versions db')" "set (db_approvals db) \<subseteq> set (db_approvals db')"
    by (auto simp: db')
  note mono = sound_mono[OF this]
  have "versions_of db' = versions_of db" by (simp add: db' versions_of_def fun_eq_iff)
  with assms(1) new mono show ?thesis unfolding store_ok_def by (simp add: db')
qed

lemma issue_ok:
  assumes "store_ok db" and "issueWaiver db w ttl = Inr (db', y)"
  shows "store_ok db'"
proof -
  have db': "db' = db\<lparr>db_waivers := db_waivers db @ [w]\<rparr>" and new: "waiver_sound db w"
    using issueWaiver_Inr[OF assms(2)] by auto
  have "set (db_versions db) \<subseteq> set (db_versions db')" "set (db_approvals db) \<subseteq> set (db_approvals db')"
    by (auto simp: db')
  note mono = sound_mono[OF this]
  have "versions_of db' = versions_of db" by (simp add: db' versions_of_def fun_eq_iff)
  with assms(1) new mono show ?thesis unfolding store_ok_def by (simp add: db')
qed

text \<open>Claim C36: in every store the operations can reach, the versions of a policy key are numbered
  1 to n without gaps in the order they were created, every version was created by a human, a version
  has at most one approval, which a human gave no earlier than the version was created, and every
  waiver was issued by a human on an approved version and ends after it starts.\<close>

theorem reachable_stores_sound:
  assumes "store_reachable digest db"
  shows "store_ok db"
  using assms
proof (induction rule: store_reachable.induct)
  case start
  show ?case by (simp add: store_ok_def empty_db_def versions_of_def)
next
  case (extend db db')
  from extend.hyps(2) show ?case
    by (rule store_stepE) (use extend.IH create_ok approve_ok issue_ok in blast)+
qed

section \<open>Waivers in force\<close>

interpretation waiver_sort: comparator waiver_order "\<lambda>w. (wv_issuedAt w, wv_id w)"
  by unfold_locales (auto simp: waiver_order_def orElse_def compare_text_eq0 compare_text_le compare_text_def)

definition in_force :: "policy_db \<Rightarrow> string \<Rightarrow> string \<Rightarrow> string \<Rightarrow> string \<Rightarrow> int \<Rightarrow> waiver \<Rightarrow> bool" where
  "in_force db tenant version stype sid t w \<longleftrightarrow> w \<in> set (db_waivers db) \<and> wv_tenantId w = tenant \<and>
     wv_policyVersionId w = version \<and> wv_subjectType w = stype \<and> wv_subjectId w = sid \<and> waiver_current w t"

lemma activeWaiver_cases:
  assumes "canonical_ms now = Some t"
  shows "(activeWaiver db tenant version stype sid now = Inr None \<and> \<not> (\<exists>w. in_force db tenant version stype sid t w)) \<or>
    (\<exists>w. activeWaiver db tenant version stype sid now = Inr (Some w) \<and> in_force db tenant version stype sid t w \<and>
       (\<forall>u. in_force db tenant version stype sid t u \<longrightarrow> (wv_issuedAt u, wv_id u) \<le> (wv_issuedAt w, wv_id w)))"
proof -
  let ?key = "\<lambda>w. (wv_issuedAt w, wv_id w)"
  let ?P = "\<lambda>w. wv_policyVersionId w = version \<and> waiver_current w t"
  define ws where "ws = filter ?P (listWaivers db tenant stype sid)"
  have res: "activeWaiver db tenant version stype sid now = Inr (if ws = [] then None else Some (last ws))"
    by (simp add: activeWaiver_def timestamp_def assms ws_def Let_def)
  have mem: "in_force db tenant version stype sid t w \<longleftrightarrow> w \<in> set ws" for w
    by (auto simp: in_force_def ws_def listWaivers_def)
  have "sorted (map ?key ws)"
    unfolding ws_def listWaivers_def by (rule sorted_filter) (rule waiver_sort.sorted_js_sort)
  then have max: "?key u \<le> ?key (last ws)" if "u \<in> set ws" for u
    using that by (rule sorted_le_last[of ?key ws u])
  show ?thesis
  proof (cases "ws = []")
    case True
    then show ?thesis using res mem by simp
  next
    case False
    then show ?thesis using res mem max last_in_set[OF False] by (intro disjI2 exI[of _ "last ws"]) simp
  qed
qed

text \<open>At a valid instant, \<open>activeWaiver\<close> finds a waiver exactly when one is in force there
  for the tenant, policy version and subject, and the one it returns is a waiver in force than which no
  other was issued at a later instant.\<close>

theorem active_waiver_latest:
  assumes "canonical_ms now = Some t"
  shows "\<exists>r. activeWaiver db tenant version stype sid now = Inr r \<and>
    (r = None \<longleftrightarrow> \<not> (\<exists>w. in_force db tenant version stype sid t w)) \<and>
    (\<forall>w. r = Some w \<longrightarrow> in_force db tenant version stype sid t w \<and>
       (\<forall>u a b. in_force db tenant version stype sid t u \<and> canonical_ms (wv_issuedAt u) = Some a \<and>
          canonical_ms (wv_issuedAt w) = Some b \<longrightarrow> a \<le> b))"
  using activeWaiver_cases[OF assms, of db tenant version stype sid]
proof (elim disjE exE conjE)
  assume "activeWaiver db tenant version stype sid now = Inr None"
    and "\<not> (\<exists>w. in_force db tenant version stype sid t w)"
  then show ?thesis by simp
next
  fix w
  assume a: "activeWaiver db tenant version stype sid now = Inr (Some w)" "in_force db tenant version stype sid t w"
    and max: "\<forall>u. in_force db tenant version stype sid t u \<longrightarrow> (wv_issuedAt u, wv_id u) \<le> (wv_issuedAt w, wv_id w)"
  have "a \<le> b" if "in_force db tenant version stype sid t u" "canonical_ms (wv_issuedAt u) = Some a"
    "canonical_ms (wv_issuedAt w) = Some b" for u a b
    using max that canonical_order[OF that(3,2)] by (metis less_eq_prod_simp linorder_not_less order_less_imp_not_less)
  with a show ?thesis by blast
qed

section \<open>A worked store\<close>

definition sample_digest :: "policy_version \<Rightarrow> string" where
  "sample_digest v = ''sha-'' @ pv_id v"

definition sample_version :: "string \<Rightarrow> int \<Rightarrow> scope_kind \<Rightarrow> bool option \<Rightarrow> policy_version" where
  "sample_version i n k merge =
     \<lparr>pv_id = i, pv_tenantId = ''t'', pv_policyKey = ''main'', pv_version = n,
      pv_scope = \<lparr>sc_kind = k, sc_value = ''t''\<rparr>, pv_config = no_overrides\<lparr>po_autoMergeLowRisk := merge\<rparr>,
      pv_createdBy = ''human:ana'', pv_createdAt = ''2026-01-01T00:00:00.000Z'', pv_evidenceArtifactId = ''ev'',
      pv_contentSha256 = ''none'', pv_approval = None\<rparr>"

definition sample_approval :: "string \<Rightarrow> approval_row" where
  "sample_approval i = \<lparr>al_id = ''a-'' @ i, al_tenantId = ''t'', al_policyVersionId = i, al_approvedBy = ''human:bo'',
     al_approvedAt = ''2026-01-01T00:00:01.000Z'', al_evidenceArtifactId = ''ev''\<rparr>"

definition sample_waiver :: waiver where
  "sample_waiver = \<lparr>wv_id = ''w1'', wv_tenantId = ''t'', wv_policyVersionId = ''v1'', wv_subjectType = ''run'',
     wv_subjectId = ''r1'', wv_reason = ''incident'', wv_issuedBy = ''human:ana'',
     wv_issuedAt = ''2026-01-01T10:00:00.000Z'', wv_expiresAt = ''2026-01-01T12:00:00.000Z'',
     wv_evidenceArtifactId = ''ev''\<rparr>"

definition sample_db1 :: policy_db where
  "sample_db1 = fst (projr (createVersion sample_digest empty_db (sample_version ''v1'' 1 STenant (Some True))))"

definition sample_db2 :: policy_db where
  "sample_db2 = fst (projr (approveVersion sample_db1 (sample_approval ''v1'')))"

definition sample_db :: policy_db where
  "sample_db = fst (projr (issueWaiver sample_db2 sample_waiver None))"

lemma sample_reachable: "store_reachable sample_digest sample_db"
proof -
  have 1: "isl (createVersion sample_digest empty_db (sample_version ''v1'' 1 STenant (Some True))) = False"
    and 2: "isl (approveVersion sample_db1 (sample_approval ''v1'')) = False"
    and 3: "isl (issueWaiver sample_db2 sample_waiver None) = False"
    by code_simp+
  have step: "r = Inr (fst (projr r), snd (projr r))" if "isl r = False" for r :: "(policy_db \<times> 'a) result"
    using that by (cases r) auto
  show ?thesis
    unfolding sample_db_def
    by (rule store_reachable.extend[OF _ store_step.issue[OF step[OF 3]]], unfold sample_db2_def,
        rule store_reachable.extend[OF _ store_step.approve[OF step[OF 2]]], unfold sample_db1_def,
        rule store_reachable.extend[OF _ store_step.create[OF step[OF 1]]], rule store_reachable.start)
qed

theorem reachable_stores_sound_witness:
  "store_ok sample_db \<and> db_waivers sample_db = [sample_waiver]"
  by (rule conjI, rule reachable_stores_sound[OF sample_reachable], code_simp)

lemma sample_now: "canonical_ms ''2026-01-01T11:00:00.000Z'' = Some (the (canonical_ms ''2026-01-01T11:00:00.000Z''))"
  by code_simp

theorem active_waiver_latest_witness:
  "\<exists>r. activeWaiver sample_db ''t'' ''v1'' ''run'' ''r1'' ''2026-01-01T11:00:00.000Z'' = Inr r \<and> r = Some sample_waiver"
proof -
  have run: "activeWaiver sample_db ''t'' ''v1'' ''run'' ''r1'' ''2026-01-01T11:00:00.000Z'' = Inr (Some sample_waiver)"
    by code_simp
  obtain r where "activeWaiver sample_db ''t'' ''v1'' ''run'' ''r1'' ''2026-01-01T11:00:00.000Z'' = Inr r"
    using active_waiver_latest[OF sample_now, of sample_db "''t''" "''v1''" "''run''" "''r1''"] by (elim exE conjE)
  then show ?thesis unfolding run by (intro exI[of _ r]) (simp only: sum.inject simp_thms)
qed

definition sample_layers :: "policy_version list" where
  "sample_layers = [as_approved (sample_version ''v1'' 1 SRisk (Some False)), as_approved (sample_version ''v2'' 1 STenant (Some True)),
     as_approved (sample_version ''v3'' 2 STenant None), sample_version ''v4'' 3 STenant (Some True)]"

definition sample_context :: policy_context where
  "sample_context = \<lparr>cx_tenantId = ''t'', cx_repositoryId = ''r'', cx_branch = ''main'', cx_environment = ''prod'',
     cx_risk = ''t''\<rparr>"

lemma text_collation: "collation compare_text (\<lambda>s. s)"
  by (simp add: collation_def compare_text_eq0 text_order.comparator_axioms)

theorem resolve_layers_witness:
  "pr_appliedVersionIds (resolveWardenPolicy compare_text sample_layers sample_context) = [''v3'', ''v1''] \<and>
   distinct (map layer_key (applied_versions compare_text sample_layers sample_context))"
proof
  show "pr_appliedVersionIds (resolveWardenPolicy compare_text sample_layers sample_context) = [''v3'', ''v1'']"
    by code_simp
  show "distinct (map layer_key (applied_versions compare_text sample_layers sample_context))"
    using resolve_layers[OF text_collation refl refl, of sample_layers sample_context] by (elim conjE)
qed

end
