(* ===== verification/UnionFind.thy ===== *)
theory UnionFind
  imports Prelude
begin

text \<open>
  The disjoint-set structure of \<open>packages/egraph/src/union-find.ts\<close>: parent and rank maps, \<open>find\<close> with
  path compression and lazy creation, \<open>union\<close> by rank. \<open>find\<close> is recursive along parent pointers and is
  a partial function: \<^term>\<open>None\<close> is a call that never returns. The lemmas show that on the states the
  operations produce it always returns, that \<open>find\<close> changes no answer, and that the structure refines
  an equivalence relation to which \<open>union\<close> adds one pair.
\<close>

section \<open>The structure\<close>

record union_find =
  uf_parent :: "(nat, nat) jsmap"
  uf_rank :: "(nat, nat) jsmap"

definition uf_empty :: union_find where
  "uf_empty = \<lparr>uf_parent = [], uf_rank = []\<rparr>"

definition makeSet :: "union_find \<Rightarrow> nat \<Rightarrow> union_find" where
  "makeSet u i =
     (if map_has (uf_parent u) i then u
      else u\<lparr>uf_parent := map_set (uf_parent u) i i, uf_rank := map_set (uf_rank u) i 0\<rparr>)"

definition set_parent :: "union_find \<Rightarrow> nat \<Rightarrow> nat \<Rightarrow> union_find" where
  "set_parent u i p = u\<lparr>uf_parent := map_set (uf_parent u) i p\<rparr>"

partial_function (option) uf_find :: "union_find \<Rightarrow> nat \<Rightarrow> (union_find \<times> nat) option" where
  "uf_find u i =
     (let u1 = makeSet u i; p = the (map_get (uf_parent u1) i)
      in if p \<noteq> i then Option.bind (uf_find u1 p) (\<lambda>(u2, r). Some (set_parent u2 i r, r))
         else Some (u1, p))"

declare uf_find.simps [code]

definition rank_of :: "union_find \<Rightarrow> nat \<Rightarrow> nat" where
  "rank_of u i = (case map_get (uf_rank u) i of None \<Rightarrow> 0 | Some r \<Rightarrow> r)"

text \<open>The second half of \<open>union\<close>: hang one root under the other.\<close>

definition link :: "union_find \<Rightarrow> nat \<Rightarrow> nat \<Rightarrow> union_find" where
  "link u ra rb =
     (let rankA = rank_of u ra; rankB = rank_of u rb;
          (top, sub) = (if rankA < rankB then (rb, ra) else (ra, rb));
          u1 = set_parent u sub top
      in if rankA = rankB then u1\<lparr>uf_rank := map_set (uf_rank u1) top (rankA + 1)\<rparr> else u1)"

definition uf_union :: "union_find \<Rightarrow> nat \<Rightarrow> nat \<Rightarrow> (union_find \<times> bool) option" where
  "uf_union u a b =
     Option.bind (uf_find u a) (\<lambda>(u1, ra).
     Option.bind (uf_find u1 b) (\<lambda>(u2, rb).
       if ra = rb then Some (u2, False) else Some (link u2 ra rb, True)))"

definition uf_same :: "union_find \<Rightarrow> nat \<Rightarrow> nat \<Rightarrow> (union_find \<times> bool) option" where
  "uf_same u a b =
     Option.bind (uf_find u a) (\<lambda>(u1, ra).
     Option.bind (uf_find u1 b) (\<lambda>(u2, rb). Some (u2, ra = rb)))"

section \<open>Roots\<close>

inductive to_root :: "union_find \<Rightarrow> nat \<Rightarrow> nat \<Rightarrow> bool" for u where
  root_here: "map_get (uf_parent u) i = None \<or> map_get (uf_parent u) i = Some i \<Longrightarrow> to_root u i i"
| root_up: "map_get (uf_parent u) i = Some p \<Longrightarrow> p \<noteq> i \<Longrightarrow> to_root u p r \<Longrightarrow> to_root u i r"

inductive_cases to_rootE: "to_root u i r"

lemma to_root_unique: "to_root u i r \<Longrightarrow> to_root u i s \<Longrightarrow> s = r"
proof (induction arbitrary: s rule: to_root.induct)
  case (root_here i)
  from root_here.prems show ?case
  proof (rule to_rootE)
    fix p assume "map_get (uf_parent u) i = Some p" "p \<noteq> i"
    with root_here.hyps show ?thesis by simp
  qed simp
next
  case (root_up i p r)
  from root_up.prems show ?case
  proof (rule to_rootE)
    assume "map_get (uf_parent u) i = None \<or> map_get (uf_parent u) i = Some i"
    with root_up.hyps show ?thesis by simp
  next
    fix q assume "map_get (uf_parent u) i = Some q" "to_root u q s"
    with root_up.hyps root_up.IH show ?thesis by simp
  qed
qed

definition rep :: "union_find \<Rightarrow> nat \<Rightarrow> nat" where
  "rep u i = (THE r. to_root u i r)"

lemma rep_eq: "to_root u i r \<Longrightarrow> rep u i = r"
  unfolding rep_def by (rule the_equality) (auto dest: to_root_unique)

text \<open>The invariant: parents are known, and ranks rise along the pointers.\<close>

definition uf_ok :: "union_find \<Rightarrow> bool" where
  "uf_ok u \<longleftrightarrow> (\<forall>i p. map_get (uf_parent u) i = Some p \<longrightarrow>
     map_has (uf_parent u) p \<and> (p = i \<or> rank_of u i < rank_of u p))"

lemma uf_ok_empty: "uf_ok uf_empty"
  by (simp add: uf_ok_def uf_empty_def)

lemma rank_bounded: "\<exists>B. \<forall>i. rank_of u i \<le> B"
proof -
  have "finite (ran (map_of (uf_rank u)))" by (rule finite_ran) (rule finite_dom_map_of)
  moreover have "map_get (uf_rank u) = map_of (uf_rank u)" by (simp add: map_get_def fun_eq_iff)
  ultimately have "finite (ran (map_get (uf_rank u)))" by simp
  then obtain B where B: "\<forall>r\<in>ran (map_get (uf_rank u)). r \<le> B" using finite_nat_set_iff_bounded_le by blast
  have "rank_of u i \<le> B" for i
    using B by (auto simp: rank_of_def ran_def split: option.splits)
  then show ?thesis by blast
qed

lemma to_root_exists:
  assumes "uf_ok u"
  shows "\<exists>r. to_root u i r"
proof -
  obtain B where B: "rank_of u j \<le> B" for j using rank_bounded by blast
  show ?thesis
  proof (induction "B - rank_of u i" arbitrary: i rule: less_induct)
    case less
    show ?case
    proof (cases "map_get (uf_parent u) i = None \<or> map_get (uf_parent u) i = Some i")
      case True
      then show ?thesis by (blast intro: root_here)
    next
      case False
      then obtain p where p: "map_get (uf_parent u) i = Some p" "p \<noteq> i" by auto
      then have "rank_of u i < rank_of u p" using assms by (auto simp: uf_ok_def)
      then have "B - rank_of u p < B - rank_of u i" using B[of p] by linarith
      from less[OF this] p show ?thesis by (blast intro: root_up)
    qed
  qed
qed

lemma to_root_rep: "uf_ok u \<Longrightarrow> to_root u i (rep u i)"
  using to_root_exists rep_eq by metis

lemma rep_root:
  assumes "to_root u i r"
  shows "map_get (uf_parent u) r = None \<or> map_get (uf_parent u) r = Some r"
  using assms by induction

lemma rep_rep: "uf_ok u \<Longrightarrow> rep u (rep u i) = rep u i"
  by (rule rep_eq, rule root_here, rule rep_root) (rule to_root_rep)

lemma rank_le_root:
  assumes "to_root u i r" and "uf_ok u"
  shows "i = r \<or> rank_of u i < rank_of u r"
  using assms(1)
proof induction
  case (root_up i p r)
  then have "rank_of u i < rank_of u p" using assms(2) by (auto simp: uf_ok_def)
  with root_up.IH show ?case by auto
qed simp

section \<open>\<open>find\<close> keeps the roots\<close>

definition keeps :: "union_find \<Rightarrow> union_find \<Rightarrow> bool" where
  "keeps u u' \<longleftrightarrow> uf_ok u' \<and> rep u' = rep u \<and> (\<forall>i. map_has (uf_parent u) i \<longrightarrow> map_has (uf_parent u') i)"

lemma keeps_refl: "uf_ok u \<Longrightarrow> keeps u u"
  by (simp add: keeps_def)

lemma keeps_trans: "keeps u v \<Longrightarrow> keeps v w \<Longrightarrow> keeps u w"
  by (auto simp: keeps_def)

lemma keeps_ok: "keeps u u' \<Longrightarrow> uf_ok u'"
  by (simp add: keeps_def)

lemma keeps_rep: "keeps u u' \<Longrightarrow> rep u' = rep u"
  by (simp add: keeps_def)

lemma keepsI:
  assumes "uf_ok u" and "uf_ok u'" and "\<And>i r. to_root u i r \<Longrightarrow> to_root u' i r"
    and "\<And>i. map_has (uf_parent u) i \<Longrightarrow> map_has (uf_parent u') i"
  shows "keeps u u'"
proof -
  have "rep u' i = rep u i" for i by (rule rep_eq, rule assms(3), rule to_root_rep, rule assms(1))
  with assms show ?thesis by (auto simp: keeps_def)
qed

lemma makeSet_get:
  "map_get (uf_parent (makeSet u i)) j = (if j = i \<and> map_get (uf_parent u) i = None then Some i else map_get (uf_parent u) j)"
  by (auto simp: makeSet_def map_has_iff js.get_put)

lemma makeSet_keeps:
  assumes "uf_ok u"
  shows "keeps u (makeSet u i)"
proof (cases "map_has (uf_parent u) i")
  case True
  then show ?thesis using assms by (simp add: makeSet_def keeps_refl)
next
  case False
  show ?thesis
  proof (rule keepsI[OF assms])
    have "rank_of (makeSet u i) j = (if j = i then 0 else rank_of u j)" for j
      using False by (simp add: rank_of_def makeSet_def js.get_put)
    moreover have "map_get (uf_parent u) j \<noteq> Some i" for j
      using assms False by (auto simp: uf_ok_def)
    ultimately show "uf_ok (makeSet u i)"
      using assms False unfolding uf_ok_def map_has_iff makeSet_get by (auto split: if_splits)
    show "to_root (makeSet u i) j r" if "to_root u j r" for j r
      using that
    proof induction
      case (root_here j)
      then show ?case by (intro to_root.root_here) (auto simp: makeSet_get)
    next
      case (root_up j p r)
      have "map_get (uf_parent (makeSet u i)) j = Some p" using root_up.hyps(1) by (auto simp: makeSet_get)
      then show ?case using root_up.hyps(2) root_up.IH by (rule to_root.root_up)
    qed
  qed (auto simp: map_has_iff makeSet_get)
qed

lemma root_known:
  assumes "to_root u i r" and "uf_ok u" and "map_has (uf_parent u) i"
  shows "map_has (uf_parent u) r"
  using assms(1,3)
proof induction
  case (root_up i p r)
  then have "map_has (uf_parent u) p" using assms(2) by (simp add: uf_ok_def)
  then show ?case by (rule root_up.IH)
qed

lemma compress_keeps:
  assumes "uf_ok u" and "map_has (uf_parent u) i" and "rep u i \<noteq> i"
  shows "keeps u (set_parent u i (rep u i))"
proof (rule keepsI[OF assms(1)])
  let ?u = "set_parent u i (rep u i)"
  have get: "map_get (uf_parent ?u) j = (if j = i then Some (rep u i) else map_get (uf_parent u) j)" for j
    by (simp add: set_parent_def js.get_put)
  have rank: "rank_of ?u = rank_of u" by (simp add: set_parent_def rank_of_def fun_eq_iff)
  have root: "to_root u i (rep u i)" by (rule to_root_rep[OF assms(1)])
  have "map_has (uf_parent u) (rep u i)" by (rule root_known[OF root assms(1,2)])
  moreover have "rank_of u i < rank_of u (rep u i)" using rank_le_root[OF root assms(1)] assms(3) by auto
  ultimately show "uf_ok ?u"
    using assms(1) unfolding uf_ok_def map_has_iff get rank by (auto split: if_splits)
  show "to_root ?u j r" if "to_root u j r" for j r
    using that
  proof induction
    case (root_here j)
    have "rep u j = j" by (rule rep_eq, rule to_root.root_here, rule root_here)
    then have "j \<noteq> i" using assms(3) by auto
    then show ?case using root_here by (intro to_root.root_here) (simp add: get)
  next
    case (root_up j p r)
    show ?case
    proof (cases "j = i")
      case True
      have "r = rep u i" using rep_eq[OF to_root.root_up[OF root_up.hyps]] True by simp
      then have "to_root ?u (rep u i) r"
        using rep_root[OF root] assms(3) by (auto simp: get intro!: to_root.root_here)
      moreover have "map_get (uf_parent ?u) j = Some (rep u i)" using True by (simp add: get)
      ultimately show ?thesis using True assms(3) by (blast intro: to_root.root_up)
    next
      case False
      then have "map_get (uf_parent ?u) j = Some p" using root_up.hyps(1) by (simp add: get)
      then show ?thesis using root_up.hyps(2) root_up.IH by (rule to_root.root_up)
    qed
  qed
qed (auto simp: set_parent_def map_has_iff js.get_put)

text \<open>\<open>find\<close> returns the root, and compression and creation are invisible.\<close>

lemma find_to_root:
  assumes "to_root u i r" and "uf_ok u"
  shows "\<exists>u'. uf_find u i = Some (u', r) \<and> keeps u u' \<and> map_has (uf_parent u') i \<and> map_has (uf_parent u') r"
  using assms(1)
proof induction
  case (root_here i)
  have get: "map_get (uf_parent (makeSet u i)) i = Some i" using root_here(1) by (auto simp: makeSet_get)
  then have "uf_find u i = Some (makeSet u i, i)" by (subst uf_find.simps) (simp add: Let_def)
  then show ?case using makeSet_keeps[OF assms(2), of i] get by (auto simp: map_has_iff)
next
  case (root_up i p r)
  obtain u2 where u2: "uf_find u p = Some (u2, r)" "keeps u u2" "map_has (uf_parent u2) r"
    using root_up.IH by blast
  have rep: "rep u i = r" by (rule rep_eq) (rule to_root.root_up[OF root_up.hyps])
  have has: "map_has (uf_parent u) i" using root_up.hyps(1) by (simp add: map_has_iff)
  then have "makeSet u i = u" by (simp add: makeSet_def)
  then have find: "uf_find u i = Some (set_parent u2 i r, r)"
    using root_up.hyps(1,2) u2(1) by (subst uf_find.simps) (simp add: Let_def)
  have has2: "map_has (uf_parent u2) i" using u2(2) has by (simp add: keeps_def)
  have rep2: "rep u2 i = r" using u2(2) rep by (simp add: keeps_def)
  have "rank_of u i < rank_of u p" using root_up.hyps(1,2) assms(2) by (auto simp: uf_ok_def)
  then have "i \<noteq> r" using rank_le_root[OF root_up.hyps(3) assms(2)] by auto
  then have "keeps u2 (set_parent u2 i r)"
    using compress_keeps[OF keeps_ok[OF u2(2)] has2] rep2 by simp
  then have "keeps u (set_parent u2 i r)" by (rule keeps_trans[OF u2(2)])
  moreover have "map_has (uf_parent (set_parent u2 i r)) i" by (simp add: set_parent_def map_has_iff)
  moreover have "map_has (uf_parent (set_parent u2 i r)) r"
    using u2(3) by (auto simp: set_parent_def map_has_iff js.get_put)
  ultimately show ?case using find by blast
qed

lemma find_spec:
  assumes "uf_ok u"
  shows "\<exists>u'. uf_find u i = Some (u', rep u i) \<and> keeps u u' \<and> map_has (uf_parent u') i \<and> map_has (uf_parent u') (rep u i)"
  by (rule find_to_root[OF to_root_rep[OF assms] assms])

section \<open>\<open>union\<close> merges two classes\<close>

lemma link_top:
  "\<exists>top sub. link u ra rb = (let u1 = set_parent u sub top in
       if rank_of u ra = rank_of u rb then u1\<lparr>uf_rank := map_set (uf_rank u1) top (rank_of u ra + 1)\<rparr> else u1) \<and>
     ((top = ra \<and> sub = rb) \<or> (top = rb \<and> sub = ra)) \<and> rank_of u sub \<le> rank_of u top"
proof (cases "rank_of u ra < rank_of u rb")
  case True
  then show ?thesis by (intro exI[of _ rb] exI[of _ ra]) (simp add: link_def Let_def)
next
  case False
  then show ?thesis by (intro exI[of _ ra] exI[of _ rb]) (simp add: link_def Let_def)
qed

lemma link_spec:
  assumes ok: "uf_ok u" and roots: "rep u ra = ra" "rep u rb = rb" and ne: "ra \<noteq> rb"
    and known: "map_has (uf_parent u) ra" "map_has (uf_parent u) rb"
  shows "\<exists>top sub. {top, sub} = {ra, rb} \<and> uf_ok (link u ra rb) \<and>
     rep (link u ra rb) = (\<lambda>i. if rep u i = sub then top else rep u i) \<and>
     (\<forall>i. map_has (uf_parent u) i \<longrightarrow> map_has (uf_parent (link u ra rb)) i)"
proof -
  let ?u = "link u ra rb"
  obtain top sub where l: "?u = (let u1 = set_parent u sub top in
       if rank_of u ra = rank_of u rb then u1\<lparr>uf_rank := map_set (uf_rank u1) top (rank_of u ra + 1)\<rparr> else u1)"
    and ts: "(top = ra \<and> sub = rb) \<or> (top = rb \<and> sub = ra)" and le: "rank_of u sub \<le> rank_of u top"
    using link_top by blast
  have rt: "rep u top = top" "rep u sub = sub" "top \<noteq> sub" "map_has (uf_parent u) top" using ts roots ne known by auto
  have get: "map_get (uf_parent ?u) j = (if j = sub then Some top else map_get (uf_parent u) j)" for j
    by (simp add: l set_parent_def js.get_put Let_def)
  have rank: "rank_of u j \<le> rank_of ?u j" "j \<noteq> top \<Longrightarrow> rank_of ?u j = rank_of u j" "rank_of u sub < rank_of ?u top" for j
    using ts le by (auto simp: l set_parent_def rank_of_def js.get_put Let_def split: option.splits)
  have top_root: "map_get (uf_parent u) top = Some top" "map_get (uf_parent u) sub \<in> {None, Some sub}"
    using rep_root[OF to_root_rep[OF ok, of top]] rep_root[OF to_root_rep[OF ok, of sub]] rt
    by (auto simp: map_has_iff)
  have ok': "uf_ok ?u"
    unfolding uf_ok_def
  proof (intro allI impI)
    fix i p assume i: "map_get (uf_parent ?u) i = Some p"
    show "map_has (uf_parent ?u) p \<and> (p = i \<or> rank_of ?u i < rank_of ?u p)"
    proof (cases "i = sub")
      case True
      then show ?thesis using i rt rank top_root(1) by (auto simp: get map_has_iff)
    next
      case False
      then have old: "map_get (uf_parent u) i = Some p" using i by (simp add: get)
      then have "map_has (uf_parent u) p" "p = i \<or> rank_of u i < rank_of u p" using ok by (auto simp: uf_ok_def)
      moreover have "map_has (uf_parent u) p \<Longrightarrow> map_has (uf_parent ?u) p" by (auto simp: get map_has_iff)
      moreover have "i = top \<Longrightarrow> p = i" using old top_root(1) by simp
      ultimately show ?thesis
        using rank(1)[of p] rank(2)[of i] by (cases "i = top") auto
    qed
  qed
  have to: "to_root ?u j (if r = sub then top else r)" if "to_root u j r" for j r
    using that
  proof induction
    case (root_here j)
    have top: "to_root ?u top top" using top_root(1) rt(3) by (intro to_root.root_here) (simp add: get)
    show ?case
    proof (cases "j = sub")
      case True
      have "map_get (uf_parent ?u) j = Some top" using True by (simp add: get)
      from to_root.root_up[OF this _ top] True rt(3) show ?thesis by simp
    next
      case False
      then show ?thesis using root_here by (simp add: get to_root.root_here)
    qed
  next
    case (root_up j p r)
    have "j \<noteq> sub" using root_up.hyps(1,2) top_root(2) by auto
    then have "map_get (uf_parent ?u) j = Some p" using root_up.hyps(1) by (simp add: get)
    then show ?case using root_up.hyps(2) root_up.IH by (rule to_root.root_up)
  qed
  have "rep ?u i = (if rep u i = sub then top else rep u i)" for i
    by (rule rep_eq, rule to, rule to_root_rep, rule ok)
  moreover have "{top, sub} = {ra, rb}" using ts by auto
  moreover have "\<forall>i. map_has (uf_parent u) i \<longrightarrow> map_has (uf_parent ?u) i" by (auto simp: map_has_iff get)
  ultimately show ?thesis using ok' by (intro exI[of _ top] exI[of _ sub]) (simp add: fun_eq_iff)
qed

lemma union_spec:
  assumes "uf_ok u"
  shows "\<exists>u'. uf_union u a b = Some (u', rep u a \<noteq> rep u b) \<and> uf_ok u' \<and>
    (if rep u a = rep u b then rep u' = rep u
     else \<exists>top sub. {top, sub} = {rep u a, rep u b} \<and> rep u' = (\<lambda>i. if rep u i = sub then top else rep u i)) \<and>
    (\<forall>i. map_has (uf_parent u) i \<longrightarrow> map_has (uf_parent u') i)"
proof -
  obtain u1 where u1: "uf_find u a = Some (u1, rep u a)" "keeps u u1" "map_has (uf_parent u1) (rep u a)"
    using find_spec[OF assms] by blast
  obtain u2 where u2: "uf_find u1 b = Some (u2, rep u1 b)" "keeps u1 u2" "map_has (uf_parent u2) (rep u1 b)"
    using find_spec[OF keeps_ok[OF u1(2)]] by blast
  have r1: "rep u1 = rep u" and k2: "keeps u u2" using u1(2) keeps_trans[OF u1(2) u2(2)] by (simp_all add: keeps_def)
  have res: "uf_union u a b = (if rep u a = rep u b then Some (u2, False) else Some (link u2 (rep u a) (rep u b), True))"
    by (simp add: uf_union_def u1(1) u2(1) r1)
  show ?thesis
  proof (cases "rep u a = rep u b")
    case True
    then show ?thesis using res k2 by (simp add: keeps_def)
  next
    case False
    have "map_has (uf_parent u2) (rep u a)" using u1(3) u2(2) by (simp add: keeps_def)
    moreover have "map_has (uf_parent u2) (rep u b)" using u2(3) r1 by simp
    moreover have rep2: "rep u2 = rep u" using k2 by (simp add: keeps_def)
    ultimately obtain top sub where l: "{top, sub} = {rep u a, rep u b}" "uf_ok (link u2 (rep u a) (rep u b))"
      "rep (link u2 (rep u a) (rep u b)) = (\<lambda>i. if rep u i = sub then top else rep u i)"
      "\<forall>i. map_has (uf_parent u2) i \<longrightarrow> map_has (uf_parent (link u2 (rep u a) (rep u b))) i"
      using link_spec[of u2 "rep u a" "rep u b", unfolded rep2] keeps_ok[OF k2] False rep_rep[OF assms] by auto
    have "\<forall>i. map_has (uf_parent u) i \<longrightarrow> map_has (uf_parent (link u2 (rep u a) (rep u b))) i"
      using l(4) k2 by (auto simp: keeps_def)
    then show ?thesis using res False l(1,2,3) by auto
  qed
qed

section \<open>The equivalence relation it refines\<close>

definition partition :: "union_find \<Rightarrow> (nat \<times> nat) set" where
  "partition u = {(i, j). rep u i = rep u j}"

text \<open>Adding one pair to an equivalence relation.\<close>

definition merge_pair :: "nat \<Rightarrow> nat \<Rightarrow> (nat \<times> nat) set \<Rightarrow> (nat \<times> nat) set" where
  "merge_pair a b R = {(i, j). (i, j) \<in> R \<or> (i, a) \<in> R \<and> (b, j) \<in> R \<or> (i, b) \<in> R \<and> (a, j) \<in> R}"

lemma merge_pair_rtrancl:
  assumes "equiv UNIV R"
  shows "merge_pair a b R = (R \<union> {(a, b), (b, a)})\<^sup>*"
proof
  have R: "(x, x) \<in> R" "(x, y) \<in> R \<Longrightarrow> (y, x) \<in> R" "(x, y) \<in> R \<Longrightarrow> (y, z) \<in> R \<Longrightarrow> (x, z) \<in> R" for x y z
    using assms by (auto simp: equiv_def refl_on_def dest: symD transD)
  let ?S = "R \<union> {(a, b), (b, a)}"
  have "(x, y) \<in> ?S\<^sup>*" if "(x, c) \<in> R" "(d, y) \<in> R" "(c, d) \<in> ?S" for x y c d
  proof -
    have "(x, c) \<in> ?S\<^sup>*" "(c, d) \<in> ?S\<^sup>*" "(d, y) \<in> ?S\<^sup>*" using that by auto
    then show ?thesis by (blast intro: rtrancl_trans)
  qed
  then show "merge_pair a b R \<subseteq> ?S\<^sup>*" unfolding merge_pair_def by auto
  have "(x, y) \<in> merge_pair a b R" if "(x, y) \<in> ?S\<^sup>*" for x y
    using that
  proof induction
    case base
    show ?case using R(1) by (simp add: merge_pair_def)
  next
    case (step y z)
    have yy: "(y, y) \<in> R" "(z, z) \<in> R" by (rule R)+
    from step.hyps(2) have "(y, z) \<in> R \<or> (y = a \<and> z = b) \<or> (y = b \<and> z = a)" by auto
    then show ?case using step.IH yy R unfolding merge_pair_def by blast
  qed
  then show "?S\<^sup>* \<subseteq> merge_pair a b R" by auto
qed

lemma equiv_rtrancl: "equiv UNIV ((S \<union> S\<inverse>)\<^sup>*)"
  by (intro equivI refl_rtrancl sym_rtrancl trans_rtrancl) (auto simp: sym_def)

fun union_all :: "('s \<Rightarrow> nat \<Rightarrow> nat \<Rightarrow> ('s \<times> bool) option) \<Rightarrow> 's \<Rightarrow> (nat \<times> nat) list \<Rightarrow> 's option" where
  "union_all un s [] = Some s"
| "union_all un s ((a, b) # ps) = Option.bind (un s a b) (\<lambda>(s', _). union_all un s' ps)"

text \<open>What the e-graph relies on: every call returns, and the answers are those of the relation.\<close>

locale partition_store =
  fixes un :: "'s \<Rightarrow> nat \<Rightarrow> nat \<Rightarrow> ('s \<times> bool) option"
    and sm :: "'s \<Rightarrow> nat \<Rightarrow> nat \<Rightarrow> ('s \<times> bool) option"
    and rel :: "'s \<Rightarrow> (nat \<times> nat) set"
    and ok :: "'s \<Rightarrow> bool"
  assumes rel_equiv: "ok s \<Longrightarrow> equiv UNIV (rel s)"
    and sm_spec: "ok s \<Longrightarrow> \<exists>s'. sm s a b = Some (s', (a, b) \<in> rel s) \<and> ok s' \<and> rel s' = rel s"
    and un_spec: "ok s \<Longrightarrow> \<exists>s'. un s a b = Some (s', (a, b) \<notin> rel s) \<and> ok s' \<and> rel s' = merge_pair a b (rel s)"
begin

lemma union_all_spec:
  assumes "ok s" and "rel s = (S \<union> S\<inverse>)\<^sup>*"
  shows "\<exists>s'. union_all un s ps = Some s' \<and> ok s' \<and> rel s' = ((S \<union> set ps) \<union> (S \<union> set ps)\<inverse>)\<^sup>*"
  using assms
proof (induction ps arbitrary: s S)
  case Nil
  then show ?case by simp
next
  case (Cons p ps)
  obtain a b where p: "p = (a, b)" by (cases p)
  obtain s1 c where s1: "un s a b = Some (s1, c)" "ok s1" "rel s1 = merge_pair a b (rel s)"
    using un_spec[OF Cons.prems(1), of a b] by blast
  let ?S = "insert (a, b) S"
  have "rel s1 = ((S \<union> S\<inverse>)\<^sup>* \<union> {(a, b), (b, a)})\<^sup>*"
    using merge_pair_rtrancl[OF rel_equiv[OF Cons.prems(1)]] by (simp add: s1(3) Cons.prems(2))
  also have "\<dots> = (S \<union> S\<inverse> \<union> {(a, b), (b, a)})\<^sup>*" by (metis rtrancl_Un_rtrancl rtrancl_idemp)
  also have "S \<union> S\<inverse> \<union> {(a, b), (b, a)} = ?S \<union> ?S\<inverse>" by auto
  finally obtain s' where "union_all un s1 ps = Some s'" "ok s'" "rel s' = ((?S \<union> set ps) \<union> (?S \<union> set ps)\<inverse>)\<^sup>*"
    using Cons.IH[OF s1(2)] by blast
  then show ?case by (simp add: p s1(1))
qed

lemma connectivity:
  assumes "ok s" and "rel s = Id"
  shows "\<exists>s1 s2. union_all un s ps = Some s1 \<and> sm s1 x y = Some (s2, (x, y) \<in> (set ps \<union> (set ps)\<inverse>)\<^sup>*)"
proof -
  obtain s1 where "union_all un s ps = Some s1" "ok s1" "rel s1 = (set ps \<union> (set ps)\<inverse>)\<^sup>*"
    using union_all_spec[OF assms(1), of "{}" ps] assms(2) by auto
  with sm_spec[of s1 x y] show ?thesis by auto
qed

end

interpretation uf: partition_store uf_union uf_same partition uf_ok
proof
  fix u a b assume ok: "uf_ok u"
  show "equiv UNIV (partition u)"
    by (rule equivI) (auto simp: partition_def refl_on_def sym_def trans_def)
  obtain u1 where u1: "uf_find u a = Some (u1, rep u a)" "keeps u u1" using find_spec[OF ok] by blast
  obtain u2 where u2: "uf_find u1 b = Some (u2, rep u1 b)" "keeps u1 u2" using find_spec[OF keeps_ok[OF u1(2)]] by blast
  show "\<exists>u'. uf_same u a b = Some (u', (a, b) \<in> partition u) \<and> uf_ok u' \<and> partition u' = partition u"
    using u1 u2 by (simp add: uf_same_def partition_def keeps_def)
  obtain u' where u': "uf_union u a b = Some (u', rep u a \<noteq> rep u b)" "uf_ok u'" and
    r: "if rep u a = rep u b then rep u' = rep u
     else \<exists>top sub. {top, sub} = {rep u a, rep u b} \<and> rep u' = (\<lambda>i. if rep u i = sub then top else rep u i)"
    using union_spec[OF ok, of a b] by blast
  have "partition u' = merge_pair a b (partition u)"
  proof (cases "rep u a = rep u b")
    case True
    then show ?thesis using r by (auto simp: partition_def merge_pair_def)
  next
    case False
    then obtain top sub where "{top, sub} = {rep u a, rep u b}" "rep u' = (\<lambda>i. if rep u i = sub then top else rep u i)"
      using r by auto
    then have r': "rep u' = (\<lambda>i. if rep u i = sub then top else rep u i)"
      and ts: "(top = rep u a \<and> sub = rep u b) \<or> (top = rep u b \<and> sub = rep u a)"
      by (auto simp: doubleton_eq_iff)
    have "rep u' i = rep u' j \<longleftrightarrow> (i, j) \<in> merge_pair a b (partition u)" for i j
      using ts False unfolding r' partition_def merge_pair_def mem_Collect_eq Un_iff prod.case
      by (elim disjE conjE; cases "rep u i = sub"; cases "rep u j = sub"; simp; metis)
    then show ?thesis by (auto simp: partition_def)
  qed
  with u' show "\<exists>u'. uf_union u a b = Some (u', (a, b) \<notin> partition u) \<and> uf_ok u' \<and> partition u' = merge_pair a b (partition u)"
    by (auto simp: partition_def)
qed

lemma partition_empty: "partition uf_empty = Id"
proof -
  have "rep uf_empty i = i" for i
    by (rule rep_eq, rule root_here) (simp add: uf_empty_def)
  then show ?thesis by (auto simp: partition_def)
qed

text \<open>Claim C37: the structure decides connectivity. After any sequence of unions on the empty structure,
  every call having returned, \<open>same(x, y)\<close> is true exactly when a chain of the united pairs, in either
  direction, leads from \<open>x\<close> to \<open>y\<close>: path compression, ranks and lazy creation are invisible.\<close>

theorem union_find_connectivity:
  "\<exists>u1 u2. union_all uf_union uf_empty ps = Some u1 \<and>
     uf_same u1 x y = Some (u2, (x, y) \<in> (set ps \<union> (set ps)\<inverse>)\<^sup>*)"
  by (rule uf.connectivity[OF uf_ok_empty partition_empty])

end
