(* ===== verification/Json.thy ===== *)
theory Json
  imports Prelude
begin

text \<open>
  \<open>JSON.stringify\<close> on the values the control plane serialises: null, booleans, integers, strings,
  arrays and objects whose properties keep their insertion order. The main lemma is that the text
  determines the value, so that equal texts and, through an injective digest, equal digests mean
  equal values.
\<close>

section \<open>Serialisation\<close>

datatype json = JNull | JBool bool | JNum int | JStr string | JArr "json list" | JObj "(string \<times> json) list"

definition hex_digit :: "nat \<Rightarrow> char" where
  "hex_digit d = char_of (if d < 10 then 48 + d else 87 + d)"

text \<open>\<open>JSON.stringify\<close> of a character and of a string.\<close>

definition json_char :: "char \<Rightarrow> string" where
  "json_char c = (let n = of_char c :: nat in
     if n = 34 then [char_of (92 :: nat), c] else if n = 92 then [c, c]
     else if n = 8 then [char_of (92 :: nat), CHR ''b''] else if n = 9 then [char_of (92 :: nat), CHR ''t'']
     else if n = 10 then [char_of (92 :: nat), CHR ''n''] else if n = 12 then [char_of (92 :: nat), CHR ''f'']
     else if n = 13 then [char_of (92 :: nat), CHR ''r'']
     else if n < 32 then char_of (92 :: nat) # ''u00'' @ [hex_digit (n div 16), hex_digit (n mod 16)]
     else [c])"

definition json_quote :: "string \<Rightarrow> string" where
  "json_quote s = char_of (34 :: nat) # concat (map json_char s) @ [char_of (34 :: nat)]"

fun json_text :: "json \<Rightarrow> string" where
  "json_text JNull = ''null''"
| "json_text (JBool b) = (if b then ''true'' else ''false'')"
| "json_text (JNum i) = int_str i"
| "json_text (JStr s) = json_quote s"
| "json_text (JArr vs) = ''['' @ join_with '','' (map json_text vs) @ '']''"
| "json_text (JObj ps) = ''{'' @ join_with '','' (map (\<lambda>p. json_quote (fst p) @ '':'' @ json_text (snd p)) ps) @ ''}''"


lemma json_char_code [code]:
  "json_char c = (let n = of_char c :: int in
     if n = 34 then [CHR 0x5C, c] else if n = 92 then [c, c]
     else if n = 8 then [CHR 0x5C, CHR ''b''] else if n = 9 then [CHR 0x5C, CHR ''t'']
     else if n = 10 then [CHR 0x5C, CHR ''n''] else if n = 12 then [CHR 0x5C, CHR ''f'']
     else if n = 13 then [CHR 0x5C, CHR ''r'']
     else if n < 32 then CHR 0x5C # ''u00'' @ [hex_digit (nat (n div 16)), hex_digit (nat (n mod 16))]
     else [c])"
proof -
  have lt: "(of_char c :: nat) < 32 \<longleftrightarrow> (of_char c :: int) < 32"
    using of_nat_less_iff[where ?'a = int, of "of_char c" 32] by (simp add: of_nat_of_char)
  have lit: "char_of (92 :: nat) = CHR 0x5C" by code_simp
  have hex: "nat (of_char c div 16) = (of_char c :: nat) div 16" "nat (of_char c mod 16) = (of_char c :: nat) mod 16"
    by (simp_all flip: of_nat_of_char[where ?'a = int] add: nat_div_distrib nat_mod_distrib)
  show ?thesis unfolding json_char_def Let_def lit hex char_code_eq lt ..
qed

section \<open>The text determines the value\<close>

text \<open>Reading back one escaped character.\<close>

definition hex_val :: "char \<Rightarrow> nat" where
  "hex_val c = (let n = of_char c in if n < 97 then n - 48 else n - 87)"

definition unescape :: "string \<Rightarrow> char \<times> string" where
  "unescape s = (let n = of_char (hd s) :: nat; m = of_char (hd (tl s)) :: nat in
     if n \<noteq> 92 then (hd s, tl s)
     else if m = 98 then (char_of (8 :: nat), drop 2 s) else if m = 116 then (char_of (9 :: nat), drop 2 s)
     else if m = 110 then (char_of (10 :: nat), drop 2 s) else if m = 102 then (char_of (12 :: nat), drop 2 s)
     else if m = 114 then (char_of (13 :: nat), drop 2 s)
     else if m = 117 then (char_of (16 * hex_val (s ! 4) + hex_val (s ! 5)), drop 6 s)
     else (hd (tl s), drop 2 s))"

lemma hex_val_digit [simp]: "d < 16 \<Longrightarrow> hex_val (hex_digit d) = d"
  by (simp add: hex_val_def hex_digit_def Let_def)

lemma char_of_code: "(of_char c :: nat) = n \<Longrightarrow> char_of n = c"
  by (metis char_of_char)

lemma letter_codes:
  "(of_char (CHR ''b'') :: nat) = 98" "(of_char (CHR ''t'') :: nat) = 116" "(of_char (CHR ''n'') :: nat) = 110"
  "(of_char (CHR ''f'') :: nat) = 102" "(of_char (CHR ''r'') :: nat) = 114" "(of_char (CHR ''u'') :: nat) = 117"
  by simp_all

lemma unescape_json_char: "unescape (json_char c @ x) = (c, x)"
proof -
  let ?n = "of_char c :: nat"
  have n: "char_of ?n = c" by simp
  consider "?n = 8" | "?n = 9" | "?n = 10" | "?n = 12" | "?n = 13" | "?n = 34 \<or> ?n = 92"
    | "?n < 32" "?n \<noteq> 8" "?n \<noteq> 9" "?n \<noteq> 10" "?n \<noteq> 12" "?n \<noteq> 13"
    | "\<not> ?n < 32" "?n \<noteq> 34" "?n \<noteq> 92" by linarith
  then show ?thesis
  proof cases
    case 7
    then have "?n div 16 < 16" "16 * (?n div 16) + ?n mod 16 = ?n" by simp_all
    with 7 n show ?thesis by (simp add: json_char_def unescape_def Let_def)
  qed (use n in \<open>auto simp: json_char_def unescape_def\<close>)
qed


lemma json_char_prefix: "json_char c @ x = json_char d @ y \<Longrightarrow> c = d \<and> x = y"
  by (metis prod.inject unescape_json_char)

lemma json_char_not_quote: "json_char c @ x \<noteq> char_of (34 :: nat) # y"
proof
  assume eq: "json_char c @ x = char_of (34 :: nat) # y"
  then have "unescape (char_of (34 :: nat) # y) = (c, x)" using unescape_json_char[of c x] by simp
  then have "c = char_of (34 :: nat)" by (simp add: unescape_def)
  with eq show False by (simp add: json_char_def)
qed

lemma json_quote_prefix [simp]: "json_quote s @ x = json_quote t @ y \<longleftrightarrow> s = t \<and> x = y"
proof
  have "concat (map json_char s) @ char_of (34 :: nat) # x = concat (map json_char t) @ char_of (34 :: nat) # y
    \<Longrightarrow> s = t \<and> x = y"
  proof (induction s arbitrary: t)
    case Nil
    then show ?case using json_char_not_quote[symmetric] by (cases t) simp_all
  next
    case (Cons c s)
    then obtain d t' where t: "t = d # t'" using json_char_not_quote by (cases t) auto
    with Cons.prems have "c = d \<and> concat (map json_char s) @ char_of (34 :: nat) # x
        = concat (map json_char t') @ char_of (34 :: nat) # y"
      by (intro json_char_prefix) simp
    with Cons.IH t show ?case by blast
  qed
  then show "json_quote s @ x = json_quote t @ y \<Longrightarrow> s = t \<and> x = y" by (simp add: json_quote_def)
qed simp

text \<open>What may follow a value inside a larger text.\<close>

definition delim :: "string \<Rightarrow> bool" where
  "delim x \<longleftrightarrow> x = [] \<or> \<not> is_digit (hd x)"

lemma delim_simps [simp]: "delim []" "delim (c # x) \<longleftrightarrow> \<not> is_digit c"
  by (simp_all add: delim_def)

lemma digits_prefix:
  "list_all is_digit a \<Longrightarrow> list_all is_digit b \<Longrightarrow> delim x \<Longrightarrow> delim y \<Longrightarrow> a @ x = b @ y \<Longrightarrow> a = b \<and> x = y"
proof (induction a arbitrary: b)
  case Nil
  then show ?case by (cases b) (auto simp: delim_def)
next
  case (Cons c a)
  then show ?case by (cases b) (auto simp: delim_def)
qed

lemma nat_str_hd: "is_digit (hd (nat_str n))"
  using nat_str_digits[of n] nat_str_ne[of n] by (cases "nat_str n") simp_all

lemma nat_str_dash: "nat_str n @ x \<noteq> CHR ''-'' # y"
  using nat_str_hd[of n] nat_str_ne[of n] by (cases "nat_str n") (auto simp: is_digit_def)

lemma nat_str_prefix: "nat_str m @ x = nat_str n @ y \<Longrightarrow> delim x \<Longrightarrow> delim y \<Longrightarrow> m = n \<and> x = y"
  using digits_prefix[OF nat_str_digits nat_str_digits] nat_str_inj by blast

lemma int_str_prefix:
  assumes eq: "int_str i @ x = int_str j @ y" and x: "delim x" and y: "delim y"
  shows "i = j \<and> x = y"
proof -
  have same: "i < 0 \<longleftrightarrow> j < 0"
    using eq nat_str_dash nat_str_dash[symmetric] by (fastforce simp: int_str_def split: if_splits)
  show ?thesis
  proof (cases "i < 0")
    case True
    with same eq have "nat_str (nat (- i)) @ x = nat_str (nat (- j)) @ y" by (simp add: int_str_def)
    with x y have "nat (- i) = nat (- j) \<and> x = y" by (intro nat_str_prefix)
    with True same show ?thesis by auto
  next
    case False
    with same eq have "nat_str (nat i) @ x = nat_str (nat j) @ y" by (simp add: int_str_def)
    with x y have "nat i = nat j \<and> x = y" by (intro nat_str_prefix)
    with False same show ?thesis by (simp add: eq_nat_nat_iff)
  qed
qed

lemma int_str_hd: "hd (int_str i) = CHR ''-'' \<or> is_digit (hd (int_str i))"
  using nat_str_hd by (auto simp: int_str_def)


text \<open>The first character of a text tells its kind.\<close>

definition starts :: "json \<Rightarrow> nat \<Rightarrow> bool" where
  "starts v n \<longleftrightarrow> (case v of JNull \<Rightarrow> n = 110 | JBool b \<Rightarrow> n = (if b then 116 else 102)
     | JNum i \<Rightarrow> n = 45 \<or> 48 \<le> n \<and> n \<le> 57 | JStr s \<Rightarrow> n = 34 | JArr vs \<Rightarrow> n = 91 | JObj ps \<Rightarrow> n = 123)"

lemma json_text_starts: "\<exists>c rest. json_text v = c # rest \<and> starts v (of_char c)"
proof (cases v)
  case (JNum i)
  obtain c rest where c: "int_str i = c # rest"
    using nat_str_ne by (cases "int_str i") (auto simp: int_str_def split: if_splits)
  then have "c = CHR ''-'' \<or> is_digit c" using int_str_hd[of i] by simp
  with JNum c show ?thesis by (auto simp: starts_def is_digit_def)
qed (auto simp: starts_def json_quote_def)

lemma json_text_append_starts:
  assumes "json_text v @ x = json_text w @ y" shows "\<exists>n. starts v n \<and> starts w n"
  using assms json_text_starts[of v] json_text_starts[of w] by auto

lemma starts_kind:
  "starts JNull n \<Longrightarrow> starts w n \<Longrightarrow> w = JNull"
  "starts (JBool b) n \<Longrightarrow> starts w n \<Longrightarrow> w = JBool b"
  "starts (JNum i) n \<Longrightarrow> starts w n \<Longrightarrow> \<exists>j. w = JNum j"
  "starts (JStr s) n \<Longrightarrow> starts w n \<Longrightarrow> \<exists>t. w = JStr t"
  "starts (JArr vs) n \<Longrightarrow> starts w n \<Longrightarrow> \<exists>ws. w = JArr ws"
  "starts (JObj ps) n \<Longrightarrow> starts w n \<Longrightarrow> \<exists>qs. w = JObj qs"
  by (cases w; auto simp: starts_def split: if_splits)+

lemma json_text_not_close: "json_text v @ x \<noteq> CHR '']'' # y"
proof
  assume "json_text v @ x = CHR '']'' # y"
  then have "starts v 93" using json_text_starts[of v] by auto
  then show False by (cases v) (auto simp: starts_def split: if_splits)
qed

text \<open>A comma-separated sequence up to its closing bracket.\<close>

lemma join_with_Cons:
  "join_with sep (a # as) @ z = a @ (if as = [] then z else sep @ join_with sep as @ z)"
  by (cases as) simp_all

lemma sequence_prefix:
  assumes close: "c \<noteq> CHR '',''" "\<not> is_digit c"
    and first: "\<And>v x y. f v @ x \<noteq> c # y"
  shows "(\<And>v w r s. v \<in> set xs \<Longrightarrow> f v @ r = f w @ s \<Longrightarrow> delim r \<Longrightarrow> delim s \<Longrightarrow> v = w \<and> r = s) \<Longrightarrow>
    join_with '','' (map f xs) @ c # x = join_with '','' (map f ys) @ c # y \<Longrightarrow> xs = ys \<and> x = y"
proof (induction xs arbitrary: ys)
  case Nil
  then show ?case using first[symmetric] by (cases ys) (auto simp: join_with_Cons)
next
  case (Cons v xs)
  have comma: "\<not> is_digit (CHR '','')" by (simp add: is_digit_def)
  obtain w ys' where ys: "ys = w # ys'" using Cons.prems(2) first by (cases ys) (auto simp: join_with_Cons)
  let ?r = "if xs = [] then c # x else '','' @ join_with '','' (map f xs) @ c # x"
  let ?s = "if ys' = [] then c # y else '','' @ join_with '','' (map f ys') @ c # y"
  have "f v @ ?r = f w @ ?s" using Cons.prems(2) by (simp add: ys join_with_Cons)
  moreover have "delim ?r" "delim ?s" using close comma by simp_all
  ultimately have vw: "v = w" and rs: "?r = ?s" using Cons.prems(1)[of v ?r w ?s] by auto
  from rs close have "join_with '','' (map f xs) @ c # x = join_with '','' (map f ys') @ c # y"
    by (auto split: if_splits)
  then have "xs = ys' \<and> x = y"
    by (rule Cons.IH[rotated]) (rule Cons.prems(1), simp_all)
  with vw ys show ?case by simp
qed

lemma json_text_prefix:
  "json_text v @ x = json_text w @ y \<Longrightarrow> delim x \<Longrightarrow> delim y \<Longrightarrow> v = w \<and> x = y"
proof (induction v arbitrary: w x y rule: json_text.induct)
  case 1
  have "w = JNull" using json_text_append_starts[OF 1(1)] starts_kind(1) by blast
  with 1 show ?case by simp
next
  case (2 b)
  have "w = JBool b" using json_text_append_starts[OF 2(1)] starts_kind(2) by blast
  with 2 show ?case by (simp split: if_splits)
next
  case (3 i)
  obtain j where w: "w = JNum j" using json_text_append_starts[OF 3(1)] starts_kind(3) by blast
  have "int_str i @ x = int_str j @ y" using 3(1) w by simp
  from int_str_prefix[OF this 3(2,3)] w show ?case by simp
next
  case (4 s)
  obtain t where "w = JStr t" using json_text_append_starts[OF 4(1)] starts_kind(4) by blast
  with 4 show ?case by simp
next
  case (5 vs)
  obtain ws where w: "w = JArr ws" using json_text_append_starts[OF 5(2)] starts_kind(5) by blast
  have "vs = ws \<and> x = y"
    by (rule sequence_prefix[where c = "CHR '']''" and f = json_text])
       (use 5 w json_text_not_close in \<open>auto simp: is_digit_def\<close>)
  with w show ?case by simp
next
  case (6 ps)
  obtain qs where w: "w = JObj qs" using json_text_append_starts[OF 6(2)] starts_kind(6) by blast
  let ?f = "\<lambda>p. json_quote (fst p) @ '':'' @ json_text (snd p)"
  have member: "p = q \<and> r = s" if "p \<in> set ps" "?f p @ r = ?f q @ s" "delim r" "delim s" for p q r s
  proof -
    have key: "fst p = fst q" and val: "json_text (snd p) @ r = json_text (snd q) @ s"
      using that(2) by simp_all
    from 6(1)[OF that(1) val that(3,4)] key show ?thesis by (simp add: prod_eq_iff)
  qed
  have "ps = qs \<and> x = y"
  proof (rule sequence_prefix[where c = "CHR ''}''" and f = ?f])
    show "?f v @ a \<noteq> CHR ''}'' # b" for v a b
      by (auto simp: json_quote_def dest!: arg_cong[where f = "of_char :: char \<Rightarrow> nat"])
    show "join_with '','' (map ?f ps) @ CHR ''}'' # x = join_with '','' (map ?f qs) @ CHR ''}'' # y"
      using 6(2) w by simp
    show "p = q \<and> r = s" if "p \<in> set ps" "?f p @ r = ?f q @ s" "delim r" "delim s" for p q r s
      using that by (rule member)
  qed (simp_all add: is_digit_def)
  with w show ?case by simp
qed

lemma json_text_inj [simp]: "json_text v = json_text w \<longleftrightarrow> v = w"
  using json_text_prefix[of v "[]" w "[]"] by auto

end
