(* ===== verification/EGraph.thy ===== *)
theory EGraph
  imports UnionFind Json
begin

text \<open>
  The e-graph of \<open>packages/egraph/src/egraph.ts\<close> and the terms of \<open>term.ts\<close>: hash-consing, classes,
  parent sets, deferred rebuilding. Operations thread the state through the option monad; \<^term>\<open>None\<close> is
  a call that never returns. The places where the code's meaning hangs on object identity are written
  out: \<open>rebuild\<close> assigns to a class object that a union in the same loop may have replaced, and iterates
  over a parent set that such a union may extend. A literal number is an integer.
\<close>

section \<open>Terms\<close>

datatype lit_value = LStr string | LNum int | LBool bool | LNull

datatype eterm = Var string | App string "eterm list" | Lit lit_value

definition json_lit :: "lit_value \<Rightarrow> string" where
  "json_lit v = (case v of LStr s \<Rightarrow> json_quote s
     | LNum i \<Rightarrow> int_str i | LBool b \<Rightarrow> if b then ''true'' else ''false'' | LNull \<Rightarrow> ''null'')"

definition lit_text :: "lit_value \<Rightarrow> string" where
  "lit_text v = (case v of LStr s \<Rightarrow> s | LNum i \<Rightarrow> int_str i | LBool b \<Rightarrow> if b then ''true'' else ''false'' | LNull \<Rightarrow> ''null'')"

fun termKey :: "eterm \<Rightarrow> string" where
  "termKey (Var x) = CHR ''?'' # x"
| "termKey (Lit v) = json_lit v"
| "termKey (App f ts) = ''('' @ f @ '' '' @ join_with '' '' (map termKey ts) @ '')''"

fun pretty :: "eterm \<Rightarrow> string" where
  "pretty (Var x) = CHR ''?'' # x"
| "pretty (Lit v) = lit_text v"
| "pretty (App f ts) = (if ts = [] then f else f @ ''('' @ join_with '', '' (map pretty ts) @ '')'')"

fun isGround :: "eterm \<Rightarrow> bool" where
  "isGround (Var x) = False"
| "isGround (Lit v) = True"
| "isGround (App f ts) = list_all isGround ts"

section \<open>State\<close>

record enode =
  en_op :: string
  en_children :: "nat list"

record 'f eclass =
  cd_id :: nat
  cd_nodes :: "enode list"
  cd_facts :: "(string, 'f) jsmap"

record 'f egraph =
  eg_uf :: union_find
  eg_nextId :: nat
  eg_memo :: "(string, nat) jsmap"
  eg_classes :: "(nat, 'f eclass) jsmap"
  eg_parents :: "(nat, string list) jsmap"
  eg_dirty :: "nat list"
  eg_rebuildCount :: nat
  eg_unionCount :: nat

record egraph_stats =
  st_classes :: nat
  st_nodes :: nat
  st_rebuilds :: nat
  st_unions :: nat

definition eg_empty :: "'f egraph" where
  "eg_empty = \<lparr>eg_uf = uf_empty, eg_nextId = 1, eg_memo = [], eg_classes = [], eg_parents = [], eg_dirty = [],
     eg_rebuildCount = 0, eg_unionCount = 0\<rparr>"

definition stats :: "'f egraph \<Rightarrow> egraph_stats" where
  "stats g = \<lparr>st_classes = length (eg_classes g),
     st_nodes = sum_list (map (\<lambda>c. length (cd_nodes c)) (map_values (eg_classes g))),
     st_rebuilds = eg_rebuildCount g, st_unions = eg_unionCount g\<rparr>"

definition enodeKey :: "enode \<Rightarrow> string" where
  "enodeKey n = en_op n @ ''('' @ join_with '','' (map nat_str (en_children n)) @ '')''"

text \<open>\<open>Set.add\<close>.\<close>

definition set_add :: "'a \<Rightarrow> 'a list \<Rightarrow> 'a list" where
  "set_add x xs = (if x \<in> set xs then xs else xs @ [x])"

definition or_empty :: "'a list option \<Rightarrow> 'a list" where
  "or_empty v = (case v of None \<Rightarrow> [] | Some xs \<Rightarrow> xs)"

section \<open>Canonical nodes\<close>

fun find_all :: "union_find \<Rightarrow> nat list \<Rightarrow> (union_find \<times> nat list) option" where
  "find_all u [] = Some (u, [])"
| "find_all u (c # cs) =
     Option.bind (uf_find u c) (\<lambda>(u1, r). Option.bind (find_all u1 cs) (\<lambda>(u2, rs). Some (u2, r # rs)))"

definition canonicalizeNode :: "union_find \<Rightarrow> enode \<Rightarrow> (union_find \<times> enode) option" where
  "canonicalizeNode u n =
     Option.bind (find_all u (en_children n)) (\<lambda>(u1, cs). Some (u1, \<lparr>en_op = en_op n, en_children = cs\<rparr>))"

fun dedupe_from :: "union_find \<Rightarrow> string list \<Rightarrow> enode list \<Rightarrow> (union_find \<times> enode list) option" where
  "dedupe_from u seen [] = Some (u, [])"
| "dedupe_from u seen (n # ns) =
     Option.bind (canonicalizeNode u n) (\<lambda>(u1, cn).
       let k = enodeKey cn
       in if k \<in> set seen then dedupe_from u1 seen ns
          else Option.bind (dedupe_from u1 (k # seen) ns) (\<lambda>(u2, out). Some (u2, cn # out)))"

definition dedupeNodes :: "union_find \<Rightarrow> enode list \<Rightarrow> (union_find \<times> enode list) option" where
  "dedupeNodes u ns = dedupe_from u [] ns"

section \<open>Adding\<close>

definition add_parent_key :: "(nat, string list) jsmap \<Rightarrow> nat \<Rightarrow> string \<Rightarrow> (nat, string list) jsmap" where
  "add_parent_key ps l key = map_set ps l (set_add key (or_empty (map_get ps l)))"

fun add_parents :: "'f egraph \<Rightarrow> string \<Rightarrow> nat list \<Rightarrow> 'f egraph option" where
  "add_parents g key [] = Some g"
| "add_parents g key (c # cs) =
     Option.bind (uf_find (eg_uf g) c) (\<lambda>(u, l).
       add_parents (g\<lparr>eg_uf := u, eg_parents := add_parent_key (eg_parents g) l key\<rparr>) key cs)"

definition fresh_class :: "'f egraph \<Rightarrow> union_find \<Rightarrow> enode \<Rightarrow> 'f egraph" where
  "fresh_class g u node =
     (let i = eg_nextId g
      in g\<lparr>eg_uf := makeSet u i, eg_nextId := i + 1,
          eg_classes := map_set (eg_classes g) i \<lparr>cd_id = i, cd_nodes = [node], cd_facts = []\<rparr>,
          eg_memo := map_set (eg_memo g) (enodeKey node) i\<rparr>)"

definition addNode :: "'f egraph \<Rightarrow> enode \<Rightarrow> ('f egraph \<times> nat) option" where
  "addNode g raw =
     Option.bind (canonicalizeNode (eg_uf g) raw) (\<lambda>(u1, node).
       case map_get (eg_memo g) (enodeKey node) of
         Some existing \<Rightarrow> Option.bind (uf_find u1 existing) (\<lambda>(u2, r). Some (g\<lparr>eg_uf := u2\<rparr>, r))
       | None \<Rightarrow>
           Option.bind (add_parents (fresh_class g u1 node) (enodeKey node) (en_children node)) (\<lambda>g1.
             Some (g1\<lparr>eg_dirty := set_add (eg_nextId g) (eg_dirty g1)\<rparr>, eg_nextId g)))"

definition lit_op :: "lit_value \<Rightarrow> string" where
  "lit_op v = ''lit:'' @ json_lit v"

text \<open>\<open>addRec\<close>; a variable cannot occur in a ground term.\<close>

fun addRec :: "'f egraph \<Rightarrow> eterm \<Rightarrow> ('f egraph \<times> nat) result option"
and addRecs :: "'f egraph \<Rightarrow> eterm list \<Rightarrow> ('f egraph \<times> nat list) result option" where
  "addRec g (Var x) = Some (throw ''unexpected var'')"
| "addRec g (Lit v) = map_option Inr (addNode g \<lparr>en_op = lit_op v, en_children = []\<rparr>)"
| "addRec g (App f ts) =
     Option.bind (addRecs g ts) (\<lambda>r. case r of
         Inl e \<Rightarrow> Some (Inl e)
       | Inr (g1, cs) \<Rightarrow> map_option Inr (addNode g1 \<lparr>en_op = f, en_children = cs\<rparr>))"
| "addRecs g [] = Some (Inr (g, []))"
| "addRecs g (t # ts) =
     Option.bind (addRec g t) (\<lambda>r. case r of
         Inl e \<Rightarrow> Some (Inl e)
       | Inr (g1, c) \<Rightarrow> Option.bind (addRecs g1 ts) (\<lambda>r2. case r2 of
             Inl e \<Rightarrow> Some (Inl e)
           | Inr (g2, cs) \<Rightarrow> Some (Inr (g2, c # cs))))"

definition eg_add :: "'f egraph \<Rightarrow> eterm \<Rightarrow> ('f egraph \<times> nat) result option" where
  "eg_add g t =
     (if \<not> isGround t then Some (throw (''add() requires ground term, got '' @ pretty t)) else addRec g t)"

section \<open>Union\<close>

fun merge_scan ::
  "union_find \<Rightarrow> nat \<Rightarrow> (nat, 'f eclass) jsmap \<Rightarrow> (union_find \<times> enode list \<times> (string, 'f) jsmap \<times> nat list) option" where
  "merge_scan u leader [] = Some (u, [], [], [])"
| "merge_scan u leader ((i, d) # cs) =
     Option.bind (uf_find u i) (\<lambda>(u1, r).
     Option.bind (merge_scan u1 leader cs) (\<lambda>(u2, nodes, facts, dead).
       if r = leader
       then Some (u2, cd_nodes d @ nodes, fold (\<lambda>(k, v) m. map_set m k v) facts (cd_facts d),
                  if i \<noteq> leader then i # dead else dead)
       else Some (u2, nodes, facts, dead)))"

definition mergeClassData :: "'f egraph \<Rightarrow> nat \<Rightarrow> 'f egraph option" where
  "mergeClassData g a =
     Option.bind (uf_find (eg_uf g) a) (\<lambda>(u, leader).
     Option.bind (merge_scan u leader (eg_classes g)) (\<lambda>(u1, nodes, facts, dead).
     Option.bind (dedupeNodes u1 nodes) (\<lambda>(u2, ns).
       Some (g\<lparr>eg_uf := u2,
               eg_classes := map_set (filter (\<lambda>(i, d). i \<notin> set dead) (eg_classes g)) leader
                 \<lparr>cd_id = leader, cd_nodes = ns, cd_facts = facts\<rparr>\<rparr>))))"

definition merge_parents :: "nat \<Rightarrow> nat \<Rightarrow> (nat, string list) jsmap \<Rightarrow> (nat, string list) jsmap" where
  "merge_parents l old ps =
     (case map_get ps old of
        None \<Rightarrow> ps
      | Some pset \<Rightarrow> map_set ps l (fold set_add pset (or_empty (map_get ps l))))"

text \<open>The remaining calls of \<open>find\<close> on the two former roots return at once and change nothing.\<close>

definition eg_union :: "'f egraph \<Rightarrow> nat \<Rightarrow> nat \<Rightarrow> ('f egraph \<times> bool) option" where
  "eg_union g a b =
     Option.bind (uf_find (eg_uf g) a) (\<lambda>(u1, ra).
     Option.bind (uf_find u1 b) (\<lambda>(u2, rb).
       if ra = rb then Some (g\<lparr>eg_uf := u2\<rparr>, False)
       else Option.bind (uf_union u2 ra rb) (\<lambda>(u3, merged).
         if \<not> merged then Some (g\<lparr>eg_uf := u3\<rparr>, False)
         else Option.bind (uf_find u3 a) (\<lambda>(u4, l).
              Option.bind (mergeClassData (g\<lparr>eg_uf := u4, eg_unionCount := eg_unionCount g + 1\<rparr>) ra) (\<lambda>g1.
                Some (g1\<lparr>eg_dirty := set_add l (eg_dirty g1),
                         eg_parents := merge_parents l rb (merge_parents l ra (eg_parents g1))\<rparr>, True))))))"

definition equiv_classes :: "'f egraph \<Rightarrow> nat \<Rightarrow> nat \<Rightarrow> ('f egraph \<times> bool) option" where
  "equiv_classes g a b = Option.bind (uf_same (eg_uf g) a b) (\<lambda>(u, r). Some (g\<lparr>eg_uf := u\<rparr>, r))"

definition ensureClass :: "'f egraph \<Rightarrow> nat \<Rightarrow> ('f egraph \<times> 'f eclass) option" where
  "ensureClass g i =
     Option.bind (uf_find (eg_uf g) i) (\<lambda>(u, leader).
       case map_get (eg_classes g) leader of
         Some d \<Rightarrow> Some (g\<lparr>eg_uf := u\<rparr>, d)
       | None \<Rightarrow> let d = \<lparr>cd_id = leader, cd_nodes = [], cd_facts = []\<rparr>
                 in Some (g\<lparr>eg_uf := u, eg_classes := map_set (eg_classes g) leader d\<rparr>, d))"

text \<open>The class object is the one stored under the leader.\<close>

definition setFact :: "'f egraph \<Rightarrow> nat \<Rightarrow> string \<Rightarrow> 'f \<Rightarrow> 'f egraph option" where
  "setFact g i key v =
     Option.bind (ensureClass g i) (\<lambda>(g1, d).
     Option.bind (uf_find (eg_uf g1) i) (\<lambda>(u, leader).
       Some (g1\<lparr>eg_uf := u, eg_classes := map_set (eg_classes g1) leader (d\<lparr>cd_facts := map_set (cd_facts d) key v\<rparr>)\<rparr>)))"

definition getFact :: "'f egraph \<Rightarrow> nat \<Rightarrow> string \<Rightarrow> ('f egraph \<times> 'f option) option" where
  "getFact g i key = Option.bind (ensureClass g i) (\<lambda>(g1, d). Some (g1, map_get (cd_facts d) key))"

section \<open>Rebuilding\<close>

text \<open>The match of \<open>/^(.+)\((.*)\)$/\<close>: the last opening parenthesis splits.\<close>

fun split_commas :: "string \<Rightarrow> string list" where
  "split_commas [] = [[]]"
| "split_commas (c # s) =
     (if c = CHR '','' then [] # split_commas s
      else (case split_commas s of [] \<Rightarrow> [[c]] | w # ws \<Rightarrow> (c # w) # ws))"

definition is_newline :: "char \<Rightarrow> bool" where
  "is_newline c \<longleftrightarrow> c = char_of (10 :: nat) \<or> c = char_of (13 :: nat)"

definition parseKey :: "string \<Rightarrow> enode option" where
  "parseKey key =
     (case rev key of
        [] \<Rightarrow> None
      | c # body \<Rightarrow>
          let inner = rev (takeWhile (\<lambda>d. d \<noteq> CHR ''('') body);
              op = rev (drop 1 (dropWhile (\<lambda>d. d \<noteq> CHR ''('') body))
          in if c \<noteq> CHR '')'' \<or> op = [] \<or> list_ex is_newline key then None
             else Some \<lparr>en_op = op, en_children = (if inner = [] then [] else map digits_val (split_commas inner))\<rparr>)"

text \<open>The loop over the nodes of class \<open>i\<close>. The stack has its top first; \<open>gone\<close> says that a union has
  replaced the class object.\<close>

fun rebuild_nodes ::
  "nat \<Rightarrow> enode list \<Rightarrow> 'f egraph \<Rightarrow> enode list \<Rightarrow> bool \<Rightarrow> nat list \<Rightarrow> ('f egraph \<times> enode list \<times> bool \<times> nat list) option" where
  "rebuild_nodes i [] g fresh gone work = Some (g, fresh, gone, work)"
| "rebuild_nodes i (n # ns) g fresh gone work =
     Option.bind (canonicalizeNode (eg_uf g) n) (\<lambda>(u1, cn).
       let key = enodeKey cn;
           keep = (\<lambda>u. rebuild_nodes i ns (g\<lparr>eg_uf := u, eg_memo := map_set (eg_memo g) key i\<rparr>) (fresh @ [cn]) gone work)
       in case map_get (eg_memo g) key of
            None \<Rightarrow> keep u1
          | Some existing \<Rightarrow> Option.bind (uf_find u1 existing) (\<lambda>(u2, r).
              if r = i then keep u2
              else Option.bind (eg_union (g\<lparr>eg_uf := u2\<rparr>) i existing) (\<lambda>(g1, did).
                   Option.bind (uf_find (eg_uf g1) i) (\<lambda>(u3, fi).
                   Option.bind (uf_find u3 existing) (\<lambda>(u4, fe).
                     rebuild_nodes i ns (g1\<lparr>eg_uf := u4\<rparr>) fresh (gone \<or> did) (fe # fi # work))))))"

definition rebuild_parent :: "nat \<Rightarrow> string \<Rightarrow> 'f egraph \<Rightarrow> nat list \<Rightarrow> ('f egraph \<times> nat list) option" where
  "rebuild_parent i pkey g work =
     (case parseKey pkey of
        None \<Rightarrow> Some (g, work)
      | Some n \<Rightarrow>
          Option.bind (canonicalizeNode (eg_uf g) n) (\<lambda>(u1, cn).
            let nk = enodeKey cn;
                finish = (\<lambda>(g1, w). if nk \<noteq> pkey
                  then Some (g1\<lparr>eg_memo := map_set (eg_memo g1) nk
                         (case map_get (eg_memo g1) pkey of None \<Rightarrow> i | Some j \<Rightarrow> j)\<rparr>, w)
                  else Some (g1, w))
            in case (map_get (eg_memo g) nk, map_get (eg_memo g) pkey) of
                 (Some m, Some old) \<Rightarrow>
                   Option.bind (uf_find u1 m) (\<lambda>(u2, fm).
                   Option.bind (uf_find u2 old) (\<lambda>(u3, fo).
                     if fm = fo then finish (g\<lparr>eg_uf := u3\<rparr>, work)
                     else Option.bind (eg_union (g\<lparr>eg_uf := u3\<rparr>) m old) (\<lambda>(g1, _).
                          Option.bind (uf_find (eg_uf g1) m) (\<lambda>(u4, fm').
                            finish (g1\<lparr>eg_uf := u4\<rparr>, fm' # work)))))
               | _ \<Rightarrow> finish (g\<lparr>eg_uf := u1\<rparr>, work)))"

text \<open>Iterating a \<open>Set\<close> visits what is added on the way: the loop indexes the current set.\<close>

partial_function (option) rebuild_parents :: "nat \<Rightarrow> nat \<Rightarrow> 'f egraph \<Rightarrow> nat list \<Rightarrow> ('f egraph \<times> nat list) option" where
  "rebuild_parents i k g work =
     (let ps = or_empty (map_get (eg_parents g) i)
      in if k \<ge> length ps then Some (g, work)
         else Option.bind (rebuild_parent i (ps ! k) g work) (\<lambda>(g1, w1). rebuild_parents i (Suc k) g1 w1))"

declare rebuild_parents.simps [code]

definition store_nodes :: "nat \<Rightarrow> bool \<Rightarrow> enode list \<Rightarrow> 'f egraph \<Rightarrow> 'f egraph" where
  "store_nodes i gone ns g =
     (if gone then g
      else case map_get (eg_classes g) i of
             None \<Rightarrow> g
           | Some d \<Rightarrow> g\<lparr>eg_classes := map_set (eg_classes g) i (d\<lparr>cd_nodes := ns\<rparr>)\<rparr>)"

text \<open>One round of the work loop for the class of \<open>w\<close>.\<close>

definition rebuild_round :: "nat \<Rightarrow> 'f egraph \<Rightarrow> nat list \<Rightarrow> ('f egraph \<times> nat list) option" where
  "rebuild_round w g work =
     Option.bind (uf_find (eg_uf g) w) (\<lambda>(u, i).
       let g0 = g\<lparr>eg_uf := u\<rparr>
       in case map_get (eg_classes g0) i of
            None \<Rightarrow> Some (g0, work)
          | Some d \<Rightarrow>
              Option.bind (rebuild_nodes i (cd_nodes d) g0 [] False work) (\<lambda>(g1, fresh, gone, w1).
              Option.bind (dedupeNodes (eg_uf g1) fresh) (\<lambda>(u2, ns).
                rebuild_parents i 0 (store_nodes i gone ns (g1\<lparr>eg_uf := u2\<rparr>)) w1)))"

partial_function (option) rebuild_loop :: "'f egraph \<Rightarrow> nat list \<Rightarrow> 'f egraph option" where
  "rebuild_loop g work =
     (case work of
        [] \<Rightarrow> Some g
      | w # ws \<Rightarrow> Option.bind (rebuild_round w g ws) (\<lambda>(g1, ws1). rebuild_loop g1 ws1))"

declare rebuild_loop.simps [code]

fun canon_all :: "union_find \<Rightarrow> enode list \<Rightarrow> (union_find \<times> enode list) option" where
  "canon_all u [] = Some (u, [])"
| "canon_all u (n # ns) =
     Option.bind (canonicalizeNode u n) (\<lambda>(u1, cn). Option.bind (canon_all u1 ns) (\<lambda>(u2, cns). Some (u2, cn # cns)))"

fun compact_scan ::
  "union_find \<Rightarrow> (nat, 'f eclass) jsmap \<Rightarrow> (nat, 'f eclass) jsmap \<Rightarrow> (union_find \<times> (nat, 'f eclass) jsmap) option" where
  "compact_scan u next [] = Some (u, next)"
| "compact_scan u next ((i, d) # cs) =
     Option.bind (uf_find u i) (\<lambda>(u1, l).
       let old = map_get next l;
           nodes = (case old of None \<Rightarrow> cd_nodes d | Some e \<Rightarrow> cd_nodes e @ cd_nodes d);
           facts = (case old of None \<Rightarrow> cd_facts d | Some e \<Rightarrow> fold (\<lambda>(k, v) m. map_set m k v) (cd_facts d) (cd_facts e))
       in Option.bind (canon_all u1 nodes) (\<lambda>(u2, cns).
          Option.bind (dedupeNodes u2 cns) (\<lambda>(u3, ns).
            compact_scan u3 (map_set next l \<lparr>cd_id = l, cd_nodes = ns, cd_facts = facts\<rparr>) cs)))"

definition memo_of :: "(nat, 'f eclass) jsmap \<Rightarrow> (string, nat) jsmap" where
  "memo_of cs = fold (\<lambda>(i, d) m. fold (\<lambda>n m. map_set m (enodeKey n) i) (cd_nodes d) m) cs []"

definition compactClasses :: "'f egraph \<Rightarrow> 'f egraph option" where
  "compactClasses g =
     Option.bind (compact_scan (eg_uf g) [] (eg_classes g)) (\<lambda>(u, cs).
       Some (g\<lparr>eg_uf := u, eg_classes := cs, eg_memo := memo_of cs\<rparr>))"

definition rebuild :: "'f egraph \<Rightarrow> 'f egraph option" where
  "rebuild g =
     Option.bind (rebuild_loop (g\<lparr>eg_rebuildCount := eg_rebuildCount g + 1, eg_dirty := []\<rparr>) (rev (eg_dirty g)))
       compactClasses"

section \<open>What the helpers return\<close>

text \<open>On a sound union-find every helper returns, keeps the roots, and its result is a function of the
  roots.\<close>

definition canon_with :: "(nat \<Rightarrow> nat) \<Rightarrow> enode \<Rightarrow> enode" where
  "canon_with f n = \<lparr>en_op = en_op n, en_children = map f (en_children n)\<rparr>"

fun distinct_keys :: "string list \<Rightarrow> enode list \<Rightarrow> enode list" where
  "distinct_keys seen [] = []"
| "distinct_keys seen (n # ns) =
     (if enodeKey n \<in> set seen then distinct_keys seen ns else n # distinct_keys (enodeKey n # seen) ns)"

named_theorems returns \<open>every helper returns and keeps the roots\<close>

lemma keepsE:
  assumes "keeps u u'"
  shows "uf_ok u'" "rep u' = rep u"
  using assms by (simp_all add: keeps_def)

lemma find_returns [returns]: "uf_ok u \<Longrightarrow> \<exists>u'. uf_find u i = Some (u', rep u i) \<and> keeps u u'"
  using find_spec by blast

lemma find_all_returns [returns]: "uf_ok u \<Longrightarrow> \<exists>u'. find_all u cs = Some (u', map (rep u) cs) \<and> keeps u u'"
proof (induction cs arbitrary: u)
  case Nil
  then show ?case by (simp add: keeps_refl)
next
  case (Cons c cs)
  obtain u1 where u1: "uf_find u c = Some (u1, rep u c)" "keeps u u1" using find_returns[OF Cons.prems] by blast
  obtain u2 where u2: "find_all u1 cs = Some (u2, map (rep u1) cs)" "keeps u1 u2"
    using Cons.IH[OF keepsE(1)[OF u1(2)]] by blast
  show ?case using u1 u2 keepsE(2)[OF u1(2)] keeps_trans[OF u1(2) u2(2)] by simp
qed

lemma canon_returns [returns]: "uf_ok u \<Longrightarrow> \<exists>u'. canonicalizeNode u n = Some (u', canon_with (rep u) n) \<and> keeps u u'"
  using find_all_returns[of u "en_children n"] by (auto simp: canonicalizeNode_def canon_with_def)

lemma canon_all_returns [returns]: "uf_ok u \<Longrightarrow> \<exists>u'. canon_all u ns = Some (u', map (canon_with (rep u)) ns) \<and> keeps u u'"
proof (induction ns arbitrary: u)
  case Nil
  then show ?case by (simp add: keeps_refl)
next
  case (Cons n ns)
  obtain u1 where u1: "canonicalizeNode u n = Some (u1, canon_with (rep u) n)" "keeps u u1"
    using canon_returns[OF Cons.prems] by blast
  obtain u2 where u2: "canon_all u1 ns = Some (u2, map (canon_with (rep u1)) ns)" "keeps u1 u2"
    using Cons.IH[OF keepsE(1)[OF u1(2)]] by blast
  show ?case using u1 u2 keepsE(2)[OF u1(2)] keeps_trans[OF u1(2) u2(2)] by simp
qed

lemma dedupe_from_returns:
  "uf_ok u \<Longrightarrow> \<exists>u'. dedupe_from u seen ns = Some (u', distinct_keys seen (map (canon_with (rep u)) ns)) \<and> keeps u u'"
proof (induction ns arbitrary: u seen)
  case Nil
  then show ?case by (simp add: keeps_refl)
next
  case (Cons n ns)
  obtain u1 where u1: "canonicalizeNode u n = Some (u1, canon_with (rep u) n)" "keeps u u1"
    using canon_returns[OF Cons.prems] by blast
  note r = keepsE(2)[OF u1(2)]
  have "\<exists>u2. dedupe_from u1 s ns = Some (u2, distinct_keys s (map (canon_with (rep u)) ns)) \<and> keeps u u2" for s
    using Cons.IH[OF keepsE(1)[OF u1(2)], of s] keeps_trans[OF u1(2)] r by fastforce
  from this[of seen] this[of "enodeKey (canon_with (rep u) n) # seen"] show ?case
    by (auto simp: u1(1) Let_def)
qed

lemma dedupe_returns [returns]:
  "uf_ok u \<Longrightarrow> \<exists>u'. dedupeNodes u ns = Some (u', distinct_keys [] (map (canon_with (rep u)) ns)) \<and> keeps u u'"
  unfolding dedupeNodes_def by (rule dedupe_from_returns)

lemma merge_scan_returns [returns]: "uf_ok u \<Longrightarrow> \<exists>u' r. merge_scan u l cs = Some (u', r) \<and> keeps u u'"
proof (induction cs arbitrary: u)
  case Nil
  then show ?case by (simp add: keeps_refl)
next
  case (Cons c cs)
  obtain i d where c: "c = (i, d)" by (cases c)
  obtain u1 where u1: "uf_find u i = Some (u1, rep u i)" "keeps u u1" using find_returns[OF Cons.prems] by blast
  obtain u2 r where u2: "merge_scan u1 l cs = Some (u2, r)" "keeps u1 u2"
    using Cons.IH[OF keepsE(1)[OF u1(2)]] by blast
  obtain nodes facts dead where r: "r = (nodes, facts, dead)" by (cases r) auto
  show ?case using u1 u2 keeps_trans[OF u1(2) u2(2)] by (simp add: c r)
qed

section \<open>The invariant of the e-graph\<close>

definition parents_ok :: "(nat, string list) jsmap \<Rightarrow> bool" where
  "parents_ok ps \<longleftrightarrow> map_ok ps \<and> (\<forall>l s. map_get ps l = Some s \<longrightarrow> distinct s)"

definition keys_of :: "(nat, string list) jsmap \<Rightarrow> string set" where
  "keys_of ps = (\<Union>s\<in>set (map_values ps). set s)"

abbreviation parent_keys :: "'f egraph \<Rightarrow> string set" where
  "parent_keys g \<equiv> keys_of (eg_parents g)"

definition eg_ok :: "'f egraph \<Rightarrow> bool" where
  "eg_ok g \<longleftrightarrow> uf_ok (eg_uf g) \<and> parents_ok (eg_parents g)"

abbreviation croot :: "'f egraph \<Rightarrow> nat \<Rightarrow> nat" where
  "croot g \<equiv> rep (eg_uf g)"

lemma eg_ok_empty: "eg_ok eg_empty"
  by (simp add: eg_ok_def eg_empty_def uf_ok_empty parents_ok_def)

lemma eg_ok_uf: "eg_ok g \<Longrightarrow> uf_ok (eg_uf g)"
  by (simp add: eg_ok_def)

lemma eg_ok_keeps: "eg_ok g \<Longrightarrow> keeps u u' \<Longrightarrow> eg_ok (g\<lparr>eg_uf := u'\<rparr>)"
  by (simp add: eg_ok_def keeps_def)

lemma set_add_set [simp]: "set (set_add x xs) = insert x (set xs)"
  by (auto simp: set_add_def)

lemma set_add_distinct [simp]: "distinct (set_add x xs) = distinct xs"
  by (auto simp: set_add_def)

lemma fold_set_add: "set (fold set_add xs ys) = set xs \<union> set ys \<and> (distinct (fold set_add xs ys) = distinct ys)"
  by (induction xs arbitrary: ys) auto

lemma parents_get: "map_ok ps \<Longrightarrow> s \<in> set (map_values ps) \<longleftrightarrow> (\<exists>l. map_get ps l = Some s)"
  using map_values_get map_get_values by metis

lemma merge_parents_ok:
  assumes "parents_ok ps"
  shows "parents_ok (merge_parents l r ps)" and "keys_of (merge_parents l r ps) \<subseteq> keys_of ps"
proof -
  note mo = assms[unfolded parents_ok_def, THEN conjunct1] and di = assms[unfolded parents_ok_def, THEN conjunct2, rule_format]
  have eq: "map_get (merge_parents l r ps) k = (case map_get ps r of None \<Rightarrow> map_get ps k
     | Some p \<Rightarrow> if k = l then Some (fold set_add p (or_empty (map_get ps l))) else map_get ps k)" for k
    by (simp add: merge_parents_def js.get_put split: option.splits)
  have ok: "map_ok (merge_parents l r ps)"
    using mo by (simp add: merge_parents_def js.ok_put split: option.splits)
  moreover have "map_get (merge_parents l r ps) k = Some s \<Longrightarrow> distinct s" for k s
    using di fold_set_add unfolding eq by (auto simp: or_empty_def split: option.splits if_splits)
  ultimately show "parents_ok (merge_parents l r ps)" by (simp add: parents_ok_def)
  have U: "keys_of ps' = {x. \<exists>k s. map_get ps' k = Some s \<and> x \<in> set s}"
    if "map_ok ps'" for ps' :: "(nat, string list) jsmap"
    using parents_get[OF that] unfolding keys_of_def by blast
  show "keys_of (merge_parents l r ps) \<subseteq> keys_of ps"
    unfolding U[OF ok] U[OF mo] eq
  proof (cases "map_get ps r")
    case (Some p)
    have "\<exists>k s. map_get ps k = Some s \<and> x \<in> set s"
      if "\<exists>k s. (if k = l then Some (fold set_add p (or_empty (map_get ps l))) else map_get ps k) = Some s \<and> x \<in> set s" for x
      using that
      using Some fold_set_add[of p "or_empty (map_get ps l)"]
      by (auto simp: or_empty_def split: option.splits if_splits)
    then show "{x. \<exists>k s. (case map_get ps r of None \<Rightarrow> map_get ps k | Some p \<Rightarrow>
        if k = l then Some (fold set_add p (or_empty (map_get ps l))) else map_get ps k) = Some s \<and> x \<in> set s} \<subseteq>
      {x. \<exists>k s. map_get ps k = Some s \<and> x \<in> set s}" unfolding Some option.case by (intro Collect_mono impI)
  qed simp
qed

lemma finite_parent_keys: "finite (parent_keys g)"
  by (simp add: keys_of_def)

section \<open>Union and the number of classes\<close>

text \<open>\<open>coarsens u u' h\<close>: the classes of \<open>u'\<close> are unions of classes of \<open>u\<close>, \<open>h\<close> mapping old roots to new.\<close>

definition coarsens :: "union_find \<Rightarrow> union_find \<Rightarrow> (nat \<Rightarrow> nat) \<Rightarrow> bool" where
  "coarsens u u' h \<longleftrightarrow> uf_ok u' \<and> (\<forall>x. rep u' x = h (rep u x))"

definition grows :: "'f egraph \<Rightarrow> 'f egraph \<Rightarrow> bool" where
  "grows g g' \<longleftrightarrow> eg_ok g' \<and> (\<exists>h. coarsens (eg_uf g) (eg_uf g') h) \<and> parent_keys g' \<subseteq> parent_keys g"

text \<open>The number of classes the ids of \<open>U\<close> fall into: what every union of two of them lowers.\<close>

definition class_count :: "'f egraph \<Rightarrow> nat set \<Rightarrow> nat" where
  "class_count g U = card (croot g ` U)"

lemma grows_trans: "grows a b \<Longrightarrow> grows b c \<Longrightarrow> grows a c"
  unfolding grows_def coarsens_def by (elim conjE exE, intro conjI exI[of _ "\<lambda>x. _ (_ x)"]) auto

lemma grows_ok: "grows g g' \<Longrightarrow> eg_ok g'"
  by (simp add: grows_def)

lemma coarsens_keeps: "keeps u u' \<Longrightarrow> coarsens u u' (\<lambda>x. x)"
  by (simp add: coarsens_def keeps_def)

lemma grows_keeps:
  assumes "eg_ok g" "keeps (eg_uf g) u'" "eg_uf g' = u'" "eg_parents g' = eg_parents g"
  shows "grows g g'"
  unfolding grows_def
proof (intro conjI exI)
  show "coarsens (eg_uf g) (eg_uf g') (\<lambda>x. x)" using assms(2,3) by (simp add: coarsens_keeps)
  show "eg_ok g'" using assms by (simp add: eg_ok_def keeps_def)
  show "parent_keys g' \<subseteq> parent_keys g" using assms(4) by simp
qed

lemma grows_class_count: "grows g g' \<Longrightarrow> finite U \<Longrightarrow> class_count g' U \<le> class_count g U"
proof -
  assume "grows g g'" "finite U"
  then obtain h where "\<forall>x. croot g' x = h (croot g x)" by (auto simp: grows_def coarsens_def)
  then have "croot g' ` U = h ` croot g ` U" by (simp add: image_image)
  then show ?thesis using \<open>finite U\<close> by (simp add: class_count_def card_image_le)
qed

lemma grows_cover:
  assumes "grows g g'" and "croot g ` A \<subseteq> croot g ` U"
  shows "croot g' ` A \<subseteq> croot g' ` U"
proof -
  obtain h where "\<forall>x. croot g' x = h (croot g x)" using assms(1) by (auto simp: grows_def coarsens_def)
  then have "croot g' ` V = h ` croot g ` V" for V by (simp add: image_image)
  then show ?thesis using assms(2) by (simp add: image_mono)
qed

lemma mergeClassData_returns:
  assumes "uf_ok (eg_uf g)"
  shows "\<exists>u' cs. mergeClassData g a = Some (g\<lparr>eg_uf := u', eg_classes := cs\<rparr>) \<and> keeps (eg_uf g) u'"
proof -
  obtain u1 where u1: "uf_find (eg_uf g) a = Some (u1, croot g a)" "keeps (eg_uf g) u1"
    using find_returns[OF assms] by blast
  obtain u2 r where u2: "merge_scan u1 (croot g a) (eg_classes g) = Some (u2, r)" "keeps u1 u2"
    using merge_scan_returns[OF keepsE(1)[OF u1(2)]] by blast
  obtain nodes facts dead where r: "r = (nodes, facts, dead)" by (cases r) auto
  obtain u3 where u3: "dedupeNodes u2 nodes = Some (u3, distinct_keys [] (map (canon_with (rep u2)) nodes))" "keeps u2 u3"
    using dedupe_returns[OF keepsE(1)[OF u2(2)]] by blast
  have "keeps (eg_uf g) u3" using u1(2) u2(2) u3(2) keeps_trans by blast
  then show ?thesis unfolding mergeClassData_def by (auto simp: u1(1) u2(1) r u3(1))
qed

lemma eg_union_returns:
  assumes "eg_ok g"
  shows "\<exists>g'. eg_union g a b = Some (g', croot g a \<noteq> croot g b) \<and> grows g g' \<and> eg_memo g' = eg_memo g \<and>
    eg_nextId g' = eg_nextId g \<and>
    (if croot g a = croot g b then croot g' = croot g
     else \<exists>top sub. {top, sub} = {croot g a, croot g b} \<and> croot g' = (\<lambda>i. if croot g i = sub then top else croot g i))"
proof -
  note ok = eg_ok_uf[OF assms]
  obtain u1 where u1: "uf_find (eg_uf g) a = Some (u1, croot g a)" "keeps (eg_uf g) u1" using find_returns[OF ok] by blast
  obtain u2 where u2: "uf_find u1 b = Some (u2, rep u1 b)" "keeps u1 u2" using find_returns[OF keepsE(1)[OF u1(2)]] by blast
  have k2: "keeps (eg_uf g) u2" using u1(2) u2(2) by (rule keeps_trans)
  have r: "rep u1 b = croot g b" "rep u2 = croot g" using keepsE(2)[OF u1(2)] keepsE(2)[OF k2] by simp_all
  show ?thesis
  proof (cases "croot g a = croot g b")
    case True
    have "eg_union g a b = Some (g\<lparr>eg_uf := u2\<rparr>, False)" using True by (simp add: eg_union_def u1(1) u2(1) r)
    moreover have "grows g (g\<lparr>eg_uf := u2\<rparr>)" by (rule grows_keeps[OF assms k2]) simp_all
    ultimately show ?thesis using True r by auto
  next
    case False

    obtain u3 top sub where u3: "uf_union u2 (croot g a) (croot g b) = Some (u3, True)" "uf_ok u3"
      and ts: "{top, sub} = {croot g a, croot g b}" and r3: "rep u3 = (\<lambda>i. if croot g i = sub then top else croot g i)"
      using union_spec[OF keepsE(1)[OF k2], of "croot g a" "croot g b", unfolded r(2)] False rep_rep[OF ok] by auto
    obtain u4 where u4: "uf_find u3 a = Some (u4, rep u3 a)" "keeps u3 u4" using find_returns[OF u3(2)] by blast
    let ?g1 = "g\<lparr>eg_uf := u4, eg_unionCount := eg_unionCount g + 1\<rparr>"
    obtain u5 cs where g2: "mergeClassData ?g1 (croot g a) = Some (?g1\<lparr>eg_uf := u5, eg_classes := cs\<rparr>)" "keeps u4 u5"
      using mergeClassData_returns[of ?g1 "croot g a"] keepsE(1)[OF u4(2)] by auto
    let ?ps = "merge_parents (rep u3 a) (croot g b) (merge_parents (rep u3 a) (croot g a) (eg_parents g))"
    let ?g' = "g\<lparr>eg_uf := u5, eg_unionCount := eg_unionCount g + 1, eg_classes := cs,
                 eg_dirty := set_add (rep u3 a) (eg_dirty g), eg_parents := ?ps\<rparr>"
    have run: "eg_union g a b = Some (?g', True)"
      using False g2(1) by (simp add: eg_union_def u1(1) u2(1) r u3(1) u4(1))
    have k5: "keeps u3 u5" using u4(2) g2(2) by (rule keeps_trans)
    have r5: "rep u5 = (\<lambda>i. if croot g i = sub then top else croot g i)" using keepsE(2)[OF k5] r3 by simp
    have po: "parents_ok (eg_parents g)" using assms by (simp add: eg_ok_def)
    note p1 = merge_parents_ok[OF po, of "rep u3 a" "croot g a"]
    note p2 = merge_parents_ok[OF p1(1), of "rep u3 a" "croot g b"]
    have "grows g ?g'"
      unfolding grows_def
    proof (intro conjI exI)
      show "eg_ok ?g'" using p2(1) keepsE(1)[OF k5] by (simp add: eg_ok_def)
      show "coarsens (eg_uf g) (eg_uf ?g') (\<lambda>x. if x = sub then top else x)"
        using keepsE(1)[OF k5] by (simp add: coarsens_def r5)
      show "parent_keys ?g' \<subseteq> parent_keys g" using p1(2) p2(2) by simp
    qed
    moreover have "croot ?g' = (\<lambda>i. if croot g i = sub then top else croot g i)" using r5 by simp
    ultimately show ?thesis using run False ts by (intro exI[of _ ?g']) (auto simp del: fun_upd_apply)
  qed
qed

lemma union_lowers_count:
  assumes "eg_ok g" and "finite U" and "croot g a \<in> croot g ` U" "croot g b \<in> croot g ` U" and "croot g a \<noteq> croot g b"
    and "{hi, lo} = {croot g a, croot g b}" and "croot g' = (\<lambda>i. if croot g i = lo then hi else croot g i)"
  shows "class_count g' U < class_count g U"
proof -
  have ts: "hi \<in> croot g ` U" "lo \<in> croot g ` U" "hi \<noteq> lo" using assms(3-6) by (auto simp: doubleton_eq_iff)
  have "croot g' ` U \<subseteq> croot g ` U - {lo}" using ts by (auto simp: assms(7))
  moreover have "finite (croot g ` U)" using assms(2) by simp
  ultimately have "class_count g' U \<le> card (croot g ` U - {lo})" unfolding class_count_def by (intro card_mono) auto
  also have "\<dots> < card (croot g ` U)" using ts(2) assms(2) by (intro card_Diff1_less) auto
  finally show ?thesis by (simp add: class_count_def)
qed

end
