(* ===== verification/EGraphAdd.thy ===== *)
theory EGraphAdd
  imports EGraph
begin

text \<open>
  Hash-consing: \<open>add\<close> always returns for a ground term, changes no equivalence, and finds a term it has
  added before. \<open>class_of\<close> reads off the hash-cons map the class a term is in.
\<close>

section \<open>Extension of a graph\<close>

definition extends :: "'f egraph \<Rightarrow> 'f egraph \<Rightarrow> bool" where
  "extends g g' \<longleftrightarrow> eg_ok g' \<and> keeps (eg_uf g) (eg_uf g') \<and>
     (\<forall>k j. map_get (eg_memo g) k = Some j \<longrightarrow> map_get (eg_memo g') k = Some j)"

text \<open>The graphs differ in path compression only.\<close>

definition same_but_paths :: "'f egraph \<Rightarrow> 'f egraph \<Rightarrow> bool" where
  "same_but_paths g g' \<longleftrightarrow> (\<exists>u. keeps (eg_uf g) u \<and> g' = g\<lparr>eg_uf := u\<rparr>)"

lemma extends_refl: "eg_ok g \<Longrightarrow> extends g g"
  by (simp add: extends_def keeps_refl eg_ok_uf)

lemma extends_trans: "extends a b \<Longrightarrow> extends b c \<Longrightarrow> extends a c"
  unfolding extends_def using keeps_trans by blast

lemma extends_ok: "extends g g' \<Longrightarrow> eg_ok g'"
  by (simp add: extends_def)

lemma extends_root: "extends g g' \<Longrightarrow> croot g' = croot g"
  by (simp add: extends_def keeps_def)

lemma same_extends: "eg_ok g \<Longrightarrow> same_but_paths g g' \<Longrightarrow> extends g g'"
  unfolding same_but_paths_def extends_def using eg_ok_keeps by fastforce

lemma same_trans: "same_but_paths a b \<Longrightarrow> same_but_paths b c \<Longrightarrow> same_but_paths a c"
  unfolding same_but_paths_def using keeps_trans by fastforce

lemma same_refl: "eg_ok g \<Longrightarrow> same_but_paths g g"
  unfolding same_but_paths_def by (rule exI[of _ "eg_uf g"]) (simp add: keeps_refl eg_ok_uf)

fun class_of :: "'f egraph \<Rightarrow> eterm \<Rightarrow> nat option"
and classes_of :: "'f egraph \<Rightarrow> eterm list \<Rightarrow> nat list option" where
  "class_of g (Var x) = None"
| "class_of g (Lit v) = map_option (croot g) (map_get (eg_memo g) (enodeKey \<lparr>en_op = lit_op v, en_children = []\<rparr>))"
| "class_of g (App f ts) = Option.bind (classes_of g ts) (\<lambda>cs.
     map_option (croot g) (map_get (eg_memo g) (enodeKey \<lparr>en_op = f, en_children = cs\<rparr>)))"
| "classes_of g [] = Some []"
| "classes_of g (t # ts) = Option.bind (class_of g t) (\<lambda>c. Option.bind (classes_of g ts) (\<lambda>cs. Some (c # cs)))"

lemma class_of_mono:
  "extends g g' \<Longrightarrow> class_of g t = Some c \<Longrightarrow> class_of g' t = Some c"
  "extends g g' \<Longrightarrow> classes_of g ts = Some cs \<Longrightarrow> classes_of g' ts = Some cs"
proof (induction g t and g ts arbitrary: c and cs rule: class_of_classes_of.induct)
  case (2 g v)
  then show ?case using extends_root[OF 2(1)] by (auto simp: extends_def)
next
  case (3 g f ts)
  then obtain ds j where "classes_of g ts = Some ds" "map_get (eg_memo g) (enodeKey \<lparr>en_op = f, en_children = ds\<rparr>) = Some j"
    "c = croot g j" by (auto simp: Option.bind_eq_Some_conv)
  then show ?case using 3 extends_root[OF 3(2)] by (auto simp: extends_def)
qed (auto simp: Option.bind_eq_Some_conv)

section \<open>Adding a node\<close>

lemma add_parent_key_ok: "parents_ok ps \<Longrightarrow> parents_ok (add_parent_key ps l key)"
  by (auto simp: parents_ok_def add_parent_key_def js.get_put js.ok_put or_empty_def split: option.splits if_splits)

lemma add_parents_returns:
  "eg_ok g \<Longrightarrow> \<exists>u ps. add_parents g key cs = Some (g\<lparr>eg_uf := u, eg_parents := ps\<rparr>) \<and> keeps (eg_uf g) u \<and> parents_ok ps"
proof (induction cs arbitrary: g)
  case Nil
  then show ?case by (intro exI[of _ "eg_uf g"] exI[of _ "eg_parents g"]) (simp add: keeps_refl eg_ok_def)
next
  case (Cons c cs)
  obtain u1 where u1: "uf_find (eg_uf g) c = Some (u1, croot g c)" "keeps (eg_uf g) u1"
    using find_returns[OF eg_ok_uf[OF Cons.prems]] by blast
  let ?g = "g\<lparr>eg_uf := u1, eg_parents := add_parent_key (eg_parents g) (croot g c) key\<rparr>"
  have "eg_ok ?g" using Cons.prems u1(2) add_parent_key_ok by (simp add: eg_ok_def keeps_def)
  then obtain u ps where "add_parents ?g key cs = Some (?g\<lparr>eg_uf := u, eg_parents := ps\<rparr>)" "keeps u1 u" "parents_ok ps"
    using Cons.IH[of ?g] by auto
  then show ?case using keeps_trans[OF u1(2)] by (auto simp: u1(1))
qed

text \<open>A node the map knows costs nothing; a new one gets the next id.\<close>

lemma addNode_known:
  assumes "eg_ok g" and "map_get (eg_memo g) (enodeKey (canon_with (croot g) n)) = Some j"
  shows "\<exists>g'. addNode g n = Some (g', croot g j) \<and> same_but_paths g g'"
proof -
  obtain u1 where u1: "canonicalizeNode (eg_uf g) n = Some (u1, canon_with (croot g) n)" "keeps (eg_uf g) u1"
    using canon_returns[OF eg_ok_uf[OF assms(1)]] by blast
  obtain u2 where u2: "uf_find u1 j = Some (u2, croot g j)" "keeps u1 u2"
    using find_returns[OF keepsE(1)[OF u1(2)], of j] keepsE(2)[OF u1(2)] by metis
  have "addNode g n = Some (g\<lparr>eg_uf := u2\<rparr>, croot g j)" by (simp add: addNode_def u1(1) assms(2) u2(1))
  then show ?thesis using keeps_trans[OF u1(2) u2(2)] by (auto simp: same_but_paths_def)
qed

lemma addNode_returns:
  assumes "eg_ok g"
  shows "\<exists>g' i j. addNode g n = Some (g', i) \<and> extends g g' \<and> croot g' i = croot g' j \<and>
    map_get (eg_memo g') (enodeKey (canon_with (croot g') n)) = Some j"
proof (cases "map_get (eg_memo g) (enodeKey (canon_with (croot g) n))")
  case (Some j)
  obtain g' where g': "addNode g n = Some (g', croot g j)" "same_but_paths g g'" using addNode_known[OF assms Some] by blast
  have ex: "extends g g'" by (rule same_extends[OF assms g'(2)])
  then have "croot g' (croot g j) = croot g' j" using extends_root[OF ex] rep_rep[OF eg_ok_uf[OF assms]] by simp
  moreover have "map_get (eg_memo g') (enodeKey (canon_with (croot g') n)) = Some j"
    using ex Some extends_root[OF ex] by (simp add: extends_def)
  ultimately show ?thesis using g'(1) ex by blast
next
  case None
  obtain u1 where u1: "canonicalizeNode (eg_uf g) n = Some (u1, canon_with (croot g) n)" "keeps (eg_uf g) u1"
    using canon_returns[OF eg_ok_uf[OF assms]] by blast
  let ?cn = "canon_with (croot g) n" and ?i = "eg_nextId g"
  let ?g1 = "fresh_class g u1 ?cn"
  have km: "keeps (eg_uf g) (makeSet u1 ?i)" using keeps_trans[OF u1(2) makeSet_keeps[OF keepsE(1)[OF u1(2)]]] .
  have uf1: "eg_uf ?g1 = makeSet u1 ?i" and memo1: "eg_memo ?g1 = map_set (eg_memo g) (enodeKey ?cn) ?i"
    and ps1: "eg_parents ?g1 = eg_parents g" by (simp_all add: fresh_class_def Let_def)
  have "eg_ok ?g1" using assms keepsE(1)[OF km] by (simp add: eg_ok_def uf1 ps1)
  then obtain u2 ps where g2: "add_parents ?g1 (enodeKey ?cn) (en_children ?cn) = Some (?g1\<lparr>eg_uf := u2, eg_parents := ps\<rparr>)"
    "keeps (makeSet u1 ?i) u2" "parents_ok ps" using add_parents_returns[of ?g1] uf1 by metis
  have k2: "keeps (eg_uf g) u2" using keeps_trans[OF km g2(2)] .
  let ?g' = "?g1\<lparr>eg_uf := u2, eg_parents := ps, eg_dirty := set_add ?i (eg_dirty ?g1)\<rparr>"
  have "addNode g n = Some (?g', ?i)" by (simp add: addNode_def u1(1) None g2(1))
  moreover have "extends g ?g'"
    using k2 g2(3) keepsE(1)[OF k2] None by (auto simp: extends_def eg_ok_def memo1 js.get_put)
  moreover have "map_get (eg_memo ?g') (enodeKey (canon_with (croot ?g') n)) = Some ?i"
    using keepsE(2)[OF k2] by (simp add: memo1)
  ultimately show ?thesis by blast
qed

section \<open>Adding a term\<close>

lemma canon_roots: "uf_ok u \<Longrightarrow> map (rep u) (map (rep u) cs) = map (rep u) cs"
  by (simp add: rep_rep)

lemma addRec_returns:
  "eg_ok g \<Longrightarrow> isGround t \<Longrightarrow> \<exists>g' i. addRec g t = Some (Inr (g', i)) \<and> extends g g' \<and> class_of g' t = Some (croot g' i)"
  "eg_ok g \<Longrightarrow> list_all isGround ts \<Longrightarrow>
     \<exists>g' is. addRecs g ts = Some (Inr (g', is)) \<and> extends g g' \<and> classes_of g' ts = Some (map (croot g') is)"
proof (induction g t and g ts rule: addRec_addRecs.induct)
  case (2 g v)
  let ?n = "\<lparr>en_op = lit_op v, en_children = []\<rparr>"
  obtain g' i j where "addNode g ?n = Some (g', i)" "extends g g'" "croot g' i = croot g' j"
    "map_get (eg_memo g') (enodeKey (canon_with (croot g') ?n)) = Some j" using addNode_returns[OF 2(1)] by blast
  then show ?case by (simp add: canon_with_def)
next
  case (3 g f ts)
  have "list_all isGround ts" using "3.prems"(2) by simp
  then obtain g1 cs where s: "addRecs g ts = Some (Inr (g1, cs))" "extends g g1" "classes_of g1 ts = Some (map (croot g1) cs)"
    using "3.IH"[OF "3.prems"(1)] by blast
  let ?n = "\<lparr>en_op = f, en_children = cs\<rparr>"
  obtain g' i j where n: "addNode g1 ?n = Some (g', i)" "extends g1 g'" "croot g' i = croot g' j"
    "map_get (eg_memo g') (enodeKey (canon_with (croot g') ?n)) = Some j" using addNode_returns[OF extends_ok[OF s(2)]] by blast
  have "classes_of g' ts = Some (map (croot g') cs)"
    using class_of_mono(2)[OF n(2) s(3)] extends_root[OF n(2)] by simp
  then show ?case using s n extends_trans[OF s(2) n(2)] by (simp add: canon_with_def)
next
  case (5 g t ts)
  obtain g1 c where s: "addRec g t = Some (Inr (g1, c))" "extends g g1" "class_of g1 t = Some (croot g1 c)"
    using "5.IH"(1)[OF "5.prems"(1)] "5.prems"(2) by auto
  obtain g2 cs where n: "addRecs g1 ts = Some (Inr (g2, cs))" "extends g1 g2" "classes_of g2 ts = Some (map (croot g2) cs)"
    using "5.IH"(2)[OF s(1) refl refl extends_ok[OF s(2)]] "5.prems"(2) by auto
  have "class_of g2 t = Some (croot g2 c)" using class_of_mono(1)[OF n(2) s(3)] extends_root[OF n(2)] by simp
  then show ?case using s n extends_trans[OF s(2) n(2)] by simp
qed (auto simp: extends_refl)

lemma addRec_known:
  "eg_ok g \<Longrightarrow> class_of g t = Some c \<Longrightarrow> \<exists>g' i. addRec g t = Some (Inr (g', i)) \<and> same_but_paths g g' \<and> croot g i = c"
  "eg_ok g \<Longrightarrow> classes_of g ts = Some cs \<Longrightarrow>
     \<exists>g' is. addRecs g ts = Some (Inr (g', is)) \<and> same_but_paths g g' \<and> map (croot g) is = cs"
proof (induction g t and g ts arbitrary: c and cs rule: addRec_addRecs.induct)
  case (2 g v)
  then obtain j where j: "map_get (eg_memo g) (enodeKey (canon_with (croot g) \<lparr>en_op = lit_op v, en_children = []\<rparr>)) = Some j"
    "c = croot g j" by (auto simp: canon_with_def)
  from addNode_known[OF 2(1) j(1)] j(2) rep_rep[OF eg_ok_uf[OF 2(1)]] show ?case by auto
next
  case (3 g f ts)
  obtain ds j where j: "classes_of g ts = Some ds" "map_get (eg_memo g) (enodeKey \<lparr>en_op = f, en_children = ds\<rparr>) = Some j"
    "c = croot g j" using "3.prems"(2) by (auto simp: Option.bind_eq_Some_conv)
  obtain g1 cs where s: "addRecs g ts = Some (Inr (g1, cs))" "same_but_paths g g1" "map (croot g) cs = ds"
    using "3.IH"[OF "3.prems"(1) j(1)] by blast
  have ex: "extends g g1" by (rule same_extends[OF "3.prems"(1) s(2)])
  have "map_get (eg_memo g1) (enodeKey (canon_with (croot g1) \<lparr>en_op = f, en_children = cs\<rparr>)) = Some j"
    using j(2) s(3) ex extends_root[OF ex] by (simp add: canon_with_def extends_def)
  from addNode_known[OF extends_ok[OF ex] this] obtain g' where
    "addNode g1 \<lparr>en_op = f, en_children = cs\<rparr> = Some (g', croot g1 j)" "same_but_paths g1 g'" by blast
  then show ?case
    using s(1) same_trans[OF s(2)] j(3) extends_root[OF ex] rep_rep[OF eg_ok_uf[OF "3.prems"(1)]] by auto
next
  case (5 g t ts)
  obtain a as where c: "class_of g t = Some a" "classes_of g ts = Some as" "cs = a # as"
    using "5.prems"(2) by (auto simp: Option.bind_eq_Some_conv)
  obtain g1 i where s: "addRec g t = Some (Inr (g1, i))" "same_but_paths g g1" "croot g i = a"
    using "5.IH"(1)[OF "5.prems"(1) c(1)] by blast
  have ex: "extends g g1" by (rule same_extends[OF "5.prems"(1) s(2)])
  obtain g2 "is" where n: "addRecs g1 ts = Some (Inr (g2, is))" "same_but_paths g1 g2" "map (croot g1) is = as"
    using "5.IH"(2)[OF s(1) refl refl extends_ok[OF ex] class_of_mono(2)[OF ex c(2)]] by blast
  then show ?case using s c(3) same_trans[OF s(2) n(2)] extends_root[OF ex] by auto
qed (auto simp: same_refl)

lemma eg_add_returns:
  assumes "eg_ok g" and "isGround t"
  shows "\<exists>g' i. eg_add g t = Some (Inr (g', i)) \<and> extends g g' \<and> class_of g' t = Some (croot g' i)"
  using addRec_returns(1)[OF assms] assms(2) by (simp add: eg_add_def)

end
