(* ===== verification/EGraphRebuild.thy ===== *)
theory EGraphRebuild
  imports EGraphAdd
begin

text \<open>
  Why \<open>rebuild\<close> returns and what it leaves behind. Its work stack grows only when a union merges two
  classes that the stack and the hash-cons map can name, so the number of such classes, then the height
  of the stack, decreases. The loop over a parent set is bounded by the keys all parent sets hold, which
  unions copy but never extend.
\<close>

section \<open>The work invariant\<close>

definition memo_ids :: "'f egraph \<Rightarrow> nat set" where
  "memo_ids g = set (map_values (eg_memo g))"

definition rb_inv :: "nat set \<Rightarrow> 'f egraph \<Rightarrow> nat list \<Rightarrow> bool" where
  "rb_inv U g work \<longleftrightarrow> eg_ok g \<and> finite U \<and> croot g ` (memo_ids g \<union> set work) \<subseteq> croot g ` U"

lemma map_values_set: "set (map_values (map_set m k v)) \<subseteq> insert v (set (map_values m))"
proof (induction m)
  case (Cons p m)
  then show ?case by (cases p) (auto simp: map_values_def map_set_def)
qed (simp add: map_values_def map_set_def)

lemma memo_idsI: "map_get (eg_memo g) k = Some j \<Longrightarrow> j \<in> memo_ids g"
  unfolding memo_ids_def by (rule map_get_values)

lemma rb_invD: "rb_inv U g work \<Longrightarrow> eg_ok g" "rb_inv U g work \<Longrightarrow> finite U"
  by (simp_all add: rb_inv_def)

lemma rb_inv_memo: "rb_inv U g work \<Longrightarrow> map_get (eg_memo g) k = Some j \<Longrightarrow> croot g j \<in> croot g ` U"
  unfolding rb_inv_def by (blast dest: memo_idsI)

lemma rb_inv_grows:
  assumes "rb_inv U g work" and "grows g g'" and "eg_memo g' = eg_memo g"
  shows "rb_inv U g' work"
proof -
  have "croot g' ` (memo_ids g \<union> set work) \<subseteq> croot g' ` U"
    by (rule grows_cover[OF assms(2)]) (use assms(1) in \<open>simp add: rb_inv_def\<close>)
  then show ?thesis using assms grows_ok by (auto simp: rb_inv_def memo_ids_def)
qed

lemma rb_inv_keeps:
  assumes "rb_inv U g work" and "keeps (eg_uf g) u'"
  shows "rb_inv U (g\<lparr>eg_uf := u'\<rparr>) work" "grows g (g\<lparr>eg_uf := u'\<rparr>)"
proof -
  show gr: "grows g (g\<lparr>eg_uf := u'\<rparr>)" by (rule grows_keeps[OF rb_invD(1)[OF assms(1)] assms(2)]) simp_all
  show "rb_inv U (g\<lparr>eg_uf := u'\<rparr>) work" by (rule rb_inv_grows[OF assms(1) gr]) simp
qed

lemma rb_inv_memo_set:
  assumes "rb_inv U g work" and "croot g i \<in> croot g ` U"
  shows "rb_inv U (g\<lparr>eg_memo := map_set (eg_memo g) k i\<rparr>) work"
proof -
  have "memo_ids (g\<lparr>eg_memo := map_set (eg_memo g) k i\<rparr>) \<subseteq> insert i (memo_ids g)"
    using map_values_set[of "eg_memo g" k i] by (simp add: memo_ids_def)
  then show ?thesis using assms by (auto simp: rb_inv_def eg_ok_def)
qed

lemma rb_inv_push:
  assumes "rb_inv U g work" and "croot g i \<in> croot g ` U"
  shows "rb_inv U g (i # work)"
  using assms by (auto simp: rb_inv_def)

lemma grows_memo: "eg_ok g \<Longrightarrow> grows g (g\<lparr>eg_memo := m\<rparr>)"
  by (rule grows_keeps) (auto simp: keeps_refl eg_ok_uf)

lemma class_count_memo [simp]: "class_count (g\<lparr>eg_memo := m\<rparr>) U = class_count g U"
  by (simp add: class_count_def)

lemma class_count_keeps: "keeps (eg_uf g) u' \<Longrightarrow> class_count (g\<lparr>eg_uf := u'\<rparr>) U = class_count g U"
  by (simp add: class_count_def keeps_def)

text \<open>A union of two covered classes keeps the invariant and lowers the count exactly when it merges.\<close>

lemma rb_union:
  assumes inv: "rb_inv U g work" and cov: "croot g a \<in> croot g ` U" "croot g b \<in> croot g ` U"
  shows "\<exists>g'. eg_union g a b = Some (g', croot g a \<noteq> croot g b) \<and> rb_inv U g' work \<and> grows g g' \<and>
    (croot g a \<noteq> croot g b \<longrightarrow> class_count g' U < class_count g U)"
proof -
  obtain g' where g': "eg_union g a b = Some (g', croot g a \<noteq> croot g b)" "grows g g'" "eg_memo g' = eg_memo g"
    and r: "if croot g a = croot g b then croot g' = croot g
     else \<exists>hi lo. {hi, lo} = {croot g a, croot g b} \<and> croot g' = (\<lambda>i. if croot g i = lo then hi else croot g i)"
    using eg_union_returns[OF rb_invD(1)[OF inv], of a b] by blast
  have "class_count g' U < class_count g U" if ne: "croot g a \<noteq> croot g b"
  proof -
    obtain hi lo where "{hi, lo} = {croot g a, croot g b}" "croot g' = (\<lambda>i. if croot g i = lo then hi else croot g i)"
      using r ne by auto
    from union_lowers_count[OF rb_invD(1,2)[OF inv] cov ne this] show ?thesis .
  qed
  with g' rb_inv_grows[OF inv g'(2,3)] show ?thesis by blast
qed

lemma covered_grows: "grows g g' \<Longrightarrow> croot g i \<in> croot g ` U \<Longrightarrow> croot g' i \<in> croot g' ` U"
  using grows_cover[of g g' "{i}" U] by auto

section \<open>The loops return\<close>

definition progress :: "nat set \<Rightarrow> 'f egraph \<Rightarrow> nat list \<Rightarrow> 'f egraph \<Rightarrow> nat list \<Rightarrow> bool" where
  "progress U g work g' work' \<longleftrightarrow>
     (work' = work \<and> class_count g' U \<le> class_count g U) \<or> class_count g' U < class_count g U"

lemma progress_trans: "progress U a v b w \<Longrightarrow> progress U b w c x \<Longrightarrow> progress U a v c x"
  by (auto simp: progress_def)

lemma progress_refl: "class_count g' U \<le> class_count g U \<Longrightarrow> progress U g w g' w"
  by (simp add: progress_def)

lemma progress_less: "class_count g' U < class_count g U \<Longrightarrow> progress U g v g' w"
  by (simp add: progress_def)

lemma rebuild_nodes_returns:
  assumes "rb_inv U g work" and "croot g i \<in> croot g ` U"
  shows "\<exists>g' fresh' gone' work'. rebuild_nodes i ns g fresh gone work = Some (g', fresh', gone', work') \<and>
    rb_inv U g' work' \<and> grows g g' \<and> class_count g' U \<le> class_count g U \<and>
    (croot g i = i \<longrightarrow> progress U g work g' work')"
  using assms
proof (induction ns arbitrary: g fresh gone work)
  case Nil
  then show ?case using grows_keeps[OF rb_invD(1) keeps_refl] eg_ok_uf[OF rb_invD(1)] by (fastforce intro: progress_refl)
next
  case (Cons n ns)
  note inv = Cons.prems(1) and cov = Cons.prems(2)
  obtain u1 where u1: "canonicalizeNode (eg_uf g) n = Some (u1, canon_with (croot g) n)" "keeps (eg_uf g) u1"
    using canon_returns[OF eg_ok_uf[OF rb_invD(1)[OF inv]]] by blast
  let ?key = "enodeKey (canon_with (croot g) n)"
  have keep: "\<exists>g' fresh' gone' work'.
      rebuild_nodes i ns (g\<lparr>eg_uf := u, eg_memo := map_set (eg_memo g) ?key i\<rparr>) (fresh @ [canon_with (croot g) n]) gone work
        = Some (g', fresh', gone', work') \<and>
      rb_inv U g' work' \<and> grows g g' \<and> class_count g' U \<le> class_count g U \<and>
      (croot g i = i \<longrightarrow> progress U g work g' work')" if k: "keeps (eg_uf g) u" for u
  proof -
    let ?g = "g\<lparr>eg_uf := u, eg_memo := map_set (eg_memo g) ?key i\<rparr>"
    have i1: "rb_inv U (g\<lparr>eg_uf := u\<rparr>) work" and g1: "grows g (g\<lparr>eg_uf := u\<rparr>)" using rb_inv_keeps[OF inv k] by auto
    have r: "croot ?g = croot g" using k by (simp add: keeps_def)
    have inv': "rb_inv U ?g work" using rb_inv_memo_set[OF i1, of i ?key] cov k by (simp add: keeps_def)
    have gr: "grows g ?g" using grows_trans[OF g1 grows_memo[OF rb_invD(1)[OF i1]]] by simp
    have cc: "class_count ?g U = class_count g U" by (simp add: class_count_def keepsE(2)[OF k])
    obtain g' f' go' w' where "rebuild_nodes i ns ?g (fresh @ [canon_with (croot g) n]) gone work = Some (g', f', go', w')"
      "rb_inv U g' w'" "grows ?g g'" "class_count g' U \<le> class_count ?g U" "croot ?g i = i \<longrightarrow> progress U ?g work g' w'"
      using Cons.IH[OF inv'] cov r by metis
    then show ?thesis using grows_trans[OF gr] cc r by (auto simp: progress_def)
  qed
  show ?case
  proof (cases "map_get (eg_memo g) ?key")
    case None
    then show ?thesis using keep[OF u1(2)] by (simp add: u1(1) Let_def)
  next
    case (Some ex)
    obtain u2 where u2: "uf_find u1 ex = Some (u2, croot g ex)" "keeps u1 u2"
      using find_returns[OF keepsE(1)[OF u1(2)], of ex] keepsE(2)[OF u1(2)] by metis
    have k2: "keeps (eg_uf g) u2" using u1(2) u2(2) by (rule keeps_trans)
    show ?thesis
    proof (cases "croot g ex = i")
      case True
      then show ?thesis using keep[OF k2] Some by (simp add: u1(1) u2(1) Let_def)
    next
      case False
      let ?g = "g\<lparr>eg_uf := u2\<rparr>"
      have inv2: "rb_inv U ?g work" and gr2: "grows g ?g" using rb_inv_keeps[OF inv k2] by auto
      have r2: "croot ?g = croot g" using keepsE(2)[OF k2] by simp
      have covs: "croot ?g i \<in> croot ?g ` U" "croot ?g ex \<in> croot ?g ` U"
        using cov rb_inv_memo[OF inv Some] r2 by simp_all
      obtain g1 where g1: "eg_union ?g i ex = Some (g1, croot g i \<noteq> croot g ex)" "rb_inv U g1 work" "grows ?g g1"
        and less: "croot g i \<noteq> croot g ex \<longrightarrow> class_count g1 U < class_count ?g U"
        using rb_union[OF inv2 covs] r2 by metis
      have ok1: "uf_ok (eg_uf g1)" by (rule eg_ok_uf[OF rb_invD(1)[OF g1(2)]])
      obtain u3 where u3: "uf_find (eg_uf g1) i = Some (u3, croot g1 i)" "keeps (eg_uf g1) u3"
        using find_returns[OF ok1] by blast
      obtain u4 where u4: "uf_find u3 ex = Some (u4, croot g1 ex)" "keeps u3 u4"
        using find_returns[OF keepsE(1)[OF u3(2)], of ex] keepsE(2)[OF u3(2)] by metis
      have k4: "keeps (eg_uf g1) u4" using u3(2) u4(2) by (rule keeps_trans)
      let ?g4 = "g1\<lparr>eg_uf := u4\<rparr>"
      have r4: "croot ?g4 = croot g1" using keepsE(2)[OF k4] by simp
      have c1: "croot g1 i \<in> croot g1 ` U" "croot g1 ex \<in> croot g1 ` U" using covered_grows[OF g1(3)] covs by blast+
      have "rb_inv U g1 (croot g1 ex # croot g1 i # work)"
        using g1(2) c1 rep_rep[OF ok1] by (intro rb_inv_push) auto
      then have inv4: "rb_inv U ?g4 (croot g1 ex # croot g1 i # work)" and gr4: "grows g1 ?g4"
        using rb_inv_keeps[OF _ k4] by auto
      obtain g' f' go' w' where res: "rebuild_nodes i ns ?g4 fresh (gone \<or> croot g i \<noteq> croot g ex)
          (croot g1 ex # croot g1 i # work) = Some (g', f', go', w')"
        "rb_inv U g' w'" "grows ?g4 g'" "class_count g' U \<le> class_count ?g4 U"
        using Cons.IH[OF inv4] c1(1) r4 by metis
      have gr: "grows g ?g4" using grows_trans[OF gr2 grows_trans[OF g1(3) gr4]] .
      have le: "class_count ?g4 U \<le> class_count g U" by (rule grows_class_count[OF gr rb_invD(2)[OF inv]])
      have "class_count g' U < class_count g U" if "croot g i = i"
        using less that False res(4) class_count_keeps[OF k4] class_count_keeps[OF k2] by (simp add: class_count_def)
      then show ?thesis
        using res le grows_trans[OF gr res(3)] Some False
        by (auto simp: u1(1) u2(1) g1(1) u3(1) u4(1) Let_def intro: progress_less)
    qed
  qed
qed

text \<open>The rest of a parent step: the key is stored under its canonical form.\<close>

lemma rebuild_parent_returns:
  assumes inv: "rb_inv U g work" and cov: "croot g i \<in> croot g ` U"
  shows "\<exists>g' work'. rebuild_parent i pkey g work = Some (g', work') \<and> rb_inv U g' work' \<and> grows g g' \<and>
    progress U g work g' work'"
proof (cases "parseKey pkey")
  case None
  then show ?thesis
    using inv grows_keeps[OF rb_invD(1)[OF inv] keeps_refl[OF eg_ok_uf[OF rb_invD(1)[OF inv]]]]
    by (auto simp: rebuild_parent_def intro: progress_refl)
next
  case (Some n)
  obtain u1 where u1: "canonicalizeNode (eg_uf g) n = Some (u1, canon_with (croot g) n)" "keeps (eg_uf g) u1"
    using canon_returns[OF eg_ok_uf[OF rb_invD(1)[OF inv]]] by blast
  let ?nk = "enodeKey (canon_with (croot g) n)"
  let ?fin = "\<lambda>(g1 :: 'a egraph, w). if ?nk \<noteq> pkey
                  then Some (g1\<lparr>eg_memo := map_set (eg_memo g1) ?nk
                         (case map_get (eg_memo g1) pkey of None \<Rightarrow> i | Some j \<Rightarrow> j)\<rparr>, w)
                  else Some (g1, w)"
  have fin: "\<exists>g'. ?fin (g1, w) = Some (g', w) \<and> rb_inv U g' w \<and> grows g g' \<and> progress U g work g' w"
    if i1: "rb_inv U g1 w" and gr: "grows g g1" and pr: "progress U g work g1 w" for g1 w
  proof -
    have ci: "croot g1 i \<in> croot g1 ` U" by (rule covered_grows[OF gr cov])
    then have "croot g1 (case map_get (eg_memo g1) pkey of None \<Rightarrow> i | Some j \<Rightarrow> j) \<in> croot g1 ` U"
      using rb_inv_memo[OF i1] by (simp split: option.splits)
    from rb_inv_memo_set[OF i1 this, of ?nk] show ?thesis
      using i1 gr pr grows_trans[OF gr grows_memo[OF rb_invD(1)[OF i1]]] by (auto simp: progress_def)
  qed
  have plain: "\<exists>g'. ?fin (g\<lparr>eg_uf := u\<rparr>, work) = Some (g', work) \<and> rb_inv U g' work \<and> grows g g' \<and> progress U g work g' work"
    if k: "keeps (eg_uf g) u" for u
    by (rule fin[OF rb_inv_keeps[OF inv k]]) (simp add: progress_refl class_count_keeps[OF k])
  show ?thesis
  proof (cases "\<exists>m old. map_get (eg_memo g) ?nk = Some m \<and> map_get (eg_memo g) pkey = Some old")
    case False
    then have "rebuild_parent i pkey g work = ?fin (g\<lparr>eg_uf := u1\<rparr>, work)"
      unfolding rebuild_parent_def Some option.case u1(1) Option.bind.simps prod.case Let_def
      by (cases "map_get (eg_memo g) ?nk"; cases "map_get (eg_memo g) pkey") auto
    with plain[OF u1(2)] show ?thesis by auto
  next
    case True
    then obtain m old where m: "map_get (eg_memo g) ?nk = Some m" and old: "map_get (eg_memo g) pkey = Some old" by blast
    obtain u2 where u2: "uf_find u1 m = Some (u2, croot g m)" "keeps u1 u2"
      using find_returns[OF keepsE(1)[OF u1(2)], of m] keepsE(2)[OF u1(2)] by metis
    have k2: "keeps (eg_uf g) u2" using u1(2) u2(2) by (rule keeps_trans)
    obtain u3 where u3: "uf_find u2 old = Some (u3, croot g old)" "keeps u2 u3"
      using find_returns[OF keepsE(1)[OF k2], of old] keepsE(2)[OF k2] by metis
    have k3: "keeps (eg_uf g) u3" using k2 u3(2) by (rule keeps_trans)
    let ?g = "g\<lparr>eg_uf := u3\<rparr>"
    have run: "rebuild_parent i pkey g work = (if croot g m = croot g old then ?fin (?g, work)
        else Option.bind (eg_union ?g m old) (\<lambda>(g1, _).
             Option.bind (uf_find (eg_uf g1) m) (\<lambda>(u4, fm'). ?fin (g1\<lparr>eg_uf := u4\<rparr>, fm' # work))))"
      unfolding rebuild_parent_def Some option.case u1(1) Option.bind.simps prod.case Let_def m old u2(1) u3(1) ..
    show ?thesis
    proof (cases "croot g m = croot g old")
      case True
      with run plain[OF k3] show ?thesis by auto
    next
      case False
      have inv3: "rb_inv U ?g work" and gr3: "grows g ?g" using rb_inv_keeps[OF inv k3] by auto
      have r3: "croot ?g = croot g" using keepsE(2)[OF k3] by simp
      have covs: "croot ?g m \<in> croot ?g ` U" "croot ?g old \<in> croot ?g ` U"
        using rb_inv_memo[OF inv m] rb_inv_memo[OF inv old] r3 by simp_all
      obtain g1 b where g1: "eg_union ?g m old = Some (g1, b)" "rb_inv U g1 work" "grows ?g g1"
        "class_count g1 U < class_count ?g U"
        using rb_union[OF inv3 covs] False r3 by metis
      have ok1: "uf_ok (eg_uf g1)" by (rule eg_ok_uf[OF rb_invD(1)[OF g1(2)]])
      obtain u4 where u4: "uf_find (eg_uf g1) m = Some (u4, croot g1 m)" "keeps (eg_uf g1) u4"
        using find_returns[OF ok1] by blast
      have "croot g1 m \<in> croot g1 ` U" by (rule covered_grows[OF g1(3) covs(1)])
      then have "rb_inv U g1 (croot g1 m # work)" using g1(2) rep_rep[OF ok1] by (intro rb_inv_push) auto
      then have inv4: "rb_inv U (g1\<lparr>eg_uf := u4\<rparr>) (croot g1 m # work)" and gr4: "grows g1 (g1\<lparr>eg_uf := u4\<rparr>)"
        using rb_inv_keeps[OF _ u4(2)] by auto
      have "progress U g work (g1\<lparr>eg_uf := u4\<rparr>) (croot g1 m # work)"
        using g1(4) class_count_keeps[OF u4(2)] class_count_keeps[OF k3] by (intro progress_less) simp
      from fin[OF inv4 grows_trans[OF gr3 grows_trans[OF g1(3) gr4]] this] False run show ?thesis
        by (auto simp: g1(1) u4(1))
    qed
  qed
qed

lemma rebuild_parents_returns:
  assumes "rb_inv U g work" and "croot g i \<in> croot g ` U"
  shows "\<exists>g' work'. rebuild_parents i k g work = Some (g', work') \<and> rb_inv U g' work' \<and> grows g g' \<and>
    progress U g work g' work'"
  using assms
proof (induction "card (parent_keys g) - k" arbitrary: k g work rule: less_induct)
  case less
  note inv = less.prems(1)
  let ?ps = "or_empty (map_get (eg_parents g) i)"
  show ?case
  proof (cases "length ?ps \<le> k")
    case True
    then have "rebuild_parents i k g work = Some (g, work)" by (subst rebuild_parents.simps) (simp add: Let_def)
    then show ?thesis
      using inv grows_keeps[OF rb_invD(1)[OF inv] keeps_refl[OF eg_ok_uf[OF rb_invD(1)[OF inv]]]]
      by (auto intro: progress_refl)
  next
    case False
    obtain g1 w1 where s: "rebuild_parent i (?ps ! k) g work = Some (g1, w1)" "rb_inv U g1 w1" "grows g g1" "progress U g work g1 w1"
      using rebuild_parent_returns[OF inv less.prems(2)] by metis
    have step: "rebuild_parents i k g work = rebuild_parents i (Suc k) g1 w1"
      using False s(1) by (subst rebuild_parents.simps) (simp add: Let_def)
    have "set ?ps \<subseteq> parent_keys g"
      by (cases "map_get (eg_parents g) i") (auto simp: keys_of_def or_empty_def dest: map_get_values)
    moreover have "distinct ?ps"
      using rb_invD(1)[OF inv] by (auto simp: eg_ok_def parents_ok_def or_empty_def split: option.splits)
    ultimately have "length ?ps \<le> card (parent_keys g)"
      using card_mono[OF finite_parent_keys] distinct_card by metis
    moreover have "card (parent_keys g1) \<le> card (parent_keys g)"
      using s(3) by (intro card_mono[OF finite_parent_keys]) (simp add: grows_def)
    ultimately have "card (parent_keys g1) - Suc k < card (parent_keys g) - k" using False by linarith
    from less.hyps[OF this s(2) covered_grows[OF s(3) less.prems(2)]] show ?thesis
      using step grows_trans[OF s(3)] progress_trans[OF s(4)] by metis
  qed
qed

lemma store_nodes_keeps: "rb_inv U g work \<Longrightarrow> rb_inv U (store_nodes i gone ns g) work \<and> grows g (store_nodes i gone ns g)
    \<and> class_count (store_nodes i gone ns g) U = class_count g U"
proof -
  assume inv: "rb_inv U g work"
  have same: "eg_uf (store_nodes i gone ns g) = eg_uf g" "eg_parents (store_nodes i gone ns g) = eg_parents g"
    "eg_memo (store_nodes i gone ns g) = eg_memo g"
    by (simp_all add: store_nodes_def split: option.splits)
  from inv same show ?thesis
    using grows_keeps[OF rb_invD(1)[OF inv] keeps_refl[OF eg_ok_uf[OF rb_invD(1)[OF inv]]] same(1,2)]
    by (simp add: rb_inv_def eg_ok_def memo_ids_def class_count_def)
qed

lemma rebuild_round_returns:
  assumes inv: "rb_inv U g (w # work)"
  shows "\<exists>g' work'. rebuild_round w g work = Some (g', work') \<and> rb_inv U g' work' \<and> grows g g' \<and> progress U g work g' work'"
proof -
  have ok: "uf_ok (eg_uf g)" by (rule eg_ok_uf[OF rb_invD(1)[OF inv]])
  have inv0: "rb_inv U g work" and cw: "croot g w \<in> croot g ` U" using inv by (auto simp: rb_inv_def)
  obtain u where u: "uf_find (eg_uf g) w = Some (u, croot g w)" "keeps (eg_uf g) u" using find_returns[OF ok] by blast
  let ?g = "g\<lparr>eg_uf := u\<rparr>" and ?i = "croot g w"
  have i1: "rb_inv U ?g work" and gr1: "grows g ?g" using rb_inv_keeps[OF inv0 u(2)] by auto
  have r: "croot ?g = croot g" using keepsE(2)[OF u(2)] by simp
  have root: "croot ?g ?i = ?i" and ci: "croot ?g ?i \<in> croot ?g ` U" using r rep_rep[OF ok] cw by simp_all
  have p1: "progress U g work ?g work" by (rule progress_refl) (simp add: class_count_keeps[OF u(2)])
  show ?thesis
  proof (cases "map_get (eg_classes ?g) ?i")
    case None
    then show ?thesis using i1 gr1 p1 by (simp add: rebuild_round_def u(1) Let_def)
  next
    case (Some d)
    obtain g1 fresh gone w1 where n: "rebuild_nodes ?i (cd_nodes d) ?g [] False work = Some (g1, fresh, gone, w1)"
      "rb_inv U g1 w1" "grows ?g g1" "progress U ?g work g1 w1"
      using rebuild_nodes_returns[OF i1 ci] root by metis
    obtain u2 ns where d: "dedupeNodes (eg_uf g1) fresh = Some (u2, ns)" "keeps (eg_uf g1) u2"
      using dedupe_returns[OF eg_ok_uf[OF rb_invD(1)[OF n(2)]]] by metis
    let ?g2 = "store_nodes ?i gone ns (g1\<lparr>eg_uf := u2\<rparr>)"
    have i2: "rb_inv U (g1\<lparr>eg_uf := u2\<rparr>) w1" "grows g1 (g1\<lparr>eg_uf := u2\<rparr>)" using rb_inv_keeps[OF n(2) d(2)] by auto
    note st = store_nodes_keeps[OF i2(1), of ?i gone ns]
    have gr2: "grows ?g ?g2" using grows_trans[OF n(3) grows_trans[OF i2(2)]] st by blast
    have p2: "progress U ?g work ?g2 w1" using n(4) st class_count_keeps[OF d(2)] by (simp add: progress_def)
    obtain g3 w3 where p: "rebuild_parents ?i 0 ?g2 w1 = Some (g3, w3)" "rb_inv U g3 w3" "grows ?g2 g3" "progress U ?g2 w1 g3 w3"
      using rebuild_parents_returns[of U ?g2 w1 ?i 0] st covered_grows[OF gr2 ci] by metis
    have "rebuild_round w g work = Some (g3, w3)"
      using Some by (simp add: rebuild_round_def u(1) Let_def n(1) d(1) p(1))
    then show ?thesis
      using p(2) grows_trans[OF gr1 grows_trans[OF gr2 p(3)]] progress_trans[OF p1 progress_trans[OF p2 p(4)]] by blast
  qed
qed

lemma rebuild_loop_returns:
  assumes "rb_inv U g work"
  shows "\<exists>g'. rebuild_loop g work = Some g' \<and> rb_inv U g' [] \<and> grows g g'"
  using assms
proof (induction "(class_count g U, length work)" arbitrary: g work rule: wf_induct_rule[OF wf_lex_prod[OF wf_less_than wf_less_than]])
  case 1
  note inv = 1(2)
  show ?case
  proof (cases work)
    case Nil
    then show ?thesis
      using inv grows_keeps[OF rb_invD(1)[OF inv] keeps_refl[OF eg_ok_uf[OF rb_invD(1)[OF inv]]]]
      by (subst rebuild_loop.simps) simp
  next
    case (Cons w ws)
    obtain g1 w1 where s: "rebuild_round w g ws = Some (g1, w1)" "rb_inv U g1 w1" "grows g g1" "progress U g ws g1 w1"
      using rebuild_round_returns inv Cons by metis
    have "((class_count g1 U, length w1), (class_count g U, length work)) \<in> less_than <*lex*> less_than"
      using s(4) Cons by (auto simp: progress_def)
    from 1(1)[OF this s(2)] obtain g' where "rebuild_loop g1 w1 = Some g'" "rb_inv U g' []" "grows g1 g'" by blast
    then show ?thesis using Cons s grows_trans by (subst rebuild_loop.simps) auto
  qed
qed

section \<open>What compaction leaves\<close>

lemma distinct_keys_props:
  "set (distinct_keys seen ns) \<subseteq> set ns"
  "distinct (map enodeKey (distinct_keys seen ns))"
  "enodeKey ` set (distinct_keys seen ns) \<inter> set seen = {}"
  by (induction seen ns rule: distinct_keys.induct) auto

text \<open>A class map is canonical: keyed by roots, with canonical nodes that have distinct keys.\<close>

definition classes_canonical :: "union_find \<Rightarrow> (nat, 'f eclass) jsmap \<Rightarrow> bool" where
  "classes_canonical u cs \<longleftrightarrow> map_ok cs \<and> (\<forall>i d. map_get cs i = Some d \<longrightarrow>
     rep u i = i \<and> cd_id d = i \<and> (\<forall>n\<in>set (cd_nodes d). canon_with (rep u) n = n) \<and> distinct (map enodeKey (cd_nodes d)))"

text \<open>The hash-cons map knows exactly the nodes of the classes.\<close>

definition memo_exact :: "(nat, 'f eclass) jsmap \<Rightarrow> (string, nat) jsmap \<Rightarrow> bool" where
  "memo_exact cs m \<longleftrightarrow>
     (\<forall>k i. map_get m k = Some i \<longrightarrow> (\<exists>d n. (i, d) \<in> set cs \<and> n \<in> set (cd_nodes d) \<and> enodeKey n = k)) \<and>
     (\<forall>(i, d)\<in>set cs. \<forall>n\<in>set (cd_nodes d). map_get m (enodeKey n) \<noteq> None)"

lemma canon_idem: "uf_ok u \<Longrightarrow> canon_with (rep u) (canon_with (rep u) n) = canon_with (rep u) n"
  by (simp add: canon_with_def rep_rep)

lemma classes_canonical_rep: "rep u' = rep u \<Longrightarrow> classes_canonical u' cs = classes_canonical u cs"
  by (simp add: classes_canonical_def)

lemma compact_scan_returns:
  "uf_ok u \<Longrightarrow> classes_canonical u m \<Longrightarrow>
     \<exists>u' m'. compact_scan u m cs = Some (u', m') \<and> keeps u u' \<and> classes_canonical u' m'"
proof (induction cs arbitrary: u m)
  case Nil
  then show ?case by (simp add: keeps_refl)
next
  case (Cons c cs)
  obtain i d where c: "c = (i, d)" by (cases c)
  obtain u1 where u1: "uf_find u i = Some (u1, rep u i)" "keeps u u1" using find_returns[OF Cons.prems(1)] by blast
  let ?old = "map_get m (rep u i)"
  let ?nodes = "case ?old of None \<Rightarrow> cd_nodes d | Some e \<Rightarrow> cd_nodes e @ cd_nodes d"
  let ?facts = "case ?old of None \<Rightarrow> cd_facts d | Some e \<Rightarrow> fold (\<lambda>(k, v) m. map_set m k v) (cd_facts d) (cd_facts e)"
  obtain u2 where u2: "canon_all u1 ?nodes = Some (u2, map (canon_with (rep u)) ?nodes)" "keeps u1 u2"
    using canon_all_returns[OF keepsE(1)[OF u1(2)], of ?nodes] keepsE(2)[OF u1(2)] by metis
  have k2: "keeps u u2" using u1(2) u2(2) by (rule keeps_trans)
  let ?cns = "map (canon_with (rep u)) ?nodes"
  obtain u3 where u3: "dedupeNodes u2 ?cns = Some (u3, distinct_keys [] (map (canon_with (rep u)) ?cns))" "keeps u2 u3"
    using dedupe_returns[OF keepsE(1)[OF k2], of ?cns] keepsE(2)[OF k2] by metis
  have k3: "keeps u u3" using k2 u3(2) by (rule keeps_trans)
  let ?ns = "distinct_keys [] (map (canon_with (rep u)) ?cns)"
  let ?m = "map_set m (rep u i) \<lparr>cd_id = rep u i, cd_nodes = ?ns, cd_facts = ?facts\<rparr>"
  have "n \<in> set ?ns \<Longrightarrow> canon_with (rep u) n = n" for n
    using distinct_keys_props(1)[of "[]" "map (canon_with (rep u)) ?cns"] canon_idem[OF Cons.prems(1)] by auto
  moreover have "distinct (map enodeKey ?ns)" by (rule distinct_keys_props)
  ultimately have "classes_canonical u ?m"
    using Cons.prems(2) rep_rep[OF Cons.prems(1)]
    unfolding classes_canonical_def js.get_put by (auto simp: js.ok_put split: if_splits)
  then have "classes_canonical u3 ?m" using classes_canonical_rep[OF keepsE(2)[OF k3]] by blast
  then obtain u' m' where "compact_scan u3 ?m cs = Some (u', m')" "keeps u3 u'" "classes_canonical u' m'"
    using Cons.IH[OF keepsE(1)[OF k3]] by blast
  then show ?case using keeps_trans[OF k3] by (simp add: c u1(1) Let_def u2(1) u3(1))
qed

lemma memo_nodes:
  "map_get (fold (\<lambda>n m. map_set m (enodeKey n) i) ns m) k =
     (if k \<in> enodeKey ` set ns then Some i else map_get m k)"
  by (induction ns arbitrary: m) (auto simp: js.get_put)

lemma memo_of_exact: "memo_exact cs (memo_of cs)"
proof (induction cs rule: rev_induct)
  case Nil
  then show ?case by (simp add: memo_exact_def memo_of_def)
next
  case (snoc c cs)
  obtain i d where c: "c = (i, d)" by (cases c)
  have get: "map_get (memo_of (cs @ [c])) k = (if k \<in> enodeKey ` set (cd_nodes d) then Some i else map_get (memo_of cs) k)" for k
    by (simp add: memo_of_def c memo_nodes)
  show ?case
    unfolding memo_exact_def
  proof (intro conjI allI impI)
    fix k j assume "map_get (memo_of (cs @ [c])) k = Some j"
    then show "\<exists>d n. (j, d) \<in> set (cs @ [c]) \<and> n \<in> set (cd_nodes d) \<and> enodeKey n = k"
      using snoc unfolding memo_exact_def get by (fastforce simp: c split: if_splits)
  next
    show "\<forall>(j, e)\<in>set (cs @ [c]). \<forall>n\<in>set (cd_nodes e). map_get (memo_of (cs @ [c])) (enodeKey n) \<noteq> None"
      using snoc unfolding memo_exact_def get by (auto simp: c)
  qed
qed

definition canonical_graph :: "'f egraph \<Rightarrow> bool" where
  "canonical_graph g \<longleftrightarrow> classes_canonical (eg_uf g) (eg_classes g) \<and> memo_exact (eg_classes g) (eg_memo g)"

lemma rebuild_returns:
  assumes ok: "eg_ok g"
  shows "\<exists>g'. rebuild g = Some g' \<and> eg_ok g' \<and> canonical_graph g' \<and> (\<exists>h. coarsens (eg_uf g) (eg_uf g') h)"
proof -
  let ?g0 = "g\<lparr>eg_rebuildCount := eg_rebuildCount g + 1, eg_dirty := []\<rparr>"
  have ok0: "eg_ok ?g0" using ok by (simp add: eg_ok_def)
  have gr0: "grows g ?g0" by (rule grows_keeps[OF ok keeps_refl[OF eg_ok_uf[OF ok]]]) simp_all
  have "rb_inv (memo_ids ?g0 \<union> set (eg_dirty g)) ?g0 (rev (eg_dirty g))"
    using ok0 by (auto simp: rb_inv_def memo_ids_def)
  then obtain g1 where g1: "rebuild_loop ?g0 (rev (eg_dirty g)) = Some g1" "eg_ok g1" "grows ?g0 g1"
    using rebuild_loop_returns rb_invD(1) by metis
  have "classes_canonical (eg_uf g1) []" by (simp add: classes_canonical_def)
  then obtain u cs where c: "compact_scan (eg_uf g1) [] (eg_classes g1) = Some (u, cs)" "keeps (eg_uf g1) u" "classes_canonical u cs"
    using compact_scan_returns[OF eg_ok_uf[OF g1(2)]] by blast
  let ?g' = "g1\<lparr>eg_uf := u, eg_classes := cs, eg_memo := memo_of cs\<rparr>"
  have "rebuild g = Some ?g'" by (simp add: rebuild_def g1(1)[simplified] compactClasses_def c(1))
  moreover have "grows g1 ?g'" by (rule grows_keeps[OF g1(2) c(2)]) simp_all
  then have "grows g ?g'" using grows_trans[OF gr0 grows_trans[OF g1(3)]] by blast
  moreover have "canonical_graph ?g'" using c(3) memo_of_exact by (simp add: canonical_graph_def)
  ultimately show ?thesis by (auto simp: grows_def)
qed

section \<open>Reachable graphs\<close>

text \<open>Every public operation is a step; those that only read (\<open>find\<close>, \<open>getClass\<close>, extraction) compress paths.\<close>

inductive eg_step :: "'f egraph \<Rightarrow> 'f egraph \<Rightarrow> bool" where
  step_add: "eg_add g t = Some (Inr (g', i)) \<Longrightarrow> eg_step g g'"
| step_union: "eg_union g a b = Some (g', r) \<Longrightarrow> eg_step g g'"
| step_equiv: "equiv_classes g a b = Some (g', r) \<Longrightarrow> eg_step g g'"
| step_setFact: "setFact g i k v = Some g' \<Longrightarrow> eg_step g g'"
| step_getFact: "getFact g i k = Some (g', w) \<Longrightarrow> eg_step g g'"
| step_rebuild: "rebuild g = Some g' \<Longrightarrow> eg_step g g'"
| step_read: "same_but_paths g g' \<Longrightarrow> eg_step g g'"

inductive eg_reachable :: "'f egraph \<Rightarrow> bool" where
  eg_start: "eg_reachable eg_empty"
| eg_more: "eg_reachable g \<Longrightarrow> eg_step g g' \<Longrightarrow> eg_reachable g'"

inductive_cases eg_stepE: "eg_step g g'"

lemma ensureClass_returns:
  assumes "eg_ok g"
  shows "\<exists>g' d. ensureClass g i = Some (g', d) \<and> eg_ok g' \<and> keeps (eg_uf g) (eg_uf g')"
proof -
  obtain u where "uf_find (eg_uf g) i = Some (u, croot g i)" "keeps (eg_uf g) u"
    using find_returns[OF eg_ok_uf[OF assms]] by blast
  then show ?thesis using assms by (auto simp: ensureClass_def eg_ok_def keeps_def Let_def split: option.splits)
qed

lemma setFact_returns:
  assumes "eg_ok g"
  shows "\<exists>g'. setFact g i k v = Some g' \<and> eg_ok g'"
proof -
  obtain g1 d where g1: "ensureClass g i = Some (g1, d)" "eg_ok g1" using ensureClass_returns[OF assms] by blast
  obtain u where "uf_find (eg_uf g1) i = Some (u, croot g1 i)" "keeps (eg_uf g1) u"
    using find_returns[OF eg_ok_uf[OF g1(2)]] by blast
  then show ?thesis using g1(2) by (simp add: setFact_def g1(1) eg_ok_def keeps_def)
qed

lemma equiv_returns:
  assumes "eg_ok g"
  shows "\<exists>g'. equiv_classes g a b = Some (g', croot g a = croot g b) \<and> eg_ok g' \<and> croot g' = croot g"
proof -
  obtain u where "uf_same (eg_uf g) a b = Some (u, (a, b) \<in> partition (eg_uf g))" "uf_ok u" "partition u = partition (eg_uf g)"
    using uf.sm_spec[OF eg_ok_uf[OF assms]] by blast
  obtain u1 where u1: "uf_find (eg_uf g) a = Some (u1, croot g a)" "keeps (eg_uf g) u1"
    using find_returns[OF eg_ok_uf[OF assms]] by blast
  obtain u2 where u2: "uf_find u1 b = Some (u2, croot g b)" "keeps u1 u2"
    using find_returns[OF keepsE(1)[OF u1(2)], of b] keepsE(2)[OF u1(2)] by metis
  have "keeps (eg_uf g) u2" using u1(2) u2(2) by (rule keeps_trans)
  then show ?thesis using assms by (simp add: equiv_classes_def uf_same_def u1(1) u2(1) eg_ok_def keeps_def)
qed

lemma step_ok:
  assumes "eg_ok g" and "eg_step g g'"
  shows "eg_ok g'"
  using assms(2)
proof (rule eg_stepE)
  fix t i assume a: "eg_add g t = Some (Inr (g', i))"
  then have "isGround t" by (auto simp: eg_add_def split: if_splits)
  then show ?thesis using eg_add_returns[OF assms(1)] a extends_ok by fastforce
next
  fix a b r assume "eg_union g a b = Some (g', r)"
  then show ?thesis using eg_union_returns[OF assms(1), of a b] grows_ok by fastforce
next
  fix a b r assume "equiv_classes g a b = Some (g', r)"
  then show ?thesis using equiv_returns[OF assms(1), of a b] by fastforce
next
  fix i k v assume "setFact g i k v = Some g'"
  then show ?thesis using setFact_returns[OF assms(1), of i k v] by fastforce
next
  fix i k w assume "getFact g i k = Some (g', w)"
  then show ?thesis using ensureClass_returns[OF assms(1), of i] by (fastforce simp: getFact_def)
next
  assume "rebuild g = Some g'"
  then show ?thesis using rebuild_returns[OF assms(1)] by fastforce
next
  assume "same_but_paths g g'"
  then show ?thesis by (rule extends_ok[OF same_extends[OF assms(1)]])
qed

lemma reachable_eg_ok: "eg_reachable g \<Longrightarrow> eg_ok g"
  by (induction rule: eg_reachable.induct) (use eg_ok_empty step_ok in blast)+

text \<open>Claim C38: on every e-graph the operations can produce, \<open>rebuild\<close> returns. It separates no two
  classes that were equal, and leaves the graph canonical: classes keyed by their leaders, nodes over
  leaders, one node per key, and a hash-cons map that knows exactly those nodes.\<close>

theorem rebuild_terminates_canonical:
  assumes "eg_reachable g"
  shows "\<exists>g'. rebuild g = Some g' \<and> canonical_graph g' \<and> partition (eg_uf g) \<subseteq> partition (eg_uf g')"
proof -
  obtain g' h where "rebuild g = Some g'" "canonical_graph g'" "coarsens (eg_uf g) (eg_uf g') h"
    using rebuild_returns[OF reachable_eg_ok[OF assms]] by blast
  then show ?thesis by (auto simp: coarsens_def partition_def)
qed

text \<open>Adding is hash-consed. On a reachable graph, adding a ground term returns and equates
  nothing, and adding it again returns an id of the same class and changes nothing but path compression.\<close>

theorem add_is_hash_consed:
  assumes "eg_reachable g" and "isGround t"
  shows "\<exists>g1 i g2 j. eg_add g t = Some (Inr (g1, i)) \<and> partition (eg_uf g1) = partition (eg_uf g) \<and>
    eg_add g1 t = Some (Inr (g2, j)) \<and> (i, j) \<in> partition (eg_uf g2) \<and> same_but_paths g1 g2"
proof -
  note ok = reachable_eg_ok[OF assms(1)]
  obtain g1 i where g1: "eg_add g t = Some (Inr (g1, i))" "extends g g1" "class_of g1 t = Some (croot g1 i)"
    using eg_add_returns[OF ok assms(2)] by blast
  obtain g2 j where g2: "eg_add g1 t = Some (Inr (g2, j))" "same_but_paths g1 g2" "croot g1 j = croot g1 i"
    using addRec_known(1)[OF extends_ok[OF g1(2)] g1(3)] assms(2) by (auto simp: eg_add_def)
  have "croot g2 = croot g1" using extends_root[OF same_extends[OF extends_ok[OF g1(2)] g2(2)]] .
  then show ?thesis using g1 g2 extends_root[OF g1(2)] by (fastforce simp: partition_def)
qed

section \<open>Congruence is not restored soundly\<close>

datatype eg_cmd = CAdd eterm | CUnion nat nat | CRebuild

text \<open>A session with the graph: the final graph and the ids \<open>add\<close> returned.\<close>

fun run_cmds :: "eg_cmd list \<Rightarrow> 'f egraph \<Rightarrow> ('f egraph \<times> nat list) option" where
  "run_cmds [] g = Some (g, [])"
| "run_cmds (CAdd t # cs) g = Option.bind (eg_add g t) (\<lambda>r. case r of Inl e \<Rightarrow> None
     | Inr (g1, i) \<Rightarrow> Option.bind (run_cmds cs g1) (\<lambda>(g2, is). Some (g2, i # is)))"
| "run_cmds (CUnion a b # cs) g = Option.bind (eg_union g a b) (\<lambda>(g1, _). run_cmds cs g1)"
| "run_cmds (CRebuild # cs) g = Option.bind (rebuild g) (run_cmds cs)"

lemma run_cmds_reachable: "eg_reachable g \<Longrightarrow> run_cmds cs g = Some (g', is) \<Longrightarrow> eg_reachable g'"
proof (induction cs arbitrary: g g' "is")
  case (Cons c cs)
  show ?case
  proof (cases c)
    case (CAdd t)
    then obtain r where r: "eg_add g t = Some r" "(case r of Inl e \<Rightarrow> None
        | Inr (g1, i) \<Rightarrow> Option.bind (run_cmds cs g1) (\<lambda>(g2, is). Some (g2, i # is))) = Some (g', is)"
      using Cons.prems(2) by (auto simp only: run_cmds.simps Option.bind_eq_Some_conv)
    then obtain g1 i js where "eg_add g t = Some (Inr (g1, i))" "run_cmds cs g1 = Some (g', js)"
      by (cases r) (auto simp: Option.bind_eq_Some_conv)
    then show ?thesis using Cons.IH eg_more[OF Cons.prems(1)] step_add by metis
  next
    case (CUnion a b)
    then obtain g1 r where "eg_union g a b = Some (g1, r)" "run_cmds cs g1 = Some (g', is)"
      using Cons.prems(2) by (auto simp: Option.bind_eq_Some_conv)
    then show ?thesis using Cons.IH eg_more[OF Cons.prems(1)] step_union by metis
  next
    case CRebuild
    then obtain g1 where "rebuild g = Some g1" "run_cmds cs g1 = Some (g', is)"
      using Cons.prems(2) by (auto simp: Option.bind_eq_Some_conv)
    then show ?thesis using Cons.IH eg_more[OF Cons.prems(1)] step_rebuild by metis
  qed
qed simp

definition t_a :: eterm where "t_a = App ''a'' []"
definition t_b :: eterm where "t_b = App ''b'' []"
definition t_c :: eterm where "t_c = App ''c'' []"
definition t_f :: "eterm \<Rightarrow> eterm" where "t_f t = App ''f'' [t]"

definition sample_session :: "eg_cmd list" where
  "sample_session = [CAdd t_a, CAdd t_b, CAdd t_c, CAdd (t_f t_a), CAdd (t_f t_c), CUnion 2 1, CRebuild, CUnion 2 3]"

definition sample_graph :: "unit egraph" where
  "sample_graph = fst (the (run_cmds sample_session eg_empty))"

definition answers :: "unit egraph \<Rightarrow> (nat \<times> nat) list \<Rightarrow> bool option list" where
  "answers g qs = map (\<lambda>(x, y). map_option snd (equiv_classes g x y)) qs"

text \<open>A rebuild that follows an earlier one can equate terms that no asserted equality makes
  equal, and miss a congruence. With \<open>a = b\<close> asserted and rebuilt and then \<open>b = c\<close> asserted and rebuilt,
  the graph answers that \<open>c\<close> equals \<open>f(c)\<close>, and that \<open>f(a)\<close> does not equal \<open>f(c)\<close>.\<close>

theorem second_rebuild_unsound:
  "map_option (\<lambda>(g, ids). (ids, answers g [(1, 2), (2, 3), (3, 5), (4, 5)]))
     (run_cmds (sample_session @ [CRebuild]) (eg_empty :: unit egraph))
   = Some ([1, 2, 3, 4, 5], [Some True, Some True, Some True, Some False])"
  by code_simp

lemma sample_graph_run: "map_option fst (run_cmds sample_session (eg_empty :: unit egraph)) = Some sample_graph"
proof -
  have "run_cmds sample_session (eg_empty :: unit egraph) \<noteq> None" by code_simp
  then show ?thesis by (auto simp: sample_graph_def)
qed

lemma sample_graph_reachable: "eg_reachable sample_graph"
  using sample_graph_run run_cmds_reachable[OF eg_start, of sample_session] by (cases "run_cmds sample_session (eg_empty :: unit egraph)") auto

theorem rebuild_terminates_canonical_witness:
  "\<exists>g'. rebuild sample_graph = Some g' \<and> canonical_graph g'"
  using rebuild_terminates_canonical[OF sample_graph_reachable] by blast

theorem add_is_hash_consed_witness:
  "\<exists>g1 i g2 j. eg_add sample_graph (t_f (t_f t_b)) = Some (Inr (g1, i)) \<and> eg_add g1 (t_f (t_f t_b)) = Some (Inr (g2, j)) \<and>
     (i, j) \<in> partition (eg_uf g2)"
  using add_is_hash_consed[OF sample_graph_reachable, of "t_f (t_f t_b)"] by (simp add: t_f_def t_b_def) blast

end
