(* ===== verification/EGraphMatch.thy ===== *)
theory EGraphMatch
  imports EGraphRebuild
begin

text \<open>
  E-matching and extraction (\<open>egraph.ts\<close>) and the substitutions of \<open>term.ts\<close>. Extraction is the greedy
  depth-first search of \<open>extractOne\<close> with its table of costs and its set of classes being visited; the
  depth bound of \<open>extract_class\<close> is the number of classes plus one, which \<open>extract_ref_returns\<close> shows to
  suffice. A pattern variable is not the name of a property every object inherits, and an operator that
  begins with \<open>lit:\<close> is one that \<open>add\<close> made for a literal.
\<close>

section \<open>Substitutions\<close>

type_synonym subst = "(string, eterm) jsmap"

text \<open>\<open>applySubst\<close> substitutes in what it has substituted, so it need not return; it works on the list of
  terms left to do.\<close>

partial_function (option) applySubsts :: "subst \<Rightarrow> eterm list \<Rightarrow> eterm list option" where
  "applySubsts s ts =
     (case ts of
        [] \<Rightarrow> Some []
      | t # rest \<Rightarrow>
          Option.bind
            (case t of
               Var x \<Rightarrow> (case map_get s x of None \<Rightarrow> Some [t] | Some r \<Rightarrow> applySubsts s [r])
             | Lit v \<Rightarrow> Some [t]
             | App f us \<Rightarrow> Option.bind (applySubsts s us) (\<lambda>us'. Some [App f us']))
            (\<lambda>t'. Option.bind (applySubsts s rest) (\<lambda>rest'. Some (t' @ rest'))))"

declare applySubsts.simps [code]

definition applySubst :: "subst \<Rightarrow> eterm \<Rightarrow> eterm option" where
  "applySubst s t = map_option hd (applySubsts s [t])"

section \<open>Reading the graph\<close>

definition find_class :: "'f egraph \<Rightarrow> nat \<Rightarrow> ('f egraph \<times> nat) option" where
  "find_class g i = map_option (\<lambda>(u, l). (g\<lparr>eg_uf := u\<rparr>, l)) (uf_find (eg_uf g) i)"

definition getClass :: "'f egraph \<Rightarrow> nat \<Rightarrow> ('f egraph \<times> 'f eclass option) option" where
  "getClass g i = map_option (\<lambda>(u, l). (g\<lparr>eg_uf := u\<rparr>, map_get (eg_classes g) l)) (uf_find (eg_uf g) i)"

definition allClassIds :: "'f egraph \<Rightarrow> nat list" where
  "allClassIds g = map fst (eg_classes g)"

definition debugClasses :: "'f egraph \<Rightarrow> string" where
  "debugClasses g = join_with [CHR 0x0A] (map (\<lambda>(i, d). ''c'' @ nat_str i @ '': '' @ join_with '' | '' (map enodeKey (cd_nodes d))) (eg_classes g))"

section \<open>Reading a literal back\<close>

text \<open>\<open>JSON.parse\<close> on the text of a scalar: null, a boolean, a string, an integer.\<close>

definition json_space :: "char \<Rightarrow> bool" where
  "json_space c \<longleftrightarrow> (let n = of_char c :: int in n = 9 \<or> n = 10 \<or> n = 13 \<or> n = 32)"

definition json_trim :: "string \<Rightarrow> string" where
  "json_trim s = rev (dropWhile json_space (rev (dropWhile json_space s)))"

definition hex_code :: "char \<Rightarrow> int option" where
  "hex_code c = (let n = of_char c :: int in
     if 48 \<le> n \<and> n \<le> 57 then Some (n - 48) else if 97 \<le> n \<and> n \<le> 102 then Some (n - 87)
     else if 65 \<le> n \<and> n \<le> 70 then Some (n - 55) else None)"

definition escape_char :: "char \<Rightarrow> char option" where
  "escape_char c = (let n = of_char c :: int in
     if n = 34 \<or> n = 92 \<or> n = 47 then Some c
     else if n = 98 then Some (char_of (8 :: int)) else if n = 102 then Some (char_of (12 :: int))
     else if n = 110 then Some (char_of (10 :: int)) else if n = 114 then Some (char_of (13 :: int))
     else if n = 116 then Some (char_of (9 :: int)) else None)"

text \<open>The rest of a string literal, up to the quote that must end the text.\<close>

fun read_string :: "string \<Rightarrow> string option" where
  "read_string [] = None"
| "read_string (c # s) =
     (let n = of_char c :: int
      in if n = 34 then (if s = [] then Some [] else None)
         else if n = 92 then
           (case s of
              [] \<Rightarrow> None
            | e # s1 \<Rightarrow>
                if (of_char e :: int) = 117 then
                  (case s1 of
                     a # b # d # f # s2 \<Rightarrow>
                       (case (hex_code a, hex_code b, hex_code d, hex_code f) of
                          (Some i, Some j, Some h, Some l) \<Rightarrow>
                            if i = 0 \<and> j = 0 then map_option (\<lambda>r. char_of (16 * h + l) # r) (read_string s2) else None
                        | _ \<Rightarrow> None)
                   | _ \<Rightarrow> None)
                else Option.bind (escape_char e) (\<lambda>x. map_option (\<lambda>r. x # r) (read_string s1)))
         else if n < 32 then None
         else map_option (\<lambda>r. c # r) (read_string s))"

definition read_nat :: "string \<Rightarrow> int option" where
  "read_nat s = (if s \<noteq> [] \<and> list_all is_digit s \<and> (hd s = CHR ''0'' \<longrightarrow> length s = 1) then Some (digits_i s) else None)"

definition read_scalar :: "string \<Rightarrow> lit_value option" where
  "read_scalar raw =
     (let s = json_trim raw
      in if s = ''null'' then Some LNull
         else if s = ''true'' then Some (LBool True)
         else if s = ''false'' then Some (LBool False)
         else case s of
                [] \<Rightarrow> None
              | c # r \<Rightarrow>
                  if c = CHR 0x22 then map_option LStr (read_string r)
                  else if c = CHR ''-'' then map_option (\<lambda>i. LNum (- i)) (read_nat r)
                  else map_option LNum (read_nat s))"

definition lit_of_op :: "string \<Rightarrow> lit_value" where
  "lit_of_op op = (let raw = drop 4 op in case read_scalar raw of Some v \<Rightarrow> v | None \<Rightarrow> LStr raw)"

section \<open>Extraction\<close>

text \<open>A cost and the term that has it; the costs of the classes done.\<close>

type_synonym extraction = "int \<times> eterm"
type_synonym costs = "(nat, extraction) jsmap"

definition huge :: int where "huge = 1000000000"

text \<open>The operator of the term that stands for a cycle is the character U+22A5, here its three UTF-8 bytes.\<close>

definition bottom_op :: string where "bottom_op = [CHR 0xE2, CHR 0x8A, CHR 0xA5]"

definition cyclic :: extraction where "cyclic = (huge, App bottom_op [])"
definition unknown :: extraction where "unknown = (huge, App ''?'' [])"

definition keep_best :: "extraction \<Rightarrow> extraction \<Rightarrow> extraction" where
  "keep_best r best = (if fst r < fst best then r else best)"

definition node_term :: "enode \<Rightarrow> extraction list \<Rightarrow> extraction" where
  "node_term n kids = (1 + sum_list (map fst kids), App (en_op n) (map snd kids))"

text \<open>Calls in sequence that thread a state: \<open>xs.map(f)\<close>, \<open>for (const x of xs)\<close>.\<close>

fun thread :: "('a \<Rightarrow> 's \<Rightarrow> ('s \<times> 'b) option) \<Rightarrow> 'a list \<Rightarrow> 's \<Rightarrow> ('s \<times> 'b list) option" where
  "thread f [] s = Some (s, [])"
| "thread f (x # xs) s =
     Option.bind (f x s) (\<lambda>(s1, y). Option.bind (thread f xs s1) (\<lambda>(s2, ys). Some (s2, y # ys)))"

fun best_node :: "(nat \<Rightarrow> 's \<Rightarrow> ('s \<times> extraction) option) \<Rightarrow> enode list \<Rightarrow> 's \<Rightarrow> extraction \<Rightarrow> ('s \<times> extraction) option" where
  "best_node ex [] s best = Some (s, best)"
| "best_node ex (n # ns) s best =
     (if starts_with (en_op n) ''lit:'' then best_node ex ns s (keep_best (1, Lit (lit_of_op (en_op n))) best)
      else Option.bind (thread ex (en_children n) s) (\<lambda>(s1, kids).
             best_node ex ns s1 (keep_best (node_term n kids) best)))"

definition class_nodes :: "(nat, 'f eclass) jsmap \<Rightarrow> nat \<Rightarrow> enode list" where
  "class_nodes cs l = (case map_get cs l of None \<Rightarrow> [] | Some d \<Rightarrow> cd_nodes d)"

text \<open>The inner function \<open>extract\<close>, with the classes being visited.\<close>

primrec extract_class :: "nat \<Rightarrow> (nat, 'f eclass) jsmap \<Rightarrow> nat list \<Rightarrow> nat \<Rightarrow>
    union_find \<times> costs \<Rightarrow> ((union_find \<times> costs) \<times> extraction) option" where
  "extract_class 0 cs visiting i = (\<lambda>(u, costs). None)"
| "extract_class (Suc k) cs visiting i = (\<lambda>(u, costs).
     Option.bind (uf_find u i) (\<lambda>(u1, l).
       case map_get costs l of
         Some r \<Rightarrow> Some ((u1, costs), r)
       | None \<Rightarrow>
           if l \<in> set visiting then Some ((u1, costs), cyclic)
           else Option.bind (best_node (extract_class k cs (l # visiting)) (class_nodes cs l) (u1, costs) unknown)
                  (\<lambda>((u2, costs2), best). Some ((u2, map_set costs2 l best), best))))"

definition extractOne :: "'f egraph \<Rightarrow> nat \<Rightarrow> ('f egraph \<times> eterm) option" where
  "extractOne g i =
     map_option (\<lambda>((u, _), r). (g\<lparr>eg_uf := u\<rparr>, snd r))
       (extract_class (length (eg_classes g) + 1) (eg_classes g) [] i (eg_uf g, []))"

section \<open>E-matching\<close>

text \<open>\<open>matchInClass\<close>, by the kind of the pattern. A thrown error in the test of a bound variable is no match.\<close>

definition match_var :: "string \<Rightarrow> nat \<Rightarrow> subst \<Rightarrow> 'f egraph \<Rightarrow> ('f egraph \<times> subst list) option" where
  "match_var x c s g =
     Option.bind (uf_find (eg_uf g) c) (\<lambda>(u, l).
       let g1 = g\<lparr>eg_uf := u\<rparr>
       in case map_get s x of
            None \<Rightarrow> map_option (\<lambda>(g2, t). (g2, [map_set s x t])) (extractOne g1 l)
          | Some t \<Rightarrow>
              Option.bind (applySubst [] t) (\<lambda>t'.
              Option.bind (eg_add g1 t') (\<lambda>r. case r of
                  Inl e \<Rightarrow> Some (g1, [])
                | Inr (g2, eid) \<Rightarrow> map_option (\<lambda>(g3, b). (g3, if b then [s] else [])) (equiv_classes g2 eid l))))"

definition match_lit :: "lit_value \<Rightarrow> nat \<Rightarrow> subst \<Rightarrow> 'f egraph \<Rightarrow> ('f egraph \<times> subst list) option" where
  "match_lit v c s g =
     Option.bind (uf_find (eg_uf g) c) (\<lambda>(u, l).
       let g1 = g\<lparr>eg_uf := u\<rparr>
       in Option.bind (case map_get (eg_memo g1) (enodeKey \<lparr>en_op = lit_op v, en_children = []\<rparr>) of
              None \<Rightarrow> Some (g1, False) | Some mid \<Rightarrow> equiv_classes g1 mid l) (\<lambda>(g2, hit).
            Some (g2, if hit \<or> (\<exists>n\<in>set (class_nodes (eg_classes g2) l). en_op n = lit_op v) then [s] else [])))"

text \<open>Matching one node: the frames of partial substitutions move on from child to child.\<close>

definition match_node ::
  "(nat list \<Rightarrow> subst list \<Rightarrow> 'f egraph \<Rightarrow> ('f egraph \<times> subst list) option) \<Rightarrow>
     string \<Rightarrow> nat \<Rightarrow> subst \<Rightarrow> enode \<Rightarrow> 'f egraph \<Rightarrow> ('f egraph \<times> subst list) option" where
  "match_node kids f arity s n g =
     (if en_op n \<noteq> f \<or> length (en_children n) \<noteq> arity then Some (g, []) else kids (en_children n) [s] g)"

fun match_in :: "eterm \<Rightarrow> nat \<Rightarrow> subst \<Rightarrow> 'f egraph \<Rightarrow> ('f egraph \<times> subst list) option"
and match_children :: "eterm list \<Rightarrow> nat list \<Rightarrow> subst list \<Rightarrow> 'f egraph \<Rightarrow> ('f egraph \<times> subst list) option" where
  "match_in (Var x) = match_var x"
| "match_in (Lit v) = match_lit v"
| "match_in (App f ps) = (\<lambda>c s g.
     Option.bind (uf_find (eg_uf g) c) (\<lambda>(u, l).
       map_option (apsnd concat)
         (thread (match_node (match_children ps) f (length ps) s) (class_nodes (eg_classes g) l) (g\<lparr>eg_uf := u\<rparr>))))"
| "match_children [] = (\<lambda>cs frames g. Some (g, frames))"
| "match_children (p # ps) = (\<lambda>cs frames g.
     Option.bind (thread (match_in p (hd cs)) frames g) (\<lambda>(g1, next).
       if concat next = [] then Some (g1, []) else match_children ps (tl cs) (concat next) g1))"

definition ematch :: "eterm \<Rightarrow> 'f egraph \<Rightarrow> ('f egraph \<times> (subst \<times> nat) list) option" where
  "ematch p g =
     map_option (apsnd concat)
       (thread (\<lambda>i g. map_option (apsnd (map (\<lambda>s. (s, i)))) (match_in p i [] g)) (allClassIds g) g)"

section \<open>What a sequence of calls returns\<close>

lemma thread_returns:
  assumes "\<And>x s. x \<in> set xs \<Longrightarrow> I s \<Longrightarrow> \<exists>s' y. f x s = Some (s', y) \<and> I s' \<and> R x y" and "I s"
  shows "\<exists>s' ys. thread f xs s = Some (s', ys) \<and> I s' \<and> list_all2 R xs ys"
  using assms
proof (induction xs arbitrary: s)
  case (Cons x xs)
  obtain s1 y where 1: "f x s = Some (s1, y)" "I s1" "R x y" using Cons.prems by fastforce
  obtain s2 ys where "thread f xs s1 = Some (s2, ys)" "I s2" "list_all2 R xs ys"
    using Cons.IH[OF Cons.prems(1)] 1(2) by fastforce
  then show ?case using 1 by simp
qed simp

text \<open>What \<open>best_node\<close> considers for a node.\<close>

definition considered :: "(nat \<Rightarrow> extraction \<Rightarrow> bool) \<Rightarrow> enode \<Rightarrow> extraction \<Rightarrow> bool" where
  "considered R n r \<longleftrightarrow>
     (if starts_with (en_op n) ''lit:'' then r = (1, Lit (lit_of_op (en_op n)))
      else \<exists>kids. list_all2 R (en_children n) kids \<and> r = node_term n kids)"

lemma consideredI:
  "starts_with (en_op n) ''lit:'' \<Longrightarrow> considered R n (1, Lit (lit_of_op (en_op n)))"
  "\<not> starts_with (en_op n) ''lit:'' \<Longrightarrow> list_all2 R (en_children n) kids \<Longrightarrow> considered R n (node_term n kids)"
  by (auto simp: considered_def)

lemma best_node_returns:
  assumes "\<And>n c s. n \<in> set ns \<Longrightarrow> \<not> starts_with (en_op n) ''lit:'' \<Longrightarrow> c \<in> set (en_children n) \<Longrightarrow> I s \<Longrightarrow>
      \<exists>s' r. ex c s = Some (s', r) \<and> I s' \<and> R c r" and "I s"
  shows "\<exists>s' rs. best_node ex ns s best = Some (s', fold keep_best rs best) \<and> I s' \<and> list_all2 (considered R) ns rs"
  using assms
proof (induction ns arbitrary: s best)
  case (Cons n ns)
  have IH: "\<exists>s' rs. best_node ex ns s1 b = Some (s', fold keep_best rs b) \<and> I s' \<and> list_all2 (considered R) ns rs"
    if "I s1" for s1 b by (rule Cons.IH, rule Cons.prems(1)) (simp_all add: that)
  show ?case
  proof (cases "starts_with (en_op n) ''lit:''")
    case True
    let ?r = "(1, Lit (lit_of_op (en_op n)))"
    obtain s' rs where "best_node ex ns s (keep_best ?r best) = Some (s', fold keep_best rs (keep_best ?r best))" "I s'"
      "list_all2 (considered R) ns rs" using IH[OF Cons.prems(2)] by blast
    then show ?thesis using True by (intro exI[of _ s'] exI[of _ "?r # rs"]) (simp add: consideredI)
  next
    case False
    have "\<exists>s' kids. thread ex (en_children n) s = Some (s', kids) \<and> I s' \<and> list_all2 R (en_children n) kids"
      by (rule thread_returns, rule Cons.prems(1)) (simp_all add: False Cons.prems(2))
    then obtain s1 kids where 1: "thread ex (en_children n) s = Some (s1, kids)" "I s1" "list_all2 R (en_children n) kids" by blast
    let ?r = "node_term n kids"
    obtain s' rs where "best_node ex ns s1 (keep_best ?r best) = Some (s', fold keep_best rs (keep_best ?r best))" "I s'"
      "list_all2 (considered R) ns rs" using IH[OF 1(2)] by blast
    then show ?thesis using False 1 by (intro exI[of _ s'] exI[of _ "?r # rs"]) (simp add: consideredI)
  qed
qed simp

lemma fold_keep_best:
  "fst (fold keep_best rs b) \<le> fst b"
  "r \<in> set rs \<Longrightarrow> fst (fold keep_best rs b) \<le> fst r"
  "fold keep_best rs b = b \<or> (fold keep_best rs b \<in> set rs \<and> fst (fold keep_best rs b) < fst b)"
proof (induction rs arbitrary: b)
  case (Cons x rs)
  { case 1 show ?case using Cons.IH(1)[of "keep_best x b"] by (simp add: keep_best_def split: if_splits) }
  { case 2 then show ?case using Cons.IH(1,2)[of "keep_best x b"] by (auto simp: keep_best_def split: if_splits) }
  { case 3 show ?case using Cons.IH(1,3)[of "keep_best x b"] by (auto simp: keep_best_def split: if_splits) }
qed simp_all

section \<open>Extraction over the roots\<close>

text \<open>The same search over the root function, without the union-find.\<close>

primrec extract_ref :: "nat \<Rightarrow> (nat \<Rightarrow> nat) \<Rightarrow> (nat, 'f eclass) jsmap \<Rightarrow> nat list \<Rightarrow> nat \<Rightarrow> costs \<Rightarrow> (costs \<times> extraction) option" where
  "extract_ref 0 f cs visiting i = (\<lambda>costs. None)"
| "extract_ref (Suc k) f cs visiting i = (\<lambda>costs.
     case map_get costs (f i) of
       Some r \<Rightarrow> Some (costs, r)
     | None \<Rightarrow>
         if f i \<in> set visiting then Some (costs, cyclic)
         else Option.bind (best_node (extract_ref k f cs (f i # visiting)) (class_nodes cs (f i)) costs unknown)
                (\<lambda>(costs2, best). Some (map_set costs2 (f i) best, best)))"

text \<open>One run follows another up to path compression.\<close>

definition follows :: "union_find \<Rightarrow> ((union_find \<times> 's) \<times> 'b) option \<Rightarrow> ('s \<times> 'b) option \<Rightarrow> bool" where
  "follows u a b \<longleftrightarrow> (case b of None \<Rightarrow> a = None | Some (s, y) \<Rightarrow> \<exists>v. keeps u v \<and> a = Some ((v, s), y))"

lemma follows_trans: "keeps u v \<Longrightarrow> follows v a b \<Longrightarrow> follows u a b"
  by (auto simp: follows_def split: option.splits intro: keeps_trans)

lemma follows_thread:
  assumes "\<And>x v s. x \<in> set xs \<Longrightarrow> keeps u v \<Longrightarrow> follows v (ex x (v, s)) (rf x s)" and "keeps u v"
  shows "follows v (thread ex xs (v, s)) (thread rf xs s)"
  using assms
proof (induction xs arbitrary: v s)
  case Nil
  then show ?case using keepsE(1)[OF Nil.prems(2)] by (auto simp: follows_def keeps_refl)
next
  case (Cons x xs)
  have x: "follows v (ex x (v, s)) (rf x s)" using Cons.prems by simp
  show ?case
  proof (cases "rf x s")
    case None
    then show ?thesis using x by (simp add: follows_def)
  next
    case (Some p)
    obtain s1 y where p: "p = (s1, y)" by (cases p)
    obtain v1 where v1: "keeps v v1" "ex x (v, s) = Some ((v1, s1), y)" using x Some p by (auto simp: follows_def)
    have "follows v1 (thread ex xs (v1, s1)) (thread rf xs s1)"
      by (rule Cons.IH) (use Cons.prems v1(1) in \<open>auto intro: keeps_trans\<close>)
    then have "follows v (thread ex xs (v1, s1)) (thread rf xs s1)" by (rule follows_trans[OF v1(1)])
    then show ?thesis using Some p v1(2) by (auto simp: follows_def split: option.splits)
  qed
qed

lemma follows_best_node:
  assumes "\<And>x v s. keeps u v \<Longrightarrow> follows v (ex x (v, s)) (rf x s)" and "keeps u v"
  shows "follows v (best_node ex ns (v, s) best) (best_node rf ns s best)"
  using assms
proof (induction ns arbitrary: v s best)
  case Nil
  then show ?case using keepsE(1)[OF Nil.prems(2)] by (auto simp: follows_def keeps_refl)
next
  case (Cons n ns)
  have t: "follows v (thread ex (en_children n) (v, s)) (thread rf (en_children n) s)"
    by (rule follows_thread[where u = u]) (use Cons.prems in auto)
  show ?case
  proof (cases "starts_with (en_op n) ''lit:'' \<or> thread rf (en_children n) s = None")
    case True
    then show ?thesis using Cons t by (auto simp: follows_def split: option.splits)
  next
    case False
    then obtain s1 kids where 1: "thread rf (en_children n) s = Some (s1, kids)" by auto
    obtain v1 where v1: "keeps v v1" "thread ex (en_children n) (v, s) = Some ((v1, s1), kids)"
      using t 1 by (auto simp: follows_def)
    have "follows v1 (best_node ex ns (v1, s1) (keep_best (node_term n kids) best))
        (best_node rf ns s1 (keep_best (node_term n kids) best))"
      by (rule Cons.IH) (use Cons.prems v1(1) in \<open>auto intro: keeps_trans\<close>)
    then have "follows v (best_node ex ns (v1, s1) (keep_best (node_term n kids) best))
        (best_node rf ns s1 (keep_best (node_term n kids) best))" by (rule follows_trans[OF v1(1)])
    then show ?thesis using False 1 v1(2) by simp
  qed
qed

lemma extract_follows:
  "uf_ok u \<Longrightarrow> follows u (extract_class k cs visiting i (u, costs)) (extract_ref k (rep u) cs visiting i costs)"
proof (induction k arbitrary: u visiting i costs)
  case 0
  then show ?case by (simp add: follows_def)
next
  case (Suc k)
  obtain u1 where u1: "uf_find u i = Some (u1, rep u i)" "keeps u u1" using find_returns[OF Suc.prems] by blast
  have rep1: "rep u1 = rep u" by (rule keepsE(2)[OF u1(2)])
  let ?vs = "rep u i # visiting" and ?ns = "class_nodes cs (rep u i)"
  have "follows u1 (best_node (extract_class k cs ?vs) ?ns (u1, costs) unknown) (best_node (extract_ref k (rep u) cs ?vs) ?ns costs unknown)"
  proof (rule follows_best_node[where u = u1])
    show "follows v (extract_class k cs ?vs x (v, s)) (extract_ref k (rep u) cs ?vs x s)" if "keeps u1 v" for x v s
      using Suc.IH[OF keepsE(1)[OF that]] keepsE(2)[OF that] rep1 by simp
  qed (rule keeps_refl[OF keepsE(1)[OF u1(2)]])
  then have b: "follows u (best_node (extract_class k cs ?vs) ?ns (u1, costs) unknown)
      (best_node (extract_ref k (rep u) cs ?vs) ?ns costs unknown)" by (rule follows_trans[OF u1(2)])
  show ?case
  proof (cases "best_node (extract_ref k (rep u) cs ?vs) ?ns costs unknown")
    case None
    then show ?thesis using b u1 by (auto simp: follows_def split: option.splits)
  next
    case (Some p)
    then obtain v where "keeps u v" "best_node (extract_class k cs ?vs) ?ns (u1, costs) unknown = Some ((v, fst p), snd p)"
      using b by (cases p) (auto simp: follows_def)
    then show ?thesis using Some u1 by (cases p) (auto simp: follows_def split: option.splits)
  qed
qed

section \<open>What extraction returns\<close>

text \<open>The terms a class stands for, over the root function \<open>f\<close>.\<close>

inductive member :: "(nat \<Rightarrow> nat) \<Rightarrow> (nat, 'f eclass) jsmap \<Rightarrow> eterm \<Rightarrow> nat \<Rightarrow> bool" for f cs where
  member_lit: "n \<in> set (class_nodes cs l) \<Longrightarrow> starts_with (en_op n) ''lit:'' \<Longrightarrow> member f cs (Lit (lit_of_op (en_op n))) l"
| member_app: "n \<in> set (class_nodes cs l) \<Longrightarrow> \<not> starts_with (en_op n) ''lit:'' \<Longrightarrow>
    list_all2 (\<lambda>t c. member f cs t (f c)) ts (en_children n) \<Longrightarrow> member f cs (App (en_op n) ts) l"

inductive_cases memberE: "member f cs t l"

fun tsize :: "eterm \<Rightarrow> int" where
  "tsize (Var x) = 1"
| "tsize (Lit v) = 1"
| "tsize (App f ts) = 1 + sum_list (map tsize ts)"

text \<open>A rank that falls from a class to the classes below it: then no class contains itself.\<close>

definition layered :: "(nat \<Rightarrow> nat) \<Rightarrow> (nat \<Rightarrow> nat) \<Rightarrow> (nat, 'f eclass) jsmap \<Rightarrow> bool" where
  "layered rk f cs \<longleftrightarrow> (\<forall>l. \<forall>n\<in>set (class_nodes cs l). \<not> starts_with (en_op n) ''lit:'' \<longrightarrow> (\<forall>c\<in>set (en_children n). rk (f c) < rk l))"

definition least :: "(nat \<Rightarrow> nat) \<Rightarrow> (nat, 'f eclass) jsmap \<Rightarrow> nat \<Rightarrow> int \<Rightarrow> bool" where
  "least f cs l c \<longleftrightarrow> (\<forall>t. member f cs t l \<longrightarrow> c \<le> tsize t)"

definition fair :: "bool \<Rightarrow> (nat \<Rightarrow> nat) \<Rightarrow> (nat, 'f eclass) jsmap \<Rightarrow> nat \<Rightarrow> extraction \<Rightarrow> bool" where
  "fair ranked f cs l r \<longleftrightarrow> 1 \<le> fst r \<and> (fst r < huge \<longrightarrow> member f cs (snd r) l \<and> tsize (snd r) = fst r) \<and>
     (ranked \<longrightarrow> least f cs l (fst r))"

definition settled :: "bool \<Rightarrow> (nat \<Rightarrow> nat) \<Rightarrow> (nat, 'f eclass) jsmap \<Rightarrow> nat \<Rightarrow> extraction \<Rightarrow> bool" where
  "settled ranked f cs l r \<longleftrightarrow> fair ranked f cs l r \<and> (fst r < huge \<or> r = unknown)"

definition costs_settled :: "bool \<Rightarrow> (nat \<Rightarrow> nat) \<Rightarrow> (nat, 'f eclass) jsmap \<Rightarrow> costs \<Rightarrow> bool" where
  "costs_settled ranked f cs costs \<longleftrightarrow> (\<forall>l r. map_get costs l = Some r \<longrightarrow> settled ranked f cs l r)"

lemma fair_kids:
  assumes "list_all2 (\<lambda>c r. fair ranked f cs (f c) r) ks kids"
  shows "0 \<le> sum_list (map fst kids)"
    and "sum_list (map fst kids) < huge \<Longrightarrow> list_all2 (\<lambda>t c. member f cs t (f c)) (map snd kids) ks \<and>
      sum_list (map (tsize \<circ> snd) kids) = sum_list (map fst kids)"
    and "ranked \<Longrightarrow> list_all2 (\<lambda>t c. member f cs t (f c)) ts ks \<Longrightarrow> sum_list (map fst kids) \<le> sum_list (map tsize ts)"
  using assms
proof (induction arbitrary: ts rule: list_all2_induct)
  case (Cons c ks r kids)
  { case 1 show ?case using Cons by (simp add: fair_def) }
  { case 2 then show ?case using Cons by (auto simp: fair_def) }
  { case 3
    then obtain t ts' where "ts = t # ts'" "member f cs t (f c)" "list_all2 (\<lambda>t c. member f cs t (f c)) ts' ks"
      by (cases ts) auto
    then show ?case using Cons.IH(3)[OF 3(1)] Cons.hyps(1) 3(1) by (fastforce simp: fair_def least_def) }
qed simp_all

lemma considered_least:
  assumes "list_all2 (considered (\<lambda>c r. fair True f cs (f c) r)) (class_nodes cs l) rs" and "member f cs t l"
  shows "\<exists>r\<in>set rs. fst r \<le> tsize t"
proof -
  have ex: "\<exists>r\<in>set rs. considered (\<lambda>c r. fair True f cs (f c) r) n r" if "n \<in> set (class_nodes cs l)" for n
    using assms(1) that unfolding list_all2_conv_all_nth by (metis in_set_conv_nth)
  from assms(2) show ?thesis
  proof (rule memberE)
    fix n assume n: "t = Lit (lit_of_op (en_op n))" "n \<in> set (class_nodes cs l)" "starts_with (en_op n) ''lit:''"
    show ?thesis using ex[OF n(2)] n by (auto simp: considered_def intro!: bexI[of _ "(1, Lit (lit_of_op (en_op n)))"])
  next
    fix n ts assume n: "t = App (en_op n) ts" "n \<in> set (class_nodes cs l)" "\<not> starts_with (en_op n) ''lit:''"
      "list_all2 (\<lambda>t c. member f cs t (f c)) ts (en_children n)"
    obtain r kids where r: "r \<in> set rs" "list_all2 (\<lambda>c r. fair True f cs (f c) r) (en_children n) kids" "r = node_term n kids"
      using ex[OF n(2)] n(3) by (auto simp: considered_def)
    have "fst r \<le> tsize t" using fair_kids(3)[OF r(2) _ n(4)] by (simp add: r(3) n(1) node_term_def)
    then show ?thesis using r(1) by blast
  qed
qed

lemma considered_member:
  assumes "considered (\<lambda>c r. fair ranked f cs (f c) r) n r" and "n \<in> set (class_nodes cs l)"
  shows "1 \<le> fst r" and "fst r < huge \<Longrightarrow> member f cs (snd r) l \<and> tsize (snd r) = fst r"
proof -
  have "1 \<le> fst r \<and> (fst r < huge \<longrightarrow> member f cs (snd r) l \<and> tsize (snd r) = fst r)"
  proof (cases "starts_with (en_op n) ''lit:''")
    case True
    then show ?thesis using assms by (auto simp: considered_def intro: member_lit)
  next
    case False
    then obtain kids where k: "list_all2 (\<lambda>c r. fair ranked f cs (f c) r) (en_children n) kids" "r = node_term n kids"
      using assms(1) by (auto simp: considered_def)
    then show ?thesis
      using fair_kids(1,2)[OF k(1)] member_app[OF assms(2) False] by (auto simp: node_term_def o_def)
  qed
  then show "1 \<le> fst r" "fst r < huge \<Longrightarrow> member f cs (snd r) l \<and> tsize (snd r) = fst r" by auto
qed

lemma best_settled:
  assumes rs: "list_all2 (considered (\<lambda>c r. fair ranked f cs (f c) r)) (class_nodes cs l) rs"
  shows "settled ranked f cs l (fold keep_best rs unknown)"
proof -
  let ?b = "fold keep_best rs unknown"
  have low: "ranked \<Longrightarrow> least f cs l (fst ?b)"
    unfolding least_def using considered_least[of f cs l rs] rs fold_keep_best(2)[of _ rs unknown] by force
  consider "?b = unknown" | "?b \<in> set rs" "fst ?b < huge"
    using fold_keep_best(3)[of rs unknown] by (auto simp: unknown_def)
  then show ?thesis
  proof cases
    case 1
    then show ?thesis using low by (simp add: settled_def fair_def unknown_def huge_def)
  next
    case 2
    then obtain n where "n \<in> set (class_nodes cs l)" "considered (\<lambda>c r. fair ranked f cs (f c) r) n ?b"
      using rs by (metis in_set_conv_nth list_all2_conv_all_nth)
    then have "1 \<le> fst ?b" "member f cs (snd ?b) l \<and> tsize (snd ?b) = fst ?b" using considered_member 2(2) by blast+
    then show ?thesis using 2(2) low by (simp add: settled_def fair_def)
  qed
qed

lemma class_nodes_key: "n \<in> set (class_nodes cs l) \<Longrightarrow> l \<in> fst ` set cs"
  by (cases "map_of cs l") (auto simp: class_nodes_def map_get_def dest: map_of_SomeD intro: rev_image_eqI)

text \<open>The depth bound suffices, and every recorded extraction is settled.\<close>

lemma extract_ref_returns:
  assumes "ranked \<Longrightarrow> layered rk f cs"
  shows "card (fst ` set cs - set visiting) < k \<Longrightarrow> costs_settled ranked f cs costs \<Longrightarrow>
    (ranked \<Longrightarrow> \<forall>v\<in>set visiting. rk (f i) < rk v) \<Longrightarrow>
    \<exists>costs' r. extract_ref k f cs visiting i costs = Some (costs', r) \<and> costs_settled ranked f cs costs' \<and>
      fair ranked f cs (f i) r \<and> (f i \<notin> set visiting \<longrightarrow> settled ranked f cs (f i) r)"
proof (induction k arbitrary: visiting i costs)
  case (Suc k)
  show ?case
  proof (cases "map_get costs (f i) \<noteq> None \<or> f i \<in> set visiting")
    case True
    have cyc: "fair ranked f cs (f i) cyclic" if "f i \<in> set visiting"
      using Suc.prems(3) that by (auto simp: fair_def cyclic_def huge_def)
    show ?thesis
    proof (cases "map_get costs (f i)")
      case None
      then show ?thesis using True cyc Suc.prems(2) by (cases cyclic) simp
    next
      case (Some r)
      then have "settled ranked f cs (f i) r" using Suc.prems(2) unfolding costs_settled_def by blast
      then show ?thesis using Some Suc.prems(2) by (cases r) (simp add: settled_def)
    qed
  next
    case False
    let ?vs = "f i # visiting" and ?ns = "class_nodes cs (f i)"
    have kids: "\<exists>costs' r. extract_ref k f cs ?vs c s = Some (costs', r) \<and> costs_settled ranked f cs costs' \<and> fair ranked f cs (f c) r"
      if "n \<in> set ?ns" "\<not> starts_with (en_op n) ''lit:''" "c \<in> set (en_children n)" "costs_settled ranked f cs s" for n c s
    proof -
      have "f i \<in> fst ` set cs - set visiting"
        using class_nodes_key[OF that(1)] False by simp
      then have "card (fst ` set cs - set ?vs) < card (fst ` set cs - set visiting)"
        by (intro psubset_card_mono) auto
      then have "card (fst ` set cs - set ?vs) < k" using Suc.prems(1) by simp
      moreover have "\<forall>v\<in>set ?vs. rk (f c) < rk v" if "ranked"
      proof -
        have "rk (f c) < rk (f i)" using assms[OF that] \<open>n \<in> _\<close> \<open>c \<in> _\<close> \<open>\<not> starts_with _ _\<close> by (auto simp: layered_def)
        then show ?thesis using Suc.prems(3)[OF that] by fastforce
      qed
      ultimately show ?thesis using Suc.IH[of ?vs s c] that(4) by blast
    qed
    have "\<exists>s' rs. best_node (extract_ref k f cs ?vs) ?ns costs unknown = Some (s', fold keep_best rs unknown) \<and>
      costs_settled ranked f cs s' \<and> list_all2 (considered (\<lambda>c r. fair ranked f cs (f c) r)) ?ns rs"
      by (rule best_node_returns, rule kids) (simp_all add: Suc.prems(2))
    then obtain s' rs where b: "best_node (extract_ref k f cs ?vs) ?ns costs unknown = Some (s', fold keep_best rs unknown)"
      "costs_settled ranked f cs s'" "list_all2 (considered (\<lambda>c r. fair ranked f cs (f c) r)) ?ns rs" by blast
    have "settled ranked f cs (f i) (fold keep_best rs unknown)" by (rule best_settled[OF b(3)])
    moreover from this have "costs_settled ranked f cs (map_set s' (f i) (fold keep_best rs unknown))"
      using b(2) unfolding costs_settled_def by (auto simp: js.get_put)
    ultimately have "settled ranked f cs (f i) (fold keep_best rs unknown)"
      "costs_settled ranked f cs (map_set s' (f i) (fold keep_best rs unknown))" by blast+
    moreover have "map_get costs (f i) = None" "f i \<notin> set visiting" using False by blast+
    ultimately show ?thesis using b(1)
      by (intro exI[of _ "map_set s' (f i) (fold keep_best rs unknown)"] exI[of _ "fold keep_best rs unknown"]) (simp add: settled_def)
  qed
qed simp

text \<open>The term extraction picks, as a function of the roots and the classes.\<close>

definition pick :: "(nat \<Rightarrow> nat) \<Rightarrow> (nat, 'f eclass) jsmap \<Rightarrow> nat \<Rightarrow> eterm" where
  "pick f cs i = snd (snd (the (extract_ref (length cs + 1) f cs [] i [])))"

lemma pick_settled:
  assumes "ranked \<Longrightarrow> layered rk f cs"
  shows "\<exists>costs c. extract_ref (length cs + 1) f cs [] i [] = Some (costs, c, pick f cs i) \<and> settled ranked f cs (f i) (c, pick f cs i)"
proof -
  have "card (fst ` set cs) \<le> length cs" by (metis card_length length_map list.set_map)
  then have "card (fst ` set cs - set []) < length cs + 1" by simp
  moreover have "costs_settled ranked f cs []" by (simp add: costs_settled_def)
  ultimately show ?thesis
    using extract_ref_returns[OF assms, where visiting = "[]" and k = "length cs + 1" and costs = "[]" and i = i]
    unfolding pick_def by fastforce
qed

lemma extractOne_returns:
  assumes "eg_ok g"
  shows "\<exists>g'. extractOne g i = Some (g', pick (croot g) (eg_classes g) i) \<and> same_but_paths g g'"
proof -
  have "follows (eg_uf g) (extract_class (length (eg_classes g) + 1) (eg_classes g) [] i (eg_uf g, []))
      (extract_ref (length (eg_classes g) + 1) (rep (eg_uf g)) (eg_classes g) [] i [])"
    by (rule extract_follows[OF eg_ok_uf[OF assms]])
  then show ?thesis using pick_settled[of False "\<lambda>x. x" "croot g" "eg_classes g" i]
    by (fastforce simp: follows_def extractOne_def same_but_paths_def simp del: extract_class.simps extract_ref.simps)
qed

section \<open>A literal is read back\<close>

lemma json_code_cases:
  obtains "(of_char c :: nat) \<in> {8, 9, 10, 12, 13, 34, 92}" | "(of_char c :: nat) < 32" "(of_char c :: nat) \<notin> {8, 9, 10, 12, 13}"
  | "\<not> (of_char c :: nat) < 32" "(of_char c :: nat) \<notin> {34, 92}"
  by fastforce

lemma char_literals: "char_of (92 :: nat) = CHR 0x5C" "char_of (48 :: nat) = CHR ''0''" "char_of (34 :: nat) = CHR 0x22"
  by code_simp+

lemma int_code: "(of_char c :: int) = int (of_char c)"
  by (simp add: of_nat_of_char)

lemma char_of_int_code: "of_char c = (numeral k :: nat) \<Longrightarrow> char_of (numeral k :: int) = c"
  by (metis char_of_char char_code_eq)

lemma hex_code_digit: "d < 16 \<Longrightarrow> hex_code (hex_digit d) = Some (int d)"
  by (auto simp: hex_code_def hex_digit_def Let_def int_code)

lemma read_string_char: "read_string (json_char c @ x) = map_option (\<lambda>r. c # r) (read_string x)"
proof -
  have n: "char_of (of_char c :: nat) = c" by simp
  show ?thesis
  proof (cases c rule: json_code_cases)
    case 1
    then consider "of_char c = (8::nat)" | "of_char c = (9::nat)" | "of_char c = (10::nat)" | "of_char c = (12::nat)"
      | "of_char c = (13::nat)" | "of_char c = (34::nat)" | "of_char c = (92::nat)" by auto
    then show ?thesis
      by cases (use char_of_int_code[of c] in \<open>auto simp: json_char_def int_code escape_char_def\<close>)
  next
    case 2
    let ?n = "of_char c :: nat"
    have "?n div 16 < 16" "?n mod 16 < 16" "16 * int (?n div 16) + int (?n mod 16) = int ?n" using 2(1) by (simp_all add: zmod_int zdiv_int)
    moreover have "char_of (int ?n) = c" by (metis char_of_char of_nat_of_char)
    moreover have "json_char c = CHR 0x5C # ''u00'' @ [hex_digit (?n div 16), hex_digit (?n mod 16)]"
      using 2 by (simp add: json_char_def Let_def char_literals)
    moreover have "hex_code (CHR ''0'') = Some 0" by code_simp
    ultimately show ?thesis by (simp add: hex_code_digit)
  next
    case 3
    then show ?thesis by (auto simp: json_char_def int_code Let_def simp del: of_nat_of_char)
  qed
qed

lemma read_string_quote: "read_string (concat (map json_char s) @ [CHR 0x22]) = Some s"
  by (induction s) (simp_all add: read_string_char)

lemma nat_str_head: "hd (nat_str n) = CHR ''0'' \<Longrightarrow> length (nat_str n) = 1"
proof (induction n rule: nat_str.induct)
  case (1 n)
  show ?case
  proof (cases "n < 10")
    case False
    then have "hd (nat_str n) = hd (nat_str (n div 10))" by (subst nat_str.simps) simp
    then have "length (nat_str (n div 10)) = 1" "hd (nat_str (n div 10)) = CHR ''0''" using 1 False by simp_all
    then have "nat_str (n div 10) = nat_str 0" by (cases "nat_str (n div 10)") (auto simp: nat_str.simps[of 0] char_literals)
    then show ?thesis using False by simp
  qed (subst nat_str.simps, simp)
qed

lemma read_nat_str: "read_nat (nat_str n) = Some (int n)"
  using nat_str_head[of n] by (simp add: read_nat_def nat_str_digits digits_int)

lemma json_trim_id: "s \<noteq> [] \<Longrightarrow> \<not> json_space (hd s) \<Longrightarrow> \<not> json_space (last s) \<Longrightarrow> json_trim s = s"
proof -
  assume "s \<noteq> []" "\<not> json_space (hd s)" "\<not> json_space (last s)"
  then have "dropWhile json_space s = s" "dropWhile json_space (rev s) = rev s"
    by (simp_all add: dropWhile_eq_self_iff hd_rev)
  then show ?thesis by (simp add: json_trim_def)
qed

lemma digit_not_space: "is_digit c \<Longrightarrow> \<not> json_space c"
  by (auto simp: is_digit_def json_space_def Let_def int_code simp del: of_nat_of_char)

lemma nat_str_last: "is_digit (last (nat_str n))"
  using nat_str_digits[of n] nat_str_ne[of n] by (simp add: list_all_iff)

lemma int_str_shape:
  "int_str i \<noteq> []" "\<not> json_space (hd (int_str i))" "\<not> json_space (last (int_str i))"
  "hd (int_str i) \<noteq> CHR ''n''" "hd (int_str i) \<noteq> CHR ''t''" "hd (int_str i) \<noteq> CHR ''f''" "hd (int_str i) \<noteq> CHR 0x22"
proof -
  have hd: "is_digit c \<or> c = CHR ''-'' \<Longrightarrow> \<not> json_space c \<and> c \<noteq> CHR ''n'' \<and> c \<noteq> CHR ''t'' \<and> c \<noteq> CHR ''f'' \<and> c \<noteq> CHR 0x22" for c
    using digit_not_space by (auto simp: is_digit_def json_space_def)
  show "int_str i \<noteq> []" by (simp add: int_str_def)
  show "\<not> json_space (hd (int_str i))" "hd (int_str i) \<noteq> CHR ''n''" "hd (int_str i) \<noteq> CHR ''t''" "hd (int_str i) \<noteq> CHR ''f''"
    "hd (int_str i) \<noteq> CHR 0x22" using hd[of "hd (int_str i)"] int_str_hd[of i] by blast+
  show "\<not> json_space (last (int_str i))" using hd nat_str_last by (simp add: int_str_def)
qed

lemma read_int_str: "read_scalar (int_str i) = Some (LNum i)"
proof -
  have t: "json_trim (int_str i) = int_str i" by (rule json_trim_id) (rule int_str_shape)+
  have n: "int_str i \<noteq> ''null''" "int_str i \<noteq> ''true''" "int_str i \<noteq> ''false''" using int_str_shape(4,5,6)[of i] by auto
  obtain c r where cr: "int_str i = c # r" using int_str_shape(1)[of i] by (cases "int_str i") auto
  show ?thesis
  proof (cases "i < 0")
    case True
    then have "c = CHR ''-''" "r = nat_str (nat (- i))" using cr by (auto simp: int_str_def)
    then show ?thesis using True t n cr by (simp add: read_scalar_def read_nat_str Let_def)
  next
    case False
    then have s: "c # r = nat_str (nat i)" using cr by (simp add: int_str_def)
    then have "c \<noteq> CHR ''-''" using nat_str_dash[of "nat i" "[]" r] by (cases "c = CHR ''-''") auto
    moreover have "c \<noteq> CHR 0x22" using int_str_shape(7)[of i] cr by simp
    moreover have "read_nat (c # r) = Some i" using read_nat_str[of "nat i"] s False by simp
    ultimately show ?thesis using t n unfolding cr by (simp add: read_scalar_def Let_def)
  qed
qed

lemma read_scalar_lit: "read_scalar (json_lit v) = Some v"
proof (cases v)
  case (LStr s)
  have "json_quote s = CHR 0x22 # concat (map json_char s) @ [CHR 0x22]" by (simp add: json_quote_def char_literals)
  moreover from this have "json_trim (json_quote s) = json_quote s" by (intro json_trim_id) (simp_all add: json_space_def)
  ultimately show ?thesis using LStr by (simp add: json_lit_def read_scalar_def read_string_quote Let_def)
next
  case (LNum i)
  then show ?thesis by (simp add: json_lit_def read_int_str)
next
  case (LBool b)
  have "read_scalar ''true'' = Some (LBool True)" "read_scalar ''false'' = Some (LBool False)" by code_simp+
  then show ?thesis using LBool by (simp add: json_lit_def)
next
  case LNull
  have "read_scalar ''null'' = Some LNull" by code_simp
  then show ?thesis using LNull by (simp add: json_lit_def)
qed

lemma lit_of_op_lit [simp]: "lit_of_op (lit_op v) = v"
  by (simp add: lit_of_op_def lit_op_def read_scalar_lit)

section \<open>Extraction is sound\<close>

text \<open>Claim C39: on every graph the operations can produce, extraction returns and changes nothing but path
  compression. Its result is \<open>?\<close> or a term of the class, of size below 10^9; the cycle placeholder never
  shows. When no class contains itself, the result is a smallest term of the class if there is one below 10^9.\<close>

theorem extraction_sound:
  assumes "eg_reachable g"
  shows "\<exists>g' t. extractOne g i = Some (g', t) \<and> same_but_paths g g' \<and>
    (t = App ''?'' [] \<or> member (croot g) (eg_classes g) t (croot g i) \<and> tsize t < 10 ^ 9) \<and>
    (\<forall>rk. layered rk (croot g) (eg_classes g) \<longrightarrow>
      (\<forall>s. member (croot g) (eg_classes g) s (croot g i) \<and> tsize s < 10 ^ 9 \<longrightarrow>
        member (croot g) (eg_classes g) t (croot g i) \<and> tsize t \<le> tsize s))"
proof -
  let ?t = "pick (croot g) (eg_classes g) i"
  have huge: "huge = 10 ^ 9" by (simp add: huge_def)
  obtain g' where "extractOne g i = Some (g', ?t)" "same_but_paths g g'"
    using extractOne_returns[OF reachable_eg_ok[OF assms]] by blast
  moreover obtain c where "settled False (croot g) (eg_classes g) (croot g i) (c, ?t)"
    using pick_settled[of False "\<lambda>x. x" "croot g" "eg_classes g" i] by auto
  then have "?t = App ''?'' [] \<or> member (croot g) (eg_classes g) ?t (croot g i) \<and> tsize ?t < 10 ^ 9"
    by (auto simp: settled_def fair_def unknown_def huge)
  moreover have "member (croot g) (eg_classes g) ?t (croot g i) \<and> tsize ?t \<le> tsize s"
    if rk: "layered rk (croot g) (eg_classes g)" and s: "member (croot g) (eg_classes g) s (croot g i)" "tsize s < 10 ^ 9" for rk s
  proof -
    obtain c where "settled True (croot g) (eg_classes g) (croot g i) (c, ?t)"
      using pick_settled[of True rk "croot g" "eg_classes g" i] rk by auto
    then show ?thesis using s by (fastforce simp: settled_def fair_def least_def unknown_def huge)
  qed
  ultimately show ?thesis by blast
qed

theorem extraction_sound_witness:
  "\<exists>g' t. extractOne sample_graph 4 = Some (g', t) \<and> same_but_paths sample_graph g' \<and>
    (t = App ''?'' [] \<or> member (croot sample_graph) (eg_classes sample_graph) t (croot sample_graph 4))"
  using extraction_sound[OF sample_graph_reachable, of 4] by blast

end
