(* ===== verification/EGraphSaturate.thy ===== *)
theory EGraphSaturate
  imports EGraphMatch
begin

text \<open>
  Equality saturation (\<open>saturate.ts\<close>) and the exploration of migrations (\<open>migration.ts\<close>). A guard of a
  rule is a predicate that leaves the graph alone. Not modelled is \<open>migrateFromFixHint\<close>, which parses a
  hint with a Unicode regular expression and then calls what is modelled here.
\<close>

section \<open>Rules and the runner\<close>

record 'f rewrite =
  rw_name :: string
  rw_lhs :: eterm
  rw_rhs :: eterm
  rw_when :: "(subst \<Rightarrow> 'f egraph \<Rightarrow> nat \<Rightarrow> bool) option"

record runner_config =
  rc_maxIterations :: "nat option"
  rc_nodeLimit :: "int option"
  rc_untilSaturated :: "bool option"

record runner_result =
  rr_iterations :: nat
  rr_saturated :: bool
  rr_stats :: egraph_stats
  rr_applied :: "(string \<times> nat) list"

text \<open>The default of an option, \<open>config.x ?? d\<close>.\<close>

definition default_to :: "'a \<Rightarrow> 'a option \<Rightarrow> 'a" where
  "default_to d v = (case v of None \<Rightarrow> d | Some x \<Rightarrow> x)"

lemma default_to_Some [simp]: "default_to d (Some x) = x"
  by (simp add: default_to_def)

type_synonym 'f found = "'f rewrite \<times> subst \<times> nat"

definition rule_allows :: "'f rewrite \<Rightarrow> 'f egraph \<Rightarrow> subst \<times> nat \<Rightarrow> bool" where
  "rule_allows r g m = (case rw_when r of None \<Rightarrow> True | Some p \<Rightarrow> p (fst m) g (snd m))"

definition rule_matches :: "'f rewrite \<Rightarrow> 'f egraph \<Rightarrow> ('f egraph \<times> 'f found list) option" where
  "rule_matches r g =
     map_option (\<lambda>(g1, ms). (g1, map (\<lambda>m. (r, m)) (filter (rule_allows r g1) ms))) (ematch (rw_lhs r) g)"

text \<open>Applying the matches of a round; an error is a right-hand side with a variable left, and is skipped.\<close>

fun apply_matches :: "'f found list \<Rightarrow> 'f egraph \<Rightarrow> ('f egraph \<times> (string \<times> nat) list) option" where
  "apply_matches [] g = Some (g, [])"
| "apply_matches ((r, s, c) # ms) g =
     Option.bind (applySubst s (rw_rhs r)) (\<lambda>t.
     Option.bind (eg_add g t) (\<lambda>a. case a of
         Inl e \<Rightarrow> apply_matches ms g
       | Inr (g1, i) \<Rightarrow>
           Option.bind (eg_union g1 c i) (\<lambda>(g2, merged).
             map_option (apsnd (\<lambda>fired. if merged then (rw_name r, c) # fired else fired)) (apply_matches ms g2))))"

definition saturate_round :: "'f rewrite list \<Rightarrow> 'f egraph \<Rightarrow> ('f egraph \<times> (string \<times> nat) list) option" where
  "saturate_round rules g =
     Option.bind (thread rule_matches rules g) (\<lambda>(g1, ms).
     Option.bind (apply_matches (concat ms) g1) (\<lambda>(g2, fired).
       map_option (\<lambda>g3. (g3, fired)) (rebuild g2)))"

text \<open>The loop with \<open>k\<close> iterations left of which \<open>i\<close> are over.\<close>

fun saturate_from ::
  "nat \<Rightarrow> int \<Rightarrow> bool \<Rightarrow> 'f rewrite list \<Rightarrow> nat \<Rightarrow> (string \<times> nat) list \<Rightarrow> 'f egraph \<Rightarrow> ('f egraph \<times> nat \<times> bool \<times> (string \<times> nat) list) option" where
  "saturate_from 0 limit until rules i applied g = Some (g, i, False, applied)"
| "saturate_from (Suc k) limit until rules i applied g =
     (if limit < int (st_nodes (stats g)) then Some (g, i + 1, False, applied)
      else Option.bind (saturate_round rules g) (\<lambda>(g1, fired).
             if fired = [] \<and> until then Some (g1, i + 1, True, applied @ fired)
             else saturate_from k limit until rules (i + 1) (applied @ fired) g1))"

definition saturate :: "'f egraph \<Rightarrow> 'f rewrite list \<Rightarrow> runner_config \<Rightarrow> ('f egraph \<times> runner_result) option" where
  "saturate g rules cfg =
     map_option (\<lambda>(g1, n, sat, applied).
         (g1, \<lparr>rr_iterations = n, rr_saturated = sat, rr_stats = stats g1, rr_applied = applied\<rparr>))
       (saturate_from (default_to 30 (rc_maxIterations cfg)) (default_to 50000 (rc_nodeLimit cfg))
          (default_to True (rc_untilSaturated cfg)) rules 0 [] g)"

text \<open>The cost functions; \<open>extract\<close> ignores the one it is given.\<close>

type_synonym cost_fn = "string \<Rightarrow> rat list \<Rightarrow> rat"

definition astSizeCost :: cost_fn where
  "astSizeCost op kids = 1 + sum_list kids"

definition migrationCost :: "string list \<Rightarrow> cost_fn" where
  "migrationCost preferOps op kids =
     (let base = 1 + sum_list kids
      in if op \<in> set preferOps then base - 1 / 4
         else if starts_with op ''legacy_'' \<or> starts_with op ''old_'' then base + 2
         else base)"

definition extractTerm :: "'f egraph \<Rightarrow> nat \<Rightarrow> cost_fn \<Rightarrow> ('f egraph \<times> eterm) option" where
  "extractTerm g i cost = extractOne g i"

definition extractPretty :: "'f egraph \<Rightarrow> nat \<Rightarrow> ('f egraph \<times> string) option" where
  "extractPretty g i = map_option (apsnd pretty) (extractTerm g i astSizeCost)"

section \<open>Migration rules\<close>

definition structuralMigrationRules :: "'f rewrite list" where
  "structuralMigrationRules =
     [\<lparr>rw_name = ''legacy_page_to_cursor'',
       rw_lhs = App ''paginate'' [Var ''req'', App ''page'' [Var ''n'']],
       rw_rhs = App ''paginate'' [Var ''req'', App ''cursor'' [Lit LNull]], rw_when = None\<rparr>,
      \<lparr>rw_name = ''prefer_auto_paging'',
       rw_lhs = App ''paginate'' [Var ''req'', App ''page'' [Var ''n'']],
       rw_rhs = App ''autoPagingToArray'' [Var ''req'', Lit (LNum 1000)], rw_when = None\<rparr>]"

definition fieldRenameRules :: "string \<Rightarrow> string \<Rightarrow> 'f rewrite list" where
  "fieldRenameRules from to =
     (if from = [] \<or> to = [] \<or> from = to then []
      else
       [\<lparr>rw_name = ''rename_field_'' @ from @ ''_to_'' @ to,
         rw_lhs = App ''field'' [Lit (LStr from)], rw_rhs = App ''field'' [Lit (LStr to)], rw_when = None\<rparr>,
        \<lparr>rw_name = ''rename_param_'' @ from @ ''_to_'' @ to,
         rw_lhs = App ''param'' [Lit (LStr from), Var ''n''], rw_rhs = App ''param'' [Lit (LStr to), Var ''n''], rw_when = None\<rparr>,
        \<lparr>rw_name = ''rename_access_'' @ from @ ''_to_'' @ to,
         rw_lhs = App ''access'' [Lit (LStr from)], rw_rhs = App ''access'' [Lit (LStr to)], rw_when = None\<rparr>,
        \<lparr>rw_name = ''rename_sdk_body_'' @ from @ ''_to_'' @ to,
         rw_lhs = App ''sdk'' [Var ''method'', Var ''body''],
         rw_rhs = App ''sdk'' [Var ''method'', App ''rename_field'' [Var ''body'', Lit (LStr from), Lit (LStr to)]], rw_when = None\<rparr>])"

record explore_result =
  me_original :: string
  me_extracted :: string
  me_equivalent :: bool
  me_iterations :: nat
  me_appliedRules :: "string list"
  me_stats :: egraph_stats

definition explore_from :: "'f egraph \<Rightarrow> nat \<Rightarrow> 'f rewrite list \<Rightarrow> nat option \<Rightarrow> explore_result option" where
  "explore_from g start rules maxIterations =
     Option.bind (saturate g rules \<lparr>rc_maxIterations = Some (default_to 20 maxIterations), rc_nodeLimit = Some 10000, rc_untilSaturated = None\<rparr>) (\<lambda>(g1, run).
     Option.bind (extractPretty g1 start) (\<lambda>(g2, extracted).
     map_option (\<lambda>(g3, original).
        \<lparr>me_original = original, me_extracted = extracted, me_equivalent = True, me_iterations = rr_iterations run,
         me_appliedRules = uniq (map fst (rr_applied run)), me_stats = rr_stats run\<rparr>)
       (extractPretty g2 start)))"

definition exploreMigration :: "eterm \<Rightarrow> 'f rewrite list \<Rightarrow> nat option \<Rightarrow> explore_result result option" where
  "exploreMigration t rules maxIterations =
     Option.bind (eg_add eg_empty t) (\<lambda>r. case r of
         Inl e \<Rightarrow> Some (Inl e)
       | Inr (g, start) \<Rightarrow> map_option Inr (explore_from g start rules maxIterations))"

definition migrateFieldAccess :: "string \<Rightarrow> string \<Rightarrow> explore_result result option" where
  "migrateFieldAccess from to =
     exploreMigration (App ''field'' [Lit (LStr from)])
       (fieldRenameRules from to @ (structuralMigrationRules :: unit rewrite list)) None"

fun compareMigrationStrategies :: "eterm \<Rightarrow> (string \<times> 'f rewrite list) list \<Rightarrow> (string \<times> explore_result) list result option" where
  "compareMigrationStrategies t [] = Some (Inr [])"
| "compareMigrationStrategies t ((name, rules) # ss) =
     Option.bind (exploreMigration t rules None) (\<lambda>r. case r of
         Inl e \<Rightarrow> Some (Inl e)
       | Inr x \<Rightarrow> map_option (map_sum id (\<lambda>xs. (name, x) # xs)) (compareMigrationStrategies t ss))"

section \<open>Matching returns\<close>

definition ground_subst :: "subst \<Rightarrow> bool" where
  "ground_subst s \<longleftrightarrow> (\<forall>x t. map_get s x = Some t \<longrightarrow> isGround t)"

lemma ground_subst_Nil [simp]: "ground_subst []"
  by (simp add: ground_subst_def)

lemma ground_subst_set: "ground_subst s \<Longrightarrow> isGround t \<Longrightarrow> ground_subst (map_set s x t)"
  unfolding ground_subst_def by (auto simp: js.get_put)

lemma applySubsts_ground: "list_all isGround ts \<Longrightarrow> applySubsts s ts = Some ts"
proof (induction ts rule: measure_induct_rule[of "size_list size"])
  case (less ts)
  show ?case
  proof (cases ts)
    case (Cons t rest)
    then have "applySubsts s rest = Some rest" using less by simp
    moreover have "t = App f us \<Longrightarrow> applySubsts s us = Some us" for f us using less Cons by simp
    ultimately show ?thesis using Cons less.prems by (subst applySubsts.simps) (cases t; simp)
  qed (subst applySubsts.simps, simp)
qed

lemma applySubst_ground: "isGround t \<Longrightarrow> applySubst s t = Some t"
  by (simp add: applySubst_def applySubsts_ground)

lemma applySubsts_returns: "ground_subst s \<Longrightarrow> \<exists>ts'. applySubsts s ts = Some ts'"
proof (induction ts rule: measure_induct_rule[of "size_list size"])
  case (less ts)
  show ?case
  proof (cases ts)
    case (Cons t rest)
    then obtain rest' where r: "applySubsts s rest = Some rest'" using less by fastforce
    have "\<exists>t'. (case t of Var x \<Rightarrow> (case map_get s x of None \<Rightarrow> Some [t] | Some r \<Rightarrow> applySubsts s [r])
        | Lit v \<Rightarrow> Some [t] | App f us \<Rightarrow> Option.bind (applySubsts s us) (\<lambda>us'. Some [App f us'])) = Some t'"
    proof (cases t)
      case (Var x)
      then show ?thesis using less.prems applySubsts_ground[of _ s] by (auto simp: ground_subst_def split: option.splits)
    next
      case (App f us)
      then obtain us' where "applySubsts s us = Some us'" using less Cons by fastforce
      then show ?thesis using App by simp
    qed simp
    then show ?thesis using r Cons by (subst applySubsts.simps) auto
  qed (subst applySubsts.simps, simp)
qed

lemma applySubst_returns: "ground_subst s \<Longrightarrow> \<exists>t'. applySubst s t = Some t'"
  using applySubsts_returns[of s "[t]"] by (auto simp: applySubst_def)

lemma member_ground: "member f cs t l \<Longrightarrow> isGround t"
proof (induction rule: member.induct)
  case (member_app n l ts)
  have "list_all isGround us" if "list_all2 (\<lambda>t c. member f cs t (f c) \<and> isGround t) us ks" for us ks
    using that by induction auto
  then show ?case using member_app by simp
qed simp

lemma pick_ground: "isGround (pick f cs i)"
proof -
  obtain c where "settled False f cs (f i) (c, pick f cs i)" using pick_settled[of False "\<lambda>x. x" f cs i] by auto
  then have "member f cs (pick f cs i) (f i) \<or> pick f cs i = App ''?'' []"
    by (auto simp: settled_def fair_def unknown_def)
  then show ?thesis using member_ground by fastforce
qed

text \<open>An operation that reads or adds: the graph stays reachable, and no class changes its leader.\<close>

definition kept :: "'f egraph \<Rightarrow> 'f egraph \<Rightarrow> bool" where
  "kept g g' \<longleftrightarrow> eg_reachable g' \<and> croot g' = croot g"

named_theorems kept_rules \<open>operations under which a graph is kept\<close>

lemma kept_refl: "eg_reachable g \<Longrightarrow> kept g g"
  by (simp add: kept_def)

lemma kept_trans: "kept a b \<Longrightarrow> kept b c \<Longrightarrow> kept a c"
  by (simp add: kept_def)

lemma kept_reachable: "kept g g' \<Longrightarrow> eg_reachable g'"
  by (simp add: kept_def)

lemma kept_paths: "eg_reachable g \<Longrightarrow> same_but_paths g g' \<Longrightarrow> kept g g'"
  unfolding kept_def using eg_more step_read extends_root[OF same_extends[OF reachable_eg_ok]] by blast

lemma kept_find:
  assumes "eg_reachable g"
  shows "\<exists>u. uf_find (eg_uf g) c = Some (u, croot g c) \<and> kept g (g\<lparr>eg_uf := u\<rparr>)"
proof -
  obtain u where u: "uf_find (eg_uf g) c = Some (u, croot g c)" "keeps (eg_uf g) u"
    using find_returns[OF eg_ok_uf[OF reachable_eg_ok[OF assms]]] by blast
  then show ?thesis using kept_paths[OF assms] unfolding same_but_paths_def by blast
qed

lemma kept_extract:
  assumes "eg_reachable g"
  shows "\<exists>g'. extractOne g i = Some (g', pick (croot g) (eg_classes g) i) \<and> kept g g'"
  using extractOne_returns[OF reachable_eg_ok[OF assms]] kept_paths[OF assms] by blast

lemma kept_add:
  assumes "eg_reachable g" and "isGround t"
  shows "\<exists>g' i. eg_add g t = Some (Inr (g', i)) \<and> kept g g'"
proof -
  obtain g' i where "eg_add g t = Some (Inr (g', i))" "extends g g'"
    using eg_add_returns[OF reachable_eg_ok[OF assms(1)] assms(2)] by blast
  then show ?thesis using eg_more[OF assms(1) step_add] extends_root by (fastforce simp: kept_def)
qed

lemma kept_equiv:
  assumes "eg_reachable g"
  shows "\<exists>g'. equiv_classes g a b = Some (g', croot g a = croot g b) \<and> kept g g'"
  using equiv_returns[OF reachable_eg_ok[OF assms], of a b] eg_more[OF assms step_equiv] by (fastforce simp: kept_def)

definition matches_ok :: "'f egraph \<Rightarrow> ('f egraph \<times> subst list) option \<Rightarrow> bool" where
  "matches_ok g r \<longleftrightarrow> (\<exists>g' ss. r = Some (g', ss) \<and> kept g g' \<and> list_all ground_subst ss)"

lemma matches_okI: "kept g g' \<Longrightarrow> list_all ground_subst ss \<Longrightarrow> matches_ok g (Some (g', ss))"
  by (simp add: matches_ok_def)

lemma matches_ok_trans: "kept g g1 \<Longrightarrow> matches_ok g1 r \<Longrightarrow> matches_ok g r"
  unfolding matches_ok_def using kept_trans by blast

lemma match_var_ok:
  assumes "eg_reachable g" and "ground_subst s"
  shows "matches_ok g (match_var x c s g)"
proof -
  obtain u where u: "uf_find (eg_uf g) c = Some (u, croot g c)" "kept g (g\<lparr>eg_uf := u\<rparr>)" using kept_find[OF assms(1)] by blast
  let ?g = "g\<lparr>eg_uf := u\<rparr>"
  have r: "eg_reachable ?g" by (rule kept_reachable[OF u(2)])
  show ?thesis
  proof (cases "map_get s x")
    case None
    obtain g' where "extractOne ?g (croot g c) = Some (g', pick (croot ?g) (eg_classes ?g) (croot g c))" "kept ?g g'"
      using kept_extract[OF r] by blast
    then show ?thesis using None u kept_trans[OF u(2)] ground_subst_set[OF assms(2) pick_ground]
      by (simp add: match_var_def matches_ok_def)
  next
    case (Some t)
    then have t: "isGround t" using assms(2) by (simp add: ground_subst_def)
    obtain g1 i where g1: "eg_add ?g t = Some (Inr (g1, i))" "kept ?g g1" using kept_add[OF r t] by blast
    obtain g2 b where "equiv_classes g1 i (croot g c) = Some (g2, b)" "kept g1 g2"
      using kept_equiv[OF kept_reachable[OF g1(2)]] by blast
    then show ?thesis using Some u(1) g1 t assms(2) kept_trans[OF kept_trans[OF u(2) g1(2)]]
      by (auto simp: match_var_def matches_ok_def applySubst_ground)
  qed
qed

lemma match_lit_ok:
  assumes "eg_reachable g" and "ground_subst s"
  shows "matches_ok g (match_lit v c s g)"
proof -
  obtain u where u: "uf_find (eg_uf g) c = Some (u, croot g c)" "kept g (g\<lparr>eg_uf := u\<rparr>)" using kept_find[OF assms(1)] by blast
  let ?g = "g\<lparr>eg_uf := u\<rparr>"
  note r = kept_reachable[OF u(2)]
  let ?test = "case map_get (eg_memo ?g) (enodeKey \<lparr>en_op = lit_op v, en_children = []\<rparr>) of
    None \<Rightarrow> Some (?g, False) | Some mid \<Rightarrow> equiv_classes ?g mid (croot g c)"
  have "\<exists>g' hit. ?test = Some (g', hit) \<and> kept ?g g'"
  proof (cases "map_get (eg_memo ?g) (enodeKey \<lparr>en_op = lit_op v, en_children = []\<rparr>)")
    case None
    then show ?thesis using kept_refl[OF r] by (intro exI[of _ ?g] exI[of _ False]) simp
  next
    case (Some mid)
    then show ?thesis using kept_equiv[OF r, of mid "croot g c"] by auto
  qed
  then obtain g' hit where "?test = Some (g', hit)" "kept ?g g'" by blast
  then show ?thesis using u(1) assms(2) kept_trans[OF u(2)] by (simp add: match_lit_def matches_ok_def)
qed

lemma thread_matches_ok:
  assumes "\<And>x g'. x \<in> set xs \<Longrightarrow> kept g g' \<Longrightarrow> matches_ok g' (f x g')" and "eg_reachable g"
  shows "\<exists>g' ys. thread f xs g = Some (g', ys) \<and> kept g g' \<and> list_all ground_subst (concat ys)"
proof -
  have "\<exists>g' ys. thread f xs g = Some (g', ys) \<and> kept g g' \<and> list_all2 (\<lambda>x ss. list_all ground_subst ss) xs ys"
  proof (rule thread_returns)
    show "\<exists>g2 ss. f x g1 = Some (g2, ss) \<and> kept g g2 \<and> list_all ground_subst ss" if "x \<in> set xs" "kept g g1" for x g1
      using assms(1)[OF that] kept_trans[OF that(2)] by (auto simp: matches_ok_def)
  qed (rule kept_refl[OF assms(2)])
  moreover have "list_all ground_subst (concat ys)" if "list_all2 (\<lambda>x ss. list_all ground_subst ss) zs ys" for zs ys
    using that by induction auto
  ultimately show ?thesis by blast
qed

lemma match_children_ok:
  fixes g :: "'f egraph"
  assumes "\<And>p c s (g :: 'f egraph). p \<in> set ps \<Longrightarrow> eg_reachable g \<Longrightarrow> ground_subst s \<Longrightarrow> matches_ok g (match_in p c s g)"
    and "eg_reachable g" and "list_all ground_subst frames"
  shows "matches_ok g (match_children ps ks frames g)"
  using assms
proof (induction ps arbitrary: ks frames g)
  case Nil
  then show ?case by (simp add: matches_ok_def kept_refl)
next
  case (Cons p ps)
  have "\<exists>g' ys. thread (match_in p (hd ks)) frames g = Some (g', ys) \<and> kept g g' \<and> list_all ground_subst (concat ys)"
  proof (rule thread_matches_ok)
    show "matches_ok g1 (match_in p (hd ks) fr g1)" if "fr \<in> set frames" "kept g g1" for fr g1
      by (rule Cons.prems(1)) (use kept_reachable[OF that(2)] Cons.prems(3) that(1) in \<open>simp_all add: list_all_iff\<close>)
  qed (rule Cons.prems(2))
  then obtain g1 ys where t: "thread (match_in p (hd ks)) frames g = Some (g1, ys)" "kept g g1" "list_all ground_subst (concat ys)" by blast
  have "matches_ok g1 (match_children ps (tl ks) (concat ys) g1)"
    by (rule Cons.IH, rule Cons.prems(1)) (simp_all add: kept_reachable[OF t(2)] t(3))
  then show ?case using t(1,2) matches_ok_trans[OF t(2)] by (simp add: matches_okI)
qed

lemma match_ok: "eg_reachable g \<Longrightarrow> ground_subst s \<Longrightarrow> matches_ok g (match_in p c s g)"
proof (induction p arbitrary: c s g)
  case (Var x)
  then show ?case by (simp add: match_var_ok)
next
  case (App f ps)
  obtain u where u: "uf_find (eg_uf g) c = Some (u, croot g c)" "kept g (g\<lparr>eg_uf := u\<rparr>)" using kept_find[OF App.prems(1)] by blast
  have "\<exists>g' ys. thread (match_node (match_children ps) f (length ps) s) (class_nodes (eg_classes g) (croot g c)) (g\<lparr>eg_uf := u\<rparr>) = Some (g', ys) \<and>
      kept (g\<lparr>eg_uf := u\<rparr>) g' \<and> list_all ground_subst (concat ys)"
  proof (rule thread_matches_ok)
    show "matches_ok g1 (match_node (match_children ps) f (length ps) s n g1)" if "kept (g\<lparr>eg_uf := u\<rparr>) g1" for n g1
    proof -
      have "matches_ok g1 (match_children ps (en_children n) [s] g1)"
        by (rule match_children_ok[OF App.IH]) (simp_all add: kept_reachable[OF that] App.prems(2))
      then show ?thesis by (simp add: match_node_def matches_okI kept_refl[OF kept_reachable[OF that]])
    qed
  qed (rule kept_reachable[OF u(2)])
  then show ?case using u(1) kept_trans[OF u(2)] by (auto simp: matches_ok_def)
next
  case (Lit v)
  then show ?case by (simp add: match_lit_ok)
qed

section \<open>Saturation returns\<close>

text \<open>A graph later in a run: classes may have been merged, none separated.\<close>

definition later :: "'f egraph \<Rightarrow> 'f egraph \<Rightarrow> bool" where
  "later g g' \<longleftrightarrow> eg_reachable g' \<and> partition (eg_uf g) \<subseteq> partition (eg_uf g')"

lemma later_refl: "eg_reachable g \<Longrightarrow> later g g"
  by (simp add: later_def)

lemma later_trans: "later a b \<Longrightarrow> later b c \<Longrightarrow> later a c"
  by (auto simp: later_def)

lemma later_reachable: "later g g' \<Longrightarrow> eg_reachable g'"
  by (simp add: later_def)

lemma kept_later: "kept g g' \<Longrightarrow> later g g'"
  by (simp add: kept_def later_def partition_def)

lemma later_union:
  assumes "eg_reachable g"
  shows "\<exists>g' b. eg_union g x y = Some (g', b) \<and> later g g'"
proof -
  obtain g' b where g': "eg_union g x y = Some (g', b)" "grows g g'"
    using eg_union_returns[OF reachable_eg_ok[OF assms], of x y] by blast
  then have "partition (eg_uf g) \<subseteq> partition (eg_uf g')" by (auto simp: grows_def coarsens_def partition_def)
  then show ?thesis using g'(1) eg_more[OF assms step_union] by (fastforce simp: later_def)
qed

lemma later_rebuild:
  assumes "eg_reachable g"
  shows "\<exists>g'. rebuild g = Some g' \<and> later g g' \<and> canonical_graph g'"
proof -
  obtain g' h where g': "rebuild g = Some g'" "canonical_graph g'" "coarsens (eg_uf g) (eg_uf g') h"
    using rebuild_returns[OF reachable_eg_ok[OF assms]] by blast
  then have "partition (eg_uf g) \<subseteq> partition (eg_uf g')" by (auto simp: coarsens_def partition_def)
  then show ?thesis using g' eg_more[OF assms step_rebuild] by (auto simp: later_def)
qed

definition found_ok :: "'f rewrite list \<Rightarrow> 'f found \<Rightarrow> bool" where
  "found_ok rules m \<longleftrightarrow> fst m \<in> set rules \<and> ground_subst (fst (snd m))"

lemma ematch_returns:
  assumes "eg_reachable g"
  shows "\<exists>g' ms. ematch p g = Some (g', ms) \<and> kept g g' \<and> (\<forall>m\<in>set ms. ground_subst (fst m))"
proof -
  have "\<exists>g' ys. thread (\<lambda>i g. map_option (apsnd (map (\<lambda>s. (s, i)))) (match_in p i [] g)) (allClassIds g) g = Some (g', ys) \<and>
      kept g g' \<and> list_all2 (\<lambda>x ms. \<forall>m\<in>set ms. ground_subst (fst m)) (allClassIds g) ys"
  proof (rule thread_returns)
    show "\<exists>g2 ms. map_option (apsnd (map (\<lambda>s. (s, i)))) (match_in p i [] g1) = Some (g2, ms) \<and> kept g g2 \<and> (\<forall>m\<in>set ms. ground_subst (fst m))"
      if "kept g g1" for i g1
      using match_ok[OF kept_reachable[OF that], of "[]" p i] kept_trans[OF that]
      by (auto simp: matches_ok_def list_all_iff)
  qed (rule kept_refl[OF assms])
  moreover have "\<forall>m\<in>set (concat ys). ground_subst (fst m)" if "list_all2 (\<lambda>x ms. \<forall>m\<in>set ms. ground_subst (fst m)) xs ys"
    for xs :: "nat list" and ys :: "(subst \<times> nat) list list"
    using that by induction auto
  ultimately show ?thesis unfolding ematch_def by fastforce
qed

lemma rule_matches_return:
  assumes "eg_reachable g" and "r \<in> set rules"
  shows "\<exists>g' ms. rule_matches r g = Some (g', ms) \<and> kept g g' \<and> list_all (found_ok rules) ms"
proof -
  obtain g' ms where "ematch (rw_lhs r) g = Some (g', ms)" "kept g g'" "\<forall>m\<in>set ms. ground_subst (fst m)"
    using ematch_returns[OF assms(1)] by blast
  then show ?thesis using assms(2) by (auto simp: rule_matches_def found_ok_def list_all_iff)
qed

lemma apply_matches_return:
  "eg_reachable g \<Longrightarrow> list_all (found_ok rules) ms \<Longrightarrow>
    \<exists>g' fired. apply_matches ms g = Some (g', fired) \<and> later g g' \<and> fst ` set fired \<subseteq> rw_name ` set rules"
proof (induction ms arbitrary: g)
  case Nil
  then show ?case by (simp add: later_refl)
next
  case (Cons m ms)
  obtain r s c where m: "m = (r, s, c)" by (cases m) auto
  have r: "r \<in> set rules" and s: "ground_subst s" using Cons.prems(2) by (simp_all add: m found_ok_def)
  obtain t where t: "applySubst s (rw_rhs r) = Some t" using applySubst_returns[OF s] by blast
  show ?case
  proof (cases "isGround t")
    case False
    then have "\<exists>e. eg_add g t = Some (Inl e)" by (simp add: eg_add_def throw_def)
    then show ?thesis using Cons t m by auto
  next
    case True
    obtain g1 i where g1: "eg_add g t = Some (Inr (g1, i))" "kept g g1" using kept_add[OF Cons.prems(1) True] by blast
    obtain g2 b where g2: "eg_union g1 c i = Some (g2, b)" "later g1 g2" using later_union[OF kept_reachable[OF g1(2)]] by blast
    obtain g' fired where "apply_matches ms g2 = Some (g', fired)" "later g2 g'" "fst ` set fired \<subseteq> rw_name ` set rules"
      using Cons.IH[OF later_reachable[OF g2(2)]] Cons.prems(2) by auto
    moreover have "later g g'" if "later g2 g'" for g'
      by (rule later_trans[OF kept_later[OF g1(2)] later_trans[OF g2(2) that]])
    ultimately show ?thesis using r by (auto simp: m t g1(1) g2(1))
  qed
qed

lemma saturate_round_returns:
  assumes "eg_reachable g"
  shows "\<exists>g' fired. saturate_round rules g = Some (g', fired) \<and> later g g' \<and> canonical_graph g' \<and> fst ` set fired \<subseteq> rw_name ` set rules"
proof -
  have "\<exists>g' mss. thread rule_matches rules g = Some (g', mss) \<and> kept g g' \<and> list_all2 (\<lambda>r ms. list_all (found_ok rules) ms) rules mss"
  proof (rule thread_returns)
    show "\<exists>g2 ms. rule_matches r g1 = Some (g2, ms) \<and> kept g g2 \<and> list_all (found_ok rules) ms" if "r \<in> set rules" "kept g g1" for r g1
      using rule_matches_return[OF kept_reachable[OF that(2)] that(1)] kept_trans[OF that(2)] by blast
  qed (rule kept_refl[OF assms])
  then obtain g1 mss where g1: "thread rule_matches rules g = Some (g1, mss)" "kept g g1"
    "list_all2 (\<lambda>r ms. list_all (found_ok rules) ms) rules mss" by blast
  have "list_all (found_ok rules) (concat mss)" if "list_all2 (\<lambda>r ms. list_all (found_ok rules) ms) rs mss" for rs mss
    using that by induction auto
  then obtain g2 fired where g2: "apply_matches (concat mss) g1 = Some (g2, fired)" "later g1 g2" "fst ` set fired \<subseteq> rw_name ` set rules"
    using apply_matches_return[OF kept_reachable[OF g1(2)]] g1(3) by blast
  obtain g3 where g3: "rebuild g2 = Some g3" "later g2 g3" "canonical_graph g3" using later_rebuild[OF later_reachable[OF g2(2)]] by blast
  have "later g g3" by (rule later_trans[OF kept_later[OF g1(2)] later_trans[OF g2(2) g3(2)]])
  then show ?thesis using g3(3) g2(3) by (simp add: saturate_round_def g1(1) g2(1) g3(1))
qed

lemma saturate_from_returns:
  "eg_reachable g \<Longrightarrow> fst ` set applied \<subseteq> rw_name ` set rules \<Longrightarrow>
    \<exists>g' n sat applied'. saturate_from k limit until rules i applied g = Some (g', n, sat, applied') \<and> later g g' \<and> n \<le> i + k \<and>
      fst ` set applied' \<subseteq> rw_name ` set rules \<and> (sat \<longrightarrow> canonical_graph g')"
proof (induction k arbitrary: i applied g)
  case 0
  then show ?case by (auto simp: later_refl)
next
  case (Suc k)
  show ?case
  proof (cases "limit < int (st_nodes (stats g))")
    case True
    then show ?thesis using Suc.prems by (auto simp: later_refl)
  next
    case False
    obtain g1 fired where g1: "saturate_round rules g = Some (g1, fired)" "later g g1" "canonical_graph g1" "fst ` set fired \<subseteq> rw_name ` set rules"
      using saturate_round_returns[OF Suc.prems(1)] by blast
    have a: "fst ` set (applied @ fired) \<subseteq> rw_name ` set rules" using Suc.prems(2) g1(4) by auto
    show ?thesis
    proof (cases "fired = [] \<and> until")
      case True
      then show ?thesis using False g1 Suc.prems(2) by auto
    next
      case more: False
      obtain g' n sat applied' where "saturate_from k limit until rules (i + 1) (applied @ fired) g1 = Some (g', n, sat, applied')"
        "later g1 g'" "n \<le> i + 1 + k" "fst ` set applied' \<subseteq> rw_name ` set rules" "sat \<longrightarrow> canonical_graph g'"
        using Suc.IH[OF later_reachable[OF g1(2)] a] by blast
      then show ?thesis using False more g1(1) later_trans[OF g1(2)] by auto
    qed
  qed
qed

lemma saturate_returns:
  assumes "eg_reachable g"
  shows "\<exists>g' r. saturate g rules cfg = Some (g', r) \<and> later g g' \<and>
    rr_iterations r \<le> default_to 30 (rc_maxIterations cfg) \<and> fst ` set (rr_applied r) \<subseteq> rw_name ` set rules \<and>
    (rr_saturated r \<longrightarrow> canonical_graph g')"
proof -
  have none: "fst ` set [] \<subseteq> rw_name ` set rules" by simp
  obtain g' n sat applied where "saturate_from (default_to 30 (rc_maxIterations cfg)) (default_to 50000 (rc_nodeLimit cfg))
      (default_to True (rc_untilSaturated cfg)) rules 0 [] g = Some (g', n, sat, applied)"
    "later g g'" "n \<le> 0 + default_to 30 (rc_maxIterations cfg)" "fst ` set applied \<subseteq> rw_name ` set rules" "sat \<longrightarrow> canonical_graph g'"
    using saturate_from_returns[OF assms none, where i = 0] by blast
  then show ?thesis
    by (intro exI[of _ g'] exI[of _ "\<lparr>rr_iterations = n, rr_saturated = sat, rr_stats = stats g', rr_applied = applied\<rparr>"])
      (simp add: saturate_def)
qed

text \<open>Claim C40: on every graph the operations can produce, with any rules, guards and bounds, saturation
  returns: within its bound of iterations, having fired only the given rules, having separated nothing, and
  with a canonical graph when it reports saturation.\<close>

theorem saturation_terminates:
  assumes "eg_reachable g"
  shows "\<exists>g' r. saturate g rules cfg = Some (g', r) \<and> eg_reachable g' \<and> partition (eg_uf g) \<subseteq> partition (eg_uf g') \<and>
    rr_iterations r \<le> default_to 30 (rc_maxIterations cfg) \<and> fst ` set (rr_applied r) \<subseteq> rw_name ` set rules \<and>
    (rr_saturated r \<longrightarrow> canonical_graph g')"
  using saturate_returns[OF assms, of rules cfg] unfolding later_def by blast

text \<open>Exploring a ground fragment returns, and the form it reports as the original is the form it extracted:
  both are read after saturation.\<close>

theorem exploration_reports_one_form:
  fixes rules :: "'f rewrite list"
  assumes "isGround t"
  shows "\<exists>x. exploreMigration t rules k = Some (Inr x) \<and> me_original x = me_extracted x \<and> me_equivalent x \<and>
    me_iterations x \<le> default_to 20 k"
proof -
  obtain g i where g: "eg_add (eg_empty :: 'f egraph) t = Some (Inr (g, i))" "kept eg_empty g"
    using kept_add[OF eg_start assms] by blast
  let ?cfg = "\<lparr>rc_maxIterations = Some (default_to 20 k), rc_nodeLimit = Some 10000, rc_untilSaturated = None\<rparr>"
  obtain g1 r where r: "saturate g rules ?cfg = Some (g1, r)" "eg_reachable g1" "rr_iterations r \<le> default_to 30 (Some (default_to 20 k))"
    using saturate_returns[OF kept_reachable[OF g(2)], of rules ?cfg] by (auto simp: later_def)
  let ?t = "pick (croot g1) (eg_classes g1) i"
  obtain g2 where g2: "extractOne g1 i = Some (g2, ?t)" "same_but_paths g1 g2"
    using extractOne_returns[OF reachable_eg_ok[OF r(2)]] by blast
  have k2: "kept g1 g2" by (rule kept_paths[OF r(2) g2(2)])
  have "eg_classes g2 = eg_classes g1" using g2(2) by (auto simp: same_but_paths_def)
  moreover have "croot g2 = croot g1" using k2 by (simp add: kept_def)
  ultimately obtain g3 where "extractOne g2 i = Some (g3, ?t)"
    using extractOne_returns[OF reachable_eg_ok[OF kept_reachable[OF k2]], of i] by auto
  then show ?thesis using r(3)
    by (simp add: exploreMigration_def g(1) explore_from_def r(1) extractPretty_def extractTerm_def g2(1))
qed

section \<open>Placeholders\<close>

definition grow_rule :: "unit rewrite" where
  "grow_rule = \<lparr>rw_name = ''grow'', rw_lhs = t_c, rw_rhs = App ''w'' [App ''g'' [t_c]], rw_when = None\<rparr>"

definition wrap_rule :: "unit rewrite" where
  "wrap_rule = \<lparr>rw_name = ''wrap'', rw_lhs = App ''f'' [Var ''x''], rw_rhs = App ''k'' [Var ''x''], rw_when = None\<rparr>"

definition pair_term :: eterm where
  "pair_term = App ''h'' [t_c, App ''g'' [t_c]]"

text \<open>Two terms under one operator, saturated: does the graph equate them?\<close>

definition wrapped_equal :: "unit rewrite list \<Rightarrow> eterm \<Rightarrow> eterm \<Rightarrow> bool option" where
  "wrapped_equal rules s t =
     Option.bind (run_cmds [CAdd (t_f s), CAdd (t_f t)] eg_empty) (\<lambda>(g, ids).
     Option.bind (saturate g rules \<lparr>rc_maxIterations = Some 2, rc_nodeLimit = None, rc_untilSaturated = None\<rparr>) (\<lambda>(g1, _).
       map_option snd (equiv_classes g1 (ids ! 0) (ids ! 1))))"

lemma grown_extracts_placeholder:
  "map_option (map_sum id (\<lambda>x. (me_extracted x, me_appliedRules x))) (exploreMigration pair_term [grow_rule] None)
     = Some (Inr (''?'', [''grow'']))"
  by code_simp

lemma grown_equates: "wrapped_equal [grow_rule, wrap_rule] pair_term (t_f pair_term) = Some True"
  by code_simp

lemma ungrown_distinct: "wrapped_equal [wrap_rule] pair_term (t_f pair_term) = Some False"
  by code_simp

text \<open>The table of costs keeps what was computed for a class while an ancestor was being visited.
  After the rule \<open>c = w(g(c))\<close> the term \<open>h(c, g(c))\<close> extracts as \<open>?\<close>, though the class holds that term of
  size four. Matching binds variables to such extractions, so the rule \<open>f(x) = k(x)\<close> then equates \<open>f(t)\<close>
  with \<open>f(f(t))\<close> for that term \<open>t\<close>: both become equal to \<open>k(?)\<close>. Without the first rule they stay apart.\<close>

theorem placeholder_unsound:
  "map_option (map_sum id (\<lambda>x. (me_extracted x, me_appliedRules x))) (exploreMigration pair_term [grow_rule] None)
     = Some (Inr (''?'', [''grow''])) \<and>
   wrapped_equal [grow_rule, wrap_rule] pair_term (t_f pair_term) = Some True \<and>
   wrapped_equal [wrap_rule] pair_term (t_f pair_term) = Some False"
  by (intro conjI) (rule grown_extracts_placeholder grown_equates ungrown_distinct)+

text \<open>A renamed field, explored: the rule fires, and the form extracted is the old field.\<close>

theorem rename_extracts_old_field:
  "map_option (map_sum id (\<lambda>x. (me_extracted x, me_appliedRules x))) (migrateFieldAccess ''a'' ''b'')
     = Some (Inr (''field(a)'', [''rename_field_a_to_b'']))"
  by code_simp

theorem saturation_terminates_witness:
  "\<exists>g' r. saturate sample_graph (structuralMigrationRules @ fieldRenameRules ''a'' ''b'')
      \<lparr>rc_maxIterations = Some 4, rc_nodeLimit = None, rc_untilSaturated = None\<rparr> = Some (g', r) \<and>
    partition (eg_uf sample_graph) \<subseteq> partition (eg_uf g') \<and> rr_iterations r \<le> 4"
  using saturation_terminates[OF sample_graph_reachable, of "structuralMigrationRules @ fieldRenameRules ''a'' ''b''"
      "\<lparr>rc_maxIterations = Some 4, rc_nodeLimit = None, rc_untilSaturated = None\<rparr>"] by auto

end
