(* ===== verification/MissionDb.thy ===== *)
theory MissionDb
  imports JsTime Json
begin

text \<open>
  The tables of \<open>packages/db\<close> behind the mission control plane, as lists of rows in insertion order,
  and the hash-chained event log of \<open>trust.ts\<close>. A query is a \<open>find\<close> or \<open>filter\<close> over its table, an
  \<open>UPDATE ... WHERE\<close> is \<open>update_where\<close> with the number of changed rows, and a function that runs in a
  transaction returns either an error, after which the database is as before, or its result with the
  new database. Constraints of the schema that the code does not check first are error branches.

  The host supplies SHA-256 (\<open>h_sha\<close>, on the text that is hashed, as hex), \<open>Date.parse\<close> on text that is
  not a canonical timestamp (\<open>h_dateParse\<close>) and \<open>Number\<close> on numerals (\<open>h_number\<close>, \<^term>\<open>None\<close> unless the
  result is an integer). A JSON column is represented by the value its text serialises.
\<close>

section \<open>Host functions\<close>

record host =
  h_sha :: "string \<Rightarrow> string"
  h_dateParse :: "string \<Rightarrow> int option"
  h_number :: "string \<Rightarrow> int option"

section \<open>Rows\<close>

record principal_row =
  p_id :: string
  p_tenant :: string
  p_revoked :: "string option"

record repository_row =
  rp_id :: string
  rp_tenant :: string

record snapshot_row =
  sn_id :: string
  sn_tenant :: string
  sn_repository :: string
  sn_sha :: string
  sn_manifest :: string

record campaign_row =
  fc_id :: string
  fc_tenant :: string

record envelope_row =
  pe_tenant :: string
  pe_version :: int

record job_row =
  jb_id :: string
  jb_tenant :: string
  jb_status :: string
  jb_owner :: "string option"
  jb_generation :: int
  jb_expires :: "string option"

datatype mission_product = Fettler | Regauge

datatype mission_trigger = ProviderChange | MigrationObjective

datatype mission_state =
    MCreated | MDiscovering | MScoped | MPlanning | MExecuting | MVerifying | MAwaitingReview
  | MAccepted | MRejected | MPartial | MFailed | MCancelled

record mission =
  m_id :: string
  m_tenant :: string
  m_product :: mission_product
  m_state :: mission_state
  m_trigger :: mission_trigger
  m_objective :: string
  m_repository :: "string option"
  m_snapshot :: "string option"
  m_fettler :: "string option"
  m_regauge :: "string option"
  m_graphVersion :: "string option"
  m_policyVersion :: "string option"
  m_owner :: string
  m_revision :: int
  m_createdAt :: string
  m_updatedAt :: string

datatype task_owner = AgentOwner | HumanOwner

datatype task_risk = LowRisk | MediumRisk | HighRisk | CriticalRisk

datatype task_status =
    TUnassigned | TAgentAssigned | TAgentWorking | THumanReviewRequired | THumanAssigned
  | THumanWorking | TAgentResume | TComplete | TBlocked | TFailed | TCancelled | TEscalated

record mission_task =
  t_id :: string
  t_tenant :: string
  t_mission :: string
  t_type :: string
  t_acceptance :: string
  t_risk :: task_risk
  t_status :: task_status
  t_owner :: "task_owner option"
  t_assigned :: "string option"
  t_handoff :: "string option"
  t_retries :: int
  t_revision :: int
  t_createdAt :: string
  t_updatedAt :: string

record task_dependency =
  dp_id :: string
  dp_tenant :: string
  dp_mission :: string
  dp_task :: string
  dp_dependsOn :: string
  dp_createdAt :: string

datatype exception_status = Open | Resolved | Withdrawn

record exception_row =
  x_id :: string
  x_tenant :: string
  x_mission :: string
  x_reason :: string
  x_impact :: string
  x_owner :: string
  x_resolution :: string
  x_blocking :: bool
  x_status :: exception_status
  x_snapshot :: "string option"
  x_sha :: "string option"
  x_supersedes :: "string option"
  x_digest :: string
  x_createdAt :: string
  x_task :: "string option"
  x_category :: "string option"

record authority =
  au_mission :: string
  au_missionRevision :: int
  au_missionState :: mission_state
  au_task :: "string option"
  au_taskRevision :: "int option"
  au_taskStatus :: "task_status option"
  au_repository :: string
  au_snapshot :: string
  au_sha :: string

datatype dispatch_state = Authorized | Dispatching | Uncertain | Settled | Revoked

record dispatch_row =
  d_id :: string
  d_tenant :: string
  d_mission :: string
  d_job :: string
  d_kind :: string
  d_aggregate :: string
  d_authority :: authority
  d_intent :: string
  d_state :: dispatch_state
  d_leaseOwner :: string
  d_leaseGeneration :: int
  d_authorizedAt :: string
  d_dispatchingAt :: "string option"
  d_uncertainAt :: "string option"
  d_settledAt :: "string option"
  d_revokedAt :: "string option"
  d_updatedAt :: string

record domain_event =
  ev_id :: string
  ev_tenant :: string
  ev_sequence :: nat
  ev_schemaVersion :: int
  ev_type :: string
  ev_aggregateType :: string
  ev_aggregateId :: string
  ev_actor :: string
  ev_correlation :: string
  ev_causation :: "string option"
  ev_idempotencyKey :: string
  ev_payload :: json
  ev_payloadSha :: string
  ev_prevHash :: "string option"
  ev_hash :: string
  ev_createdAt :: string

record app_db =
  db_principals :: "principal_row list"
  db_repositories :: "repository_row list"
  db_snapshots :: "snapshot_row list"
  db_campaigns :: "campaign_row list"
  db_envelopes :: "envelope_row list"
  db_jobs :: "job_row list"
  db_missions :: "mission list"
  db_tasks :: "mission_task list"
  db_dependencies :: "task_dependency list"
  db_exceptions :: "exception_row list"
  db_dispatches :: "dispatch_row list"
  db_events :: "domain_event list"

section \<open>Statements\<close>

definition update_where :: "('r \<Rightarrow> bool) \<Rightarrow> ('r \<Rightarrow> 'r) \<Rightarrow> 'r list \<Rightarrow> 'r list" where
  "update_where P f rows = map (\<lambda>r. if P r then f r else r) rows"

definition changes :: "('r \<Rightarrow> bool) \<Rightarrow> 'r list \<Rightarrow> nat" where
  "changes P rows = length (filter P rows)"

definition exists_row :: "('r \<Rightarrow> bool) \<Rightarrow> 'r list \<Rightarrow> bool" where
  "exists_row P rows \<longleftrightarrow> list_ex P rows"

text \<open>An active principal of the tenant (\<open>assertPrincipal\<close>, \<open>assertRecordPrincipal\<close>), and the check of
  \<open>requireTenantRecord\<close>, which accepts a revoked one.\<close>

definition active_principal :: "app_db \<Rightarrow> string \<Rightarrow> string \<Rightarrow> bool" where
  "active_principal db tenant pid \<longleftrightarrow>
     exists_row (\<lambda>p. p_id p = pid \<and> p_tenant p = tenant \<and> p_revoked p = None) (db_principals db)"

definition tenant_principal :: "app_db \<Rightarrow> string \<Rightarrow> string \<Rightarrow> bool" where
  "tenant_principal db tenant pid \<longleftrightarrow>
     exists_row (\<lambda>p. p_id p = pid \<and> p_tenant p = tenant) (db_principals db)"

definition findMission :: "app_db \<Rightarrow> string \<Rightarrow> string \<Rightarrow> mission option" where
  "findMission db tenant mid = List.find (\<lambda>m. m_id m = mid \<and> m_tenant m = tenant) (db_missions db)"

definition findTask :: "app_db \<Rightarrow> string \<Rightarrow> string \<Rightarrow> mission_task option" where
  "findTask db tenant tid = List.find (\<lambda>t. t_id t = tid \<and> t_tenant t = tenant) (db_tasks db)"

end
