(* ===== verification/DomainEvents.thy ===== *)
theory DomainEvents
  imports MissionDb
begin

text \<open>
  The audit log of \<open>packages/db/src/trust.ts\<close>: appending an event with its idempotency key, and the two
  verifiers of the per-tenant hash chain. The lemmas show what appending keeps, that every chain built
  by it verifies, that a verified chain answers the bounded check of each of its events, and that two
  verified chains with the same last hash are equal when the hash has no collisions.
\<close>

section \<open>Appending\<close>

definition opt_json :: "string option \<Rightarrow> json" where
  "opt_json v = (case v of None \<Rightarrow> JNull | Some s \<Rightarrow> JStr s)"

definition digest :: "host \<Rightarrow> json \<Rightarrow> string" where
  "digest h v = h_sha h (json_text v)"

definition eventHash :: "host \<Rightarrow> domain_event \<Rightarrow> string" where
  "eventHash h e = digest h (JObj
     [(''tenantId'', JStr (ev_tenant e)), (''sequence'', JNum (int (ev_sequence e))),
      (''schemaVersion'', JNum (ev_schemaVersion e)), (''eventType'', JStr (ev_type e)),
      (''aggregateType'', JStr (ev_aggregateType e)), (''aggregateId'', JStr (ev_aggregateId e)),
      (''actorPrincipalId'', JStr (ev_actor e)), (''correlationId'', JStr (ev_correlation e)),
      (''causationId'', opt_json (ev_causation e)), (''idempotencyKey'', JStr (ev_idempotencyKey e)),
      (''payloadSha256'', JStr (ev_payloadSha e)), (''previousHash'', opt_json (ev_prevHash e)),
      (''createdAt'', JStr (ev_createdAt e))])"

record event_input =
  ei_id :: string
  ei_tenant :: string
  ei_schemaVersion :: int
  ei_type :: string
  ei_aggregateType :: string
  ei_aggregateId :: string
  ei_actor :: string
  ei_correlation :: string
  ei_causation :: "string option"
  ei_idempotencyKey :: string
  ei_payload :: json
  ei_createdAt :: string

text \<open>\<open>WHERE tenant_id = ? ORDER BY event_sequence\<close>, without and with the aggregate filter.\<close>

definition tenant_events :: "app_db \<Rightarrow> string \<Rightarrow> domain_event list" where
  "tenant_events db tenant = sort_key ev_sequence (filter (\<lambda>e. ev_tenant e = tenant) (db_events db))"

definition aggregate_events :: "app_db \<Rightarrow> string \<Rightarrow> string \<Rightarrow> string \<Rightarrow> domain_event list" where
  "aggregate_events db tenant ty aid =
     sort_key ev_sequence (filter (\<lambda>e. ev_tenant e = tenant \<and> ev_aggregateType e = ty \<and> ev_aggregateId e = aid) (db_events db))"

definition listDomainEvents :: "app_db \<Rightarrow> string \<Rightarrow> string \<Rightarrow> string \<Rightarrow> domain_event list result" where
  "listDomainEvents db tenant ty aid =
     ensure (\<not> (ty \<noteq> [] \<and> aid = []) \<and> \<not> (ty = [] \<and> aid \<noteq> [])) ''aggregate_filter_incomplete''
     (Inr (if ty \<noteq> [] then aggregate_events db tenant ty aid else tenant_events db tenant))"

definition last_event :: "app_db \<Rightarrow> string \<Rightarrow> domain_event option" where
  "last_event db tenant = (case rev (tenant_events db tenant) of [] \<Rightarrow> None | e # es \<Rightarrow> Some e)"

definition same_event :: "host \<Rightarrow> event_input \<Rightarrow> domain_event \<Rightarrow> bool" where
  "same_event h i e \<longleftrightarrow> ev_type e = ei_type i \<and> ev_aggregateType e = ei_aggregateType i \<and>
     ev_aggregateId e = ei_aggregateId i \<and> ev_actor e = ei_actor i \<and> ev_payloadSha e = digest h (ei_payload i)"

definition unhashed_event :: "host \<Rightarrow> event_input \<Rightarrow> domain_event option \<Rightarrow> domain_event" where
  "unhashed_event h i prev =
     \<lparr>ev_id = ei_id i, ev_tenant = ei_tenant i,
      ev_sequence = (case prev of None \<Rightarrow> 0 | Some p \<Rightarrow> ev_sequence p) + 1,
      ev_schemaVersion = ei_schemaVersion i, ev_type = ei_type i, ev_aggregateType = ei_aggregateType i,
      ev_aggregateId = ei_aggregateId i, ev_actor = ei_actor i, ev_correlation = ei_correlation i,
      ev_causation = ei_causation i, ev_idempotencyKey = ei_idempotencyKey i, ev_payload = ei_payload i,
      ev_payloadSha = digest h (ei_payload i), ev_prevHash = map_option ev_hash prev,
      ev_hash = [], ev_createdAt = ei_createdAt i\<rparr>"

definition new_event :: "host \<Rightarrow> event_input \<Rightarrow> domain_event option \<Rightarrow> domain_event" where
  "new_event h i prev =
     (let e = unhashed_event h i prev in e\<lparr>ev_hash := eventHash h e\<rparr>)"

text \<open>\<open>appendDomainEvent\<close>: the row and whether it was inserted. The primary key is the only constraint
  of the table that the code does not check itself.\<close>

definition appendDomainEvent :: "host \<Rightarrow> event_input \<Rightarrow> app_db \<Rightarrow> ((domain_event \<times> bool) \<times> app_db) result" where
  "appendDomainEvent h i db =
     ensure (tenant_principal db (ei_tenant i) (ei_actor i)) ''principals_tenant_mismatch''
     (case List.find (\<lambda>e. ev_tenant e = ei_tenant i \<and> ev_idempotencyKey e = ei_idempotencyKey i) (db_events db) of
        Some e \<Rightarrow> ensure (same_event h i e) ''domain_event_idempotency_conflict'' (Inr ((e, False), db))
      | None \<Rightarrow>
          (let row = new_event h i (last_event db (ei_tenant i)) in
           ensure (\<not> exists_row (\<lambda>e. ev_id e = ei_id i) (db_events db)) ''UNIQUE constraint failed: domain_events.id''
             (Inr ((row, True), db\<lparr>db_events := db_events db @ [row]\<rparr>))))"

section \<open>Verification\<close>

record integrity =
  ig_ok :: bool
  ig_checked :: nat
  ig_error :: "string option"

text \<open>The hash a verifier expects: over the recomputed payload digest and the predecessor's hash.\<close>

definition expected_hash :: "host \<Rightarrow> string option \<Rightarrow> domain_event \<Rightarrow> string" where
  "expected_hash h prev e = eventHash h (e\<lparr>ev_payloadSha := digest h (ev_payload e), ev_prevHash := prev\<rparr>)"

fun verify_rows :: "host \<Rightarrow> nat \<Rightarrow> string option \<Rightarrow> domain_event list \<Rightarrow> integrity" where
  "verify_rows h n prev [] = \<lparr>ig_ok = True, ig_checked = n, ig_error = None\<rparr>"
| "verify_rows h n prev (e # es) =
     (if ev_sequence e \<noteq> n + 1 \<or> ev_prevHash e \<noteq> prev
      then \<lparr>ig_ok = False, ig_checked = n, ig_error = Some (''domain_event_sequence:'' @ ev_id e)\<rparr>
      else if ev_payloadSha e \<noteq> digest h (ev_payload e) \<or> ev_hash e \<noteq> expected_hash h prev e
      then \<lparr>ig_ok = False, ig_checked = n, ig_error = Some (''domain_event_hash:'' @ ev_id e)\<rparr>
      else verify_rows h (n + 1) (Some (ev_hash e)) es)"

definition verifyDomainEventIntegrity :: "host \<Rightarrow> app_db \<Rightarrow> string \<Rightarrow> integrity" where
  "verifyDomainEventIntegrity h db tenant = verify_rows h 0 None (tenant_events db tenant)"

definition event_at :: "app_db \<Rightarrow> string \<Rightarrow> nat \<Rightarrow> domain_event option" where
  "event_at db tenant n = List.find (\<lambda>e. ev_tenant e = tenant \<and> ev_sequence e = n) (db_events db)"

definition failed :: "nat \<Rightarrow> string \<Rightarrow> integrity" where
  "failed n err = \<lparr>ig_ok = False, ig_checked = n, ig_error = Some err\<rparr>"

definition verifyDomainEventRecordIntegrity :: "host \<Rightarrow> app_db \<Rightarrow> string \<Rightarrow> string \<Rightarrow> integrity" where
  "verifyDomainEventRecordIntegrity h db tenant eid =
     (case List.find (\<lambda>e. ev_tenant e = tenant \<and> ev_id e = eid) (db_events db) of
        None \<Rightarrow> failed 0 (''domain_event_missing:'' @ eid)
      | Some e \<Rightarrow>
          (let previous = (if ev_sequence e > 1 then event_at db tenant (ev_sequence e - 1) else None);
               prev = map_option ev_hash previous in
           if ev_sequence e > 1 \<and> previous = None then failed 0 (''domain_event_predecessor_missing:'' @ ev_id e)
           else if ev_prevHash e \<noteq> prev then failed 0 (''domain_event_sequence:'' @ ev_id e)
           else if ev_payloadSha e \<noteq> digest h (ev_payload e) \<or> ev_hash e \<noteq> expected_hash h prev e
             then failed 0 (''domain_event_hash:'' @ ev_id e)
           else (case event_at db tenant (ev_sequence e + 1) of
                   Some next \<Rightarrow> if ev_prevHash next \<noteq> Some (ev_hash e)
                     then failed 1 (''domain_event_successor:'' @ ev_id e)
                     else \<lparr>ig_ok = True, ig_checked = 1, ig_error = None\<rparr>
                 | None \<Rightarrow> \<lparr>ig_ok = True, ig_checked = 1, ig_error = None\<rparr>)))"


section \<open>Linked chains\<close>

definition sound_event :: "host \<Rightarrow> string option \<Rightarrow> domain_event \<Rightarrow> bool" where
  "sound_event h prev e \<longleftrightarrow> ev_prevHash e = prev \<and> ev_payloadSha e = digest h (ev_payload e) \<and> ev_hash e = eventHash h e"

fun linked :: "host \<Rightarrow> nat \<Rightarrow> string option \<Rightarrow> domain_event list \<Rightarrow> bool" where
  "linked h n prev [] \<longleftrightarrow> True"
| "linked h n prev (e # es) \<longleftrightarrow> ev_sequence e = n + 1 \<and> sound_event h prev e \<and> linked h (n + 1) (Some (ev_hash e)) es"

lemma expected_hash_sound:
  "ev_prevHash e = prev \<Longrightarrow> ev_payloadSha e = digest h (ev_payload e) \<Longrightarrow> expected_hash h prev e = eventHash h e"
  by (simp add: expected_hash_def eventHash_def)

lemma sound_iff:
  "sound_event h prev e \<longleftrightarrow>
     ev_prevHash e = prev \<and> ev_payloadSha e = digest h (ev_payload e) \<and> ev_hash e = expected_hash h prev e"
  using expected_hash_sound[of e prev h] by (auto simp: sound_event_def)

lemma verify_rows_linked: "ig_ok (verify_rows h n prev es) \<longleftrightarrow> linked h n prev es"
proof (induction es arbitrary: n prev)
  case (Cons e es)
  then show ?case using expected_hash_sound[of e prev h] by (auto simp: sound_event_def)
qed simp

lemma linked_checked: "linked h n prev es \<Longrightarrow> ig_checked (verify_rows h n prev es) = n + length es"
proof (induction es arbitrary: n prev)
  case (Cons e es)
  then show ?case using expected_hash_sound[of e prev h] by (auto simp: sound_event_def)
qed simp

definition head_hash :: "string option \<Rightarrow> domain_event list \<Rightarrow> string option" where
  "head_hash prev es = (if es = [] then prev else Some (ev_hash (last es)))"

lemma linked_append:
  "linked h n prev (es @ [e]) \<longleftrightarrow> linked h n prev es \<and> ev_sequence e = n + length es + 1 \<and> sound_event h (head_hash prev es) e"
  by (induction es arbitrary: n prev) (auto simp: head_hash_def)

lemma linked_sequences: "linked h n prev es \<Longrightarrow> map ev_sequence es = [Suc n..<Suc (n + length es)]"
proof (induction es arbitrary: n prev)
  case (Cons e es)
  then have "map ev_sequence es = [Suc (Suc n)..<Suc (Suc n + length es)]" by auto
  with Cons.prems show ?case by (simp add: upt_conv_Cons del: upt_Suc)
qed simp

lemma sort_linked: "linked h n prev es \<Longrightarrow> sort_key ev_sequence es = es"
  using linked_sequences[of h n prev es] by (metis sort_key_id_if_sorted sorted_upt)

text \<open>The log invariant: per tenant the rows in insertion order are linked, and row ids and
  idempotency keys are unique.\<close>

definition tenant_rows :: "app_db \<Rightarrow> string \<Rightarrow> domain_event list" where
  "tenant_rows db tenant = filter (\<lambda>e. ev_tenant e = tenant) (db_events db)"

definition log_ok :: "host \<Rightarrow> app_db \<Rightarrow> bool" where
  "log_ok h db \<longleftrightarrow> (\<forall>t. linked h 0 None (tenant_rows db t)) \<and> distinct (map ev_id (db_events db)) \<and>
     distinct (map (\<lambda>e. (ev_tenant e, ev_idempotencyKey e)) (db_events db))"

lemma log_ok_linked: "log_ok h db \<Longrightarrow> linked h 0 None (tenant_rows db t)"
  by (simp add: log_ok_def)

lemma tenant_events_ok: "log_ok h db \<Longrightarrow> tenant_events db t = tenant_rows db t"
  using sort_linked[of h 0 None "tenant_rows db t"] by (simp add: log_ok_def tenant_events_def tenant_rows_def)

lemma aggregate_events_ok:
  assumes "log_ok h db"
  shows "aggregate_events db t ty aid = filter (\<lambda>e. ev_aggregateType e = ty \<and> ev_aggregateId e = aid) (tenant_rows db t)"
proof -
  have "aggregate_events db t ty aid
      = sort_key ev_sequence (filter (\<lambda>e. ev_aggregateType e = ty \<and> ev_aggregateId e = aid) (tenant_rows db t))"
    by (simp add: aggregate_events_def tenant_rows_def conj_commute)
  also have "\<dots> = filter (\<lambda>e. ev_aggregateType e = ty \<and> ev_aggregateId e = aid) (sort_key ev_sequence (tenant_rows db t))"
    by (simp add: filter_sort)
  also have "sort_key ev_sequence (tenant_rows db t) = tenant_rows db t"
    using sort_linked[OF log_ok_linked[OF assms]] .
  finally show ?thesis .
qed

lemma log_ok_verifies:
  "log_ok h db \<Longrightarrow> ig_ok (verifyDomainEventIntegrity h db t) \<and>
     ig_checked (verifyDomainEventIntegrity h db t) = length (tenant_rows db t)"
  using linked_checked[of h 0 None "tenant_rows db t"]
  by (simp add: verifyDomainEventIntegrity_def tenant_events_ok verify_rows_linked log_ok_linked)

section \<open>What appending does\<close>

lemma new_event_fields [simp]:
  "ev_id (new_event h i p) = ei_id i" "ev_tenant (new_event h i p) = ei_tenant i" "ev_type (new_event h i p) = ei_type i"
  "ev_aggregateType (new_event h i p) = ei_aggregateType i" "ev_aggregateId (new_event h i p) = ei_aggregateId i"
  "ev_actor (new_event h i p) = ei_actor i" "ev_idempotencyKey (new_event h i p) = ei_idempotencyKey i"
  "ev_payload (new_event h i p) = ei_payload i" "ev_payloadSha (new_event h i p) = digest h (ei_payload i)"
  "ev_prevHash (new_event h i p) = map_option ev_hash p"
  "ev_sequence (new_event h i p) = (case p of None \<Rightarrow> 0 | Some e \<Rightarrow> ev_sequence e) + 1"
  by (simp_all add: new_event_def unhashed_event_def Let_def)

lemma new_event_sound: "sound_event h (map_option ev_hash p) (new_event h i p)"
  by (simp add: sound_event_def) (simp add: new_event_def eventHash_def Let_def)

text \<open>An append either finds the event under its key or adds one row.\<close>

definition event_known :: "host \<Rightarrow> event_input \<Rightarrow> app_db \<Rightarrow> bool" where
  "event_known h i db \<longleftrightarrow> (\<exists>e \<in> set (db_events db). ev_tenant e = ei_tenant i \<and> same_event h i e)"

definition with_event :: "host \<Rightarrow> event_input \<Rightarrow> app_db \<Rightarrow> app_db" where
  "with_event h i db = db\<lparr>db_events := db_events db @ [new_event h i (last_event db (ei_tenant i))]\<rparr>"

definition fresh_event :: "event_input \<Rightarrow> app_db \<Rightarrow> bool" where
  "fresh_event i db \<longleftrightarrow> ei_id i \<notin> ev_id ` set (db_events db) \<and>
     (ei_tenant i, ei_idempotencyKey i) \<notin> (\<lambda>e. (ev_tenant e, ev_idempotencyKey e)) ` set (db_events db)"

lemma appendDomainEvent_cases:
  assumes "appendDomainEvent h i db = Inr (r, db')"
  obtains "event_known h i db" "db' = db" | "fresh_event i db" "db' = with_event h i db"
proof (cases "List.find (\<lambda>e. ev_tenant e = ei_tenant i \<and> ev_idempotencyKey e = ei_idempotencyKey i) (db_events db)")
  case None
  with assms have "fresh_event i db \<and> db' = with_event h i db"
    by (fastforce simp: appendDomainEvent_def ensure_eq_Inr Let_def fresh_event_def with_event_def exists_row_def
        list_ex_iff find_None_iff)
  then show thesis using that by simp
next
  case (Some e)
  with assms have "event_known h i db \<and> db' = db"
    by (auto simp: appendDomainEvent_def ensure_eq_Inr event_known_def find_Some_iff)
  then show thesis using that by simp
qed

lemma last_event_ok:
  assumes "log_ok h db"
  shows "last_event db t = (if tenant_rows db t = [] then None else Some (last (tenant_rows db t)))"
  unfolding last_event_def tenant_events_ok[OF assms]
  by (cases "tenant_rows db t" rule: rev_cases) simp_all

lemma linked_last_sequence: "linked h n prev es \<Longrightarrow> es \<noteq> [] \<Longrightarrow> ev_sequence (last es) = n + length es"
  by (cases es rule: rev_cases) (auto simp: linked_append)

lemma with_event_log_ok:
  assumes "log_ok h db" and "fresh_event i db"
  shows "log_ok h (with_event h i db)"
proof -
  let ?p = "last_event db (ei_tenant i)"
  have "linked h 0 None (tenant_rows (with_event h i db) t)" for t
  proof (cases "t = ei_tenant i")
    case True
    have rows: "tenant_rows (with_event h i db) t = tenant_rows db t @ [new_event h i ?p]"
      by (simp add: with_event_def tenant_rows_def True)
    have l: "linked h 0 None (tenant_rows db t)" using assms(1) by (rule log_ok_linked)
    have p: "?p = (if tenant_rows db t = [] then None else Some (last (tenant_rows db t)))"
      by (simp add: last_event_ok[OF assms(1)] True)
    have "map_option ev_hash ?p = head_hash None (tenant_rows db t)" by (simp add: p head_hash_def)
    with new_event_sound[of h ?p i] have "sound_event h (head_hash None (tenant_rows db t)) (new_event h i ?p)" by simp
    moreover have "ev_sequence (new_event h i ?p) = length (tenant_rows db t) + 1"
      using linked_last_sequence[OF l] by (simp add: p)
    ultimately show ?thesis using l by (simp add: rows linked_append)
  next
    case False
    then have "tenant_rows (with_event h i db) t = tenant_rows db t" by (simp add: with_event_def tenant_rows_def)
    with assms show ?thesis by (simp add: log_ok_def)
  qed
  with assms show ?thesis by (auto simp: log_ok_def fresh_event_def with_event_def)
qed

lemma appendDomainEvent_log_ok: "appendDomainEvent h i db = Inr (r, db') \<Longrightarrow> log_ok h db \<Longrightarrow> log_ok h db'"
  by (erule appendDomainEvent_cases) (auto intro: with_event_log_ok)


section \<open>What a verified chain commits to\<close>

lemma digest_inj: "inj (h_sha h) \<Longrightarrow> digest h v = digest h w \<longleftrightarrow> v = w"
  by (simp add: digest_def inj_eq)

lemma opt_json_inj [simp]: "opt_json a = opt_json b \<longleftrightarrow> a = b"
  by (auto simp: opt_json_def split: option.splits)

definition anonymous :: "domain_event \<Rightarrow> domain_event" where
  "anonymous e = e\<lparr>ev_id := []\<rparr>"

lemma sound_hash_determines:
  assumes inj: "inj (h_sha h)" and e: "sound_event h p e" and e': "sound_event h p' e'" and eq: "ev_hash e = ev_hash e'"
  shows "anonymous e = anonymous e'" and "p = p'" and "ev_sequence e = ev_sequence e'"
  using e e' eq digest_inj[OF inj]
  by (cases e; cases e'; simp add: sound_event_def eventHash_def anonymous_def)+

lemma linked_determined:
  assumes inj: "inj (h_sha h)"
  shows "linked h 0 None es \<Longrightarrow> linked h 0 None es' \<Longrightarrow> es \<noteq> [] \<Longrightarrow> es' \<noteq> [] \<Longrightarrow>
    ev_hash (last es) = ev_hash (last es') \<Longrightarrow> map anonymous es = map anonymous es'"
proof (induction es arbitrary: es' rule: rev_induct)
  case (snoc e xs)
  from snoc.prems(4) obtain ys e' where es': "es' = ys @ [e']" by (cases es' rule: rev_cases) auto
  have l: "linked h 0 None xs" "linked h 0 None ys"
    and s: "sound_event h (head_hash None xs) e" "sound_event h (head_hash None ys) e'"
    using snoc.prems(1,2) by (auto simp: linked_append es')
  have "ev_hash e = ev_hash e'" using snoc.prems(5) es' by simp
  note same = sound_hash_determines[OF inj s this]
  from same(3) snoc.prems(1,2) have "length xs = length ys" by (simp add: linked_append es')
  moreover have "map anonymous xs = map anonymous ys" if "xs \<noteq> []"
    using snoc.IH[OF l that] same(2) that calculation by (auto simp: head_hash_def split: if_splits)
  ultimately show ?case using same(1) es' by (cases "xs = []") auto
qed simp

text \<open>Claim C24: a verified chain commits to its whole history. If the chains of two tenants both verify
  (in the same or in different databases), the hash function has no collisions, and the last events
  carry the same hash, then the two logs are the same: the same number of events, in the same order,
  with every field equal, the tenant included. The row id is the only column the hash does not cover.\<close>

theorem hash_chain_commits:
  assumes "inj (h_sha h)"
    and "ig_ok (verifyDomainEventIntegrity h db t)" and "ig_ok (verifyDomainEventIntegrity h db' t')"
    and "last_event db t = Some e" and "last_event db' t' = Some e'" and "ev_hash e = ev_hash e'"
  shows "map (\<lambda>e. e\<lparr>ev_id := []\<rparr>) (tenant_events db t) = map (\<lambda>e. e\<lparr>ev_id := []\<rparr>) (tenant_events db' t')"
proof -
  have ne: "last_event db t = Some e \<Longrightarrow> tenant_events db t \<noteq> [] \<and> last (tenant_events db t) = e" for db t e
    by (cases "tenant_events db t" rule: rev_cases) (auto simp: last_event_def)
  have "map anonymous (tenant_events db t) = map anonymous (tenant_events db' t')"
    using assms ne[OF assms(4)] ne[OF assms(5)]
    by (intro linked_determined) (auto simp: verifyDomainEventIntegrity_def verify_rows_linked)
  moreover have "anonymous = (\<lambda>e. e\<lparr>ev_id := []\<rparr>)" by (simp add: fun_eq_iff anonymous_def)
  ultimately show ?thesis by simp
qed

section \<open>The bounded verifier\<close>

lemma linked_nth:
  "linked h n prev es \<longleftrightarrow> (\<forall>i < length es. ev_sequence (es ! i) = n + i + 1 \<and>
     sound_event h (if i = 0 then prev else Some (ev_hash (es ! (i - 1)))) (es ! i))"
proof (induction es arbitrary: n prev)
  case (Cons e es)
  have prev: "(if i = 0 then Some (ev_hash e) else Some (ev_hash (es ! (i - 1)))) = Some (ev_hash ((e # es) ! i))" for i
    by (cases i) simp_all
  have shift: "n + 1 + i + 1 = Suc (n + i + 1)" for i by simp
  show ?case unfolding linked.simps Cons.IH prev length_Cons All_less_Suc2 shift by (simp add: prev[symmetric])
qed simp

text \<open>The keys of the table: unique ids, unique sequence numbers per tenant, numbered from one.\<close>

definition log_keys :: "app_db \<Rightarrow> bool" where
  "log_keys db \<longleftrightarrow> distinct (map ev_id (db_events db)) \<and>
     distinct (map (\<lambda>e. (ev_tenant e, ev_sequence e)) (db_events db)) \<and> list_all (\<lambda>e. 1 \<le> ev_sequence e) (db_events db)"

lemma distinct_map_eq: "distinct (map f xs) \<Longrightarrow> x \<in> set xs \<Longrightarrow> y \<in> set xs \<Longrightarrow> f x = f y \<Longrightarrow> x = y"
  by (metis distinct_map inj_onD)

lemma find_unique:
  assumes "distinct (map f xs)" and "x \<in> set xs" and "\<And>y. P y \<longleftrightarrow> y \<in> set xs \<and> f y = f x \<or> y \<notin> set xs \<and> P y"
  shows "List.find P xs = Some x"
proof -
  have "P x" using assms(2,3) by blast
  then obtain y where y: "List.find P xs = Some y" using assms(2) by (cases "List.find P xs") (auto simp: find_None_iff)
  then have "y \<in> set xs" "P y" by (auto simp: find_Some_iff)
  then have "y = x" using assms(3)[of y] distinct_map_eq[OF assms(1)] assms(2) by blast
  with y show ?thesis by simp
qed


lemma event_at_iff:
  assumes "log_keys db"
  shows "event_at db t n = Some e \<longleftrightarrow> e \<in> set (tenant_events db t) \<and> ev_sequence e = n"
proof
  assume "e \<in> set (tenant_events db t) \<and> ev_sequence e = n"
  then show "event_at db t n = Some e" unfolding event_at_def
    using assms by (intro find_unique[of "\<lambda>e. (ev_tenant e, ev_sequence e)"]) (auto simp: log_keys_def tenant_events_def)
qed (auto simp: event_at_def find_Some_iff tenant_events_def)

definition record_sound :: "host \<Rightarrow> app_db \<Rightarrow> string \<Rightarrow> domain_event \<Rightarrow> bool" where
  "record_sound h db t e \<longleftrightarrow>
     (1 < ev_sequence e \<longrightarrow> event_at db t (ev_sequence e - 1) \<noteq> None) \<and>
     sound_event h (if ev_sequence e > 1 then map_option ev_hash (event_at db t (ev_sequence e - 1)) else None) e \<and>
     (\<forall>e'. event_at db t (ev_sequence e + 1) = Some e' \<longrightarrow> ev_prevHash e' = Some (ev_hash e))"

lemma record_integrity_sound:
  assumes "log_keys db" and "e \<in> set (tenant_events db t)"
  shows "ig_ok (verifyDomainEventRecordIntegrity h db t (ev_id e)) \<longleftrightarrow> record_sound h db t e"
proof -
  have e: "e \<in> set (db_events db)" "ev_tenant e = t" using assms(2) by (auto simp: tenant_events_def)
  have "List.find (\<lambda>e'. ev_tenant e' = t \<and> ev_id e' = ev_id e) (db_events db) = Some e"
    using assms e by (intro find_unique[of ev_id]) (auto simp: log_keys_def dest: distinct_map_eq)
  note found = this
  show ?thesis unfolding verifyDomainEventRecordIntegrity_def found option.case Let_def record_sound_def sound_iff
    by (cases "event_at db t (ev_sequence e + 1)"; cases "1 < ev_sequence e"; cases "event_at db t (ev_sequence e - 1)")
       (auto simp: failed_def)
qed

lemma sorted_nth_less: "sorted_wrt (<) ns \<Longrightarrow> i < length ns \<Longrightarrow> j < length ns \<Longrightarrow> ns ! i < ns ! j \<longleftrightarrow> i < j"
  for ns :: "nat list"
  by (metis linorder_neqE_nat not_less_iff_gr_or_eq sorted_wrt_iff_nth_less)

lemma sorted_predecessors:
  assumes "sorted_wrt (<) ns" and "\<forall>n \<in> set ns. 1 \<le> n" and "\<forall>n \<in> set ns. 1 < n \<longrightarrow> n - 1 \<in> set ns"
    and "i < length ns"
  shows "ns ! i = Suc i"
  using assms(4)
proof (induction i)
  case 0
  have mem: "ns ! 0 \<in> set ns" using 0 by simp
  have "\<not> 1 < ns ! 0"
  proof
    assume "1 < ns ! 0"
    with mem assms(3) obtain j where "j < length ns" "ns ! j = ns ! 0 - 1" by (metis in_set_conv_nth)
    with sorted_nth_less[OF assms(1), of j 0] 0 \<open>1 < ns ! 0\<close> show False by simp
  qed
  with mem assms(2) show ?case by fastforce
next
  case (Suc i)
  have lt: "ns ! i < ns ! Suc i" using sorted_nth_less[OF assms(1)] Suc.prems by simp
  then have "1 < ns ! Suc i" using Suc by simp
  then have "ns ! Suc i - 1 \<in> set ns" using assms(3) Suc.prems by simp
  then obtain j where j: "j < length ns" "ns ! j = ns ! Suc i - 1" by (auto simp: in_set_conv_nth)
  have "j < Suc i" using sorted_nth_less[OF assms(1), of j "Suc i"] j lt Suc.prems by auto
  moreover have "\<not> j < i" using sorted_nth_less[OF assms(1), of j i] j lt Suc.prems by auto
  ultimately have "j = i" by simp
  with j lt Suc show ?case by simp
qed

lemma linked_records:
  assumes "log_keys db" and l: "linked h 0 None (tenant_events db t)" and e: "e \<in> set (tenant_events db t)"
  shows "record_sound h db t e"
proof -
  let ?es = "tenant_events db t"
  obtain i where i: "i < length ?es" "e = ?es ! i" using e by (auto simp: in_set_conv_nth)
  have nth: "ev_sequence (?es ! k) = k + 1 \<and> sound_event h (if k = 0 then None else Some (ev_hash (?es ! (k - 1)))) (?es ! k)"
    if "k < length ?es" for k using l that by (simp add: linked_nth)
  have at_nth: "event_at db t (k + 1) = Some (?es ! k)" if "k < length ?es" for k
    using nth[OF that] that by (simp add: event_at_iff[OF assms(1)])
  have prev: "event_at db t i = Some (?es ! (i - 1))" if "i \<noteq> 0" using at_nth[of "i - 1"] i that by simp
  have succ: "ev_prevHash e' = Some (ev_hash e)" if "event_at db t (i + 2) = Some e'" for e'
  proof -
    from that have e': "e' \<in> set ?es" "ev_sequence e' = i + 2" by (auto simp: event_at_iff[OF assms(1)])
    then obtain j where j: "j < length ?es" "e' = ?es ! j" by (auto simp: in_set_conv_nth)
    with nth[OF j(1)] e' have "j = Suc i" by simp
    with nth[OF j(1)] j i show ?thesis by (simp add: sound_event_def)
  qed
  show ?thesis using nth[OF i(1)] prev succ i(2) by (auto simp: record_sound_def)
qed

lemma records_linked:
  assumes keys: "log_keys db" and recs: "\<And>e. e \<in> set (tenant_events db t) \<Longrightarrow> record_sound h db t e"
  shows "linked h 0 None (tenant_events db t)"
proof -
  let ?es = "tenant_events db t" let ?ns = "map ev_sequence ?es"
  have "distinct (map ev_sequence (filter (\<lambda>e. ev_tenant e = t) (db_events db)))"
    using keys unfolding log_keys_def distinct_map by (auto simp: inj_on_def)
  then have "distinct ?ns" by (simp add: tenant_events_def distinct_map)
  moreover have "sorted ?ns" by (simp add: tenant_events_def)
  ultimately have sorted: "sorted_wrt (<) ?ns" by (simp add: strict_sorted_iff)
  have pos: "\<forall>n \<in> set ?ns. 1 \<le> n" using keys by (auto simp: log_keys_def list_all_iff tenant_events_def)
  have "ev_sequence e - 1 \<in> set ?ns" if "e \<in> set ?es" "1 < ev_sequence e" for e
    using recs[OF that(1)] that(2) event_at_iff[OF keys, of t "ev_sequence e - 1"] by (force simp: record_sound_def)
  then have "\<forall>n \<in> set ?ns. 1 < n \<longrightarrow> n - 1 \<in> set ?ns" by auto
  from sorted_predecessors[OF sorted pos this] have seq: "ev_sequence (?es ! i) = Suc i" if "i < length ?es" for i
    using that by auto
  have "event_at db t i = Some (?es ! (i - 1))" if "0 < i" "i < length ?es" for i
    using seq[of "i - 1"] that by (simp add: event_at_iff[OF keys])
  note prev = this
  have "sound_event h (if i = 0 then None else Some (ev_hash (?es ! (i - 1)))) (?es ! i)" if i: "i < length ?es" for i
    using recs[OF nth_mem[OF i]] prev[OF _ i] seq[OF i] by (cases "i = 0") (simp_all add: record_sound_def)
  then show ?thesis using seq by (simp add: linked_nth)
qed

text \<open>The bounded verifier checks the same thing as the full one. With the keys of the table
  (unique row ids, unique sequence numbers per tenant, numbered from one), a tenant's chain verifies
  exactly when every one of its events passes the bounded check of its own hash and its two links.\<close>

theorem bounded_verifier_agrees:
  assumes "log_keys db"
  shows "ig_ok (verifyDomainEventIntegrity h db t) \<longleftrightarrow>
    list_all (\<lambda>e. ig_ok (verifyDomainEventRecordIntegrity h db t (ev_id e))) (tenant_events db t)"
proof -
  let ?es = "tenant_events db t"
  have recs: "list_all (\<lambda>e. ig_ok (verifyDomainEventRecordIntegrity h db t (ev_id e))) ?es
      \<longleftrightarrow> list_all (record_sound h db t) ?es"
    using record_integrity_sound[OF assms] by (simp add: list_all_iff)
  have "linked h 0 None ?es \<longleftrightarrow> list_all (record_sound h db t) ?es"
  proof
    assume l: "linked h 0 None ?es"
    show "list_all (record_sound h db t) ?es" using linked_records[OF assms l] by (simp add: list_all_iff)
  next
    assume "list_all (record_sound h db t) ?es"
    then show "linked h 0 None ?es" using records_linked[OF assms] by (simp add: list_all_iff)
  qed
  then show ?thesis by (simp add: recs verifyDomainEventIntegrity_def verify_rows_linked)
qed


section \<open>Samples\<close>

text \<open>A host whose hash is the identity, and the log of two appended events with the given ids.\<close>

definition plain_host :: host where
  "plain_host = \<lparr>h_sha = \<lambda>s. s, h_dateParse = \<lambda>s. None, h_number = \<lambda>s. None\<rparr>"

definition empty_db :: app_db where
  "empty_db = \<lparr>db_principals = [\<lparr>p_id = ''p'', p_tenant = ''t'', p_revoked = None\<rparr>], db_repositories = [],
     db_snapshots = [], db_campaigns = [], db_envelopes = [], db_jobs = [], db_missions = [], db_tasks = [],
     db_dependencies = [], db_exceptions = [], db_dispatches = [], db_events = []\<rparr>"

definition sample_event :: "string \<Rightarrow> string \<Rightarrow> event_input" where
  "sample_event eid key = \<lparr>ei_id = eid, ei_tenant = ''t'', ei_schemaVersion = 1, ei_type = ''k'',
     ei_aggregateType = ''a'', ei_aggregateId = ''x'', ei_actor = ''p'', ei_correlation = ''c'',
     ei_causation = None, ei_idempotencyKey = key, ei_payload = JObj [(''n'', JNum 7)], ei_createdAt = ''now''\<rparr>"

definition db_of :: "app_db \<Rightarrow> ('a \<times> app_db) result \<Rightarrow> app_db" where
  "db_of db r = (case r of Inl e \<Rightarrow> db | Inr (x, db') \<Rightarrow> db')"

definition sample_log :: "string \<Rightarrow> string \<Rightarrow> app_db" where
  "sample_log a b = (let db = db_of empty_db (appendDomainEvent plain_host (sample_event a ''k1'') empty_db)
     in db_of db (appendDomainEvent plain_host (sample_event b ''k2'') db))"

lemma map_option_both: "map_option f a = map_option f b \<Longrightarrow> a = Some x \<Longrightarrow> \<exists>y. b = Some y \<and> f x = f y"
  by (cases b) simp_all

lemma plain_host_inj: "inj (h_sha plain_host)"
  by (simp add: plain_host_def)

theorem hash_chain_commits_witness:
  "last_event (sample_log ''e1'' ''e2'') ''t'' \<noteq> None \<and>
   map (\<lambda>e. e\<lparr>ev_id := []\<rparr>) (tenant_events (sample_log ''e1'' ''e2'') ''t'')
     = map (\<lambda>e. e\<lparr>ev_id := []\<rparr>) (tenant_events (sample_log ''e3'' ''e4'') ''t'')"
proof -
  have ok: "ig_ok (verifyDomainEventIntegrity plain_host (sample_log ''e1'' ''e2'') ''t'')"
    "ig_ok (verifyDomainEventIntegrity plain_host (sample_log ''e3'' ''e4'') ''t'')" by code_simp+
  have same: "map_option ev_hash (last_event (sample_log ''e1'' ''e2'') ''t'')
      = map_option ev_hash (last_event (sample_log ''e3'' ''e4'') ''t'')"
    and "last_event (sample_log ''e1'' ''e2'') ''t'' \<noteq> None" by code_simp+
  then obtain e where e: "last_event (sample_log ''e1'' ''e2'') ''t'' = Some e" by blast
  from map_option_both[OF same this] obtain e'
    where e': "last_event (sample_log ''e3'' ''e4'') ''t'' = Some e'" "ev_hash e = ev_hash e'" by (elim exE conjE)
  note last = e e'
  from hash_chain_commits[OF plain_host_inj ok last] last(1) show ?thesis by simp
qed

theorem bounded_verifier_agrees_witness:
  "log_keys (sample_log ''e1'' ''e2'') \<and>
   (ig_ok (verifyDomainEventIntegrity plain_host (sample_log ''e1'' ''e2'') ''t'') \<longleftrightarrow>
    list_all (\<lambda>e. ig_ok (verifyDomainEventRecordIntegrity plain_host (sample_log ''e1'' ''e2'') ''t'' (ev_id e)))
      (tenant_events (sample_log ''e1'' ''e2'') ''t''))"
proof -
  have "log_keys (sample_log ''e1'' ''e2'')" by code_simp
  with bounded_verifier_agrees[OF this] show ?thesis by simp
qed

end
