(* ===== verification/Mission.thy ===== *)
theory Mission
  imports DomainEvents Lifecycle
begin

text \<open>
  Missions, \<open>packages/db/src/mission.ts\<close>, and the fence of \<open>mission-mutation-dispatch-fence.ts\<close> that every
  mission write passes. Each operation is the function of the same name: its validation, its transaction
  over the tables of \<open>MissionDb\<close>, the event it appends and the row it returns. The TypeScript unions that
  the code checks again at run time (product and trigger) are strings in the inputs.
\<close>

section \<open>The fence\<close>

definition in_flight :: "dispatch_state \<Rightarrow> bool" where
  "in_flight s \<longleftrightarrow> s = Dispatching \<or> s = Uncertain"

definition revoke_row :: "string \<Rightarrow> dispatch_row \<Rightarrow> dispatch_row" where
  "revoke_row stamp d = d\<lparr>d_state := Revoked, d_revokedAt := Some stamp, d_updatedAt := stamp\<rparr>"

definition revokePendingMissionMutationDispatches :: "string \<Rightarrow> string \<Rightarrow> string \<Rightarrow> app_db \<Rightarrow> app_db result" where
  "revokePendingMissionMutationDispatches tenant mid stamp db =
     ensure (\<not> exists_row (\<lambda>d. d_tenant d = tenant \<and> d_mission d = mid \<and> in_flight (d_state d)) (db_dispatches db))
       ''mission_mutation_dispatch_in_flight''
     (Inr (db\<lparr>db_dispatches :=
        update_where (\<lambda>d. d_tenant d = tenant \<and> d_mission d = mid \<and> d_state d = Authorized) (revoke_row stamp)
          (db_dispatches db)\<rparr>))"

definition authorityTaskId_valid :: "authority \<Rightarrow> bool" where
  "authorityTaskId_valid a \<longleftrightarrow> (case au_task a of None \<Rightarrow> True | Some t \<Rightarrow> has_text t)"

definition revokePendingMissionTaskMutationDispatches ::
    "string \<Rightarrow> string \<Rightarrow> string option \<Rightarrow> string \<Rightarrow> app_db \<Rightarrow> app_db result" where
  "revokePendingMissionTaskMutationDispatches tenant mid tid stamp db =
     (let rows = filter (\<lambda>d. d_tenant d = tenant \<and> d_mission d = mid \<and> (d_state d = Authorized \<or> in_flight (d_state d)))
            (db_dispatches db);
          matching = filter (\<lambda>d. au_task (d_authority d) = tid) rows in
      ensure (list_all (\<lambda>d. authorityTaskId_valid (d_authority d)) rows) ''mission_mutation_dispatch_authority_invalid''
      (ensure (\<not> exists_row (\<lambda>d. in_flight (d_state d)) matching) ''mission_mutation_dispatch_in_flight''
       (Inr (db\<lparr>db_dispatches :=
          update_where (\<lambda>d. d_id d \<in> set (map d_id matching) \<and> d_tenant d = tenant \<and> d_state d = Authorized)
            (revoke_row stamp) (db_dispatches db)\<rparr>))))"

section \<open>Validation and events\<close>

definition required :: "nat \<Rightarrow> string \<Rightarrow> string \<Rightarrow> string result" where
  "required limit name value =
     (let t = trim value in ensure (t \<noteq> [] \<and> length t \<le> limit) (name @ ''_invalid'') (Inr t))"

definition mission_required :: "string \<Rightarrow> string \<Rightarrow> string result" where
  "mission_required = required 256"

definition assertPrincipal :: "app_db \<Rightarrow> string \<Rightarrow> string \<Rightarrow> unit result" where
  "assertPrincipal db tenant pid =
     ensure (active_principal db tenant pid) ''mission_principal_tenant_mismatch'' (Inr ())"

text \<open>The fields that every operation takes for its event.\<close>

record call =
  c_tenant :: string
  c_actor :: string
  c_eventId :: string
  c_idempotencyKey :: string
  c_correlation :: string
  c_causation :: "string option"
  c_createdAt :: string

definition call_event :: "call \<Rightarrow> string \<Rightarrow> string \<Rightarrow> string \<Rightarrow> json \<Rightarrow> event_input" where
  "call_event c aggregate aid ty payload =
     \<lparr>ei_id = c_eventId c, ei_tenant = c_tenant c, ei_schemaVersion = 1, ei_type = ty,
      ei_aggregateType = aggregate, ei_aggregateId = aid, ei_actor = c_actor c,
      ei_correlation = c_correlation c, ei_causation = c_causation c,
      ei_idempotencyKey = c_idempotencyKey c, ei_payload = payload, ei_createdAt = c_createdAt c\<rparr>"

definition mission_event :: "host \<Rightarrow> call \<Rightarrow> string \<Rightarrow> string \<Rightarrow> json \<Rightarrow> app_db \<Rightarrow> app_db result" where
  "mission_event h c mid ty payload db =
     bindR (appendDomainEvent h (call_event c ''mission'' mid ty payload) db) (\<lambda>(r, db'). Inr db')"

fun state_text :: "mission_state \<Rightarrow> string" where
  "state_text MCreated = ''created''"
| "state_text MDiscovering = ''discovering''"
| "state_text MScoped = ''scoped''"
| "state_text MPlanning = ''planning''"
| "state_text MExecuting = ''executing''"
| "state_text MVerifying = ''verifying''"
| "state_text MAwaitingReview = ''awaiting_review''"
| "state_text MAccepted = ''accepted''"
| "state_text MRejected = ''rejected''"
| "state_text MPartial = ''partial''"
| "state_text MFailed = ''failed''"
| "state_text MCancelled = ''cancelled''"

fun missionTransitions :: "mission_state \<Rightarrow> mission_state list" where
  "missionTransitions MCreated = [MDiscovering, MCancelled]"
| "missionTransitions MDiscovering = [MScoped, MFailed, MCancelled]"
| "missionTransitions MScoped = [MPlanning, MExecuting, MFailed, MCancelled]"
| "missionTransitions MPlanning = [MExecuting, MFailed, MCancelled]"
| "missionTransitions MExecuting = [MVerifying, MFailed, MCancelled]"
| "missionTransitions MVerifying = [MAwaitingReview, MFailed, MCancelled]"
| "missionTransitions MAwaitingReview = [MAccepted, MRejected, MPartial, MFailed, MCancelled]"
| "missionTransitions MAccepted = []"
| "missionTransitions MRejected = []"
| "missionTransitions MPartial = []"
| "missionTransitions MFailed = []"
| "missionTransitions MCancelled = []"

definition product_of :: "string \<Rightarrow> mission_product option" where
  "product_of s = (if s = ''fettler'' then Some Fettler else if s = ''regauge'' then Some Regauge else None)"

definition trigger_of :: "string \<Rightarrow> mission_trigger option" where
  "trigger_of s = (if s = ''provider_change'' then Some ProviderChange
     else if s = ''migration_objective'' then Some MigrationObjective else None)"

section \<open>Statements on missions\<close>

definition write_mission :: "(mission \<Rightarrow> bool) \<Rightarrow> (mission \<Rightarrow> mission) \<Rightarrow> string \<Rightarrow> app_db \<Rightarrow> app_db result" where
  "write_mission P f err db =
     ensure (changes P (db_missions db) = 1) err (Inr (db\<lparr>db_missions := update_where P f (db_missions db)\<rparr>))"

text \<open>\<open>const value = mission(one(...)!)\<close> at the end of a transaction.\<close>

definition reread_mission :: "string \<Rightarrow> string \<Rightarrow> app_db \<Rightarrow> (mission \<times> app_db) result" where
  "reread_mission tenant mid db =
     (case findMission db tenant mid of None \<Rightarrow> throw ''TypeError'' | Some m \<Rightarrow> Inr (m, db))"

definition with_mission :: "string \<Rightarrow> string \<Rightarrow> app_db \<Rightarrow> (mission \<Rightarrow> 'a result) \<Rightarrow> 'a result" where
  "with_mission tenant mid db f =
     (case findMission db tenant mid of None \<Rightarrow> throw ''mission_not_found'' | Some m \<Rightarrow> f m)"

definition regaugeMissionId :: "host \<Rightarrow> string \<Rightarrow> string \<Rightarrow> string" where
  "regaugeMissionId h tenant cid = ''mission-regauge-'' @ take 32 (h_sha h (tenant @ CHR 0x00 # cid))"

section \<open>createMission\<close>

record create_input =
  ci_id :: string
  ci_product :: string
  ci_trigger :: string
  ci_objective :: string
  ci_repository :: "string option"
  ci_snapshot :: "string option"

definition truthy :: "string option \<Rightarrow> bool" where
  "truthy v \<longleftrightarrow> v \<noteq> None \<and> v \<noteq> Some []"

definition new_mission :: "call \<Rightarrow> create_input \<Rightarrow> mission_product \<Rightarrow> mission_trigger \<Rightarrow> string \<Rightarrow> mission" where
  "new_mission c i product trigger objective =
     \<lparr>m_id = ci_id i, m_tenant = c_tenant c, m_product = product, m_state = MCreated, m_trigger = trigger,
      m_objective = objective, m_repository = ci_repository i, m_snapshot = ci_snapshot i,
      m_fettler = None, m_regauge = None, m_graphVersion = None, m_policyVersion = None,
      m_owner = c_actor c, m_revision = 1, m_createdAt = c_createdAt c, m_updatedAt = c_createdAt c\<rparr>"

text \<open>The last guard is the foreign keys of the row: an empty repository or snapshot id skips the tenant
  check and is left to them.\<close>

definition insert_mission :: "host \<Rightarrow> call \<Rightarrow> mission \<Rightarrow> string \<Rightarrow> string \<Rightarrow> app_db \<Rightarrow> (mission \<times> app_db) result" where
  "insert_mission h c m product trigger db =
     ensure ((case m_repository m of None \<Rightarrow> True | Some r \<Rightarrow> exists_row (\<lambda>x. rp_id x = r) (db_repositories db)) \<and>
         (case m_snapshot m of None \<Rightarrow> True | Some s \<Rightarrow> exists_row (\<lambda>x. sn_id x = s) (db_snapshots db)))
       ''FOREIGN KEY constraint failed''
     (bindR (mission_event h c (m_id m) ''mission.created''
          (JObj [(''product'', JStr product), (''triggerKind'', JStr trigger), (''state'', JStr ''created''), (''revision'', JNum 1)])
          (db\<lparr>db_missions := db_missions db @ [m]\<rparr>))
        (reread_mission (m_tenant m) (m_id m)))"

definition createMission :: "host \<Rightarrow> call \<Rightarrow> create_input \<Rightarrow> app_db \<Rightarrow> (mission \<times> app_db) result" where
  "createMission h c i db =
     bindR (mission_required ''mission_id'' (ci_id i)) (\<lambda>_.
     bindR (mission_required ''tenant_id'' (c_tenant c)) (\<lambda>_.
     bindR (mission_required ''mission_objective'' (ci_objective i)) (\<lambda>objective.
     case product_of (ci_product i) of None \<Rightarrow> throw ''mission_product_invalid'' | Some product \<Rightarrow>
     (case trigger_of (ci_trigger i) of None \<Rightarrow> throw ''mission_trigger_kind_invalid'' | Some trigger \<Rightarrow>
     bindR (assertPrincipal db (c_tenant c) (c_actor c)) (\<lambda>_.
     ensure (truthy (ci_repository i) \<longrightarrow>
         exists_row (\<lambda>r. Some (rp_id r) = ci_repository i \<and> rp_tenant r = c_tenant c) (db_repositories db))
       ''mission_repository_tenant_mismatch'' (
     ensure (truthy (ci_snapshot i) \<longrightarrow>
         exists_row (\<lambda>s. Some (sn_id s) = ci_snapshot i \<and> sn_tenant s = c_tenant c) (db_snapshots db))
       ''mission_snapshot_tenant_mismatch'' (
     case List.find (\<lambda>m. m_id m = ci_id i) (db_missions db) of
       Some m \<Rightarrow> ensure (m_tenant m = c_tenant c \<and> m_product m = product \<and> m_trigger m = trigger \<and>
           m_objective m = objective \<and> m_owner m = c_actor c \<and> m_repository m = ci_repository i \<and>
           m_snapshot m = ci_snapshot i) ''mission_id_conflict'' (Inr (m, db))
     | None \<Rightarrow> insert_mission h c (new_mission c i product trigger objective) (ci_product i) (ci_trigger i) db)))))))"


section \<open>transitionMission\<close>

definition transitionMission :: "host \<Rightarrow> call \<Rightarrow> string \<Rightarrow> int \<Rightarrow> mission_state \<Rightarrow> app_db \<Rightarrow> (mission \<times> app_db) result" where
  "transitionMission h c mid expected to db =
     bindR (assertPrincipal db (c_tenant c) (c_actor c)) (\<lambda>_.
     with_mission (c_tenant c) mid db (\<lambda>current.
     ensure (m_revision current = expected) ''mission_revision_conflict'' (
     ensure (to \<in> set (missionTransitions (m_state current))) ''mission_transition_invalid'' (
     bindR (revokePendingMissionMutationDispatches (c_tenant c) mid (c_createdAt c) db) (\<lambda>db1.
     bindR (write_mission (\<lambda>m. m_id m = mid \<and> m_tenant m = c_tenant c \<and> m_revision m = expected)
         (\<lambda>m. m\<lparr>m_state := to, m_revision := m_revision m + 1, m_updatedAt := c_createdAt c\<rparr>)
         ''mission_revision_conflict'' db1) (\<lambda>db2.
     bindR (mission_event h c mid ''mission.transitioned''
         (JObj [(''from'', JStr (state_text (m_state current))), (''to'', JStr (state_text to)),
                (''previousRevision'', JNum (m_revision current)), (''revision'', JNum (m_revision current + 1))]) db2)
       (reread_mission (c_tenant c) mid)))))))"

definition getMission :: "app_db \<Rightarrow> string \<Rightarrow> string \<Rightarrow> mission option" where
  "getMission db tenant mid = findMission db tenant mid"

section \<open>Binding scope and versions\<close>

definition bindMissionScope :: "host \<Rightarrow> call \<Rightarrow> string \<Rightarrow> string \<Rightarrow> string \<Rightarrow> app_db \<Rightarrow> (mission \<times> app_db) result" where
  "bindMissionScope h c mid repo snap db =
     bindR (assertPrincipal db (c_tenant c) (c_actor c)) (\<lambda>_.
     bindR (mission_required ''mission_repository_id'' repo) (\<lambda>repositoryId.
     bindR (mission_required ''mission_snapshot_id'' snap) (\<lambda>snapshotId.
     ensure (exists_row (\<lambda>r. rp_id r = repositoryId \<and> rp_tenant r = c_tenant c) (db_repositories db))
       ''mission_repository_tenant_mismatch'' (
     ensure (exists_row (\<lambda>s. sn_id s = snapshotId \<and> sn_tenant s = c_tenant c \<and> sn_repository s = repositoryId) (db_snapshots db))
       ''mission_snapshot_tenant_mismatch'' (
     with_mission (c_tenant c) mid db (\<lambda>current.
     if m_repository current = Some repositoryId \<and> m_snapshot current = Some snapshotId then Inr (current, db)
     else ensure (m_repository current = None \<and> m_snapshot current = None) ''mission_scope_conflict'' (
     bindR (revokePendingMissionMutationDispatches (c_tenant c) mid (c_createdAt c) db) (\<lambda>db1.
     bindR (write_mission (\<lambda>m. m_id m = mid \<and> m_tenant m = c_tenant c \<and> m_revision m = m_revision current \<and>
           m_repository m = None \<and> m_snapshot m = None)
         (\<lambda>m. m\<lparr>m_repository := Some repositoryId, m_snapshot := Some snapshotId,
           m_revision := m_revision m + 1, m_updatedAt := c_createdAt c\<rparr>)
         ''mission_revision_conflict'' db1) (\<lambda>db2.
     bindR (mission_event h c mid ''mission.scope_bound''
         (JObj [(''repositoryId'', JStr repositoryId), (''snapshotId'', JStr snapshotId),
                (''previousRevision'', JNum (m_revision current)), (''revision'', JNum (m_revision current + 1))]) db2)
       (reread_mission (c_tenant c) mid))))))))))"

text \<open>\<open>bindMissionExecutionVersion\<close>: \<open>column\<close> names the bound column.\<close>

datatype version_column = GraphVersion | PolicyVersion

fun get_version :: "version_column \<Rightarrow> mission \<Rightarrow> string option" where
  "get_version GraphVersion m = m_graphVersion m"
| "get_version PolicyVersion m = m_policyVersion m"

fun set_version :: "version_column \<Rightarrow> string option \<Rightarrow> mission \<Rightarrow> mission" where
  "set_version GraphVersion v m = m\<lparr>m_graphVersion := v\<rparr>"
| "set_version PolicyVersion v m = m\<lparr>m_policyVersion := v\<rparr>"

definition bindMissionExecutionVersion :: "host \<Rightarrow> call \<Rightarrow> string \<Rightarrow> version_column \<Rightarrow> string \<Rightarrow> string \<Rightarrow> string \<Rightarrow> string \<Rightarrow>
    string \<Rightarrow> app_db \<Rightarrow> (mission \<times> app_db) result" where
  "bindMissionExecutionVersion h c mid column value requiredName conflictError eventType payloadKey db =
     bindR (assertPrincipal db (c_tenant c) (c_actor c)) (\<lambda>_.
     bindR (mission_required requiredName value) (\<lambda>v.
     with_mission (c_tenant c) mid db (\<lambda>current.
     if get_version column current = Some v then Inr (current, db)
     else ensure (get_version column current = None) conflictError (
     bindR (revokePendingMissionMutationDispatches (c_tenant c) mid (c_createdAt c) db) (\<lambda>db1.
     bindR (write_mission (\<lambda>m. m_id m = mid \<and> m_tenant m = c_tenant c \<and> m_revision m = m_revision current \<and>
           get_version column m = None)
         (\<lambda>m. (set_version column (Some v) m)\<lparr>m_revision := m_revision m + 1, m_updatedAt := c_createdAt c\<rparr>)
         ''mission_revision_conflict'' db1) (\<lambda>db2.
     bindR (mission_event h c mid eventType
         (JObj [(payloadKey, JStr v), (''previousRevision'', JNum (m_revision current)),
                (''revision'', JNum (m_revision current + 1))]) db2)
       (reread_mission (c_tenant c) mid)))))))"

definition bindMissionGraphVersion :: "host \<Rightarrow> call \<Rightarrow> string \<Rightarrow> string \<Rightarrow> app_db \<Rightarrow> (mission \<times> app_db) result" where
  "bindMissionGraphVersion h c mid v db =
     bindMissionExecutionVersion h c mid GraphVersion v ''mission_graph_version_id'' ''mission_graph_version_conflict''
       ''mission.graph_version_bound'' ''graphVersionId'' db"

definition bindMissionPolicyEnvelopeVersion :: "host \<Rightarrow> call \<Rightarrow> string \<Rightarrow> string \<Rightarrow> app_db \<Rightarrow> (mission \<times> app_db) result" where
  "bindMissionPolicyEnvelopeVersion h c mid v db =
     bindMissionExecutionVersion h c mid PolicyVersion v ''mission_policy_envelope_version''
       ''mission_policy_envelope_version_conflict'' ''mission.policy_envelope_bound'' ''policyEnvelopeVersion'' db"

definition terminal_states :: "mission_state list" where
  "terminal_states = [MAccepted, MRejected, MPartial, MFailed, MCancelled]"

definition envelope_versions :: "host \<Rightarrow> string \<Rightarrow> string \<Rightarrow> int result" where
  "envelope_versions h expected next =
     (case (h_number h expected, h_number h next) of
        (Some e, Some n) \<Rightarrow> ensure (1 \<le> e \<and> e < n) ''mission_policy_envelope_advance_invalid'' (Inr n)
      | _ \<Rightarrow> throw ''mission_policy_envelope_advance_invalid'')"

definition advanceMissionPolicyEnvelopeVersion :: "host \<Rightarrow> call \<Rightarrow> string \<Rightarrow> string \<Rightarrow> string \<Rightarrow> string \<Rightarrow> app_db \<Rightarrow>
    (mission \<times> app_db) result" where
  "advanceMissionPolicyEnvelopeVersion h c mid expectedVersion nextVersion authority db =
     bindR (assertPrincipal db (c_tenant c) (c_actor c)) (\<lambda>_.
     bindR (mission_required ''mission_policy_envelope_version'' expectedVersion) (\<lambda>expected.
     bindR (mission_required ''mission_policy_envelope_version'' nextVersion) (\<lambda>nextv.
     bindR (mission_required ''mission_policy_envelope_authority_ref'' authority) (\<lambda>authorityRef.
     bindR (envelope_versions h expected nextv) (\<lambda>nextNumber.
     ensure (exists_row (\<lambda>e. pe_tenant e = c_tenant c \<and> pe_version e = nextNumber) (db_envelopes db))
       ''mission_policy_envelope_not_found'' (
     with_mission (c_tenant c) mid db (\<lambda>current.
     if m_policyVersion current = Some nextv then Inr (current, db)
     else ensure (m_state current \<notin> set terminal_states) ''mission_policy_envelope_advance_terminal'' (
     ensure (m_policyVersion current = Some expected) ''mission_policy_envelope_version_conflict'' (
     bindR (revokePendingMissionMutationDispatches (c_tenant c) mid (c_createdAt c) db) (\<lambda>db1.
     bindR (write_mission (\<lambda>m. m_id m = mid \<and> m_tenant m = c_tenant c \<and> m_revision m = m_revision current \<and>
           m_policyVersion m = Some expected)
         (\<lambda>m. m\<lparr>m_policyVersion := Some nextv, m_revision := m_revision m + 1, m_updatedAt := c_createdAt c\<rparr>)
         ''mission_revision_conflict'' db1) (\<lambda>db2.
     bindR (mission_event h c mid ''mission.policy_envelope_advanced''
         (JObj [(''fromPolicyEnvelopeVersion'', JStr expected), (''toPolicyEnvelopeVersion'', JStr nextv),
                (''authorityRef'', JStr authorityRef), (''previousRevision'', JNum (m_revision current)),
                (''revision'', JNum (m_revision current + 1))]) db2)
       (reread_mission (c_tenant c) mid))))))))))))"

section \<open>Linking campaigns\<close>

definition linkFettlerCampaignToMission :: "host \<Rightarrow> call \<Rightarrow> string \<Rightarrow> string \<Rightarrow> app_db \<Rightarrow> (mission \<times> app_db) result" where
  "linkFettlerCampaignToMission h c mid campaign db =
     bindR (assertPrincipal db (c_tenant c) (c_actor c)) (\<lambda>_.
     with_mission (c_tenant c) mid db (\<lambda>current.
     ensure (m_product current = Fettler) ''mission_product_mismatch'' (
     ensure (exists_row (\<lambda>f. fc_id f = campaign \<and> fc_tenant f = c_tenant c) (db_campaigns db))
       ''mission_fettler_campaign_not_found'' (
     if m_fettler current = Some campaign then Inr (current, db)
     else ensure (\<not> truthy (m_fettler current)) ''mission_link_conflict'' (
     ensure (\<not> exists_row (\<lambda>m. m_tenant m = c_tenant c \<and> m_fettler m = Some campaign) (db_missions db))
       ''mission_link_conflict'' (
     bindR (write_mission (\<lambda>m. m_id m = mid \<and> m_tenant m = c_tenant c \<and> m_fettler m = None)
         (\<lambda>m. m\<lparr>m_fettler := Some campaign, m_updatedAt := c_createdAt c\<rparr>) ''mission_link_conflict'' db) (\<lambda>db1.
     bindR (mission_event h c mid ''mission.fettler_campaign_linked'' (JObj [(''campaignId'', JStr campaign)]) db1)
       (reread_mission (c_tenant c) mid))))))))"

definition linkRegaugeCampaignToMission :: "host \<Rightarrow> call \<Rightarrow> string \<Rightarrow> string \<Rightarrow> app_db \<Rightarrow> (mission \<times> app_db) result" where
  "linkRegaugeCampaignToMission h c mid campaign db =
     bindR (assertPrincipal db (c_tenant c) (c_actor c)) (\<lambda>_.
     bindR (mission_required ''mission_regauge_campaign_id'' campaign) (\<lambda>regaugeId.
     with_mission (c_tenant c) mid db (\<lambda>current.
     ensure (m_product current = Regauge) ''mission_product_mismatch'' (
     if m_regauge current = Some regaugeId then Inr (current, db)
     else ensure (\<not> truthy (m_regauge current)) ''mission_link_conflict'' (
     ensure (\<not> exists_row (\<lambda>m. m_tenant m = c_tenant c \<and> m_regauge m = Some regaugeId) (db_missions db))
       ''mission_link_conflict'' (
     bindR (write_mission (\<lambda>m. m_id m = mid \<and> m_tenant m = c_tenant c \<and> m_regauge m = None)
         (\<lambda>m. m\<lparr>m_regauge := Some regaugeId, m_updatedAt := c_createdAt c\<rparr>) ''mission_link_conflict'' db) (\<lambda>db1.
     bindR (mission_event h c mid ''mission.regauge_campaign_linked'' (JObj [(''regaugeCampaignId'', JStr regaugeId)]) db1)
       (reread_mission (c_tenant c) mid))))))))"

definition resolveMissionForFettlerCampaign :: "app_db \<Rightarrow> string \<Rightarrow> string \<Rightarrow> mission option" where
  "resolveMissionForFettlerCampaign db tenant cid =
     List.find (\<lambda>m. m_tenant m = tenant \<and> m_fettler m = Some cid) (db_missions db)"

definition resolveMissionForRegaugeCampaign :: "app_db \<Rightarrow> string \<Rightarrow> string \<Rightarrow> mission option" where
  "resolveMissionForRegaugeCampaign db tenant cid =
     List.find (\<lambda>m. m_tenant m = tenant \<and> m_regauge m = Some cid) (db_missions db)"


section \<open>The table of legal transitions\<close>

fun mission_rank :: "mission_state \<Rightarrow> nat" where
  "mission_rank MCreated = 0"
| "mission_rank MDiscovering = 1"
| "mission_rank MScoped = 2"
| "mission_rank MPlanning = 3"
| "mission_rank MExecuting = 4"
| "mission_rank MVerifying = 5"
| "mission_rank MAwaitingReview = 6"
| "mission_rank s = 7"

interpretation mission: lifecycle missionTransitions mission_rank 7
proof
  show "t \<in> set (missionTransitions s) \<Longrightarrow> mission_rank s < mission_rank t" for s t by (cases s) auto
  show "mission_rank s \<le> 7" for s by (cases s) simp_all
qed

lemma terminal_iff: "s \<in> set terminal_states \<longleftrightarrow> missionTransitions s = []"
  by (cases s) (simp_all add: terminal_states_def)

section \<open>Statements under unique keys\<close>

lemma update_where_simps [simp]:
  "update_where P f [] = []" "update_where P f (r # rs) = (if P r then f r else r) # update_where P f rs"
  "update_where P f (rs @ qs) = update_where P f rs @ update_where P f qs"
  "length (update_where P f rs) = length rs"
  by (simp_all add: update_where_def)

lemma map_update_where: "(\<And>r. P r \<Longrightarrow> g (f r) = g r) \<Longrightarrow> map g (update_where P f rows) = map g rows"
  by (auto simp: update_where_def)

lemma set_update_where: "r \<in> set (update_where P f rows) \<Longrightarrow> (\<exists>q \<in> set rows. P q \<and> r = f q) \<or> (r \<in> set rows \<and> \<not> P r)"
  by (auto simp: update_where_def split: if_splits)

lemma find_update_key:
  assumes "\<And>r. key (f r) = key r"
  shows "List.find (\<lambda>r. key r = k') (update_where (\<lambda>r. key r = k) f rows) =
    (if k' = k then map_option f (List.find (\<lambda>r. key r = k) rows) else List.find (\<lambda>r. key r = k') rows)"
  by (induction rows) (auto simp: assms)

lemma find_append_fresh:
  "List.find P (rows @ [r]) = (case List.find P rows of Some x \<Rightarrow> Some x | None \<Rightarrow> if P r then Some r else None)"
  by (induction rows) auto

text \<open>With unique keys an update keyed on a row touches that row alone, or nothing.\<close>

lemma keyed_update:
  assumes dist: "distinct (map key rows)" and cur: "cur \<in> set rows" and sub: "\<And>r. P r \<Longrightarrow> key r = key cur"
  shows "changes P rows = (if P cur then 1 else 0)"
    and "P cur \<Longrightarrow> update_where P f rows = update_where (\<lambda>r. key r = key cur) f rows"
proof -
  have same: "r = cur" if "r \<in> set rows" "key r = key cur" for r
    using that dist cur by (metis distinct_map inj_onD)
  have "filter P rows = filter (\<lambda>r. r = cur \<and> P cur) rows"
    using same sub by (intro filter_cong) auto
  moreover have "length (filter (\<lambda>r. r = cur) rows) = card (set (filter (\<lambda>r. r = cur) rows))"
    using dist by (metis distinct_card distinct_filter distinct_map)
  moreover have "set (filter (\<lambda>r. r = cur) rows) = {cur}" using cur by auto
  ultimately show "changes P rows = (if P cur then 1 else 0)" by (simp add: changes_def)
  show "P cur \<Longrightarrow> update_where P f rows = update_where (\<lambda>r. key r = key cur) f rows"
    unfolding update_where_def using same sub by (intro map_cong refl if_cong) metis
qed

lemma distinct_finer:
  assumes "distinct (map f xs)" and "\<And>x y. g x = g y \<Longrightarrow> f x = f y"
  shows "distinct (map g xs)"
proof -
  have "inj_on g (set xs)" using assms by (meson distinct_map inj_onD inj_onI)
  with assms(1) show ?thesis by (simp add: distinct_map)
qed

lemma find_key_unique:
  assumes "distinct (map f xs)" and "x \<in> set xs" and "P x" and "\<And>y. P y \<Longrightarrow> f y = f x"
  shows "List.find P xs = Some x"
proof -
  obtain y where y: "List.find P xs = Some y" using assms(2,3) by (cases "List.find P xs") (auto simp: find_None_iff)
  then have "y \<in> set xs" "P y" by (auto simp: find_Some_iff)
  then have "y = x" using assms(4) distinct_map_eq[OF assms(1)] assms(2) by blast
  with y show ?thesis by simp
qed

definition mission_key :: "mission \<Rightarrow> string \<times> string" where
  "mission_key m = (m_id m, m_tenant m)"

definition put_mission :: "string \<Rightarrow> string \<Rightarrow> (mission \<Rightarrow> mission) \<Rightarrow> app_db \<Rightarrow> app_db" where
  "put_mission tenant mid f db =
     db\<lparr>db_missions := update_where (\<lambda>m. mission_key m = (mid, tenant)) f (db_missions db)\<rparr>"

definition missions_keyed :: "app_db \<Rightarrow> bool" where
  "missions_keyed db \<longleftrightarrow> distinct (map m_id (db_missions db))"

lemma findMission_key: "findMission db tenant mid = List.find (\<lambda>m. mission_key m = (mid, tenant)) (db_missions db)"
  by (simp add: findMission_def mission_key_def)

lemma findMission_Some: "findMission db tenant mid = Some m \<Longrightarrow> m \<in> set (db_missions db) \<and> m_id m = mid \<and> m_tenant m = tenant"
  by (auto simp: findMission_def find_Some_iff)

lemma findMission_put:
  assumes "\<And>m. mission_key (f m) = mission_key m"
  shows "findMission (put_mission tenant mid f db) tenant' mid' =
    (if tenant' = tenant \<and> mid' = mid then map_option f (findMission db tenant mid) else findMission db tenant' mid')"
  using find_update_key[of mission_key f "(mid', tenant')" "(mid, tenant)" "db_missions db"] assms
  by (auto simp: findMission_key put_mission_def)

lemma keyed_member: "missions_keyed db \<Longrightarrow> m \<in> set (db_missions db) \<Longrightarrow> findMission db (m_tenant m) (m_id m) = Some m"
  unfolding findMission_def missions_keyed_def
  by (rule find_key_unique[of m_id]) simp_all

lemma write_mission_ok:
  assumes "missions_keyed db" and "findMission db tenant mid = Some cur"
    and "\<And>m. P m \<Longrightarrow> m_id m = mid \<and> m_tenant m = tenant"
  shows "write_mission P f err db = Inr db' \<longleftrightarrow> P cur \<and> db' = put_mission tenant mid f db"
proof -
  have dist: "distinct (map mission_key (db_missions db))"
    using assms(1) unfolding missions_keyed_def by (rule distinct_finer) (simp add: mission_key_def)
  have cur: "cur \<in> set (db_missions db)" "mission_key cur = (mid, tenant)"
    using findMission_Some[OF assms(2)] by (auto simp: mission_key_def)
  have sub: "P m \<Longrightarrow> mission_key m = mission_key cur" for m using assms(3) cur(2) by (auto simp: mission_key_def)
  show ?thesis using keyed_update[of mission_key _ cur P, OF dist cur(1) sub] cur(2)
    by (auto simp: write_mission_def ensure_eq_Inr put_mission_def)
qed

end
