(* ===== verification/MissionWrites.thy ===== *)
theory MissionWrites
  imports Mission
begin

text \<open>
  What a successful mission operation does, as one abstract write: the current row satisfies the
  precondition of a change, the fence holds for changes that bump the revision, the change is applied to
  that row alone, and one event that describes it goes to the log. Every proof about missions starts
  from these characterisations instead of the code of the operations.
\<close>

section \<open>Changes\<close>

datatype mission_change =
    Transitioned mission_state
  | ScopeBound string string
  | VersionBound version_column string
  | VersionAdvanced string string string
  | FettlerLinked string
  | RegaugeLinked string

fun bumps :: "mission_change \<Rightarrow> bool" where
  "bumps (FettlerLinked c) = False"
| "bumps (RegaugeLinked c) = False"
| "bumps ch = True"

fun change_allowed :: "mission_change \<Rightarrow> mission \<Rightarrow> bool" where
  "change_allowed (Transitioned s) m \<longleftrightarrow> s \<in> set (missionTransitions (m_state m))"
| "change_allowed (ScopeBound r s) m \<longleftrightarrow> m_repository m = None \<and> m_snapshot m = None"
| "change_allowed (VersionBound c v) m \<longleftrightarrow> get_version c m = None"
| "change_allowed (VersionAdvanced e n a) m \<longleftrightarrow> m_policyVersion m = Some e \<and> m_state m \<notin> set terminal_states"
| "change_allowed (FettlerLinked c) m \<longleftrightarrow> m_product m = Fettler \<and> m_fettler m = None"
| "change_allowed (RegaugeLinked c) m \<longleftrightarrow> m_product m = Regauge \<and> m_regauge m = None"

fun change_row :: "mission_change \<Rightarrow> mission \<Rightarrow> mission" where
  "change_row (Transitioned s) m = m\<lparr>m_state := s\<rparr>"
| "change_row (ScopeBound r s) m = m\<lparr>m_repository := Some r, m_snapshot := Some s\<rparr>"
| "change_row (VersionBound c v) m = set_version c (Some v) m"
| "change_row (VersionAdvanced e n a) m = m\<lparr>m_policyVersion := Some n\<rparr>"
| "change_row (FettlerLinked c) m = m\<lparr>m_fettler := Some c\<rparr>"
| "change_row (RegaugeLinked c) m = m\<lparr>m_regauge := Some c\<rparr>"

definition apply_change :: "string \<Rightarrow> mission_change \<Rightarrow> mission \<Rightarrow> mission" where
  "apply_change stamp ch m =
     (change_row ch m)\<lparr>m_revision := (if bumps ch then m_revision m + 1 else m_revision m), m_updatedAt := stamp\<rparr>"

fun change_type :: "mission_change \<Rightarrow> string" where
  "change_type (Transitioned s) = ''mission.transitioned''"
| "change_type (ScopeBound r s) = ''mission.scope_bound''"
| "change_type (VersionBound GraphVersion v) = ''mission.graph_version_bound''"
| "change_type (VersionBound PolicyVersion v) = ''mission.policy_envelope_bound''"
| "change_type (VersionAdvanced e n a) = ''mission.policy_envelope_advanced''"
| "change_type (FettlerLinked c) = ''mission.fettler_campaign_linked''"
| "change_type (RegaugeLinked c) = ''mission.regauge_campaign_linked''"

fun change_details :: "mission_change \<Rightarrow> mission \<Rightarrow> (string \<times> json) list" where
  "change_details (Transitioned s) m = [(''from'', JStr (state_text (m_state m))), (''to'', JStr (state_text s))]"
| "change_details (ScopeBound r s) m = [(''repositoryId'', JStr r), (''snapshotId'', JStr s)]"
| "change_details (VersionBound GraphVersion v) m = [(''graphVersionId'', JStr v)]"
| "change_details (VersionBound PolicyVersion v) m = [(''policyEnvelopeVersion'', JStr v)]"
| "change_details (VersionAdvanced e n a) m =
     [(''fromPolicyEnvelopeVersion'', JStr e), (''toPolicyEnvelopeVersion'', JStr n), (''authorityRef'', JStr a)]"
| "change_details (FettlerLinked c) m = [(''campaignId'', JStr c)]"
| "change_details (RegaugeLinked c) m = [(''regaugeCampaignId'', JStr c)]"

definition change_payload :: "mission_change \<Rightarrow> mission \<Rightarrow> json" where
  "change_payload ch m = JObj (change_details ch m @
     (if bumps ch then [(''previousRevision'', JNum (m_revision m)), (''revision'', JNum (m_revision m + 1))] else []))"

section \<open>Writes\<close>

definition of_mission :: "string \<Rightarrow> string \<Rightarrow> dispatch_row \<Rightarrow> bool" where
  "of_mission tenant mid d \<longleftrightarrow> d_tenant d = tenant \<and> d_mission d = mid"

definition fenced :: "app_db \<Rightarrow> string \<Rightarrow> string \<Rightarrow> bool" where
  "fenced db tenant mid \<longleftrightarrow> (\<forall>d \<in> set (db_dispatches db). of_mission tenant mid d \<longrightarrow> \<not> in_flight (d_state d))"

definition revoke_mission :: "string \<Rightarrow> string \<Rightarrow> string \<Rightarrow> app_db \<Rightarrow> app_db" where
  "revoke_mission tenant mid stamp db = db\<lparr>db_dispatches :=
     update_where (\<lambda>d. of_mission tenant mid d \<and> d_state d = Authorized) (revoke_row stamp) (db_dispatches db)\<rparr>"

text \<open>The database after an append: the event was known or is new.\<close>

definition event_step :: "host \<Rightarrow> event_input \<Rightarrow> app_db \<Rightarrow> app_db \<Rightarrow> bool" where
  "event_step h i db db' \<longleftrightarrow> (event_known h i db \<and> db' = db) \<or> (fresh_event i db \<and> db' = with_event h i db)"

definition mission_write :: "host \<Rightarrow> call \<Rightarrow> string \<Rightarrow> mission_change \<Rightarrow> app_db \<Rightarrow> app_db \<Rightarrow> bool" where
  "mission_write h c mid ch db db' \<longleftrightarrow> (\<exists>cur. findMission db (c_tenant c) mid = Some cur \<and> change_allowed ch cur \<and>
     (bumps ch \<longrightarrow> fenced db (c_tenant c) mid) \<and>
     event_step h (call_event c ''mission'' mid (change_type ch) (change_payload ch cur))
       (put_mission (c_tenant c) mid (apply_change (c_createdAt c) ch)
          (if bumps ch then revoke_mission (c_tenant c) mid (c_createdAt c) db else db)) db')"

definition mission_insert :: "host \<Rightarrow> call \<Rightarrow> mission \<Rightarrow> json \<Rightarrow> app_db \<Rightarrow> app_db \<Rightarrow> bool" where
  "mission_insert h c m payload db db' \<longleftrightarrow> m_id m \<notin> m_id ` set (db_missions db) \<and>
     event_step h (call_event c ''mission'' (m_id m) ''mission.created'' payload) (db\<lparr>db_missions := db_missions db @ [m]\<rparr>) db'"

lemma mission_event_step: "mission_event h c mid ty payload db = Inr db' \<Longrightarrow> event_step h (call_event c ''mission'' mid ty payload) db db'"
  by (auto simp: mission_event_def bindR_eq_Inr event_step_def elim!: appendDomainEvent_cases)

lemma revoke_missionD:
  "revokePendingMissionMutationDispatches tenant mid stamp db = Inr db' \<Longrightarrow> fenced db tenant mid \<and> db' = revoke_mission tenant mid stamp db"
  by (auto simp: revokePendingMissionMutationDispatches_def ensure_eq_Inr fenced_def revoke_mission_def exists_row_def list_ex_iff of_mission_def conj_assoc)

lemma reread_missionD: "reread_mission tenant mid db = Inr (v, db') \<Longrightarrow> db' = db \<and> findMission db tenant mid = Some v"
  by (simp add: reread_mission_def split: option.splits)

lemma with_missionD: "with_mission tenant mid db f = Inr r \<Longrightarrow> \<exists>m. findMission db tenant mid = Some m \<and> f m = Inr r"
  by (simp add: with_mission_def split: option.splits)

lemma revoke_mission_frame [simp]:
  "db_missions (revoke_mission t mid s db) = db_missions db" "findMission (revoke_mission t mid s db) t' mid' = findMission db t' mid'"
  "missions_keyed (revoke_mission t mid s db) = missions_keyed db" "db_events (revoke_mission t mid s db) = db_events db"
  by (simp_all add: revoke_mission_def findMission_def missions_keyed_def)

text \<open>The common end of the operations that write a mission.\<close>

lemma finish_write:
  assumes keyed: "missions_keyed db" and cur: "findMission db (c_tenant c) mid = Some cur" and allowed: "change_allowed ch cur"
    and base: "if bumps ch then revokePendingMissionMutationDispatches (c_tenant c) mid (c_createdAt c) db = Inr db1 else db1 = db"
    and upd: "write_mission P (apply_change (c_createdAt c) ch) err db1 = Inr db2"
    and P: "\<And>m. P m \<Longrightarrow> m_id m = mid \<and> m_tenant m = c_tenant c"
    and ev: "mission_event h c mid (change_type ch) (change_payload ch cur) db2 = Inr db3"
    and final: "reread_mission (c_tenant c) mid db3 = Inr (v, db')"
  shows "mission_write h c mid ch db db' \<and> findMission db' (c_tenant c) mid = Some v"
proof -
  let ?base = "if bumps ch then revoke_mission (c_tenant c) mid (c_createdAt c) db else db"
  have db1: "db1 = ?base" and fence: "bumps ch \<longrightarrow> fenced db (c_tenant c) mid"
    using base revoke_missionD by (auto split: if_splits)
  have k: "missions_keyed db1" "findMission db1 (c_tenant c) mid = Some cur" using keyed cur by (simp_all add: db1)
  have "db2 = put_mission (c_tenant c) mid (apply_change (c_createdAt c) ch) ?base"
    using upd by (subst (asm) write_mission_ok[OF k P]) (auto simp: db1)
  with mission_event_step[OF ev] reread_missionD[OF final] fence cur allowed show ?thesis
    unfolding mission_write_def by auto
qed

text \<open>\<open>op_result\<close>: the operation left the database alone and returned the current row, or it was one write.\<close>

definition op_result :: "host \<Rightarrow> call \<Rightarrow> string \<Rightarrow> mission_change \<Rightarrow> app_db \<Rightarrow> mission \<Rightarrow> app_db \<Rightarrow> bool" where
  "op_result h c mid ch db v db' \<longleftrightarrow> findMission db' (c_tenant c) mid = Some v \<and> (db' = db \<or> mission_write h c mid ch db db')"

lemma transitionMissionD:
  assumes "missions_keyed db" and "transitionMission h c mid e to db = Inr (v, db')"
  shows "mission_write h c mid (Transitioned to) db db' \<and> findMission db' (c_tenant c) mid = Some v"
proof -
  from assms(2) obtain cur db1 db2 db3 where
    cur: "findMission db (c_tenant c) mid = Some cur" "m_revision cur = e" "to \<in> set (missionTransitions (m_state cur))"
    and 1: "revokePendingMissionMutationDispatches (c_tenant c) mid (c_createdAt c) db = Inr db1"
    and 2: "write_mission (\<lambda>m. m_id m = mid \<and> m_tenant m = c_tenant c \<and> m_revision m = e)
         (\<lambda>m. m\<lparr>m_state := to, m_revision := m_revision m + 1, m_updatedAt := c_createdAt c\<rparr>)
         ''mission_revision_conflict'' db1 = Inr db2"
    and 3: "mission_event h c mid ''mission.transitioned''
         (JObj [(''from'', JStr (state_text (m_state cur))), (''to'', JStr (state_text to)),
                (''previousRevision'', JNum (m_revision cur)), (''revision'', JNum (m_revision cur + 1))]) db2 = Inr db3"
    and 4: "reread_mission (c_tenant c) mid db3 = Inr (v, db')"
    by (auto simp: transitionMission_def bindR_eq_Inr ensure_eq_Inr dest!: with_missionD)
  have f: "(\<lambda>m. m\<lparr>m_state := to, m_revision := m_revision m + 1, m_updatedAt := c_createdAt c\<rparr>) = apply_change (c_createdAt c) (Transitioned to)"
    by (simp add: fun_eq_iff apply_change_def)
  show ?thesis
    by (rule finish_write[OF assms(1) cur(1) _ _ 2[unfolded f] _ _ 4]) (use cur 1 3 in \<open>auto simp: change_payload_def\<close>)
qed


lemma option_throw_eq_Inr:
  "(case x of None \<Rightarrow> throw e | Some y \<Rightarrow> f y) = Inr r \<longleftrightarrow> (\<exists>y. x = Some y \<and> f y = Inr r)"
  by (cases x) simp_all

lemma mission_required_trim: "mission_required n s = Inr t \<Longrightarrow> t = trim s"
  by (simp add: mission_required_def required_def Let_def ensure_eq_Inr)

lemma bindMissionScopeD:
  assumes "missions_keyed db" and op: "bindMissionScope h c mid repo snap db = Inr (v, db')"
  shows "op_result h c mid (ScopeBound (trim repo) (trim snap)) db v db'"
proof -
  let ?r = "trim repo" and ?s = "trim snap"
  from op obtain cur where cur: "findMission db (c_tenant c) mid = Some cur"
    and body: "(if m_repository cur = Some ?r \<and> m_snapshot cur = Some ?s then Inr (cur, db)
     else ensure (m_repository cur = None \<and> m_snapshot cur = None) ''mission_scope_conflict'' (
     bindR (revokePendingMissionMutationDispatches (c_tenant c) mid (c_createdAt c) db) (\<lambda>db1.
     bindR (write_mission (\<lambda>m. m_id m = mid \<and> m_tenant m = c_tenant c \<and> m_revision m = m_revision cur \<and>
           m_repository m = None \<and> m_snapshot m = None)
         (\<lambda>m. m\<lparr>m_repository := Some ?r, m_snapshot := Some ?s,
           m_revision := m_revision m + 1, m_updatedAt := c_createdAt c\<rparr>)
         ''mission_revision_conflict'' db1) (\<lambda>db2.
     bindR (mission_event h c mid ''mission.scope_bound''
         (JObj [(''repositoryId'', JStr ?r), (''snapshotId'', JStr ?s),
                (''previousRevision'', JNum (m_revision cur)), (''revision'', JNum (m_revision cur + 1))]) db2)
       (reread_mission (c_tenant c) mid))))) = Inr (v, db')"
    by (auto simp: bindMissionScope_def bindR_eq_Inr ensure_eq_Inr dest!: with_missionD mission_required_trim)
  show ?thesis
  proof (cases "m_repository cur = Some ?r \<and> m_snapshot cur = Some ?s")
    case True
    with body cur show ?thesis by (simp add: op_result_def)
  next
    case False
    with body obtain db1 db2 db3 where none: "m_repository cur = None" "m_snapshot cur = None"
      and 1: "revokePendingMissionMutationDispatches (c_tenant c) mid (c_createdAt c) db = Inr db1"
      and 2: "write_mission (\<lambda>m. m_id m = mid \<and> m_tenant m = c_tenant c \<and> m_revision m = m_revision cur \<and>
           m_repository m = None \<and> m_snapshot m = None)
         (\<lambda>m. m\<lparr>m_repository := Some ?r, m_snapshot := Some ?s,
           m_revision := m_revision m + 1, m_updatedAt := c_createdAt c\<rparr>) ''mission_revision_conflict'' db1 = Inr db2"
      and 3: "mission_event h c mid ''mission.scope_bound''
         (JObj [(''repositoryId'', JStr ?r), (''snapshotId'', JStr ?s),
                (''previousRevision'', JNum (m_revision cur)), (''revision'', JNum (m_revision cur + 1))]) db2 = Inr db3"
      and 4: "reread_mission (c_tenant c) mid db3 = Inr (v, db')"
      by (auto simp: bindR_eq_Inr ensure_eq_Inr)
    have f: "(\<lambda>m. m\<lparr>m_repository := Some ?r, m_snapshot := Some ?s, m_revision := m_revision m + 1, m_updatedAt := c_createdAt c\<rparr>)
        = apply_change (c_createdAt c) (ScopeBound ?r ?s)"
      by (simp add: fun_eq_iff apply_change_def)
    show ?thesis unfolding op_result_def
      using finish_write[OF assms(1) cur _ _ 2[unfolded f] _ _ 4] none 1 3 by (auto simp: change_payload_def)
  qed
qed

lemma bindMissionExecutionVersionD:
  assumes "missions_keyed db"
    and op: "bindMissionExecutionVersion h c mid column value rn ce ty pk db = Inr (v, db')"
    and ty: "change_type (VersionBound column (trim value)) = ty"
    and pk: "\<And>m. change_details (VersionBound column (trim value)) m = [(pk, JStr (trim value))]"
  shows "op_result h c mid (VersionBound column (trim value)) db v db'"
proof -
  let ?v = "trim value"
  from op obtain cur where cur: "findMission db (c_tenant c) mid = Some cur"
    and body: "(if get_version column cur = Some ?v then Inr (cur, db)
     else ensure (get_version column cur = None) ce (
     bindR (revokePendingMissionMutationDispatches (c_tenant c) mid (c_createdAt c) db) (\<lambda>db1.
     bindR (write_mission (\<lambda>m. m_id m = mid \<and> m_tenant m = c_tenant c \<and> m_revision m = m_revision cur \<and>
           get_version column m = None)
         (\<lambda>m. (set_version column (Some ?v) m)\<lparr>m_revision := m_revision m + 1, m_updatedAt := c_createdAt c\<rparr>)
         ''mission_revision_conflict'' db1) (\<lambda>db2.
     bindR (mission_event h c mid ty
         (JObj [(pk, JStr ?v), (''previousRevision'', JNum (m_revision cur)),
                (''revision'', JNum (m_revision cur + 1))]) db2)
       (reread_mission (c_tenant c) mid))))) = Inr (v, db')"
    by (auto simp: bindMissionExecutionVersion_def bindR_eq_Inr ensure_eq_Inr dest!: with_missionD mission_required_trim)
  show ?thesis
  proof (cases "get_version column cur = Some ?v")
    case True
    with body cur show ?thesis by (simp add: op_result_def)
  next
    case False
    with body obtain db1 db2 db3 where none: "get_version column cur = None"
      and 1: "revokePendingMissionMutationDispatches (c_tenant c) mid (c_createdAt c) db = Inr db1"
      and 2: "write_mission (\<lambda>m. m_id m = mid \<and> m_tenant m = c_tenant c \<and> m_revision m = m_revision cur \<and>
           get_version column m = None)
         (\<lambda>m. (set_version column (Some ?v) m)\<lparr>m_revision := m_revision m + 1, m_updatedAt := c_createdAt c\<rparr>)
         ''mission_revision_conflict'' db1 = Inr db2"
      and 3: "mission_event h c mid ty (JObj [(pk, JStr ?v), (''previousRevision'', JNum (m_revision cur)),
                (''revision'', JNum (m_revision cur + 1))]) db2 = Inr db3"
      and 4: "reread_mission (c_tenant c) mid db3 = Inr (v, db')"
      by (auto simp: bindR_eq_Inr ensure_eq_Inr)
    have f: "(\<lambda>m. (set_version column (Some ?v) m)\<lparr>m_revision := m_revision m + 1, m_updatedAt := c_createdAt c\<rparr>)
        = apply_change (c_createdAt c) (VersionBound column ?v)"
      by (simp add: fun_eq_iff apply_change_def)
    show ?thesis unfolding op_result_def
      using finish_write[OF assms(1) cur _ _ 2[unfolded f] _ _ 4] none 1 3 by (auto simp: change_payload_def ty pk)
  qed
qed

lemma advanceMissionPolicyEnvelopeVersionD:
  assumes "missions_keyed db"
    and op: "advanceMissionPolicyEnvelopeVersion h c mid ev nv au db = Inr (v, db')"
  shows "op_result h c mid (VersionAdvanced (trim ev) (trim nv) (trim au)) db v db'"
proof -
  let ?e = "trim ev" and ?n = "trim nv" and ?a = "trim au"
  from op obtain cur where cur: "findMission db (c_tenant c) mid = Some cur"
    and body: "(if m_policyVersion cur = Some ?n then Inr (cur, db)
     else ensure (m_state cur \<notin> set terminal_states) ''mission_policy_envelope_advance_terminal'' (
     ensure (m_policyVersion cur = Some ?e) ''mission_policy_envelope_version_conflict'' (
     bindR (revokePendingMissionMutationDispatches (c_tenant c) mid (c_createdAt c) db) (\<lambda>db1.
     bindR (write_mission (\<lambda>m. m_id m = mid \<and> m_tenant m = c_tenant c \<and> m_revision m = m_revision cur \<and>
           m_policyVersion m = Some ?e)
         (\<lambda>m. m\<lparr>m_policyVersion := Some ?n, m_revision := m_revision m + 1, m_updatedAt := c_createdAt c\<rparr>)
         ''mission_revision_conflict'' db1) (\<lambda>db2.
     bindR (mission_event h c mid ''mission.policy_envelope_advanced''
         (JObj [(''fromPolicyEnvelopeVersion'', JStr ?e), (''toPolicyEnvelopeVersion'', JStr ?n),
                (''authorityRef'', JStr ?a), (''previousRevision'', JNum (m_revision cur)),
                (''revision'', JNum (m_revision cur + 1))]) db2)
       (reread_mission (c_tenant c) mid)))))) = Inr (v, db')"
    by (auto simp: advanceMissionPolicyEnvelopeVersion_def bindR_eq_Inr ensure_eq_Inr dest!: with_missionD mission_required_trim)
  show ?thesis
  proof (cases "m_policyVersion cur = Some ?n")
    case True
    with body cur show ?thesis by (simp add: op_result_def)
  next
    case False
    with body obtain db1 db2 db3 where ok: "m_policyVersion cur = Some ?e" "m_state cur \<notin> set terminal_states"
      and 1: "revokePendingMissionMutationDispatches (c_tenant c) mid (c_createdAt c) db = Inr db1"
      and 2: "write_mission (\<lambda>m. m_id m = mid \<and> m_tenant m = c_tenant c \<and> m_revision m = m_revision cur \<and>
           m_policyVersion m = Some ?e)
         (\<lambda>m. m\<lparr>m_policyVersion := Some ?n, m_revision := m_revision m + 1, m_updatedAt := c_createdAt c\<rparr>)
         ''mission_revision_conflict'' db1 = Inr db2"
      and 3: "mission_event h c mid ''mission.policy_envelope_advanced''
         (JObj [(''fromPolicyEnvelopeVersion'', JStr ?e), (''toPolicyEnvelopeVersion'', JStr ?n),
                (''authorityRef'', JStr ?a), (''previousRevision'', JNum (m_revision cur)),
                (''revision'', JNum (m_revision cur + 1))]) db2 = Inr db3"
      and 4: "reread_mission (c_tenant c) mid db3 = Inr (v, db')"
      by (auto simp: bindR_eq_Inr ensure_eq_Inr)
    have f: "(\<lambda>m. m\<lparr>m_policyVersion := Some ?n, m_revision := m_revision m + 1, m_updatedAt := c_createdAt c\<rparr>)
        = apply_change (c_createdAt c) (VersionAdvanced ?e ?n ?a)"
      by (simp add: fun_eq_iff apply_change_def)
    show ?thesis unfolding op_result_def
      using finish_write[OF assms(1) cur _ _ 2[unfolded f] _ _ 4] ok 1 3 by (auto simp: change_payload_def)
  qed
qed


lemma linkFettlerCampaignToMissionD:
  assumes "missions_keyed db" and op: "linkFettlerCampaignToMission h c mid campaign db = Inr (v, db')"
  shows "op_result h c mid (FettlerLinked campaign) db v db'"
proof -
  from op obtain cur where cur: "findMission db (c_tenant c) mid = Some cur" "m_product cur = Fettler"
    and body: "(if m_fettler cur = Some campaign then Inr (cur, db)
     else ensure (\<not> truthy (m_fettler cur)) ''mission_link_conflict'' (
     ensure (\<not> exists_row (\<lambda>m. m_tenant m = c_tenant c \<and> m_fettler m = Some campaign) (db_missions db))
       ''mission_link_conflict'' (
     bindR (write_mission (\<lambda>m. m_id m = mid \<and> m_tenant m = c_tenant c \<and> m_fettler m = None)
         (\<lambda>m. m\<lparr>m_fettler := Some campaign, m_updatedAt := c_createdAt c\<rparr>) ''mission_link_conflict'' db) (\<lambda>db1.
     bindR (mission_event h c mid ''mission.fettler_campaign_linked'' (JObj [(''campaignId'', JStr campaign)]) db1)
       (reread_mission (c_tenant c) mid))))) = Inr (v, db')"
    by (auto simp: linkFettlerCampaignToMission_def bindR_eq_Inr ensure_eq_Inr dest!: with_missionD)
  show ?thesis
  proof (cases "m_fettler cur = Some campaign")
    case True
    with body cur show ?thesis by (simp add: op_result_def)
  next
    case False
    with body obtain db1 db2 where
      2: "write_mission (\<lambda>m. m_id m = mid \<and> m_tenant m = c_tenant c \<and> m_fettler m = None)
         (\<lambda>m. m\<lparr>m_fettler := Some campaign, m_updatedAt := c_createdAt c\<rparr>) ''mission_link_conflict'' db = Inr db1"
      and 3: "mission_event h c mid ''mission.fettler_campaign_linked'' (JObj [(''campaignId'', JStr campaign)]) db1 = Inr db2"
      and 4: "reread_mission (c_tenant c) mid db2 = Inr (v, db')"
      by (auto simp: bindR_eq_Inr ensure_eq_Inr)
    have none: "m_fettler cur = None" using 2 by (subst (asm) write_mission_ok[OF assms(1) cur(1)]) auto
    have f: "(\<lambda>m. m\<lparr>m_fettler := Some campaign, m_updatedAt := c_createdAt c\<rparr>) = apply_change (c_createdAt c) (FettlerLinked campaign)"
      by (simp add: fun_eq_iff apply_change_def)
    show ?thesis unfolding op_result_def
      using finish_write[OF assms(1) cur(1) _ _ 2[unfolded f] _ _ 4] none cur 3 by (auto simp: change_payload_def)
  qed
qed

lemma linkRegaugeCampaignToMissionD:
  assumes "missions_keyed db" and op: "linkRegaugeCampaignToMission h c mid campaign db = Inr (v, db')"
  shows "op_result h c mid (RegaugeLinked (trim campaign)) db v db'"
proof -
  let ?id = "trim campaign"
  from op obtain cur where cur: "findMission db (c_tenant c) mid = Some cur" "m_product cur = Regauge"
    and body: "(if m_regauge cur = Some ?id then Inr (cur, db)
     else ensure (\<not> truthy (m_regauge cur)) ''mission_link_conflict'' (
     ensure (\<not> exists_row (\<lambda>m. m_tenant m = c_tenant c \<and> m_regauge m = Some ?id) (db_missions db))
       ''mission_link_conflict'' (
     bindR (write_mission (\<lambda>m. m_id m = mid \<and> m_tenant m = c_tenant c \<and> m_regauge m = None)
         (\<lambda>m. m\<lparr>m_regauge := Some ?id, m_updatedAt := c_createdAt c\<rparr>) ''mission_link_conflict'' db) (\<lambda>db1.
     bindR (mission_event h c mid ''mission.regauge_campaign_linked'' (JObj [(''regaugeCampaignId'', JStr ?id)]) db1)
       (reread_mission (c_tenant c) mid))))) = Inr (v, db')"
    by (auto simp: linkRegaugeCampaignToMission_def bindR_eq_Inr ensure_eq_Inr dest!: with_missionD mission_required_trim)
  show ?thesis
  proof (cases "m_regauge cur = Some ?id")
    case True
    with body cur show ?thesis by (simp add: op_result_def)
  next
    case False
    with body obtain db1 db2 where
      2: "write_mission (\<lambda>m. m_id m = mid \<and> m_tenant m = c_tenant c \<and> m_regauge m = None)
         (\<lambda>m. m\<lparr>m_regauge := Some ?id, m_updatedAt := c_createdAt c\<rparr>) ''mission_link_conflict'' db = Inr db1"
      and 3: "mission_event h c mid ''mission.regauge_campaign_linked'' (JObj [(''regaugeCampaignId'', JStr ?id)]) db1 = Inr db2"
      and 4: "reread_mission (c_tenant c) mid db2 = Inr (v, db')"
      by (auto simp: bindR_eq_Inr ensure_eq_Inr)
    have none: "m_regauge cur = None" using 2 by (subst (asm) write_mission_ok[OF assms(1) cur(1)]) auto
    have f: "(\<lambda>m. m\<lparr>m_regauge := Some ?id, m_updatedAt := c_createdAt c\<rparr>) = apply_change (c_createdAt c) (RegaugeLinked ?id)"
      by (simp add: fun_eq_iff apply_change_def)
    show ?thesis unfolding op_result_def
      using finish_write[OF assms(1) cur(1) _ _ 2[unfolded f] _ _ 4] none cur 3 by (auto simp: change_payload_def)
  qed
qed

text \<open>Creation: an existing row is returned only when it matches the input, or a fresh row is inserted.\<close>

definition created_payload :: "string \<Rightarrow> string \<Rightarrow> json" where
  "created_payload product trigger = JObj [(''product'', JStr product), (''triggerKind'', JStr trigger),
     (''state'', JStr ''created''), (''revision'', JNum 1)]"

lemma createMissionD:
  assumes "createMission h c i db = Inr (v, db')"
  shows "(db' = db \<and> v \<in> set (db_missions db) \<and> m_id v = ci_id i \<and> m_tenant v = c_tenant c) \<or>
    (\<exists>p k. product_of (ci_product i) = Some p \<and> trigger_of (ci_trigger i) = Some k \<and>
       mission_insert h c (new_mission c i p k (trim (ci_objective i))) (created_payload (ci_product i) (ci_trigger i)) db db' \<and>
       findMission db' (c_tenant c) (ci_id i) = Some v)"
proof -
  from assms obtain p k where pk: "product_of (ci_product i) = Some p" "trigger_of (ci_trigger i) = Some k"
    and body: "(case List.find (\<lambda>m. m_id m = ci_id i) (db_missions db) of
       Some m \<Rightarrow> ensure (m_tenant m = c_tenant c \<and> m_product m = p \<and> m_trigger m = k \<and>
           m_objective m = trim (ci_objective i) \<and> m_owner m = c_actor c \<and> m_repository m = ci_repository i \<and>
           m_snapshot m = ci_snapshot i) ''mission_id_conflict'' (Inr (m, db))
     | None \<Rightarrow> insert_mission h c (new_mission c i p k (trim (ci_objective i))) (ci_product i) (ci_trigger i) db) = Inr (v, db')"
    by (auto simp: createMission_def bindR_eq_Inr ensure_eq_Inr option_throw_eq_Inr dest!: mission_required_trim)
  show ?thesis
  proof (cases "List.find (\<lambda>m. m_id m = ci_id i) (db_missions db)")
    case (Some m)
    with body show ?thesis by (auto simp: ensure_eq_Inr find_Some_iff)
  next
    case None
    let ?m = "new_mission c i p k (trim (ci_objective i))"
    have m: "m_id ?m = ci_id i" "m_tenant ?m = c_tenant c" by (simp_all add: new_mission_def)
    from None have fresh: "ci_id i \<notin> m_id ` set (db_missions db)" by (auto simp: find_None_iff)
    from None body obtain db1 where
      1: "mission_event h c (m_id ?m) ''mission.created'' (created_payload (ci_product i) (ci_trigger i))
            (db\<lparr>db_missions := db_missions db @ [?m]\<rparr>) = Inr db1"
      and 2: "reread_mission (m_tenant ?m) (m_id ?m) db1 = Inr (v, db')"
      by (auto simp: insert_mission_def bindR_eq_Inr ensure_eq_Inr created_payload_def)
    from mission_event_step[OF 1] reread_missionD[OF 2] fresh pk m show ?thesis
      unfolding mission_insert_def by auto
  qed
qed

end
