(* ===== verification/MissionTask.thy ===== *)
theory MissionTask
  imports MissionWrites
begin

text \<open>
  The tasks of a mission, \<open>packages/db/src/mission-task.ts\<close>: creation, transitions under optimistic
  concurrency, the bridge from claimed jobs and the dependency graph with its cycle guard and its
  readiness test.
\<close>

section \<open>Statuses\<close>

fun status_text :: "task_status \<Rightarrow> string" where
  "status_text TUnassigned = ''unassigned''"
| "status_text TAgentAssigned = ''agent_assigned''"
| "status_text TAgentWorking = ''agent_working''"
| "status_text THumanReviewRequired = ''human_review_required''"
| "status_text THumanAssigned = ''human_assigned''"
| "status_text THumanWorking = ''human_working''"
| "status_text TAgentResume = ''agent_resume''"
| "status_text TComplete = ''complete''"
| "status_text TBlocked = ''blocked''"
| "status_text TFailed = ''failed''"
| "status_text TCancelled = ''cancelled''"
| "status_text TEscalated = ''escalated''"

fun transitions :: "task_status \<Rightarrow> task_status list" where
  "transitions TUnassigned = [TAgentAssigned, THumanAssigned, TCancelled]"
| "transitions TAgentAssigned = [TAgentWorking, TBlocked, TCancelled, TEscalated]"
| "transitions TAgentWorking = [THumanReviewRequired, TComplete, TBlocked, TFailed, TCancelled, TEscalated]"
| "transitions THumanReviewRequired = [THumanAssigned, TAgentResume, TCancelled, TEscalated]"
| "transitions THumanAssigned = [THumanWorking, TAgentResume, TCancelled, TEscalated]"
| "transitions THumanWorking = [TAgentResume, TComplete, TBlocked, TCancelled, TEscalated]"
| "transitions TAgentResume = [TAgentWorking, TComplete, TBlocked, TCancelled]"
| "transitions TBlocked = [TAgentWorking, THumanAssigned, TCancelled, TEscalated]"
| "transitions TEscalated = [THumanAssigned, TCancelled]"
| "transitions TComplete = []"
| "transitions TFailed = []"
| "transitions TCancelled = []"

definition ownerForStatus :: "task_status \<Rightarrow> task_owner option \<Rightarrow> task_owner option" where
  "ownerForStatus status prior =
     (if starts_with (status_text status) ''agent'' then Some AgentOwner
      else if starts_with (status_text status) ''human'' then Some HumanOwner else prior)"

definition isRetry :: "task_status \<Rightarrow> task_status \<Rightarrow> bool" where
  "isRetry from to \<longleftrightarrow> to = TAgentWorking \<and> (from = TBlocked \<or> from = TAgentResume)"

definition risk_of :: "string \<Rightarrow> task_risk option" where
  "risk_of s = (if s = ''low'' then Some LowRisk else if s = ''medium'' then Some MediumRisk
     else if s = ''high'' then Some HighRisk else if s = ''critical'' then Some CriticalRisk else None)"

definition owner_json :: "task_owner option \<Rightarrow> json" where
  "owner_json w = (case w of None \<Rightarrow> JNull | Some AgentOwner \<Rightarrow> JStr ''agent'' | Some HumanOwner \<Rightarrow> JStr ''human'')"

section \<open>Identifiers\<close>

definition task_material :: "string \<Rightarrow> string \<Rightarrow> string" where
  "task_material mid repo = (if repo = [] then mid else mid @ CHR 0x00 # repo)"

definition regaugeLaunchMissionTaskId :: "host \<Rightarrow> string \<Rightarrow> string \<Rightarrow> string" where
  "regaugeLaunchMissionTaskId h mid repo = ''mt-regauge-'' @ take 24 (h_sha h (task_material mid repo))"

definition fettlerCampaignMissionTaskId :: "host \<Rightarrow> string \<Rightarrow> string \<Rightarrow> string" where
  "fettlerCampaignMissionTaskId h mid repo = ''mt-fettler-'' @ take 24 (h_sha h (task_material mid repo))"

definition missionTaskIdForJob :: "host \<Rightarrow> string \<Rightarrow> string" where
  "missionTaskIdForJob h job = ''mtask-job-'' @ take 32 (h_sha h (''mission-task:job:'' @ job))"

section \<open>Creation and transition\<close>

definition task_required :: "string \<Rightarrow> string \<Rightarrow> string result" where
  "task_required = required 2000"

definition assertTaskPrincipal :: "app_db \<Rightarrow> string \<Rightarrow> string \<Rightarrow> unit result" where
  "assertTaskPrincipal db tenant pid =
     ensure (active_principal db tenant pid) ''mission_task_principal_tenant_mismatch'' (Inr ())"

definition task_event :: "host \<Rightarrow> call \<Rightarrow> string \<Rightarrow> string \<Rightarrow> json \<Rightarrow> app_db \<Rightarrow> app_db result" where
  "task_event h c tid ty payload db =
     bindR (appendDomainEvent h (call_event c ''mission_task'' tid ty payload) db) (\<lambda>(r, db'). Inr db')"

definition reread_task :: "string \<Rightarrow> string \<Rightarrow> app_db \<Rightarrow> (mission_task \<times> app_db) result" where
  "reread_task tenant tid db =
     (case findTask db tenant tid of None \<Rightarrow> throw ''TypeError'' | Some t \<Rightarrow> Inr (t, db))"

record task_input =
  ti_id :: string
  ti_mission :: string
  ti_type :: string
  ti_acceptance :: string
  ti_risk :: string

definition new_task :: "call \<Rightarrow> task_input \<Rightarrow> string \<Rightarrow> task_risk \<Rightarrow> mission_task" where
  "new_task c i acceptance risk =
     \<lparr>t_id = ti_id i, t_tenant = c_tenant c, t_mission = ti_mission i, t_type = ti_type i, t_acceptance = acceptance,
      t_risk = risk, t_status = TUnassigned, t_owner = None, t_assigned = None, t_handoff = None, t_retries = 0,
      t_revision = 1, t_createdAt = c_createdAt c, t_updatedAt = c_createdAt c\<rparr>"

definition createMissionTask :: "host \<Rightarrow> call \<Rightarrow> task_input \<Rightarrow> app_db \<Rightarrow> (mission_task \<times> app_db) result" where
  "createMissionTask h c i db =
     bindR (task_required ''mission_task_id'' (ti_id i)) (\<lambda>_.
     bindR (task_required ''mission_task_type'' (ti_type i)) (\<lambda>_.
     bindR (task_required ''mission_task_acceptance_criteria'' (ti_acceptance i)) (\<lambda>acceptance.
     case risk_of (ti_risk i) of None \<Rightarrow> throw ''mission_task_risk_invalid'' | Some risk \<Rightarrow>
     bindR (assertTaskPrincipal db (c_tenant c) (c_actor c)) (\<lambda>_.
     case List.find (\<lambda>t. t_id t = ti_id i) (db_tasks db) of
       Some t \<Rightarrow> ensure (t_tenant t = c_tenant c \<and> t_mission t = ti_mission i \<and> t_type t = ti_type i \<and>
           t_acceptance t = acceptance \<and> t_risk t = risk) ''mission_task_id_conflict'' (Inr (t, db))
     | None \<Rightarrow>
         ensure (findMission db (c_tenant c) (ti_mission i) \<noteq> None) ''mission_task_mission_not_found'' (
         bindR (revokePendingMissionTaskMutationDispatches (c_tenant c) (ti_mission i) None (c_createdAt c) db) (\<lambda>db1.
         bindR (task_event h c (ti_id i) ''mission_task.created''
             (JObj [(''missionId'', JStr (ti_mission i)), (''taskType'', JStr (ti_type i)), (''risk'', JStr (ti_risk i)),
                    (''status'', JStr ''unassigned'')])
             (db1\<lparr>db_tasks := db_tasks db1 @ [new_task c i acceptance risk]\<rparr>))
           (reread_task (c_tenant c) (ti_id i))))))))"

definition write_task :: "(mission_task \<Rightarrow> bool) \<Rightarrow> (mission_task \<Rightarrow> mission_task) \<Rightarrow> string \<Rightarrow> app_db \<Rightarrow> app_db result" where
  "write_task P f err db =
     ensure (changes P (db_tasks db) = 1) err (Inr (db\<lparr>db_tasks := update_where P f (db_tasks db)\<rparr>))"

definition or_else :: "'a option \<Rightarrow> 'a option \<Rightarrow> 'a option" where
  "or_else a b = (case a of None \<Rightarrow> b | Some x \<Rightarrow> Some x)"

definition transitionMissionTask :: "host \<Rightarrow> call \<Rightarrow> string \<Rightarrow> int \<Rightarrow> task_status \<Rightarrow> string option \<Rightarrow> string option \<Rightarrow> app_db \<Rightarrow>
    (mission_task \<times> app_db) result" where
  "transitionMissionTask h c tid expected to assignee handoff db =
     bindR (assertTaskPrincipal db (c_tenant c) (c_actor c)) (\<lambda>_.
     ensure (truthy assignee \<longrightarrow> active_principal db (c_tenant c) (the assignee)) ''mission_task_principal_tenant_mismatch'' (
     case findTask db (c_tenant c) tid of None \<Rightarrow> throw ''mission_task_not_found'' | Some current \<Rightarrow>
     ensure (t_revision current = expected) ''mission_task_revision_conflict'' (
     if t_status current = to then Inr (current, db)
     else ensure (to \<in> set (transitions (t_status current))) ''mission_task_transition_invalid'' (
     bindR (revokePendingMissionTaskMutationDispatches (c_tenant c) (t_mission current) (Some (t_id current)) (c_createdAt c) db) (\<lambda>db1.
     let owner = ownerForStatus to (t_owner current);
         retries = t_retries current + (if isRetry (t_status current) to then 1 else 0) in
     ensure (case assignee of None \<Rightarrow> True | Some a \<Rightarrow> exists_row (\<lambda>p. p_id p = a) (db_principals db)) ''FOREIGN KEY constraint failed'' (
     bindR (write_task (\<lambda>t. t_id t = tid \<and> t_tenant t = c_tenant c \<and> t_revision t = expected)
         (\<lambda>t. t\<lparr>t_status := to, t_owner := owner, t_assigned := or_else assignee (t_assigned current),
           t_handoff := or_else handoff (t_handoff current), t_retries := retries,
           t_revision := t_revision t + 1, t_updatedAt := c_createdAt c\<rparr>)
         ''mission_task_revision_conflict'' db1) (\<lambda>db2.
     bindR (task_event h c tid ''mission_task.transitioned''
         (JObj [(''from'', JStr (status_text (t_status current))), (''to'', JStr (status_text to)),
                (''ownerType'', owner_json owner), (''retryCount'', JNum retries),
                (''previousRevision'', JNum (t_revision current)), (''revision'', JNum (t_revision current + 1))]) db2)
       (reread_task (c_tenant c) tid))))))))"

definition getMissionTask :: "app_db \<Rightarrow> string \<Rightarrow> string \<Rightarrow> mission_task option" where
  "getMissionTask db tenant tid = findTask db tenant tid"

definition listMissionTasks :: "app_db \<Rightarrow> string \<Rightarrow> string \<Rightarrow> mission_task list" where
  "listMissionTasks db tenant mid =
     sort_key t_createdAt (sort_key t_id (filter (\<lambda>t. t_tenant t = tenant \<and> t_mission t = mid) (db_tasks db)))"


section \<open>Tasks of claimed jobs\<close>

record job_task_input =
  ji_job :: string
  ji_mission :: string
  ji_type :: string
  ji_acceptance :: string
  ji_risk :: string
  ji_assigned :: string
  ji_correlation :: "string option"

text \<open>\<open>jobTaskEvent\<close> and the correlation id: the event of one step of the task of a job.\<close>

definition jobTaskCall :: "host \<Rightarrow> call \<Rightarrow> job_task_input \<Rightarrow> string \<Rightarrow> call" where
  "jobTaskCall h c i kind = c\<lparr>
     c_eventId := ''e-mtask-'' @ take 32 (h_sha h (''mission-task:job:'' @ ji_job i @ '':'' @ kind)),
     c_idempotencyKey := ''mission-task-job:'' @ ji_job i @ '':'' @ kind,
     c_correlation := (case ji_correlation i of None \<Rightarrow> ji_job i | Some x \<Rightarrow> x), c_causation := None\<rparr>"

definition advance_job_task :: "host \<Rightarrow> call \<Rightarrow> job_task_input \<Rightarrow> task_status \<Rightarrow> task_status \<Rightarrow> mission_task \<times> app_db \<Rightarrow>
    (mission_task \<times> app_db) result" where
  "advance_job_task h c i from to td =
     (if t_status (fst td) = from
      then transitionMissionTask h (jobTaskCall h c i (status_text to)) (missionTaskIdForJob h (ji_job i))
             (t_revision (fst td)) to (Some (ji_assigned i)) None (snd td)
      else Inr td)"

definition ensureMissionTaskForJob :: "host \<Rightarrow> call \<Rightarrow> job_task_input \<Rightarrow> app_db \<Rightarrow> (mission_task \<times> app_db) result" where
  "ensureMissionTaskForJob h c i db =
     bindR (task_required ''mission_task_job_id'' (ji_job i)) (\<lambda>_.
     let tid = missionTaskIdForJob h (ji_job i) in
     bindR (case getMissionTask db (c_tenant c) tid of
         None \<Rightarrow> createMissionTask h (jobTaskCall h c i ''created'')
           \<lparr>ti_id = tid, ti_mission = ji_mission i, ti_type = ji_type i, ti_acceptance = ji_acceptance i, ti_risk = ji_risk i\<rparr> db
       | Some t \<Rightarrow> ensure (t_mission t = ji_mission i) ''mission_task_job_mission_mismatch'' (Inr (t, db))) (\<lambda>td.
     bindR (advance_job_task h c i TUnassigned TAgentAssigned td)
       (advance_job_task h c i TAgentAssigned TAgentWorking)))"

section \<open>Dependencies\<close>

definition prerequisites :: "task_dependency list \<Rightarrow> string \<Rightarrow> string \<Rightarrow> string list" where
  "prerequisites rows tenant tid = map dp_dependsOn (filter (\<lambda>d. dp_tenant d = tenant \<and> dp_task d = tid) rows)"

text \<open>The loop of \<open>dependsOnTransitively\<close>; the head of the stack is its top.\<close>

function depends_loop :: "task_dependency list \<Rightarrow> string \<Rightarrow> string \<Rightarrow> string list \<Rightarrow> string list \<Rightarrow> bool" where
  "depends_loop rows tenant target seen [] = False"
| "depends_loop rows tenant target seen (c # stack) =
     (if c = target then True
      else if c \<in> set seen then depends_loop rows tenant target seen stack
      else depends_loop rows tenant target (c # seen) (rev (prerequisites rows tenant c) @ stack))"
  by pat_completeness auto
termination
proof (relation "measures [\<lambda>(rows, tenant, target, seen, stack). card (dp_task ` set rows - set seen),
    \<lambda>(rows, tenant, target, seen, stack). length stack]", goal_cases)
  case (3 rows tenant target seen c stack)
  show ?case
  proof (cases "c \<in> dp_task ` set rows")
    case True
    with 3 have "card (dp_task ` set rows - set (c # seen)) < card (dp_task ` set rows - set seen)"
      by (intro psubset_card_mono) auto
    then show ?thesis by simp
  next
    case False
    then have "prerequisites rows tenant c = []" by (auto simp: prerequisites_def filter_empty_conv)
    moreover have "dp_task ` set rows - set (c # seen) = dp_task ` set rows - set seen" using False by auto
    ultimately show ?thesis by simp
  qed
qed auto

definition dependsOnTransitively :: "app_db \<Rightarrow> string \<Rightarrow> string \<Rightarrow> string \<Rightarrow> bool" where
  "dependsOnTransitively db tenant from target = depends_loop (db_dependencies db) tenant target [] [from]"

record dependency_input =
  di_id :: string
  di_tenant :: string
  di_mission :: string
  di_task :: string
  di_dependsOn :: string
  di_createdAt :: string

definition check_endpoint :: "app_db \<Rightarrow> dependency_input \<Rightarrow> string \<Rightarrow> unit result" where
  "check_endpoint db i tid =
     (case findTask db (di_tenant i) tid of
        None \<Rightarrow> throw ''mission_task_dependency_task_not_found''
      | Some t \<Rightarrow> ensure (t_mission t = di_mission i) ''mission_task_dependency_mission_mismatch'' (Inr ()))"

definition addMissionTaskDependency :: "dependency_input \<Rightarrow> app_db \<Rightarrow> (unit \<times> app_db) result" where
  "addMissionTaskDependency i db =
     ensure (di_task i \<noteq> di_dependsOn i) ''mission_task_dependency_self'' (
     bindR (check_endpoint db i (di_task i)) (\<lambda>_.
     bindR (check_endpoint db i (di_dependsOn i)) (\<lambda>_.
     if exists_row (\<lambda>d. dp_tenant d = di_tenant i \<and> dp_task d = di_task i \<and> dp_dependsOn d = di_dependsOn i) (db_dependencies db)
     then Inr ((), db)
     else ensure (\<not> dependsOnTransitively db (di_tenant i) (di_dependsOn i) (di_task i)) ''mission_task_dependency_cycle'' (
     bindR (revokePendingMissionTaskMutationDispatches (di_tenant i) (di_mission i) (Some (di_task i)) (di_createdAt i) db) (\<lambda>db1.
     bindR (write_task (\<lambda>t. t_id t = di_task i \<and> t_tenant t = di_tenant i \<and> t_mission t = di_mission i)
         (\<lambda>t. t\<lparr>t_revision := t_revision t + 1, t_updatedAt := di_createdAt i\<rparr>)
         ''mission_task_dependency_task_not_found'' db1) (\<lambda>db2.
     ensure (\<not> exists_row (\<lambda>d. dp_id d = di_id i) (db_dependencies db2)) ''UNIQUE constraint failed: mission_task_dependencies.id''
       (Inr ((), db2\<lparr>db_dependencies := db_dependencies db2 @
         [\<lparr>dp_id = di_id i, dp_tenant = di_tenant i, dp_mission = di_mission i, dp_task = di_task i,
           dp_dependsOn = di_dependsOn i, dp_createdAt = di_createdAt i\<rparr>]\<rparr>))))))))"

definition missionTaskReady :: "app_db \<Rightarrow> string \<Rightarrow> string \<Rightarrow> bool" where
  "missionTaskReady db tenant tid \<longleftrightarrow> findTask db tenant tid \<noteq> None \<and>
     list_all (\<lambda>p. case findTask db tenant p of None \<Rightarrow> False | Some t \<Rightarrow> t_status t = TComplete)
       (prerequisites (db_dependencies db) tenant tid)"

end
