(* ===== verification/MissionExceptions.thy ===== *)
theory MissionExceptions
  imports MissionTask
begin

text \<open>
  The exception register, \<open>packages/db/src/mission-exceptions.ts\<close>, with the content addressing and text
  validation of \<open>mission-record-content.ts\<close>: an append-only chain of rows in which a later row closes,
  withdraws or re-affirms an earlier one, and the evaluation of the open heads against a snapshot.
\<close>

section \<open>Content addressing and validation\<close>

fun canonicalValue :: "json \<Rightarrow> json" where
  "canonicalValue (JArr vs) = JArr (map canonicalValue vs)"
| "canonicalValue (JObj ps) = JObj (map (\<lambda>p. (fst p, canonicalValue (snd p))) (sort_key fst ps))"
| "canonicalValue v = v"

definition contentDigest :: "host \<Rightarrow> json \<Rightarrow> string" where
  "contentDigest h body = h_sha h (json_text (canonicalValue body))"

definition permitted_char :: "char \<Rightarrow> bool" where
  "permitted_char c \<longleftrightarrow> (let n = of_char c :: int in 32 \<le> n \<or> n = 9 \<or> n = 10 \<or> n = 13)"

definition boundedText :: "string \<Rightarrow> string \<Rightarrow> int \<Rightarrow> string result" where
  "boundedText value code limit =
     (let t = trim value in
      ensure (t \<noteq> [] \<and> int (length t) \<le> limit) code (ensure (list_all permitted_char t) code (Inr t)))"

definition exactUtc :: "string \<Rightarrow> string \<Rightarrow> string result" where
  "exactUtc value code = ensure (canonical_ms value \<noteq> None) code (Inr value)"

definition assertMissionScope :: "app_db \<Rightarrow> string \<Rightarrow> string \<Rightarrow> unit result" where
  "assertMissionScope db tenant mid =
     ensure (findMission db tenant mid \<noteq> None) ''mission_record_mission_not_found'' (Inr ())"

definition assertRecordPrincipal :: "app_db \<Rightarrow> string \<Rightarrow> string \<Rightarrow> string \<Rightarrow> unit result" where
  "assertRecordPrincipal db tenant pid code = ensure (active_principal db tenant pid) code (Inr ())"

section \<open>Rows\<close>

definition exception_categories :: "string list" where
  "exception_categories = [''graph_incomplete'', ''high_risk_change'', ''ambiguous_requirement'', ''policy_exception'',
     ''verification_failure'', ''architecture_decision_required'', ''other'']"

definition normalizeExceptionCategory :: "string option \<Rightarrow> string option result" where
  "normalizeExceptionCategory v =
     (if \<not> truthy v then Inr None
      else ensure (the v \<in> set exception_categories) ''mission_exception_category_invalid'' (Inr v))"

definition normalizeTaskId :: "string option \<Rightarrow> string option result" where
  "normalizeTaskId v =
     (if \<not> truthy v then Inr None
      else bindR (boundedText (the v) ''mission_exception_task_id_invalid'' 256) (\<lambda>t. Inr (Some t)))"

fun exception_status_text :: "exception_status \<Rightarrow> string" where
  "exception_status_text Open = ''open''"
| "exception_status_text Resolved = ''resolved''"
| "exception_status_text Withdrawn = ''withdrawn''"

definition exceptionDigestBody :: "exception_row \<Rightarrow> json" where
  "exceptionDigestBody x = JObj
     [(''kind'', JStr ''mission_exception''), (''schemaVersion'', JNum 1), (''tenantId'', JStr (x_tenant x)),
      (''missionId'', JStr (x_mission x)), (''reason'', JStr (x_reason x)), (''impact'', JStr (x_impact x)),
      (''ownerPrincipalId'', JStr (x_owner x)), (''resolutionPath'', JStr (x_resolution x)),
      (''blocking'', JBool (x_blocking x)), (''status'', JStr (exception_status_text (x_status x))),
      (''observedSnapshotId'', opt_json (x_snapshot x)), (''observedResolvedSha'', opt_json (x_sha x)),
      (''supersedesId'', opt_json (x_supersedes x)), (''createdAt'', JStr (x_createdAt x))]"

text \<open>\<open>hydrate\<close>: a row whose digest does not match its content or its id is corrupt.\<close>

definition hydrateException :: "host \<Rightarrow> exception_row \<Rightarrow> exception_row result" where
  "hydrateException h x =
     ensure (contentDigest h (exceptionDigestBody x) = x_digest x \<and> x_digest x = x_id x) ''mission_exception_corrupt'' (Inr x)"

definition findException :: "app_db \<Rightarrow> string \<Rightarrow> string \<Rightarrow> exception_row option" where
  "findException db tenant xid = List.find (\<lambda>x. x_id x = xid \<and> x_tenant x = tenant) (db_exceptions db)"

record snapshot_identity =
  si_snapshot :: string
  si_sha :: string

definition resolveObservedSnapshot :: "app_db \<Rightarrow> string \<Rightarrow> snapshot_identity \<Rightarrow> unit result" where
  "resolveObservedSnapshot db tenant b =
     (case List.find (\<lambda>s. sn_id s = si_snapshot b \<and> sn_tenant s = tenant) (db_snapshots db) of
        None \<Rightarrow> throw ''mission_exception_snapshot_not_found''
      | Some s \<Rightarrow> ensure (sn_sha s = si_sha b) ''mission_exception_snapshot_binding_mismatch'' (Inr ()))"

text \<open>The event id and the idempotency key of a row are derived from its digest.\<close>

definition exception_call :: "call \<Rightarrow> string \<Rightarrow> call" where
  "exception_call c dg = c\<lparr>c_eventId := ''mission-exception:'' @ dg, c_idempotencyKey := ''mission-exception:'' @ dg\<rparr>"

text \<open>\<open>insertException\<close>: \<open>x\<close> carries the content, its id and digest are computed here. The unique index
  on superseded rows is left to the callers, which check it first.\<close>

definition insertException :: "host \<Rightarrow> call \<Rightarrow> string \<Rightarrow> exception_row \<Rightarrow> app_db \<Rightarrow> (exception_row \<times> app_db) result" where
  "insertException h c eventType x db =
     (let dg = contentDigest h (exceptionDigestBody x) in
      case findException db (c_tenant c) dg of
        Some e \<Rightarrow> bindR (hydrateException h e) (\<lambda>v. Inr (v, db))
      | None \<Rightarrow>
          bindR (normalizeTaskId (x_task x)) (\<lambda>task.
          bindR (normalizeExceptionCategory (x_category x)) (\<lambda>category.
          ensure (\<not> exists_row (\<lambda>e. x_id e = dg) (db_exceptions db)) ''UNIQUE constraint failed: mission_exceptions.id'' (
          let row = x\<lparr>x_id := dg, x_digest := dg, x_task := task, x_category := category\<rparr> in
          bindR (mission_event h (exception_call c dg)
              (x_mission x) eventType
              (JObj [(''exceptionId'', JStr dg), (''status'', JStr (exception_status_text (x_status x))),
                     (''blocking'', JBool (x_blocking x)), (''supersedesId'', opt_json (x_supersedes x))])
              (db\<lparr>db_exceptions := db_exceptions db @ [row]\<rparr>)) (\<lambda>db1.
          case findException db1 (c_tenant c) dg of
            None \<Rightarrow> throw ''TypeError''
          | Some e \<Rightarrow> bindR (hydrateException h e) (\<lambda>v. Inr (v, db1)))))))"


section \<open>Operations\<close>

record raise_input =
  ri_mission :: string
  ri_reason :: string
  ri_impact :: string
  ri_resolution :: string
  ri_blocking :: bool
  ri_observed :: "snapshot_identity option"
  ri_task :: "string option"
  ri_category :: "string option"

text \<open>The owner is the actor of the call.\<close>

definition raised_row :: "call \<Rightarrow> raise_input \<Rightarrow> string \<Rightarrow> string \<Rightarrow> string \<Rightarrow> exception_row" where
  "raised_row c i reason impact resolution =
     \<lparr>x_id = [], x_tenant = c_tenant c, x_mission = ri_mission i, x_reason = reason, x_impact = impact,
      x_owner = c_actor c, x_resolution = resolution, x_blocking = ri_blocking i, x_status = Open,
      x_snapshot = map_option si_snapshot (ri_observed i), x_sha = map_option si_sha (ri_observed i),
      x_supersedes = None, x_digest = [], x_createdAt = c_createdAt c, x_task = ri_task i, x_category = ri_category i\<rparr>"

definition raiseMissionException :: "host \<Rightarrow> call \<Rightarrow> raise_input \<Rightarrow> app_db \<Rightarrow> (exception_row \<times> app_db) result" where
  "raiseMissionException h c i db =
     bindR (boundedText (ri_reason i) ''mission_exception_reason_invalid'' 4000) (\<lambda>reason.
     bindR (boundedText (ri_impact i) ''mission_exception_impact_invalid'' 4000) (\<lambda>impact.
     bindR (boundedText (ri_resolution i) ''mission_exception_resolution_invalid'' 4000) (\<lambda>resolution.
     bindR (boundedText (c_correlation c) ''mission_exception_correlation_invalid'' 256) (\<lambda>correlation.
     bindR (exactUtc (c_createdAt c) ''mission_exception_created_at_invalid'') (\<lambda>createdAt.
     bindR (assertMissionScope db (c_tenant c) (ri_mission i)) (\<lambda>_.
     bindR (assertRecordPrincipal db (c_tenant c) (c_actor c) ''mission_exception_owner_tenant_mismatch'') (\<lambda>_.
     bindR (case ri_observed i of None \<Rightarrow> Inr () | Some b \<Rightarrow> resolveObservedSnapshot db (c_tenant c) b) (\<lambda>_.
     let x = raised_row c i reason impact resolution in
     case findException db (c_tenant c) (contentDigest h (exceptionDigestBody x)) of
       Some e \<Rightarrow> bindR (hydrateException h e) (\<lambda>v. Inr (v, db))
     | None \<Rightarrow>
         bindR (if ri_blocking i then revokePendingMissionMutationDispatches (c_tenant c) (ri_mission i) createdAt db else Inr db)
           (insertException h (c\<lparr>c_correlation := correlation\<rparr>) ''mission.exception_raised'' x)))))))))"

definition loadHead :: "app_db \<Rightarrow> string \<Rightarrow> string \<Rightarrow> exception_row result" where
  "loadHead db tenant priorId =
     (case findException db tenant priorId of
        None \<Rightarrow> throw ''mission_exception_prior_not_found''
      | Some prior \<Rightarrow>
          ensure (\<not> exists_row (\<lambda>x. x_tenant x = tenant \<and> x_supersedes x = Some priorId) (db_exceptions db))
            ''mission_exception_already_superseded'' (Inr prior))"

record exception_transition =
  xt_prior :: string
  xt_status :: exception_status
  xt_blocking :: bool
  xt_observed :: "snapshot_identity option"
  xt_eventType :: string
  xt_note :: "string option"

definition superseding_row :: "call \<Rightarrow> exception_transition \<Rightarrow> exception_row \<Rightarrow> exception_row" where
  "superseding_row c t prior =
     \<lparr>x_id = [], x_tenant = c_tenant c, x_mission = x_mission prior, x_reason = x_reason prior, x_impact = x_impact prior,
      x_owner = x_owner prior, x_resolution = (case xt_note t of None \<Rightarrow> x_resolution prior | Some n \<Rightarrow> n),
      x_blocking = xt_blocking t, x_status = xt_status t, x_snapshot = map_option si_snapshot (xt_observed t),
      x_sha = map_option si_sha (xt_observed t), x_supersedes = Some (xt_prior t), x_digest = [],
      x_createdAt = c_createdAt c, x_task = x_task prior, x_category = x_category prior\<rparr>"

definition transitionException :: "host \<Rightarrow> call \<Rightarrow> exception_transition \<Rightarrow> app_db \<Rightarrow> (exception_row \<times> app_db) result" where
  "transitionException h c t db =
     bindR (loadHead db (c_tenant c) (xt_prior t)) (\<lambda>prior.
     bindR (if xt_status t = Open \<and> xt_blocking t
            then revokePendingMissionMutationDispatches (c_tenant c) (x_mission prior) (c_createdAt c) db else Inr db)
       (insertException h c (xt_eventType t) (superseding_row c t prior)))"

definition close_exception :: "host \<Rightarrow> call \<Rightarrow> exception_status \<Rightarrow> string \<Rightarrow> string \<Rightarrow> string \<Rightarrow> app_db \<Rightarrow>
    (exception_row \<times> app_db) result" where
  "close_exception h c status eventType priorId note db =
     bindR (boundedText note ''mission_exception_resolution_invalid'' 4000) (\<lambda>text.
     bindR (boundedText (c_correlation c) ''mission_exception_correlation_invalid'' 256) (\<lambda>correlation.
     bindR (exactUtc (c_createdAt c) ''mission_exception_created_at_invalid'') (\<lambda>_.
     bindR (assertRecordPrincipal db (c_tenant c) (c_actor c) ''mission_exception_owner_tenant_mismatch'') (\<lambda>_.
     transitionException h (c\<lparr>c_correlation := correlation\<rparr>)
       \<lparr>xt_prior = priorId, xt_status = status, xt_blocking = False, xt_observed = None,
        xt_eventType = eventType, xt_note = Some text\<rparr> db))))"

definition resolveMissionException :: "host \<Rightarrow> call \<Rightarrow> string \<Rightarrow> string \<Rightarrow> app_db \<Rightarrow> (exception_row \<times> app_db) result" where
  "resolveMissionException h c priorId note db =
     close_exception h c Resolved ''mission.exception_resolved'' priorId note db"

definition withdrawMissionException :: "host \<Rightarrow> call \<Rightarrow> string \<Rightarrow> string \<Rightarrow> app_db \<Rightarrow> (exception_row \<times> app_db) result" where
  "withdrawMissionException h c priorId rationale db =
     close_exception h c Withdrawn ''mission.exception_withdrawn'' priorId rationale db"

definition reaffirmMissionException :: "host \<Rightarrow> call \<Rightarrow> string \<Rightarrow> bool \<Rightarrow> snapshot_identity \<Rightarrow> app_db \<Rightarrow>
    (exception_row \<times> app_db) result" where
  "reaffirmMissionException h c priorId blocking observed db =
     bindR (boundedText (c_correlation c) ''mission_exception_correlation_invalid'' 256) (\<lambda>correlation.
     bindR (exactUtc (c_createdAt c) ''mission_exception_created_at_invalid'') (\<lambda>_.
     bindR (assertRecordPrincipal db (c_tenant c) (c_actor c) ''mission_exception_owner_tenant_mismatch'') (\<lambda>_.
     bindR (resolveObservedSnapshot db (c_tenant c) observed) (\<lambda>_.
     transitionException h (c\<lparr>c_correlation := correlation\<rparr>)
       \<lparr>xt_prior = priorId, xt_status = Open, xt_blocking = blocking, xt_observed = Some observed,
        xt_eventType = ''mission.exception_reaffirmed'', xt_note = None\<rparr> db))))"

section \<open>Evaluation\<close>

datatype standing = Blocking | NonBlockingOpen | Stale | StandingResolved | StandingWithdrawn

definition standingOf :: "exception_row \<Rightarrow> snapshot_identity option \<Rightarrow> standing" where
  "standingOf x current =
     (case x_status x of
        Resolved \<Rightarrow> StandingResolved
      | Withdrawn \<Rightarrow> StandingWithdrawn
      | Open \<Rightarrow>
          if x_snapshot x \<noteq> None \<and>
             \<not> (\<exists>s \<in> set_option current. x_snapshot x = Some (si_snapshot s) \<and> x_sha x = Some (si_sha s))
          then Stale else if x_blocking x then Blocking else NonBlockingOpen)"

definition mission_exceptions :: "app_db \<Rightarrow> string \<Rightarrow> string \<Rightarrow> exception_row list" where
  "mission_exceptions db tenant mid =
     sort_key x_createdAt (sort_key x_id (filter (\<lambda>x. x_tenant x = tenant \<and> x_mission x = mid) (db_exceptions db)))"

text \<open>\<open>supersededBy.get(row.id)\<close>: the last row that names it.\<close>

definition supersededBy :: "exception_row list \<Rightarrow> string \<Rightarrow> string option" where
  "supersededBy rows xid =
     map_option x_id (List.find (\<lambda>x. truthy (x_supersedes x) \<and> x_supersedes x = Some xid) (rev rows))"

text \<open>The heads of the chains with their standing, hydrated; a corrupt row fails the evaluation.\<close>

fun evaluate_rows :: "host \<Rightarrow> exception_row list \<Rightarrow> snapshot_identity option \<Rightarrow> exception_row list \<Rightarrow>
    (standing \<times> exception_row) list result" where
  "evaluate_rows h all_rows current [] = Inr []"
| "evaluate_rows h all_rows current (x # xs) =
     (if truthy (supersededBy all_rows (x_id x)) then evaluate_rows h all_rows current xs
      else bindR (hydrateException h x) (\<lambda>v.
           bindR (evaluate_rows h all_rows current xs) (\<lambda>vs. Inr ((standingOf x current, v) # vs))))"

record evaluation =
  xe_missionBlocked :: bool
  xe_blocking :: "exception_row list"
  xe_stale :: "exception_row list"
  xe_nonBlockingOpen :: "exception_row list"
  xe_resolved :: "exception_row list"
  xe_withdrawn :: "exception_row list"

definition bucket :: "standing \<Rightarrow> (standing \<times> exception_row) list \<Rightarrow> exception_row list" where
  "bucket s vs = map snd (filter (\<lambda>v. fst v = s) vs)"

definition evaluateMissionExceptions :: "host \<Rightarrow> app_db \<Rightarrow> string \<Rightarrow> string \<Rightarrow> snapshot_identity option \<Rightarrow> evaluation result" where
  "evaluateMissionExceptions h db tenant mid current =
     (let rows = mission_exceptions db tenant mid in
      bindR (evaluate_rows h rows current rows) (\<lambda>vs.
      Inr \<lparr>xe_missionBlocked = (bucket Blocking vs \<noteq> []), xe_blocking = bucket Blocking vs, xe_stale = bucket Stale vs,
           xe_nonBlockingOpen = bucket NonBlockingOpen vs, xe_resolved = bucket StandingResolved vs,
           xe_withdrawn = bucket StandingWithdrawn vs\<rparr>))"

fun list_rows :: "host \<Rightarrow> exception_row list \<Rightarrow> snapshot_identity option \<Rightarrow> exception_row list \<Rightarrow>
    (exception_row \<times> standing \<times> string option) list result" where
  "list_rows h all_rows current [] = Inr []"
| "list_rows h all_rows current (x # xs) =
     bindR (hydrateException h x) (\<lambda>v.
     bindR (list_rows h all_rows current xs) (\<lambda>vs. Inr ((v, standingOf x current, supersededBy all_rows (x_id x)) # vs)))"

definition listMissionExceptions :: "host \<Rightarrow> app_db \<Rightarrow> string \<Rightarrow> string \<Rightarrow> snapshot_identity option \<Rightarrow>
    (exception_row \<times> standing \<times> string option) list result" where
  "listMissionExceptions h db tenant mid current =
     (let rows = mission_exceptions db tenant mid in list_rows h rows current rows)"

end
