(* ===== verification/MissionDispatch.thy ===== *)
theory MissionDispatch
  imports MissionExceptions
begin

text \<open>
  Remote mutations on behalf of a mission: the authority record of \<open>mission-mutation-authority.ts\<close> and the
  durable dispatch state machine of \<open>mission-mutation-dispatch.ts\<close>. The operations run outside any open
  transaction, so each owns its own. \<open>beginMissionMutationRemoteCall\<close> is the one that commits a write on
  its error path; it returns the database in both cases.
\<close>

section \<open>Authority\<close>

definition max_safe :: int where
  "max_safe = 9007199254740991"

definition identifier_ok :: "string \<Rightarrow> bool" where
  "identifier_ok s \<longleftrightarrow> has_text s \<and> s = trim s \<and> length s \<le> 256"

definition sha_ok :: "string \<Rightarrow> bool" where
  "sha_ok s \<longleftrightarrow> (length s = 40 \<or> length s = 64) \<and> list_all hex_lower s"

definition parseMissionMutationAuthority :: "authority \<Rightarrow> authority result" where
  "parseMissionMutationAuthority a =
     ensure (1 \<le> au_missionRevision a \<and> au_missionRevision a \<le> max_safe \<and> sha_ok (au_sha a) \<and>
         (case au_task a of
            None \<Rightarrow> au_taskRevision a = None \<and> au_taskStatus a = None
          | Some t \<Rightarrow> identifier_ok t \<and> au_taskStatus a \<noteq> None \<and>
              (case au_taskRevision a of None \<Rightarrow> False | Some r \<Rightarrow> 1 \<le> r \<and> r \<le> max_safe)) \<and>
         identifier_ok (au_mission a) \<and> identifier_ok (au_repository a) \<and> identifier_ok (au_snapshot a))
       ''mission_mutation_authority_invalid'' (Inr a)"

definition createMissionMutationAuthority :: "mission \<Rightarrow> mission_task option \<Rightarrow> string \<Rightarrow> string \<Rightarrow> string \<Rightarrow> authority result" where
  "createMissionMutationAuthority m task repo snap sha =
     parseMissionMutationAuthority
       \<lparr>au_mission = m_id m, au_missionRevision = m_revision m, au_missionState = m_state m,
        au_task = map_option t_id task, au_taskRevision = map_option t_revision task,
        au_taskStatus = map_option t_status task, au_repository = repo, au_snapshot = snap, au_sha = sha\<rparr>"

definition active_mission_states :: "mission_state list" where
  "active_mission_states = [MCreated, MDiscovering, MScoped, MPlanning, MExecuting, MVerifying, MAwaitingReview]"

record authority_options =
  requireNoBlocking :: bool
  allowClaimedTask :: bool
  allowSettledTask :: bool

definition exact_task :: "authority \<Rightarrow> mission_task \<Rightarrow> bool" where
  "exact_task a t \<longleftrightarrow> t_mission t = au_mission a \<and> Some (t_revision t) = au_taskRevision a \<and> Some (t_status t) = au_taskStatus a"

definition claimed_task :: "authority \<Rightarrow> mission_task \<Rightarrow> bool" where
  "claimed_task a t \<longleftrightarrow> au_taskStatus a = Some TAgentResume \<and> t_mission t = au_mission a \<and>
     Some (t_revision t) = map_option (\<lambda>r. r + 1) (au_taskRevision a) \<and> t_status t = TAgentWorking"

definition settled_task :: "authority \<Rightarrow> mission_task \<Rightarrow> bool" where
  "settled_task a t \<longleftrightarrow> t_mission t = au_mission a \<and> t_status t = TComplete \<and>
     ((au_taskStatus a = Some TAgentResume \<and> Some (t_revision t) = map_option (\<lambda>r. r + 2) (au_taskRevision a)) \<or>
      (au_taskStatus a = Some TAgentWorking \<and> Some (t_revision t) = map_option (\<lambda>r. r + 1) (au_taskRevision a)))"

definition task_matches :: "authority_options \<Rightarrow> authority \<Rightarrow> mission_task option \<Rightarrow> bool" where
  "task_matches opt a task \<longleftrightarrow>
     (case task of None \<Rightarrow> False
      | Some t \<Rightarrow> exact_task a t \<or> (allowClaimedTask opt \<and> claimed_task a t) \<or> (allowSettledTask opt \<and> settled_task a t))"

definition snapshot_current :: "app_db \<Rightarrow> string \<Rightarrow> authority \<Rightarrow> bool" where
  "snapshot_current db tenant a \<longleftrightarrow>
     (case List.find (\<lambda>s. sn_id s = au_snapshot a \<and> sn_tenant s = tenant \<and> sn_repository s = au_repository a) (db_snapshots db) of
        None \<Rightarrow> False | Some s \<Rightarrow> sn_sha s = au_sha a)"

definition mission_current :: "mission \<Rightarrow> authority \<Rightarrow> bool" where
  "mission_current m a \<longleftrightarrow> m_product m = Fettler \<and> m_state m \<in> set active_mission_states \<and>
     m_revision m = au_missionRevision a \<and> m_state m = au_missionState a \<and>
     m_repository m = Some (au_repository a) \<and> m_snapshot m = Some (au_snapshot a)"

definition assertMissionMutationAuthority :: "host \<Rightarrow> app_db \<Rightarrow> string \<Rightarrow> authority \<Rightarrow> authority_options \<Rightarrow>
    (mission \<times> mission_task option) result" where
  "assertMissionMutationAuthority h db tenant a0 opt =
     bindR (parseMissionMutationAuthority a0) (\<lambda>a.
     case getMission db tenant (au_mission a) of None \<Rightarrow> throw ''mission_mutation_authority_stale'' | Some m \<Rightarrow>
     ensure (mission_current m a) ''mission_mutation_authority_stale'' (
     ensure (snapshot_current db tenant a) ''mission_mutation_authority_stale'' (
     let task = (case au_task a of None \<Rightarrow> None | Some t \<Rightarrow> getMissionTask db tenant t) in
     ensure (\<not> (au_task a = None \<and> getMissionTask db tenant (fettlerCampaignMissionTaskId h (au_mission a) (au_repository a)) \<noteq> None))
       ''mission_mutation_authority_stale'' (
     ensure (au_task a \<noteq> None \<longrightarrow> task_matches opt a task) ''mission_mutation_authority_stale'' (
     bindR (if requireNoBlocking opt
            then bindR (evaluateMissionExceptions h db tenant (m_id m) (Some \<lparr>si_snapshot = au_snapshot a, si_sha = au_sha a\<rparr>))
                   (\<lambda>e. ensure (\<not> xe_missionBlocked e) ''mission_mutation_authority_blocked'' (Inr ()))
            else Inr ()) (\<lambda>_.
     Inr (m, task)))))))"

definition refreshMissionMutationAuthority :: "host \<Rightarrow> app_db \<Rightarrow> string \<Rightarrow> authority \<Rightarrow> authority_options \<Rightarrow> authority result" where
  "refreshMissionMutationAuthority h db tenant a0 opt =
     bindR (parseMissionMutationAuthority a0) (\<lambda>prior.
     bindR (assertMissionMutationAuthority h db tenant prior opt) (\<lambda>(m, task).
     createMissionMutationAuthority m task (au_repository prior) (au_snapshot prior) (au_sha prior)))"

definition nul :: string where
  "nul = [CHR 0x00]"

definition completeMissionMutationAuthorityTask :: "host \<Rightarrow> string \<Rightarrow> authority \<Rightarrow> string \<Rightarrow> string \<Rightarrow> app_db \<Rightarrow>
    (mission_task option \<times> app_db) result" where
  "completeMissionMutationAuthorityTask h tenant a0 correlation stamp db =
     bindR (parseMissionMutationAuthority a0) (\<lambda>a.
     if au_task a = None then Inr (None, db)
     else bindR (assertMissionMutationAuthority h db tenant a
         \<lparr>requireNoBlocking = True, allowClaimedTask = True, allowSettledTask = True\<rparr>) (\<lambda>(m, task).
     case task of None \<Rightarrow> throw ''mission_mutation_authority_task_missing'' | Some t \<Rightarrow>
     if t_status t = TComplete then Inr (Some t, db)
     else ensure (t_status t = TAgentWorking \<and> truthy (t_assigned t)) ''mission_mutation_authority_task_not_accepted'' (
     let suffix = take 32 (h_sha h (join_with nul [tenant, au_mission a, t_id t, correlation, ''accepted'']));
         c = \<lparr>c_tenant = tenant, c_actor = the (t_assigned t), c_eventId = ''e-mtask-accepted-'' @ suffix,
              c_idempotencyKey = ''mission-task-accepted:'' @ suffix, c_correlation = correlation,
              c_causation = None, c_createdAt = stamp\<rparr> in
     bindR (transitionMissionTask h c (t_id t) (t_revision t) TComplete None None db) (\<lambda>(v, db'). Inr (Some v, db')))))"

section \<open>Dispatches\<close>

record dispatch_input =
  din_tenant :: string
  din_job :: string
  din_authority :: authority
  din_intent :: string
  din_worker :: string
  din_generation :: int
  din_observedAt :: string

definition dispatch_digest :: "string \<Rightarrow> bool" where
  "dispatch_digest s \<longleftrightarrow> starts_with s ''sha256:'' \<and> length s = 71 \<and> list_all hex_lower (drop 7 s)"

text \<open>\<open>new Date(value).toISOString()\<close> throws on text that is no date.\<close>

definition timestamp :: "host \<Rightarrow> string \<Rightarrow> string result" where
  "timestamp h value =
     (if canonical_ms value \<noteq> None then Inr value
      else if h_dateParse h value = None then throw ''Invalid time value''
      else throw ''mission_mutation_dispatch_timestamp_invalid'')"

definition findDispatch :: "app_db \<Rightarrow> string \<Rightarrow> string \<Rightarrow> dispatch_row option" where
  "findDispatch db tenant job = List.find (\<lambda>d. d_tenant d = tenant \<and> d_job d = job) (db_dispatches db)"

definition assertLease :: "dispatch_input \<Rightarrow> string \<Rightarrow> app_db \<Rightarrow> unit result" where
  "assertLease i observedAt db =
     ensure (exists_row (\<lambda>j. jb_id j = din_job i \<and> jb_tenant j = din_tenant i \<and> jb_status j = ''running'' \<and>
         jb_owner j = Some (din_worker i) \<and> jb_generation j = din_generation i \<and>
         (case jb_expires j of None \<Rightarrow> False | Some e \<Rightarrow> observedAt < e)) (db_jobs db))
       ''mission_mutation_dispatch_lease_lost'' (Inr ())"

definition dispatch_options :: authority_options where
  "dispatch_options = \<lparr>requireNoBlocking = True, allowClaimedTask = True, allowSettledTask = False\<rparr>"

definition new_dispatch :: "dispatch_input \<Rightarrow> string \<Rightarrow> string \<Rightarrow> authority \<Rightarrow> string \<Rightarrow> dispatch_row" where
  "new_dispatch i kind aggregate a observedAt =
     \<lparr>d_id = ''mission-dispatch:'' @ din_job i, d_tenant = din_tenant i, d_mission = au_mission a, d_job = din_job i,
      d_kind = kind, d_aggregate = aggregate, d_authority = a, d_intent = din_intent i, d_state = Authorized,
      d_leaseOwner = din_worker i, d_leaseGeneration = din_generation i, d_authorizedAt = observedAt,
      d_dispatchingAt = None, d_uncertainAt = None, d_settledAt = None, d_revokedAt = None, d_updatedAt = observedAt\<rparr>"

definition update_dispatches :: "(dispatch_row \<Rightarrow> bool) \<Rightarrow> (dispatch_row \<Rightarrow> dispatch_row) \<Rightarrow> app_db \<Rightarrow> app_db" where
  "update_dispatches P f db = db\<lparr>db_dispatches := update_where P f (db_dispatches db)\<rparr>"

definition mark_uncertain :: "string \<Rightarrow> dispatch_row \<Rightarrow> dispatch_row" where
  "mark_uncertain stamp d = d\<lparr>d_state := Uncertain, d_uncertainAt := or_else (d_uncertainAt d) (Some stamp), d_updatedAt := stamp\<rparr>"

fun dispatch_state_text :: "dispatch_state \<Rightarrow> string" where
  "dispatch_state_text Authorized = ''authorized''"
| "dispatch_state_text Dispatching = ''dispatching''"
| "dispatch_state_text Uncertain = ''uncertain''"
| "dispatch_state_text Settled = ''settled''"
| "dispatch_state_text Revoked = ''revoked''"

text \<open>The branch of \<open>authorizeMissionMutationDispatch\<close> for a job that already has a row.\<close>

definition reauthorize :: "dispatch_input \<Rightarrow> string \<Rightarrow> string \<Rightarrow> authority \<Rightarrow> string \<Rightarrow> dispatch_row \<Rightarrow> app_db \<Rightarrow>
    (dispatch_state \<times> app_db) result" where
  "reauthorize i kind aggregate a observedAt prior db =
     ensure (d_mission prior = au_mission a \<and> d_kind prior = kind \<and> d_aggregate prior = aggregate \<and>
         d_authority prior = a \<and> d_intent prior = din_intent i) ''mission_mutation_dispatch_conflict'' (
     ensure (d_state prior \<noteq> Revoked \<and> d_state prior \<noteq> Settled)
       (''mission_mutation_dispatch_'' @ dispatch_state_text (d_state prior)) (
     let other_lease = (d_leaseOwner prior \<noteq> din_worker i \<or> d_leaseGeneration prior \<noteq> din_generation i) in
     if d_state prior = Dispatching \<and> other_lease
     then Inr (Uncertain, update_dispatches (\<lambda>d. d_id d = d_id prior \<and> d_state d = Dispatching)
            (\<lambda>d. (mark_uncertain observedAt d)\<lparr>d_leaseOwner := din_worker i, d_leaseGeneration := din_generation i\<rparr>) db)
     else if d_state prior = Authorized \<and> other_lease
     then Inr (Authorized, update_dispatches (\<lambda>d. d_id d = d_id prior \<and> d_state d = Authorized)
            (\<lambda>d. d\<lparr>d_leaseOwner := din_worker i, d_leaseGeneration := din_generation i, d_authorizedAt := observedAt,
              d_updatedAt := observedAt\<rparr>) db)
     else Inr (d_state prior, db)))"

definition authorizeMissionMutationDispatch :: "host \<Rightarrow> dispatch_input \<Rightarrow> string \<Rightarrow> string \<Rightarrow> app_db \<Rightarrow>
    (dispatch_state \<times> app_db) result" where
  "authorizeMissionMutationDispatch h i kind aggregate db =
     bindR (parseMissionMutationAuthority (din_authority i)) (\<lambda>a.
     ensure (dispatch_digest (din_intent i)) ''mission_mutation_dispatch_intent_invalid'' (
     bindR (timestamp h (din_observedAt i)) (\<lambda>observedAt.
     bindR (assertMissionMutationAuthority h db (din_tenant i) a dispatch_options) (\<lambda>_.
     bindR (assertLease i observedAt db) (\<lambda>_.
     case findDispatch db (din_tenant i) (din_job i) of
       Some prior \<Rightarrow> reauthorize i kind aggregate a observedAt prior db
     | None \<Rightarrow>
         ensure (\<not> exists_row (\<lambda>d. d_id d = ''mission-dispatch:'' @ din_job i) (db_dispatches db))
           ''UNIQUE constraint failed: mission_mutation_dispatches.id''
         (Inr (Authorized, db\<lparr>db_dispatches := db_dispatches db @ [new_dispatch i kind aggregate a observedAt]\<rparr>)))))))"

definition write_dispatch :: "(dispatch_row \<Rightarrow> bool) \<Rightarrow> (dispatch_row \<Rightarrow> dispatch_row) \<Rightarrow> string \<Rightarrow> app_db \<Rightarrow> app_db result" where
  "write_dispatch P f err db = ensure (changes P (db_dispatches db) = 1) err (Inr (update_dispatches P f db))"

definition reauthorizeSettledMissionMutationDispatch :: "host \<Rightarrow> dispatch_input \<Rightarrow> app_db \<Rightarrow> app_db result" where
  "reauthorizeSettledMissionMutationDispatch h i db =
     bindR (parseMissionMutationAuthority (din_authority i)) (\<lambda>a.
     ensure (dispatch_digest (din_intent i)) ''mission_mutation_dispatch_intent_invalid'' (
     bindR (timestamp h (din_observedAt i)) (\<lambda>observedAt.
     bindR (assertMissionMutationAuthority h db (din_tenant i) a dispatch_options) (\<lambda>_.
     bindR (assertLease i observedAt db) (\<lambda>_.
     write_dispatch (\<lambda>d. d_tenant d = din_tenant i \<and> d_job d = din_job i \<and> d_authority d = a \<and>
         d_intent d = din_intent i \<and> d_state d = Settled)
       (\<lambda>d. d\<lparr>d_state := Authorized, d_leaseOwner := din_worker i, d_leaseGeneration := din_generation i,
         d_authorizedAt := observedAt, d_updatedAt := observedAt\<rparr>)
       ''mission_mutation_dispatch_settled_replay_conflict'' db)))))"

text \<open>The checked part of \<open>beginMissionMutationRemoteCall\<close> after the authority holds.\<close>

definition begin_dispatch :: "dispatch_input \<Rightarrow> bool \<Rightarrow> authority \<Rightarrow> string \<Rightarrow> app_db \<Rightarrow> app_db result" where
  "begin_dispatch i permitUncertain a observedAt db =
     bindR (assertLease i observedAt db) (\<lambda>_.
     write_dispatch (\<lambda>d. d_tenant d = din_tenant i \<and> d_job d = din_job i \<and> d_mission d = au_mission a \<and>
         d_authority d = a \<and> d_intent d = din_intent i \<and>
         (d_state d = Authorized \<or> (permitUncertain \<and> d_state d = Uncertain)))
       (\<lambda>d. d\<lparr>d_state := Dispatching, d_leaseOwner := din_worker i, d_leaseGeneration := din_generation i,
         d_dispatchingAt := Some observedAt, d_updatedAt := observedAt\<rparr>)
       ''mission_mutation_dispatch_not_authorized'' db)"

definition beginMissionMutationRemoteCall :: "host \<Rightarrow> dispatch_input \<Rightarrow> bool \<Rightarrow> app_db \<Rightarrow> unit result \<times> app_db" where
  "beginMissionMutationRemoteCall h i permitUncertain db =
     (case bindR (parseMissionMutationAuthority (din_authority i)) (\<lambda>a.
             bindR (timestamp h (din_observedAt i)) (\<lambda>observedAt. Inr (a, observedAt))) of
        Inl e \<Rightarrow> (Inl e, db)
      | Inr (a, observedAt) \<Rightarrow>
          (case assertMissionMutationAuthority h db (din_tenant i) a dispatch_options of
             Inl e \<Rightarrow> (Inl e, update_dispatches
               (\<lambda>d. d_tenant d = din_tenant i \<and> d_job d = din_job i \<and> d_state d = Authorized) (revoke_row observedAt) db)
           | Inr _ \<Rightarrow>
               (case begin_dispatch i permitUncertain a observedAt db of
                  Inl e \<Rightarrow> (Inl e, db)
                | Inr db' \<Rightarrow> (Inr (), db'))))"

definition markMissionMutationDispatchUncertain :: "host \<Rightarrow> string \<Rightarrow> string \<Rightarrow> string \<Rightarrow> string \<Rightarrow> app_db \<Rightarrow> app_db result" where
  "markMissionMutationDispatchUncertain h tenant job intent stamp db =
     bindR (timestamp h stamp) (\<lambda>observedAt.
     write_dispatch (\<lambda>d. d_tenant d = tenant \<and> d_job d = job \<and> d_intent d = intent \<and> d_state d = Dispatching)
       (mark_uncertain observedAt) ''mission_mutation_dispatch_uncertain_conflict'' db)"

definition settleMissionMutationDispatch :: "host \<Rightarrow> string \<Rightarrow> string \<Rightarrow> string \<Rightarrow> string \<Rightarrow> app_db \<Rightarrow> app_db result" where
  "settleMissionMutationDispatch h tenant job intent stamp db =
     bindR (timestamp h stamp) (\<lambda>observedAt.
     write_dispatch (\<lambda>d. d_tenant d = tenant \<and> d_job d = job \<and> d_intent d = intent \<and> in_flight (d_state d))
       (\<lambda>d. d\<lparr>d_state := Settled, d_settledAt := or_else (d_settledAt d) (Some observedAt), d_updatedAt := observedAt\<rparr>)
       ''mission_mutation_dispatch_settlement_conflict'' db)"

end
