(* ===== verification/ControlWrites.thy ===== *)
theory ControlWrites
  imports MissionDispatch
begin

text \<open>
  What a successful operation on tasks, exceptions and dispatches does to the tables, as abstract writes
  like those of \<open>MissionWrites\<close>: which fence held, which rows changed and which event was appended.
\<close>

section \<open>Tasks\<close>

definition task_key :: "mission_task \<Rightarrow> string \<times> string" where
  "task_key t = (t_id t, t_tenant t)"

definition put_task :: "string \<Rightarrow> string \<Rightarrow> (mission_task \<Rightarrow> mission_task) \<Rightarrow> app_db \<Rightarrow> app_db" where
  "put_task tenant tid f db = db\<lparr>db_tasks := update_where (\<lambda>t. task_key t = (tid, tenant)) f (db_tasks db)\<rparr>"

definition tasks_keyed :: "app_db \<Rightarrow> bool" where
  "tasks_keyed db \<longleftrightarrow> distinct (map t_id (db_tasks db))"

definition dispatches_keyed :: "app_db \<Rightarrow> bool" where
  "dispatches_keyed db \<longleftrightarrow> distinct (map d_id (db_dispatches db))"

lemma findTask_key: "findTask db tenant tid = List.find (\<lambda>t. task_key t = (tid, tenant)) (db_tasks db)"
  by (simp add: findTask_def task_key_def)

lemma findTask_Some: "findTask db tenant tid = Some t \<Longrightarrow> t \<in> set (db_tasks db) \<and> t_id t = tid \<and> t_tenant t = tenant"
  by (auto simp: findTask_def find_Some_iff)

lemma findTask_put:
  assumes "\<And>t. task_key (f t) = task_key t"
  shows "findTask (put_task tenant tid f db) tenant' tid' =
    (if tenant' = tenant \<and> tid' = tid then map_option f (findTask db tenant tid) else findTask db tenant' tid')"
  using find_update_key[of task_key f "(tid', tenant')" "(tid, tenant)" "db_tasks db"] assms
  by (auto simp: findTask_key put_task_def)

lemma write_task_ok:
  assumes "tasks_keyed db" and "findTask db tenant tid = Some cur"
    and "\<And>t. P t \<Longrightarrow> t_id t = tid \<and> t_tenant t = tenant"
  shows "write_task P f err db = Inr db' \<longleftrightarrow> P cur \<and> db' = put_task tenant tid f db"
proof -
  have dist: "distinct (map task_key (db_tasks db))"
    using assms(1) unfolding tasks_keyed_def by (rule distinct_finer) (simp add: task_key_def)
  have cur: "cur \<in> set (db_tasks db)" "task_key cur = (tid, tenant)"
    using findTask_Some[OF assms(2)] by (auto simp: task_key_def)
  have sub: "P t \<Longrightarrow> task_key t = task_key cur" for t using assms(3) cur(2) by (auto simp: task_key_def)
  show ?thesis using keyed_update[of task_key _ cur P, OF dist cur(1) sub] cur(2)
    by (auto simp: write_task_def ensure_eq_Inr put_task_def)
qed

text \<open>The task fence: no dispatch of the mission under this task authority is in flight.\<close>

definition of_task :: "string \<Rightarrow> string \<Rightarrow> string option \<Rightarrow> dispatch_row \<Rightarrow> bool" where
  "of_task tenant mid tid d \<longleftrightarrow> d_tenant d = tenant \<and> d_mission d = mid \<and> au_task (d_authority d) = tid"

definition task_fenced :: "app_db \<Rightarrow> string \<Rightarrow> string \<Rightarrow> string option \<Rightarrow> bool" where
  "task_fenced db tenant mid tid \<longleftrightarrow> (\<forall>d \<in> set (db_dispatches db). of_task tenant mid tid d \<longrightarrow> \<not> in_flight (d_state d))"

definition revoke_task :: "string \<Rightarrow> string \<Rightarrow> string option \<Rightarrow> string \<Rightarrow> app_db \<Rightarrow> app_db" where
  "revoke_task tenant mid tid stamp db = db\<lparr>db_dispatches :=
     update_where (\<lambda>d. of_task tenant mid tid d \<and> d_state d = Authorized) (revoke_row stamp) (db_dispatches db)\<rparr>"

lemma revoke_taskD:
  assumes keyed: "dispatches_keyed db"
    and "revokePendingMissionTaskMutationDispatches tenant mid tid stamp db = Inr db'"
  shows "task_fenced db tenant mid tid \<and> db' = revoke_task tenant mid tid stamp db"
proof -
  let ?rows = "filter (\<lambda>d. d_tenant d = tenant \<and> d_mission d = mid \<and> (d_state d = Authorized \<or> in_flight (d_state d))) (db_dispatches db)"
  let ?matching = "filter (\<lambda>d. au_task (d_authority d) = tid) ?rows"
  from assms(2) have fence: "\<forall>d \<in> set ?matching. \<not> in_flight (d_state d)"
    and db': "db' = db\<lparr>db_dispatches := update_where
        (\<lambda>d. d_id d \<in> set (map d_id ?matching) \<and> d_tenant d = tenant \<and> d_state d = Authorized) (revoke_row stamp) (db_dispatches db)\<rparr>"
    unfolding revokePendingMissionTaskMutationDispatches_def Let_def ensure_eq_Inr exists_row_def list_ex_iff by auto
  have same: "d_id d \<in> set (map d_id ?matching) \<longleftrightarrow> d \<in> set ?matching" if "d \<in> set (db_dispatches db)" for d
    using that keyed distinct_map_eq[of d_id "db_dispatches db" d] by (auto simp: dispatches_keyed_def)
  have "update_where (\<lambda>d. d_id d \<in> set (map d_id ?matching) \<and> d_tenant d = tenant \<and> d_state d = Authorized)
      (revoke_row stamp) (db_dispatches db)
    = update_where (\<lambda>d. of_task tenant mid tid d \<and> d_state d = Authorized) (revoke_row stamp) (db_dispatches db)"
    unfolding update_where_def using same by (intro map_cong refl if_cong) (auto simp: of_task_def)
  then have "db' = revoke_task tenant mid tid stamp db" unfolding db' revoke_task_def by (rule arg_cong)
  moreover have "task_fenced db tenant mid tid" using fence by (auto simp: task_fenced_def of_task_def)
  ultimately show ?thesis by (rule conjI[rotated])
qed

definition task_insert :: "host \<Rightarrow> call \<Rightarrow> mission_task \<Rightarrow> json \<Rightarrow> app_db \<Rightarrow> app_db \<Rightarrow> bool" where
  "task_insert h c t payload db db' \<longleftrightarrow> t_id t \<notin> t_id ` set (db_tasks db) \<and> t_tenant t = c_tenant c \<and>
     findMission db (t_tenant t) (t_mission t) \<noteq> None \<and> task_fenced db (t_tenant t) (t_mission t) None \<and>
     (let db1 = revoke_task (t_tenant t) (t_mission t) None (c_createdAt c) db in
      event_step h (call_event c ''mission_task'' (t_id t) ''mission_task.created'' payload)
        (db1\<lparr>db_tasks := db_tasks db1 @ [t]\<rparr>) db')"

definition transition_task :: "call \<Rightarrow> mission_task \<Rightarrow> task_status \<Rightarrow> string option \<Rightarrow> string option \<Rightarrow> mission_task \<Rightarrow> mission_task" where
  "transition_task c cur to assignee handoff t = t\<lparr>t_status := to, t_owner := ownerForStatus to (t_owner cur),
     t_assigned := or_else assignee (t_assigned cur), t_handoff := or_else handoff (t_handoff cur),
     t_retries := t_retries cur + (if isRetry (t_status cur) to then 1 else 0),
     t_revision := t_revision t + 1, t_updatedAt := c_createdAt c\<rparr>"

definition transition_payload :: "mission_task \<Rightarrow> task_status \<Rightarrow> json" where
  "transition_payload cur to = JObj [(''from'', JStr (status_text (t_status cur))), (''to'', JStr (status_text to)),
     (''ownerType'', owner_json (ownerForStatus to (t_owner cur))),
     (''retryCount'', JNum (t_retries cur + (if isRetry (t_status cur) to then 1 else 0))),
     (''previousRevision'', JNum (t_revision cur)), (''revision'', JNum (t_revision cur + 1))]"

definition task_write :: "host \<Rightarrow> call \<Rightarrow> string \<Rightarrow> task_status \<Rightarrow> string option \<Rightarrow> string option \<Rightarrow> app_db \<Rightarrow> app_db \<Rightarrow> bool" where
  "task_write h c tid to assignee handoff db db' \<longleftrightarrow> (\<exists>cur. findTask db (c_tenant c) tid = Some cur \<and>
     to \<in> set (transitions (t_status cur)) \<and> task_fenced db (c_tenant c) (t_mission cur) (Some tid) \<and>
     event_step h (call_event c ''mission_task'' tid ''mission_task.transitioned'' (transition_payload cur to))
       (put_task (c_tenant c) tid (transition_task c cur to assignee handoff)
          (revoke_task (c_tenant c) (t_mission cur) (Some tid) (c_createdAt c) db)) db')"

lemma task_event_step: "task_event h c tid ty payload db = Inr db' \<Longrightarrow> event_step h (call_event c ''mission_task'' tid ty payload) db db'"
  by (auto simp: task_event_def bindR_eq_Inr event_step_def elim!: appendDomainEvent_cases)

lemma reread_taskD: "reread_task tenant tid db = Inr (v, db') \<Longrightarrow> db' = db \<and> findTask db tenant tid = Some v"
  by (simp add: reread_task_def split: option.splits)

lemma revoke_task_frame [simp]:
  "db_tasks (revoke_task t mid tid s db) = db_tasks db" "findTask (revoke_task t mid tid s db) t' tid' = findTask db t' tid'"
  "tasks_keyed (revoke_task t mid tid s db) = tasks_keyed db" "db_events (revoke_task t mid tid s db) = db_events db"
  by (simp_all add: revoke_task_def findTask_def tasks_keyed_def)

lemma task_required_trim: "task_required n s = Inr t \<Longrightarrow> t = trim s"
  by (simp add: task_required_def required_def Let_def ensure_eq_Inr)

lemma createMissionTaskD:
  assumes "dispatches_keyed db" and "createMissionTask h c i db = Inr (v, db')"
  shows "findTask db' (c_tenant c) (ti_id i) = Some v \<or> db' = db"
    and "db' = db \<or> (\<exists>r payload. risk_of (ti_risk i) = Some r \<and>
      task_insert h c (new_task c i (trim (ti_acceptance i)) r) payload db db')"
proof -
  from assms(2) obtain r where r: "risk_of (ti_risk i) = Some r"
    and body: "(case List.find (\<lambda>t. t_id t = ti_id i) (db_tasks db) of
       Some t \<Rightarrow> ensure (t_tenant t = c_tenant c \<and> t_mission t = ti_mission i \<and> t_type t = ti_type i \<and>
           t_acceptance t = trim (ti_acceptance i) \<and> t_risk t = r) ''mission_task_id_conflict'' (Inr (t, db))
     | None \<Rightarrow>
         ensure (findMission db (c_tenant c) (ti_mission i) \<noteq> None) ''mission_task_mission_not_found'' (
         bindR (revokePendingMissionTaskMutationDispatches (c_tenant c) (ti_mission i) None (c_createdAt c) db) (\<lambda>db1.
         bindR (task_event h c (ti_id i) ''mission_task.created''
             (JObj [(''missionId'', JStr (ti_mission i)), (''taskType'', JStr (ti_type i)), (''risk'', JStr (ti_risk i)),
                    (''status'', JStr ''unassigned'')])
             (db1\<lparr>db_tasks := db_tasks db1 @ [new_task c i (trim (ti_acceptance i)) r]\<rparr>))
           (reread_task (c_tenant c) (ti_id i))))) = Inr (v, db')"
    by (auto simp: createMissionTask_def bindR_eq_Inr option_throw_eq_Inr dest!: task_required_trim)
  have new: "t_id (new_task c i a r) = ti_id i" "t_tenant (new_task c i a r) = c_tenant c"
    "t_mission (new_task c i a r) = ti_mission i" for a by (simp_all add: new_task_def)
  show "findTask db' (c_tenant c) (ti_id i) = Some v \<or> db' = db"
    using body by (auto simp: bindR_eq_Inr ensure_eq_Inr split: option.splits dest!: reread_taskD)
  show "db' = db \<or> (\<exists>r payload. risk_of (ti_risk i) = Some r \<and>
      task_insert h c (new_task c i (trim (ti_acceptance i)) r) payload db db')"
  proof (cases "List.find (\<lambda>t. t_id t = ti_id i) (db_tasks db)")
    case (Some t)
    with body show ?thesis by (simp add: ensure_eq_Inr)
  next
    case None
    then have "ti_id i \<notin> t_id ` set (db_tasks db)" by (auto simp: find_None_iff)
    with None body r show ?thesis
      by (auto simp: bindR_eq_Inr ensure_eq_Inr task_insert_def new dest!: revoke_taskD[OF assms(1)] reread_taskD task_event_step)
  qed
qed

lemma transitionMissionTaskD:
  assumes "tasks_keyed db" and "dispatches_keyed db"
    and op: "transitionMissionTask h c tid expected to assignee handoff db = Inr (v, db')"
  shows "findTask db' (c_tenant c) tid = Some v"
    and "db' = db \<and> t_status v = to \<or> task_write h c tid to assignee handoff db db'"
proof -
  from op obtain cur where cur: "findTask db (c_tenant c) tid = Some cur" "t_revision cur = expected"
    and body: "(if t_status cur = to then Inr (cur, db)
     else ensure (to \<in> set (transitions (t_status cur))) ''mission_task_transition_invalid'' (
     bindR (revokePendingMissionTaskMutationDispatches (c_tenant c) (t_mission cur) (Some (t_id cur)) (c_createdAt c) db) (\<lambda>db1.
     let owner = ownerForStatus to (t_owner cur);
         retries = t_retries cur + (if isRetry (t_status cur) to then 1 else 0) in
     ensure (case assignee of None \<Rightarrow> True | Some a \<Rightarrow> exists_row (\<lambda>p. p_id p = a) (db_principals db)) ''FOREIGN KEY constraint failed'' (
     bindR (write_task (\<lambda>t. t_id t = tid \<and> t_tenant t = c_tenant c \<and> t_revision t = expected)
         (\<lambda>t. t\<lparr>t_status := to, t_owner := owner, t_assigned := or_else assignee (t_assigned cur),
           t_handoff := or_else handoff (t_handoff cur), t_retries := retries,
           t_revision := t_revision t + 1, t_updatedAt := c_createdAt c\<rparr>)
         ''mission_task_revision_conflict'' db1) (\<lambda>db2.
     bindR (task_event h c tid ''mission_task.transitioned''
         (JObj [(''from'', JStr (status_text (t_status cur))), (''to'', JStr (status_text to)),
                (''ownerType'', owner_json owner), (''retryCount'', JNum retries),
                (''previousRevision'', JNum (t_revision cur)), (''revision'', JNum (t_revision cur + 1))]) db2)
       (reread_task (c_tenant c) tid)))))) = Inr (v, db')"
    by (auto simp: transitionMissionTask_def bindR_eq_Inr ensure_eq_Inr option_throw_eq_Inr)
  have "findTask db' (c_tenant c) tid = Some v \<and>
    (db' = db \<and> t_status v = to \<or> task_write h c tid to assignee handoff db db')"
  proof (cases "t_status cur = to")
    case True
    with body cur show ?thesis by auto
  next
    case False
    with body obtain db1 db2 db3 where legal: "to \<in> set (transitions (t_status cur))"
      and 1: "revokePendingMissionTaskMutationDispatches (c_tenant c) (t_mission cur) (Some (t_id cur)) (c_createdAt c) db = Inr db1"
      and 2: "write_task (\<lambda>t. t_id t = tid \<and> t_tenant t = c_tenant c \<and> t_revision t = expected)
          (transition_task c cur to assignee handoff) ''mission_task_revision_conflict'' db1 = Inr db2"
      and 3: "task_event h c tid ''mission_task.transitioned'' (transition_payload cur to) db2 = Inr db3"
      and 4: "reread_task (c_tenant c) tid db3 = Inr (v, db')"
      by (auto simp: bindR_eq_Inr ensure_eq_Inr Let_def transition_task_def[abs_def] transition_payload_def)
    have tid: "t_id cur = tid" using findTask_Some[OF cur(1)] by simp
    from revoke_taskD[OF assms(2) 1] have fence: "task_fenced db (c_tenant c) (t_mission cur) (Some tid)"
      and db1: "db1 = revoke_task (c_tenant c) (t_mission cur) (Some tid) (c_createdAt c) db" by (simp_all add: tid)
    have k: "tasks_keyed db1" "findTask db1 (c_tenant c) tid = Some cur" using assms(1) cur(1) by (simp_all add: db1)
    have "db2 = put_task (c_tenant c) tid (transition_task c cur to assignee handoff) db1"
      using 2 by (subst (asm) write_task_ok[OF k]) auto
    with task_event_step[OF 3] reread_taskD[OF 4] legal fence cur db1 show ?thesis
      by (auto simp: task_write_def)
  qed
  then show "findTask db' (c_tenant c) tid = Some v"
    and "db' = db \<and> t_status v = to \<or> task_write h c tid to assignee handoff db db'" by auto
qed


section \<open>Dependencies\<close>

definition bump_task :: "string \<Rightarrow> mission_task \<Rightarrow> mission_task" where
  "bump_task stamp t = t\<lparr>t_revision := t_revision t + 1, t_updatedAt := stamp\<rparr>"

definition dependency_row :: "dependency_input \<Rightarrow> task_dependency" where
  "dependency_row i = \<lparr>dp_id = di_id i, dp_tenant = di_tenant i, dp_mission = di_mission i, dp_task = di_task i,
     dp_dependsOn = di_dependsOn i, dp_createdAt = di_createdAt i\<rparr>"

definition dependency_insert :: "dependency_input \<Rightarrow> app_db \<Rightarrow> app_db \<Rightarrow> bool" where
  "dependency_insert i db db' \<longleftrightarrow> di_task i \<noteq> di_dependsOn i \<and>
     (\<exists>t. findTask db (di_tenant i) (di_task i) = Some t \<and> t_mission t = di_mission i) \<and>
     (\<exists>t. findTask db (di_tenant i) (di_dependsOn i) = Some t \<and> t_mission t = di_mission i) \<and>
     \<not> dependsOnTransitively db (di_tenant i) (di_dependsOn i) (di_task i) \<and>
     task_fenced db (di_tenant i) (di_mission i) (Some (di_task i)) \<and>
     db' = (put_task (di_tenant i) (di_task i) (bump_task (di_createdAt i))
        (revoke_task (di_tenant i) (di_mission i) (Some (di_task i)) (di_createdAt i) db))
        \<lparr>db_dependencies := db_dependencies db @ [dependency_row i]\<rparr>"

lemma check_endpointD: "check_endpoint db i tid = Inr u \<Longrightarrow> \<exists>t. findTask db (di_tenant i) tid = Some t \<and> t_mission t = di_mission i"
  by (auto simp: check_endpoint_def option_throw_eq_Inr ensure_eq_Inr)

lemma addMissionTaskDependencyD:
  assumes "tasks_keyed db" and "dispatches_keyed db" and "addMissionTaskDependency i db = Inr (u, db')"
  shows "db' = db \<or> dependency_insert i db db'"
proof (cases "exists_row (\<lambda>d. dp_tenant d = di_tenant i \<and> dp_task d = di_task i \<and> dp_dependsOn d = di_dependsOn i) (db_dependencies db)")
  case True
  with assms(3) show ?thesis by (auto simp: addMissionTaskDependency_def bindR_eq_Inr ensure_eq_Inr)
next
  case False
  with assms(3) obtain t db1 db2 where ne: "di_task i \<noteq> di_dependsOn i"
    and t: "findTask db (di_tenant i) (di_task i) = Some t" "t_mission t = di_mission i"
    and d: "\<exists>t. findTask db (di_tenant i) (di_dependsOn i) = Some t \<and> t_mission t = di_mission i"
    and nocycle: "\<not> dependsOnTransitively db (di_tenant i) (di_dependsOn i) (di_task i)"
    and 1: "revokePendingMissionTaskMutationDispatches (di_tenant i) (di_mission i) (Some (di_task i)) (di_createdAt i) db = Inr db1"
    and 2: "write_task (\<lambda>t. t_id t = di_task i \<and> t_tenant t = di_tenant i \<and> t_mission t = di_mission i)
        (bump_task (di_createdAt i)) ''mission_task_dependency_task_not_found'' db1 = Inr db2"
    and 3: "db' = db2\<lparr>db_dependencies := db_dependencies db2 @ [dependency_row i]\<rparr>"
    by (auto simp: addMissionTaskDependency_def bindR_eq_Inr ensure_eq_Inr bump_task_def[abs_def] dependency_row_def
        dest!: check_endpointD)
  from revoke_taskD[OF assms(2) 1] have fence: "task_fenced db (di_tenant i) (di_mission i) (Some (di_task i))"
    and db1: "db1 = revoke_task (di_tenant i) (di_mission i) (Some (di_task i)) (di_createdAt i) db" by simp_all
  have k: "tasks_keyed db1" "findTask db1 (di_tenant i) (di_task i) = Some t" using assms(1) t by (simp_all add: db1)
  have db2: "db2 = put_task (di_tenant i) (di_task i) (bump_task (di_createdAt i)) db1"
    using 2 by (subst (asm) write_task_ok[OF k]) auto
  have "db_dependencies db2 = db_dependencies db" by (simp add: db2 db1 put_task_def revoke_task_def)
  with 3 db2 db1 ne t d nocycle fence show ?thesis by (auto simp: dependency_insert_def)
qed

section \<open>Exceptions\<close>

definition exception_insert :: "host \<Rightarrow> call \<Rightarrow> string \<Rightarrow> exception_row \<Rightarrow> app_db \<Rightarrow> app_db \<Rightarrow> bool" where
  "exception_insert h c ty x db db' \<longleftrightarrow> (\<exists>row i. contentDigest h (exceptionDigestBody x) \<notin> x_id ` set (db_exceptions db) \<and>
     (\<exists>task category. row = x\<lparr>x_id := contentDigest h (exceptionDigestBody x), x_digest := contentDigest h (exceptionDigestBody x),
        x_task := task, x_category := category\<rparr>) \<and>
     ei_tenant i = c_tenant c \<and> ei_type i = ty \<and> ei_aggregateType i = ''mission'' \<and> ei_aggregateId i = x_mission x \<and>
     event_step h i (db\<lparr>db_exceptions := db_exceptions db @ [row]\<rparr>) db')"

definition exception_write :: "host \<Rightarrow> call \<Rightarrow> string \<Rightarrow> exception_row \<Rightarrow> app_db \<Rightarrow> app_db \<Rightarrow> bool" where
  "exception_write h c ty x db db' \<longleftrightarrow> x_tenant x = c_tenant c \<and> findMission db (x_tenant x) (x_mission x) \<noteq> None \<and>
     (\<forall>p. x_supersedes x = Some p \<longrightarrow> (\<forall>y \<in> set (db_exceptions db). \<not> (x_tenant y = x_tenant x \<and> x_supersedes y = Some p))) \<and>
     (x_status x = Open \<and> x_blocking x \<longrightarrow> fenced db (x_tenant x) (x_mission x)) \<and>
     (let base = (if x_status x = Open \<and> x_blocking x then revoke_mission (x_tenant x) (x_mission x) (c_createdAt c) db else db) in
      db' = base \<or> exception_insert h c ty x base db')"

lemma insertExceptionD:
  assumes "insertException h c ty x db = Inr (v, db')"
  shows "db' = db \<or> exception_insert h c ty x db db'"
proof (cases "findException db (c_tenant c) (contentDigest h (exceptionDigestBody x))")
  case (Some e)
  with assms show ?thesis by (auto simp: insertException_def Let_def bindR_eq_Inr)
next
  case None
  let ?dg = "contentDigest h (exceptionDigestBody x)"
  from None assms obtain task category payload db1 where fresh: "\<forall>e \<in> set (db_exceptions db). x_id e \<noteq> ?dg"
    and 1: "mission_event h (exception_call c ?dg) (x_mission x) ty payload (db\<lparr>db_exceptions := db_exceptions db @
        [x\<lparr>x_id := ?dg, x_digest := ?dg, x_task := task, x_category := category\<rparr>]\<rparr>) = Inr db1"
    and 2: "db' = db1"
    by (auto simp: insertException_def Let_def bindR_eq_Inr ensure_eq_Inr option_throw_eq_Inr exists_row_def list_ex_iff)
  show ?thesis using mission_event_step[OF 1] fresh 2
    unfolding exception_insert_def by (intro disjI2 exI conjI) (auto simp: call_event_def exception_call_def)
qed

text \<open>A mission that the exceptions of a database refer to; kept by every operation.\<close>

definition exceptions_scoped :: "app_db \<Rightarrow> bool" where
  "exceptions_scoped db \<longleftrightarrow> (\<forall>x \<in> set (db_exceptions db). findMission db (x_tenant x) (x_mission x) \<noteq> None)"

lemma findException_Some: "findException db t xid = Some x \<Longrightarrow> x \<in> set (db_exceptions db) \<and> x_id x = xid \<and> x_tenant x = t"
  by (auto simp: findException_def find_Some_iff)

lemma raiseMissionExceptionD:
  assumes "raiseMissionException h c i db = Inr (v, db')"
  shows "db' = db \<or> (\<exists>x c'. x_status x = Open \<and> x_supersedes x = None \<and> c_tenant c' = c_tenant c \<and> c_createdAt c' = c_createdAt c \<and>
    exception_write h c' ''mission.exception_raised'' x db db')"
proof -
  from assms obtain reason impact resolution correlation where
    scope: "findMission db (c_tenant c) (ri_mission i) \<noteq> None"
    and body: "(let x = raised_row c i reason impact resolution in
     case findException db (c_tenant c) (contentDigest h (exceptionDigestBody x)) of
       Some e \<Rightarrow> bindR (hydrateException h e) (\<lambda>v. Inr (v, db))
     | None \<Rightarrow>
         bindR (if ri_blocking i then revokePendingMissionMutationDispatches (c_tenant c) (ri_mission i) (c_createdAt c) db else Inr db)
           (insertException h (c\<lparr>c_correlation := correlation\<rparr>) ''mission.exception_raised'' x)) = Inr (v, db')"
    by (auto simp: raiseMissionException_def bindR_eq_Inr ensure_eq_Inr assertMissionScope_def exactUtc_def)
  let ?x = "raised_row c i reason impact resolution" let ?c = "c\<lparr>c_correlation := correlation\<rparr>"
  have x: "x_tenant ?x = c_tenant c" "x_mission ?x = ri_mission i" "x_status ?x = Open" "x_blocking ?x = ri_blocking i"
    "x_supersedes ?x = None" by (simp_all add: raised_row_def)
  show ?thesis
  proof (cases "findException db (c_tenant c) (contentDigest h (exceptionDigestBody ?x))")
    case (Some e)
    with body show ?thesis by (auto simp: Let_def bindR_eq_Inr)
  next
    case None
    with body obtain db1 where
      1: "(if ri_blocking i then revokePendingMissionMutationDispatches (c_tenant c) (ri_mission i) (c_createdAt c) db else Inr db) = Inr db1"
      and 2: "insertException h ?c ''mission.exception_raised'' ?x db1 = Inr (v, db')"
      by (auto simp: Let_def bindR_eq_Inr)
    have base: "db1 = (if ri_blocking i then revoke_mission (c_tenant c) (ri_mission i) (c_createdAt c) db else db)"
      "ri_blocking i \<longrightarrow> fenced db (c_tenant c) (ri_mission i)"
      using 1 revoke_missionD by (auto split: if_splits)
    have "exception_write h ?c ''mission.exception_raised'' ?x db db'"
      using insertExceptionD[OF 2] base scope by (cases "ri_blocking i") (simp_all add: exception_write_def x Let_def)
    with x show ?thesis by (intro disjI2 exI[of _ ?x] exI[of _ ?c]) simp
  qed
qed

lemma transitionExceptionD:
  assumes scoped: "exceptions_scoped db" and "transitionException h c t db = Inr (v, db')"
  shows "\<exists>prior. prior \<in> set (db_exceptions db) \<and> x_id prior = xt_prior t \<and> x_tenant prior = c_tenant c \<and>
    exception_write h c (xt_eventType t) (superseding_row c t prior) db db'"
proof -
  from assms(2) obtain prior db1 where prior: "findException db (c_tenant c) (xt_prior t) = Some prior"
    and free: "\<forall>x \<in> set (db_exceptions db). \<not> (x_tenant x = c_tenant c \<and> x_supersedes x = Some (xt_prior t))"
    and 1: "(if xt_status t = Open \<and> xt_blocking t
            then revokePendingMissionMutationDispatches (c_tenant c) (x_mission prior) (c_createdAt c) db else Inr db) = Inr db1"
    and 2: "insertException h c (xt_eventType t) (superseding_row c t prior) db1 = Inr (v, db')"
    by (auto simp: transitionException_def loadHead_def bindR_eq_Inr ensure_eq_Inr option_throw_eq_Inr exists_row_def list_ex_iff)
  let ?x = "superseding_row c t prior"
  have x: "x_tenant ?x = c_tenant c" "x_mission ?x = x_mission prior" "x_status ?x = xt_status t" "x_blocking ?x = xt_blocking t"
    "x_supersedes ?x = Some (xt_prior t)" by (simp_all add: superseding_row_def)
  have base: "db1 = (if xt_status t = Open \<and> xt_blocking t then revoke_mission (c_tenant c) (x_mission prior) (c_createdAt c) db else db)"
    "xt_status t = Open \<and> xt_blocking t \<longrightarrow> fenced db (c_tenant c) (x_mission prior)"
    using 1 revoke_missionD by (auto split: if_splits)
  have p: "prior \<in> set (db_exceptions db)" "x_id prior = xt_prior t" "x_tenant prior = c_tenant c"
    using findException_Some[OF prior] by auto
  then have "findMission db (c_tenant c) (x_mission prior) \<noteq> None" using scoped by (auto simp: exceptions_scoped_def)
  with insertExceptionD[OF 2] base free have "exception_write h c (xt_eventType t) ?x db db'"
    by (auto simp: exception_write_def x)
  with p show ?thesis by blast
qed


section \<open>Authority\<close>

text \<open>\<open>blocked\<close>: an unsuperseded exception of the mission has the standing \<open>blocking\<close>.\<close>

definition blocked :: "app_db \<Rightarrow> string \<Rightarrow> string \<Rightarrow> snapshot_identity option \<Rightarrow> bool" where
  "blocked db tenant mid current \<longleftrightarrow> (let rows = mission_exceptions db tenant mid in
     \<exists>x \<in> set rows. \<not> truthy (supersededBy rows (x_id x)) \<and> standingOf x current = Blocking)"

definition exceptions_sound :: "host \<Rightarrow> app_db \<Rightarrow> bool" where
  "exceptions_sound h db \<longleftrightarrow>
     (\<forall>x \<in> set (db_exceptions db). contentDigest h (exceptionDigestBody x) = x_digest x \<and> x_digest x = x_id x)"

lemma evaluate_rows_ok:
  assumes "\<forall>x \<in> set xs. contentDigest h (exceptionDigestBody x) = x_digest x \<and> x_digest x = x_id x"
  shows "evaluate_rows h rows current xs =
    Inr (map (\<lambda>x. (standingOf x current, x)) (filter (\<lambda>x. \<not> truthy (supersededBy rows (x_id x))) xs))"
  using assms by (induction xs) (auto simp: hydrateException_def)

lemma evaluateMissionExceptions_ok:
  assumes "exceptions_sound h db"
  shows "\<exists>e. evaluateMissionExceptions h db tenant mid current = Inr e \<and> xe_missionBlocked e = blocked db tenant mid current"
proof -
  have "\<forall>x \<in> set (mission_exceptions db tenant mid). contentDigest h (exceptionDigestBody x) = x_digest x \<and> x_digest x = x_id x"
    using assms by (auto simp: exceptions_sound_def mission_exceptions_def)
  from evaluate_rows_ok[OF this] show ?thesis
    by (auto simp: evaluateMissionExceptions_def Let_def bucket_def blocked_def filter_empty_conv)
qed

lemma evaluateMissionExceptions_blocked:
  assumes "evaluateMissionExceptions h db tenant mid current = Inr e"
  shows "xe_missionBlocked e = blocked db tenant mid current"
proof -
  have rows: "vs = map (\<lambda>x. (standingOf x current, x)) (filter (\<lambda>x. \<not> truthy (supersededBy rows (x_id x))) xs)"
    if "evaluate_rows h rows current xs = Inr vs" for rows xs vs
    using that by (induction xs arbitrary: vs) (auto simp: bindR_eq_Inr hydrateException_def ensure_eq_Inr split: if_splits)
  from assms show ?thesis
    by (auto simp: evaluateMissionExceptions_def Let_def bindR_eq_Inr bucket_def blocked_def filter_empty_conv dest!: rows)
qed

text \<open>\<open>covered\<close>: the authority of a dispatch still holds. The clause on the task of an authority without
  one is left out: a task created under another mission can take the derived id.\<close>

definition task_covered :: "app_db \<Rightarrow> string \<Rightarrow> authority \<Rightarrow> bool" where
  "task_covered db tenant a \<longleftrightarrow>
     (case au_task a of None \<Rightarrow> True | Some tid \<Rightarrow> task_matches dispatch_options a (findTask db tenant tid))"

definition authority_snapshot :: "authority \<Rightarrow> snapshot_identity option" where
  "authority_snapshot a = Some \<lparr>si_snapshot = au_snapshot a, si_sha = au_sha a\<rparr>"

definition covered :: "app_db \<Rightarrow> string \<Rightarrow> authority \<Rightarrow> bool" where
  "covered db tenant a \<longleftrightarrow> (\<exists>m. findMission db tenant (au_mission a) = Some m \<and> mission_current m a) \<and>
     snapshot_current db tenant a \<and> task_covered db tenant a \<and> \<not> blocked db tenant (au_mission a) (authority_snapshot a)"

lemma parse_authority: "parseMissionMutationAuthority a = Inr b \<Longrightarrow> b = a"
  by (simp add: parseMissionMutationAuthority_def ensure_eq_Inr)

lemma assert_covered:
  assumes "assertMissionMutationAuthority h db tenant a dispatch_options = Inr r"
  shows "covered db tenant a"
proof -
  from assms obtain m e where "findMission db tenant (au_mission a) = Some m" "mission_current m a" "snapshot_current db tenant a"
    "au_task a \<noteq> None \<longrightarrow> task_matches dispatch_options a (case au_task a of None \<Rightarrow> None | Some t \<Rightarrow> getMissionTask db tenant t)"
    "evaluateMissionExceptions h db tenant (m_id m) (authority_snapshot a) = Inr e" "\<not> xe_missionBlocked e"
    unfolding assertMissionMutationAuthority_def
    by (auto simp: bindR_eq_Inr ensure_eq_Inr option_throw_eq_Inr getMission_def Let_def dispatch_options_def
        authority_snapshot_def dest!: parse_authority)
  then show ?thesis
    using findMission_Some evaluateMissionExceptions_blocked
    by (fastforce simp: covered_def task_covered_def getMissionTask_def split: option.splits)
qed

section \<open>Dispatches\<close>

definition live :: "dispatch_state \<Rightarrow> bool" where
  "live s \<longleftrightarrow> s = Authorized \<or> in_flight s"

text \<open>The moves of one row: identity and authority stay; the state moves along the machine of the
  decision record.\<close>

definition dispatch_moves :: "dispatch_state \<Rightarrow> dispatch_state list" where
  "dispatch_moves s = (case s of
      Authorized \<Rightarrow> [Authorized, Dispatching, Revoked]
    | Dispatching \<Rightarrow> [Dispatching, Uncertain, Settled]
    | Uncertain \<Rightarrow> [Uncertain, Dispatching, Settled]
    | Settled \<Rightarrow> [Settled, Authorized]
    | Revoked \<Rightarrow> [Revoked])"

definition same_intent :: "dispatch_row \<Rightarrow> dispatch_row \<Rightarrow> bool" where
  "same_intent d d' \<longleftrightarrow> d_id d' = d_id d \<and> d_tenant d' = d_tenant d \<and> d_mission d' = d_mission d \<and> d_job d' = d_job d \<and>
     d_kind d' = d_kind d \<and> d_aggregate d' = d_aggregate d \<and> d_authority d' = d_authority d \<and> d_intent d' = d_intent d"

definition dispatch_move :: "dispatch_row \<Rightarrow> dispatch_row \<Rightarrow> bool" where
  "dispatch_move d d' \<longleftrightarrow> same_intent d d' \<and> d_state d' \<in> set (dispatch_moves (d_state d))"

text \<open>A step of the dispatch table alone: rows move, a row that becomes live again has been checked, and
  a row that is added is authorized under a checked authority.\<close>

definition dispatch_write :: "app_db \<Rightarrow> app_db \<Rightarrow> bool" where
  "dispatch_write db db' \<longleftrightarrow> (\<exists>rows new. db' = db\<lparr>db_dispatches := rows @ new\<rparr> \<and>
     list_all2 (\<lambda>d d'. dispatch_move d d' \<and> (live (d_state d') \<longrightarrow> live (d_state d) \<or> covered db (d_tenant d) (d_authority d)))
       (db_dispatches db) rows \<and>
     (new = [] \<or> (\<exists>d. new = [d] \<and> d_state d = Authorized \<and> d_mission d = au_mission (d_authority d) \<and>
        d_id d \<notin> d_id ` set (db_dispatches db) \<and> covered db (d_tenant d) (d_authority d))))"

lemma move_refl [simp]: "dispatch_move d d"
  by (cases "d_state d") (simp_all add: dispatch_move_def same_intent_def dispatch_moves_def)

lemma update_dispatches_write:
  assumes "\<And>d. d \<in> set (db_dispatches db) \<Longrightarrow> P d \<Longrightarrow> dispatch_move d (f d) \<and>
    (live (d_state (f d)) \<longrightarrow> live (d_state d) \<or> covered db (d_tenant d) (d_authority d))"
  shows "dispatch_write db (update_dispatches P f db)"
  unfolding dispatch_write_def update_dispatches_def
  by (intro exI[of _ "update_where P f (db_dispatches db)"] exI[of _ "[]"])
     (use assms in \<open>auto simp: update_where_def list_all2_conv_all_nth\<close>)

lemma dispatch_write_refl: "dispatch_write db db"
  using update_dispatches_write[of db "\<lambda>d. False" "\<lambda>d. d"] by (simp add: update_dispatches_def update_where_def)

lemmas move_simps = dispatch_move_def same_intent_def dispatch_moves_def live_def in_flight_def mark_uncertain_def revoke_row_def

lemma reauthorizeD:
  assumes "reauthorize i kind aggregate a stamp prior db = Inr (s, db')"
  shows "dispatch_write db db'"
  using assms by (auto simp: reauthorize_def ensure_eq_Inr Let_def dispatch_write_refl split: if_splits
      intro!: update_dispatches_write) (auto simp: move_simps)

lemma authorizeMissionMutationDispatchD:
  assumes "authorizeMissionMutationDispatch h i kind aggregate db = Inr (s, db')"
  shows "dispatch_write db db'"
proof -
  let ?a = "din_authority i"
  from assms obtain r observedAt where
    r: "assertMissionMutationAuthority h db (din_tenant i) ?a dispatch_options = Inr r"
    and body: "(case findDispatch db (din_tenant i) (din_job i) of
       Some prior \<Rightarrow> reauthorize i kind aggregate ?a observedAt prior db
     | None \<Rightarrow>
         ensure (\<not> exists_row (\<lambda>d. d_id d = ''mission-dispatch:'' @ din_job i) (db_dispatches db))
           ''UNIQUE constraint failed: mission_mutation_dispatches.id''
         (Inr (Authorized, db\<lparr>db_dispatches := db_dispatches db @ [new_dispatch i kind aggregate ?a observedAt]\<rparr>))) = Inr (s, db')"
    by (auto simp: authorizeMissionMutationDispatch_def bindR_eq_Inr ensure_eq_Inr dest!: parse_authority)
  show ?thesis
  proof (cases "findDispatch db (din_tenant i) (din_job i)")
    case (Some prior)
    with body reauthorizeD show ?thesis by auto
  next
    case None
    let ?d = "new_dispatch i kind aggregate ?a observedAt"
    from None body have db': "db' = db\<lparr>db_dispatches := db_dispatches db @ [?d]\<rparr>" and "d_id ?d \<notin> d_id ` set (db_dispatches db)"
      by (auto simp: ensure_eq_Inr exists_row_def list_ex_iff new_dispatch_def)
    with assert_covered[OF r] show ?thesis unfolding dispatch_write_def
      by (intro exI[of _ "db_dispatches db"] exI[of _ "[?d]"]) (auto simp: new_dispatch_def list_all2_conv_all_nth)
  qed
qed

lemma write_dispatchD:
  assumes "write_dispatch P f err db = Inr db'"
    and "\<And>d. d \<in> set (db_dispatches db) \<Longrightarrow> P d \<Longrightarrow> dispatch_move d (f d) \<and>
      (live (d_state (f d)) \<longrightarrow> live (d_state d) \<or> covered db (d_tenant d) (d_authority d))"
  shows "dispatch_write db db'"
  using assms update_dispatches_write[of db P f] by (simp add: write_dispatch_def ensure_eq_Inr)

lemma reauthorizeSettledD:
  assumes "reauthorizeSettledMissionMutationDispatch h i db = Inr db'"
  shows "dispatch_write db db'"
proof -
  from assms obtain r observedAt where
    r: "assertMissionMutationAuthority h db (din_tenant i) (din_authority i) dispatch_options = Inr r"
    and w: "write_dispatch (\<lambda>d. d_tenant d = din_tenant i \<and> d_job d = din_job i \<and> d_authority d = din_authority i \<and>
         d_intent d = din_intent i \<and> d_state d = Settled)
       (\<lambda>d. d\<lparr>d_state := Authorized, d_leaseOwner := din_worker i, d_leaseGeneration := din_generation i,
         d_authorizedAt := observedAt, d_updatedAt := observedAt\<rparr>)
       ''mission_mutation_dispatch_settled_replay_conflict'' db = Inr db'"
    by (auto simp: reauthorizeSettledMissionMutationDispatch_def bindR_eq_Inr ensure_eq_Inr dest!: parse_authority)
  show ?thesis by (rule write_dispatchD[OF w]) (use assert_covered[OF r] in \<open>auto simp: move_simps\<close>)
qed

lemma beginMissionMutationRemoteCallD: "dispatch_write db (snd (beginMissionMutationRemoteCall h i permit db))"
proof -
  have rev: "dispatch_write db (update_dispatches (\<lambda>d. d_tenant d = t \<and> d_job d = j \<and> d_state d = Authorized) (revoke_row s) db)"
    for t j s by (rule update_dispatches_write) (auto simp: move_simps)
  have beg: "dispatch_write db db'" if "begin_dispatch i permit a s db = Inr db'" for a s db'
    using that by (auto simp: begin_dispatch_def bindR_eq_Inr intro: write_dispatchD) (auto elim!: write_dispatchD simp: move_simps)
  show ?thesis unfolding beginMissionMutationRemoteCall_def
    using rev beg dispatch_write_refl by (auto split: sum.splits)
qed

lemma markUncertainD: "markMissionMutationDispatchUncertain h t j intent s db = Inr db' \<Longrightarrow> dispatch_write db db'"
  by (auto simp: markMissionMutationDispatchUncertain_def bindR_eq_Inr elim!: write_dispatchD) (auto simp: move_simps)

lemma settleD: "settleMissionMutationDispatch h t j intent s db = Inr db' \<Longrightarrow> dispatch_write db db'"
  by (auto simp: settleMissionMutationDispatch_def bindR_eq_Inr elim!: write_dispatchD) (auto simp: move_simps)

end
