(* ===== verification/ControlPlane.thy ===== *)
theory ControlPlane
  imports ControlWrites
begin

text \<open>
  The mission control plane as one system: every operation of the component theories as a command, the
  databases that sequences of commands reach from empty tables, and their invariant. Between commands
  the environment may change principals and jobs at will and add repositories, snapshots, campaigns and
  envelopes; snapshots are immutable rows.
\<close>

section \<open>Commands\<close>

datatype control_cmd =
    CreateMission call create_input
  | TransitionMission call string int mission_state
  | BindScope call string string string
  | BindGraph call string string
  | BindPolicy call string string
  | AdvancePolicy call string string string string
  | LinkFettler call string string
  | LinkRegauge call string string
  | CreateTask call task_input
  | MoveTask call string int task_status "string option" "string option"
  | JobTask call job_task_input
  | AddDependency dependency_input
  | RaiseException call raise_input
  | ResolveException call string string
  | WithdrawException call string string
  | ReaffirmException call string bool snapshot_identity
  | AuthorizeDispatch dispatch_input string string
  | ReauthorizeDispatch dispatch_input
  | BeginDispatch dispatch_input bool
  | UncertainDispatch string string string string
  | SettleDispatch string string string string
  | CompleteTask string authority string string
  | Environment "principal_row list" "job_row list" "repository_row list" "snapshot_row list" "campaign_row list" "envelope_row list"

definition db_or :: "app_db \<Rightarrow> app_db result \<Rightarrow> app_db" where
  "db_or db r = (case r of Inl e \<Rightarrow> db | Inr db' \<Rightarrow> db')"

fun exec :: "host \<Rightarrow> control_cmd \<Rightarrow> app_db \<Rightarrow> app_db" where
  "exec h (CreateMission c i) db = db_of db (createMission h c i db)"
| "exec h (TransitionMission c m e to) db = db_of db (transitionMission h c m e to db)"
| "exec h (BindScope c m r s) db = db_of db (bindMissionScope h c m r s db)"
| "exec h (BindGraph c m v) db = db_of db (bindMissionGraphVersion h c m v db)"
| "exec h (BindPolicy c m v) db = db_of db (bindMissionPolicyEnvelopeVersion h c m v db)"
| "exec h (AdvancePolicy c m e n a) db = db_of db (advanceMissionPolicyEnvelopeVersion h c m e n a db)"
| "exec h (LinkFettler c m f) db = db_of db (linkFettlerCampaignToMission h c m f db)"
| "exec h (LinkRegauge c m r) db = db_of db (linkRegaugeCampaignToMission h c m r db)"
| "exec h (CreateTask c i) db = db_of db (createMissionTask h c i db)"
| "exec h (MoveTask c t e to p r) db = db_of db (transitionMissionTask h c t e to p r db)"
| "exec h (JobTask c i) db = db_of db (ensureMissionTaskForJob h c i db)"
| "exec h (AddDependency i) db = db_of db (addMissionTaskDependency i db)"
| "exec h (RaiseException c i) db = db_of db (raiseMissionException h c i db)"
| "exec h (ResolveException c p n) db = db_of db (resolveMissionException h c p n db)"
| "exec h (WithdrawException c p n) db = db_of db (withdrawMissionException h c p n db)"
| "exec h (ReaffirmException c p b s) db = db_of db (reaffirmMissionException h c p b s db)"
| "exec h (AuthorizeDispatch i k a) db = db_of db (authorizeMissionMutationDispatch h i k a db)"
| "exec h (ReauthorizeDispatch i) db = db_or db (reauthorizeSettledMissionMutationDispatch h i db)"
| "exec h (BeginDispatch i u) db = snd (beginMissionMutationRemoteCall h i u db)"
| "exec h (UncertainDispatch t j d s) db = db_or db (markMissionMutationDispatchUncertain h t j d s db)"
| "exec h (SettleDispatch t j d s) db = db_or db (settleMissionMutationDispatch h t j d s db)"
| "exec h (CompleteTask t a k s) db = db_of db (completeMissionMutationAuthorityTask h t a k s db)"
| "exec h (Environment ps js rs ss cs es) db = db\<lparr>db_principals := ps, db_jobs := js,
     db_repositories := db_repositories db @ rs, db_snapshots := db_snapshots db @ ss,
     db_campaigns := db_campaigns db @ cs, db_envelopes := db_envelopes db @ es\<rparr>"

definition fresh_control :: "app_db \<Rightarrow> bool" where
  "fresh_control db \<longleftrightarrow> db_missions db = [] \<and> db_tasks db = [] \<and> db_dependencies db = [] \<and> db_exceptions db = [] \<and>
     db_dispatches db = [] \<and> db_events db = []"

inductive control_reachable :: "host \<Rightarrow> app_db \<Rightarrow> bool" for h where
  start: "fresh_control db \<Longrightarrow> control_reachable h db"
| step: "control_reachable h db \<Longrightarrow> control_reachable h (exec h cmd db)"

fun run_control :: "host \<Rightarrow> control_cmd list \<Rightarrow> app_db \<Rightarrow> app_db" where
  "run_control h [] db = db"
| "run_control h (cmd # cmds) db = run_control h cmds (exec h cmd db)"

lemma run_control_reachable: "control_reachable h db \<Longrightarrow> control_reachable h (run_control h cmds db)"
  by (induction cmds arbitrary: db) (auto intro: control_reachable.step)

section \<open>The invariant\<close>

definition dispatches_ok :: "app_db \<Rightarrow> bool" where
  "dispatches_ok db \<longleftrightarrow> (\<forall>d \<in> set (db_dispatches db). d_mission d = au_mission (d_authority d) \<and>
     (live (d_state d) \<longrightarrow> covered db (d_tenant d) (d_authority d)))"

definition control_inv :: "host \<Rightarrow> app_db \<Rightarrow> bool" where
  "control_inv h db \<longleftrightarrow> missions_keyed db \<and> tasks_keyed db \<and> dispatches_keyed db \<and> log_ok h db \<and>
     exceptions_sound h db \<and> exceptions_scoped db \<and> dispatches_ok db"

lemma control_invD:
  "control_inv h db \<Longrightarrow> missions_keyed db" "control_inv h db \<Longrightarrow> tasks_keyed db" "control_inv h db \<Longrightarrow> dispatches_keyed db"
  "control_inv h db \<Longrightarrow> log_ok h db" "control_inv h db \<Longrightarrow> exceptions_sound h db" "control_inv h db \<Longrightarrow> exceptions_scoped db"
  "control_inv h db \<Longrightarrow> dispatches_ok db"
  by (simp_all add: control_inv_def)

lemma fresh_control_inv: "fresh_control db \<Longrightarrow> control_inv h db"
  by (simp add: fresh_control_def control_inv_def missions_keyed_def tasks_keyed_def dispatches_keyed_def log_ok_def
      tenant_rows_def exceptions_sound_def exceptions_scoped_def dispatches_ok_def)

subsection \<open>What coverage depends on\<close>

lemma blocked_cong: "db_exceptions db' = db_exceptions db \<Longrightarrow> blocked db' t mid cur = blocked db t mid cur"
  by (simp add: blocked_def mission_exceptions_def)

lemma covered_mono:
  assumes "covered db t a"
    and "\<And>m. findMission db t (au_mission a) = Some m \<Longrightarrow> mission_current m a \<Longrightarrow>
      \<exists>m'. findMission db' t (au_mission a) = Some m' \<and> mission_current m' a"
    and "snapshot_current db t a \<Longrightarrow> snapshot_current db' t a"
    and "task_covered db t a \<Longrightarrow> task_covered db' t a"
    and "blocked db' t (au_mission a) (authority_snapshot a) \<Longrightarrow> blocked db t (au_mission a) (authority_snapshot a)"
  shows "covered db' t a"
  using assms by (auto simp: covered_def)

lemma task_covered_cong: "(\<And>tid. au_task a = Some tid \<Longrightarrow> findTask db' t tid = findTask db t tid) \<Longrightarrow> task_covered db' t a = task_covered db t a"
  by (simp add: task_covered_def split: option.splits)

lemma task_covered_same: "db_tasks db' = db_tasks db \<Longrightarrow> task_covered db' t a = task_covered db t a"
  by (rule task_covered_cong) (simp add: findTask_def)

lemma snapshot_current_cong: "db_snapshots db' = db_snapshots db \<Longrightarrow> snapshot_current db' t a = snapshot_current db t a"
  by (simp add: snapshot_current_def)

text \<open>The event log is invisible to everything but \<open>log_ok\<close>.\<close>

lemma events_frame [simp]:
  "missions_keyed (db\<lparr>db_events := es\<rparr>) = missions_keyed db" "tasks_keyed (db\<lparr>db_events := es\<rparr>) = tasks_keyed db"
  "dispatches_keyed (db\<lparr>db_events := es\<rparr>) = dispatches_keyed db" "exceptions_sound h (db\<lparr>db_events := es\<rparr>) = exceptions_sound h db"
  "findMission (db\<lparr>db_events := es\<rparr>) t mid = findMission db t mid" "findTask (db\<lparr>db_events := es\<rparr>) t tid = findTask db t tid"
  "exceptions_scoped (db\<lparr>db_events := es\<rparr>) = exceptions_scoped db" "covered (db\<lparr>db_events := es\<rparr>) t a = covered db t a"
  "dispatches_ok (db\<lparr>db_events := es\<rparr>) = dispatches_ok db"
  by (simp_all add: missions_keyed_def tasks_keyed_def dispatches_keyed_def exceptions_sound_def findMission_def
      findTask_def exceptions_scoped_def covered_def snapshot_current_def task_covered_def blocked_def mission_exceptions_def
      dispatches_ok_def cong: option.case_cong)

lemma event_step_frame: "event_step h i db db' \<Longrightarrow> \<exists>es. db' = db\<lparr>db_events := es\<rparr>"
  unfolding event_step_def with_event_def by (metis app_db.surjective app_db.update_convs(12))

lemma event_step_log: "event_step h i db db' \<Longrightarrow> log_ok h db \<Longrightarrow> log_ok h db'"
  by (auto simp: event_step_def intro: with_event_log_ok)

lemma event_step_inv: "event_step h i db db' \<Longrightarrow> control_inv h db \<Longrightarrow> control_inv h db'"
  using event_step_log event_step_frame by (fastforce simp: control_inv_def)

lemma log_ok_cong: "db_events db' = db_events db \<Longrightarrow> log_ok h db' = log_ok h db"
  by (simp add: log_ok_def tenant_rows_def)


subsection \<open>Missions\<close>

text \<open>Rows after a revocation: the live ones are old and outside the fence.\<close>

lemma dispatches_ok_revoked:
  assumes ok: "dispatches_ok db"
    and rows: "db_dispatches p = update_where (\<lambda>d. Q d \<and> d_state d = Authorized) (revoke_row s) (db_dispatches db)"
    and fence: "\<And>d. d \<in> set (db_dispatches db) \<Longrightarrow> Q d \<Longrightarrow> \<not> in_flight (d_state d)"
    and keep: "\<And>d. d \<in> set (db_dispatches db) \<Longrightarrow> \<not> Q d \<Longrightarrow> d_mission d = au_mission (d_authority d) \<Longrightarrow>
      covered db (d_tenant d) (d_authority d) \<Longrightarrow> covered p (d_tenant d) (d_authority d)"
  shows "dispatches_ok p"
  unfolding dispatches_ok_def
proof (intro ballI conjI impI)
  fix d assume d: "d \<in> set (db_dispatches p)"
  from set_update_where[OF d[unfolded rows]] obtain d0 where d0: "d0 \<in> set (db_dispatches db)"
    "d = revoke_row s d0 \<and> Q d0 \<or> d = d0 \<and> \<not> (Q d0 \<and> d_state d0 = Authorized)" by auto
  then show "d_mission d = au_mission (d_authority d)" using ok by (auto simp: dispatches_ok_def revoke_row_def)
  assume lv: "live (d_state d)"
  then have "d = d0" "\<not> Q d0" using d0 fence[OF d0(1)] by (auto simp: revoke_row_def live_def in_flight_def)
  with ok lv d0(1) keep show "covered p (d_tenant d) (d_authority d)" by (auto simp: dispatches_ok_def)
qed

lemma dispatches_ok_same:
  assumes ok: "dispatches_ok db" and rows: "db_dispatches p = db_dispatches db"
    and keep: "\<And>d. d \<in> set (db_dispatches db) \<Longrightarrow> d_mission d = au_mission (d_authority d) \<Longrightarrow>
      covered db (d_tenant d) (d_authority d) \<Longrightarrow> covered p (d_tenant d) (d_authority d)"
  shows "dispatches_ok p"
  using ok rows keep by (simp add: dispatches_ok_def)

lemma revoked_keyed:
  "db_dispatches p = update_where Q (revoke_row s) (db_dispatches db) \<Longrightarrow> dispatches_keyed p = dispatches_keyed db"
  by (simp add: dispatches_keyed_def map_update_where revoke_row_def)

lemma change_row_fields [simp]:
  "m_id (change_row ch m) = m_id m" "m_tenant (change_row ch m) = m_tenant m" "m_product (change_row ch m) = m_product m"
  by (cases ch; cases "case ch of VersionBound c v \<Rightarrow> c | _ \<Rightarrow> GraphVersion"; simp)+

lemma apply_change_key [simp]:
  "m_id (apply_change s ch m) = m_id m" "m_tenant (apply_change s ch m) = m_tenant m"
  "mission_key (apply_change s ch m) = mission_key m"
  by (simp_all add: apply_change_def mission_key_def)

lemma link_current: "\<not> bumps ch \<Longrightarrow> mission_current (apply_change s ch m) a = mission_current m a"
  by (cases ch) (simp_all add: apply_change_def mission_current_def)

lemma put_mission_frame [simp]:
  "db_tasks (put_mission t mid f db) = db_tasks db" "db_dependencies (put_mission t mid f db) = db_dependencies db"
  "db_exceptions (put_mission t mid f db) = db_exceptions db" "db_dispatches (put_mission t mid f db) = db_dispatches db"
  "db_events (put_mission t mid f db) = db_events db" "db_snapshots (put_mission t mid f db) = db_snapshots db"
  "findTask (put_mission t mid f db) t' tid = findTask db t' tid"
  by (simp_all add: put_mission_def findTask_def)

lemma revoke_mission_frame2 [simp]:
  "db_tasks (revoke_mission t mid s db) = db_tasks db" "db_dependencies (revoke_mission t mid s db) = db_dependencies db"
  "db_exceptions (revoke_mission t mid s db) = db_exceptions db" "db_snapshots (revoke_mission t mid s db) = db_snapshots db"
  "findTask (revoke_mission t mid s db) t' tid = findTask db t' tid"
  by (simp_all add: revoke_mission_def findTask_def)

lemma put_mission_keyed: "(\<And>m. m_id (f m) = m_id m) \<Longrightarrow> missions_keyed (put_mission t mid f db) = missions_keyed db"
  by (simp add: missions_keyed_def put_mission_def map_update_where)

lemma revoke_mission_ids: "dispatches_keyed (revoke_mission t mid s db) = dispatches_keyed db"
  by (simp add: dispatches_keyed_def revoke_mission_def map_update_where revoke_row_def)

lemma mission_write_inv:
  assumes inv: "control_inv h db" and w: "mission_write h c mid ch db db'"
  shows "control_inv h db'"
proof -
  let ?t = "c_tenant c" and ?f = "apply_change (c_createdAt c) ch"
  let ?b = "if bumps ch then revoke_mission ?t mid (c_createdAt c) db else db" let ?p = "put_mission ?t mid ?f ?b"
  let ?Q = "\<lambda>d. bumps ch \<and> of_mission ?t mid d"
  from w obtain cur i where cur: "findMission db ?t mid = Some cur" and fence: "bumps ch \<longrightarrow> fenced db ?t mid"
    and ev: "event_step h i ?p db'"
    by (auto simp: mission_write_def)
  have find: "findMission ?p t mid' = (if t = ?t \<and> mid' = mid then Some (?f cur) else findMission db t mid')" for t mid'
    using cur by (auto simp: findMission_put)
  have rows: "db_dispatches ?p = update_where (\<lambda>d. ?Q d \<and> d_state d = Authorized) (revoke_row (c_createdAt c)) (db_dispatches db)"
    by (simp add: revoke_mission_def update_where_def)
  have same: "db_tasks ?p = db_tasks db" "db_exceptions ?p = db_exceptions db" "db_snapshots ?p = db_snapshots db"
    "db_events ?p = db_events db" "missions_keyed ?p = missions_keyed db"
    by (simp_all add: put_mission_keyed)
  have "dispatches_ok ?p"
  proof (rule dispatches_ok_revoked[OF control_invD(7)[OF inv] rows])
    show "\<not> in_flight (d_state d)" if "d \<in> set (db_dispatches db)" "?Q d" for d
      using that fence by (simp add: fenced_def)
    fix d assume d: "\<not> ?Q d" "d_mission d = au_mission (d_authority d)"
    assume "covered db (d_tenant d) (d_authority d)"
    then show "covered ?p (d_tenant d) (d_authority d)"
    proof (rule covered_mono)
      fix m assume m: "findMission db (d_tenant d) (au_mission (d_authority d)) = Some m" "mission_current m (d_authority d)"
      show "\<exists>m'. findMission ?p (d_tenant d) (au_mission (d_authority d)) = Some m' \<and> mission_current m' (d_authority d)"
        using m d cur link_current by (auto simp: find of_mission_def)
    qed (simp_all only: snapshot_current_cong[OF same(3)] blocked_cong[OF same(2)] task_covered_same[OF same(1)])
  qed
  moreover have "exceptions_scoped ?p" using control_invD(6)[OF inv] by (auto simp: exceptions_scoped_def same(2) find)
  ultimately have "control_inv h ?p"
    using inv same revoked_keyed[OF rows]
    by (simp add: control_inv_def tasks_keyed_def exceptions_sound_def log_ok_cong[OF same(4)])
  then show ?thesis using event_step_inv[OF ev] by simp
qed

lemma mission_insert_inv:
  assumes inv: "control_inv h db" and w: "mission_insert h c m payload db db'"
  shows "control_inv h db'"
proof -
  let ?p = "db\<lparr>db_missions := db_missions db @ [m]\<rparr>"
  from w obtain i where fresh: "m_id m \<notin> m_id ` set (db_missions db)" and ev: "event_step h i ?p db'"
    by (auto simp: mission_insert_def)
  have find: "findMission db t mid = Some m' \<Longrightarrow> findMission ?p t mid = Some m'" for t mid m'
    by (simp add: findMission_def find_append_fresh)
  have same: "db_exceptions ?p = db_exceptions db" "db_snapshots ?p = db_snapshots db" "db_events ?p = db_events db"
    "db_tasks ?p = db_tasks db" by simp_all
  have "covered ?p t a" if "covered db t a" for t a
    using that by (rule covered_mono)
      (blast intro: find, simp_all only: snapshot_current_cong[OF same(2)] task_covered_same[OF same(4)] blocked_cong[OF same(1)])
  then have "dispatches_ok ?p" by (intro dispatches_ok_same[OF control_invD(7)[OF inv]]) simp_all
  moreover have "exceptions_scoped ?p" unfolding exceptions_scoped_def same(1)
  proof
    fix x assume "x \<in> set (db_exceptions db)"
    then obtain m' where "findMission db (x_tenant x) (x_mission x) = Some m'"
      using control_invD(6)[OF inv] by (auto simp: exceptions_scoped_def)
    from find[OF this] show "findMission ?p (x_tenant x) (x_mission x) \<noteq> None" by simp
  qed
  moreover have "missions_keyed ?p" using control_invD(1)[OF inv] fresh by (simp add: missions_keyed_def)
  ultimately have "control_inv h ?p"
    using inv by (simp add: control_inv_def tasks_keyed_def dispatches_keyed_def exceptions_sound_def log_ok_cong[OF same(3)])
  then show ?thesis using event_step_inv[OF ev] by simp
qed


subsection \<open>Tasks and dependencies\<close>

lemma scoped_cong: "db_exceptions p = db_exceptions db \<Longrightarrow> db_missions p = db_missions db \<Longrightarrow> exceptions_scoped p = exceptions_scoped db"
  by (simp add: exceptions_scoped_def findMission_def)

lemma findMission_cong: "db_missions p = db_missions db \<Longrightarrow> findMission p t mid = findMission db t mid"
  by (simp add: findMission_def)

text \<open>A database that differs in tasks, in rows revoked for them, and in dependencies.\<close>

lemma task_change_inv:
  assumes inv: "control_inv h db"
    and same: "db_missions p = db_missions db" "db_exceptions p = db_exceptions db" "db_snapshots p = db_snapshots db"
      "db_events p = db_events db"
    and rows: "db_dispatches p = update_where (\<lambda>d. Q d \<and> d_state d = Authorized) (revoke_row s) (db_dispatches db)"
    and fence: "\<And>d. d \<in> set (db_dispatches db) \<Longrightarrow> Q d \<Longrightarrow> \<not> in_flight (d_state d)"
    and keyed: "tasks_keyed p"
    and keep: "\<And>d. d \<in> set (db_dispatches db) \<Longrightarrow> \<not> Q d \<Longrightarrow> d_mission d = au_mission (d_authority d) \<Longrightarrow>
      task_covered db (d_tenant d) (d_authority d) \<Longrightarrow> task_covered p (d_tenant d) (d_authority d)"
  shows "control_inv h p"
proof -
  have "dispatches_ok p"
  proof (rule dispatches_ok_revoked[OF control_invD(7)[OF inv] rows fence])
    fix d assume d: "d \<in> set (db_dispatches db)" "\<not> Q d" "d_mission d = au_mission (d_authority d)"
    assume "covered db (d_tenant d) (d_authority d)"
    then show "covered p (d_tenant d) (d_authority d)"
      by (rule covered_mono)
        (use keep[OF d] in \<open>simp_all only: findMission_cong[OF same(1)] snapshot_current_cong[OF same(3)] blocked_cong[OF same(2)]\<close>, blast)
  qed
  then show ?thesis using inv same keyed revoked_keyed[OF rows]
    by (simp add: control_inv_def missions_keyed_def exceptions_sound_def log_ok_cong[OF same(4)] scoped_cong[OF same(2,1)])
qed

lemma revoke_task_tables [simp]:
  "db_missions (revoke_task t mid tid s db) = db_missions db" "db_exceptions (revoke_task t mid tid s db) = db_exceptions db"
  "db_snapshots (revoke_task t mid tid s db) = db_snapshots db" "db_dependencies (revoke_task t mid tid s db) = db_dependencies db"
  by (simp_all add: revoke_task_def)

lemma put_task_tables [simp]:
  "db_missions (put_task t tid f db) = db_missions db" "db_exceptions (put_task t tid f db) = db_exceptions db"
  "db_snapshots (put_task t tid f db) = db_snapshots db" "db_dependencies (put_task t tid f db) = db_dependencies db"
  "db_dispatches (put_task t tid f db) = db_dispatches db" "db_events (put_task t tid f db) = db_events db"
  by (simp_all add: put_task_def)

lemma put_task_keyed: "(\<And>t. t_id (f t) = t_id t) \<Longrightarrow> tasks_keyed (put_task tn tid f db) = tasks_keyed db"
  by (simp add: tasks_keyed_def put_task_def map_update_where)

lemma revoke_task_rows: "db_dispatches (revoke_task t mid tid s db) =
    update_where (\<lambda>d. of_task t mid tid d \<and> d_state d = Authorized) (revoke_row s) (db_dispatches db)"
  by (simp add: revoke_task_def)

text \<open>A covered authority of a task belongs to the mission of that task.\<close>

lemma task_covered_mission:
  "task_covered db t a \<Longrightarrow> au_task a = Some tid \<Longrightarrow> \<exists>task. findTask db t tid = Some task \<and> t_mission task = au_mission a"
  by (auto simp: task_covered_def task_matches_def exact_task_def claimed_task_def settled_task_def split: option.splits)

lemma put_task_covered:
  assumes cur: "findTask db t tid = Some cur" and key: "\<And>t. task_key (f t) = task_key t"
    and away: "\<not> of_task t (t_mission cur) (Some tid) d" and m: "d_mission d = au_mission (d_authority d)"
    and cov: "task_covered db (d_tenant d) (d_authority d)"
  shows "task_covered (put_task t tid f db') (d_tenant d) (d_authority d) \<longleftrightarrow> task_covered db' (d_tenant d) (d_authority d)"
proof (rule task_covered_cong)
  fix tid' assume tid': "au_task (d_authority d) = Some tid'"
  have "\<not> (d_tenant d = t \<and> tid' = tid)"
    using away m task_covered_mission[OF cov tid'] tid' cur by (auto simp: of_task_def)
  then show "findTask (put_task t tid f db') (d_tenant d) tid' = findTask db' (d_tenant d) tid'"
    using findTask_put[of f t tid db' "d_tenant d" tid'] key by auto
qed

lemma task_insert_inv:
  assumes inv: "control_inv h db" and w: "task_insert h c t payload db db'"
  shows "control_inv h db'"
proof -
  let ?p = "(revoke_task (t_tenant t) (t_mission t) None (c_createdAt c) db)\<lparr>db_tasks := db_tasks db @ [t]\<rparr>"
  let ?Q = "of_task (t_tenant t) (t_mission t) None"
  from w obtain i where fresh: "t_id t \<notin> t_id ` set (db_tasks db)" and fence: "task_fenced db (t_tenant t) (t_mission t) None"
    and ev: "event_step h i ?p db'"
    by (auto simp: task_insert_def Let_def)
  have "control_inv h ?p"
  proof (rule task_change_inv[OF inv, of _ ?Q "c_createdAt c"])
    show "db_dispatches ?p = update_where (\<lambda>d. ?Q d \<and> d_state d = Authorized) (revoke_row (c_createdAt c)) (db_dispatches db)"
      by (simp add: revoke_task_rows)
    show "\<not> in_flight (d_state d)" if "d \<in> set (db_dispatches db)" "?Q d" for d
      using that fence by (simp add: task_fenced_def)
    show "tasks_keyed ?p" using control_invD(2)[OF inv] fresh by (simp add: tasks_keyed_def)
    fix d assume "task_covered db (d_tenant d) (d_authority d)"
    then show "task_covered ?p (d_tenant d) (d_authority d)"
      by (auto simp: task_covered_def task_matches_def findTask_def find_append_fresh split: option.splits)
  qed simp_all
  then show ?thesis using event_step_inv[OF ev] by simp
qed

lemma task_write_inv:
  assumes inv: "control_inv h db" and w: "task_write h c tid to assignee handoff db db'"
  shows "control_inv h db'"
proof -
  from w obtain cur i where cur: "findTask db (c_tenant c) tid = Some cur"
    and fence: "task_fenced db (c_tenant c) (t_mission cur) (Some tid)"
    and ev: "event_step h i (put_task (c_tenant c) tid (transition_task c cur to assignee handoff)
          (revoke_task (c_tenant c) (t_mission cur) (Some tid) (c_createdAt c) db)) db'"
    by (auto simp: task_write_def)
  let ?r = "revoke_task (c_tenant c) (t_mission cur) (Some tid) (c_createdAt c) db"
  let ?p = "put_task (c_tenant c) tid (transition_task c cur to assignee handoff) ?r"
  let ?Q = "of_task (c_tenant c) (t_mission cur) (Some tid)"
  have key: "task_key (transition_task c cur to assignee handoff t) = task_key t" for t
    by (simp add: task_key_def transition_task_def)
  have "control_inv h ?p"
  proof (rule task_change_inv[OF inv, of _ ?Q "c_createdAt c"])
    show "db_dispatches ?p = update_where (\<lambda>d. ?Q d \<and> d_state d = Authorized) (revoke_row (c_createdAt c)) (db_dispatches db)"
      by (simp add: revoke_task_rows)
    show "\<not> in_flight (d_state d)" if "d \<in> set (db_dispatches db)" "?Q d" for d
      using that fence by (simp add: task_fenced_def)
    show "tasks_keyed ?p" using control_invD(2)[OF inv] by (simp add: put_task_keyed transition_task_def)
    fix d assume d: "\<not> ?Q d" "d_mission d = au_mission (d_authority d)" "task_covered db (d_tenant d) (d_authority d)"
    from d(3) show "task_covered ?p (d_tenant d) (d_authority d)"
      by (simp only: put_task_covered[OF cur key d] task_covered_same[OF revoke_task_frame(1)])
  qed simp_all
  then show ?thesis using event_step_inv[OF ev] by simp
qed

lemma dependency_insert_inv:
  assumes inv: "control_inv h db" and w: "dependency_insert i db db'"
  shows "control_inv h db'"
proof -
  from w obtain cur where cur: "findTask db (di_tenant i) (di_task i) = Some cur" "t_mission cur = di_mission i"
    and fence: "task_fenced db (di_tenant i) (di_mission i) (Some (di_task i))"
    and db': "db' = (put_task (di_tenant i) (di_task i) (bump_task (di_createdAt i))
        (revoke_task (di_tenant i) (di_mission i) (Some (di_task i)) (di_createdAt i) db))
        \<lparr>db_dependencies := db_dependencies db @ [dependency_row i]\<rparr>"
    by (auto simp: dependency_insert_def)
  let ?r = "revoke_task (di_tenant i) (di_mission i) (Some (di_task i)) (di_createdAt i) db"
  let ?q = "put_task (di_tenant i) (di_task i) (bump_task (di_createdAt i)) ?r"
  let ?Q = "of_task (di_tenant i) (di_mission i) (Some (di_task i))"
  have key: "task_key (bump_task (di_createdAt i) t) = task_key t" for t
    by (simp add: task_key_def bump_task_def)
  have away: "\<not> ?Q d \<Longrightarrow> \<not> of_task (di_tenant i) (t_mission cur) (Some (di_task i)) d" for d by (simp add: cur(2))
  show ?thesis
  proof (rule task_change_inv[OF inv, of _ ?Q "di_createdAt i"])
    show "db_dispatches db' = update_where (\<lambda>d. ?Q d \<and> d_state d = Authorized) (revoke_row (di_createdAt i)) (db_dispatches db)"
      by (simp add: revoke_task_rows db')
    show "\<not> in_flight (d_state d)" if "d \<in> set (db_dispatches db)" "?Q d" for d
      using that fence by (simp add: task_fenced_def)
    have "tasks_keyed ?q" using control_invD(2)[OF inv] by (simp add: put_task_keyed bump_task_def)
    then show "tasks_keyed db'" by (simp add: db' tasks_keyed_def)
    fix d assume d: "\<not> ?Q d" "d_mission d = au_mission (d_authority d)" "task_covered db (d_tenant d) (d_authority d)"
    have "task_covered ?q (d_tenant d) (d_authority d)"
      using d(3) by (simp only: put_task_covered[OF cur(1) key away[OF d(1)] d(2,3)] task_covered_same[OF revoke_task_frame(1)])
    then show "task_covered db' (d_tenant d) (d_authority d)"
      using task_covered_same[of db' ?q] by (simp add: db')
  qed (simp_all add: db')
qed

subsection \<open>Exceptions\<close>

lemma find_filter: "List.find P xs = (case filter P xs of [] \<Rightarrow> None | x # _ \<Rightarrow> Some x)"
  by (induction xs) auto

lemma supersededBy_insert:
  assumes "x_supersedes new \<noteq> Some xid"
  shows "supersededBy (sort_key f (sort_key g (xs @ [new]))) xid = supersededBy (sort_key f (sort_key g xs)) xid"
proof -
  let ?P = "\<lambda>x. truthy (x_supersedes x) \<and> x_supersedes x = Some xid"
  have "filter ?P (rev (sort_key f (sort_key g (xs @ [new])))) = filter ?P (rev (sort_key f (sort_key g xs)))"
    using assms by (simp add: filter_sort flip: rev_filter)
  then show ?thesis by (simp add: supersededBy_def find_filter)
qed

lemma supersededBy_None:
  assumes "\<And>y. y \<in> set rows \<Longrightarrow> x_supersedes y \<noteq> Some xid"
  shows "supersededBy rows xid = None"
proof -
  have "List.find (\<lambda>x. truthy (x_supersedes x) \<and> x_supersedes x = Some xid) (rev rows) = None"
    using assms by (auto simp: find_None_iff)
  then show ?thesis by (simp add: supersededBy_def)
qed

text \<open>A row that is not a blocking open exception blocks nothing new.\<close>

lemma blocked_insert:
  assumes b: "blocked (db\<lparr>db_exceptions := db_exceptions db @ [x]\<rparr>) t mid cur"
    and nb: "\<not> (x_status x = Open \<and> x_blocking x) \<or> \<not> (x_tenant x = t \<and> x_mission x = mid)"
    and free: "\<forall>p. x_supersedes x = Some p \<longrightarrow> (\<forall>y \<in> set (db_exceptions db). \<not> (x_tenant y = x_tenant x \<and> x_supersedes y = Some p))"
  shows "blocked db t mid cur"
proof (cases "x_tenant x = t \<and> x_mission x = mid")
  case False
  then have "mission_exceptions (db\<lparr>db_exceptions := db_exceptions db @ [x]\<rparr>) t mid = mission_exceptions db t mid"
    by (auto simp: mission_exceptions_def)
  with b show ?thesis by (simp add: blocked_def)
next
  case True
  let ?xs = "filter (\<lambda>x. x_tenant x = t \<and> x_mission x = mid) (db_exceptions db)"
  let ?rows = "mission_exceptions db t mid" and ?rows' = "mission_exceptions (db\<lparr>db_exceptions := db_exceptions db @ [x]\<rparr>) t mid"
  have rows: "?rows = sort_key x_createdAt (sort_key x_id ?xs)" "?rows' = sort_key x_createdAt (sort_key x_id (?xs @ [x]))"
    using True by (simp_all add: mission_exceptions_def)
  from b obtain y where y: "y \<in> set ?rows'" "\<not> truthy (supersededBy ?rows' (x_id y))" "standingOf y cur = Blocking"
    by (auto simp: blocked_def Let_def)
  have "y \<noteq> x" using y(3) nb True by (auto simp: standingOf_def split: exception_status.splits if_splits)
  with y(1) have old: "y \<in> set ?rows" by (simp add: rows)
  moreover have "\<not> truthy (supersededBy ?rows (x_id y))"
  proof (cases "x_supersedes x = Some (x_id y)")
    case True
    then have "supersededBy ?rows (x_id y) = None"
      using free \<open>x_tenant x = t \<and> x_mission x = mid\<close> by (intro supersededBy_None) (auto simp: rows)
    then show ?thesis by (simp add: truthy_def)
  next
    case False
    show ?thesis using y(2) unfolding rows supersededBy_insert[OF False] .
  qed
  ultimately show ?thesis using y(3) by (auto simp: blocked_def Let_def)
qed


lemma digest_body_cong [simp]:
  "exceptionDigestBody (x\<lparr>x_id := i, x_digest := d, x_task := t, x_category := k\<rparr>) = exceptionDigestBody x"
  by (simp add: exceptionDigestBody_def)

lemma exception_write_inv:
  assumes inv: "control_inv h db" and w: "exception_write h c ty x db db'"
  shows "control_inv h db'"
proof -
  let ?t = "x_tenant x" and ?mid = "x_mission x"
  let ?g = "x_status x = Open \<and> x_blocking x"
  let ?b = "if ?g then revoke_mission ?t ?mid (c_createdAt c) db else db"
  let ?Q = "\<lambda>d. ?g \<and> of_mission ?t ?mid d"
  from w have scope: "findMission db ?t ?mid \<noteq> None"
    and free: "\<forall>p. x_supersedes x = Some p \<longrightarrow> (\<forall>y \<in> set (db_exceptions db). \<not> (x_tenant y = ?t \<and> x_supersedes y = Some p))"
    and fence: "?g \<longrightarrow> fenced db ?t ?mid" and res: "db' = ?b \<or> exception_insert h c ty x ?b db'"
    unfolding exception_write_def Let_def by blast+
  have rows: "db_dispatches ?b = update_where (\<lambda>d. ?Q d \<and> d_state d = Authorized) (revoke_row (c_createdAt c)) (db_dispatches db)"
    by (cases ?g) (auto simp: revoke_mission_def update_where_def intro!: map_idI[symmetric])
  have same: "db_missions ?b = db_missions db" "db_tasks ?b = db_tasks db" "db_exceptions ?b = db_exceptions db"
    "db_snapshots ?b = db_snapshots db" "db_events ?b = db_events db" by simp_all
  have fence': "\<not> in_flight (d_state d)" if "d \<in> set (db_dispatches db)" "?Q d" for d
    using that fence by (simp add: fenced_def)
  have base: "control_inv h ?b"
  proof -
    have "dispatches_ok ?b"
    proof (rule dispatches_ok_revoked[OF control_invD(7)[OF inv] rows fence'])
      fix d assume "covered db (d_tenant d) (d_authority d)"
      then show "covered ?b (d_tenant d) (d_authority d)"
        by (simp add: covered_def findMission_cong[OF same(1)] snapshot_current_cong[OF same(4)] task_covered_same[OF same(2)]
            blocked_cong[OF same(3)])
    qed
    then show ?thesis using inv revoked_keyed[OF rows]
      by (simp add: control_inv_def missions_keyed_def tasks_keyed_def exceptions_sound_def same log_ok_cong[OF same(5)]
          scoped_cong[OF same(3,1)])
  qed
  from res show ?thesis
  proof
    assume "exception_insert h c ty x ?b db'"
    then obtain row i task category where fresh: "contentDigest h (exceptionDigestBody x) \<notin> x_id ` set (db_exceptions db)"
      and row: "row = x\<lparr>x_id := contentDigest h (exceptionDigestBody x), x_digest := contentDigest h (exceptionDigestBody x),
        x_task := task, x_category := category\<rparr>"
      and ev: "event_step h i (?b\<lparr>db_exceptions := db_exceptions ?b @ [row]\<rparr>) db'"
      unfolding exception_insert_def same(3) by blast
    let ?p = "?b\<lparr>db_exceptions := db_exceptions ?b @ [row]\<rparr>"
    have fields: "x_tenant row = ?t" "x_mission row = ?mid" "x_status row = x_status x" "x_blocking row = x_blocking x"
      "x_supersedes row = x_supersedes x" by (simp_all add: row)
    have same': "db_missions ?p = db_missions ?b" "db_tasks ?p = db_tasks ?b" "db_snapshots ?p = db_snapshots ?b"
      "db_events ?p = db_events ?b" "db_dispatches ?p = db_dispatches ?b" "db_exceptions ?p = db_exceptions ?b @ [row]" by simp_all
    have free': "\<forall>p. x_supersedes row = Some p \<longrightarrow> (\<forall>y \<in> set (db_exceptions ?b). \<not> (x_tenant y = x_tenant row \<and> x_supersedes y = Some p))"
      using free by (simp add: fields same(3))
    have "dispatches_ok ?p" unfolding dispatches_ok_def same'(5)
    proof (intro ballI conjI impI)
      fix d assume d: "d \<in> set (db_dispatches ?b)"
      show "d_mission d = au_mission (d_authority d)" using d control_invD(7)[OF base] by (simp only: dispatches_ok_def)
      assume lv: "live (d_state d)"
      have out: "\<not> (?g \<and> of_mission ?t ?mid d)"
      proof
        assume g: "?g \<and> of_mission ?t ?mid d"
        from set_update_where[OF d[unfolded rows]] lv fence' g show False
          by (auto simp: revoke_row_def live_def in_flight_def of_mission_def)
      qed
      have "covered ?b (d_tenant d) (d_authority d)" using d lv control_invD(7)[OF base] by (simp only: dispatches_ok_def)
      moreover have "blocked ?b (d_tenant d) (au_mission (d_authority d)) (authority_snapshot (d_authority d))"
        if "blocked ?p (d_tenant d) (au_mission (d_authority d)) (authority_snapshot (d_authority d))"
        using blocked_insert[OF that _ free'] out \<open>d_mission d = au_mission (d_authority d)\<close>
        by (auto simp: fields of_mission_def)
      ultimately show "covered ?p (d_tenant d) (d_authority d)"
        unfolding covered_def findMission_cong[OF same'(1)] snapshot_current_cong[OF same'(3)] task_covered_same[OF same'(2)] by blast
    qed
    moreover have "exceptions_scoped ?p"
      using control_invD(6)[OF base] scope unfolding exceptions_scoped_def findMission_cong[OF same'(1)] same'(6)
      by (simp add: fields findMission_cong[OF same(1)])
    moreover have "exceptions_sound h ?p"
      using control_invD(5)[OF base] unfolding exceptions_sound_def same'(6) by (simp add: row)
    ultimately have "control_inv h ?p" using base
      by (simp only: control_inv_def missions_keyed_def tasks_keyed_def dispatches_keyed_def same' log_ok_cong[OF same'(4)])
    then show ?thesis using event_step_inv[OF ev] by simp
  qed (use base in simp)
qed

subsection \<open>Dispatches and the environment\<close>

lemma dispatch_write_inv:
  assumes inv: "control_inv h db" and w: "dispatch_write db db'"
  shows "control_inv h db'"
proof -
  from w obtain rows new where db': "db' = db\<lparr>db_dispatches := rows @ new\<rparr>"
    and all2: "list_all2 (\<lambda>d d'. dispatch_move d d' \<and> (live (d_state d') \<longrightarrow> live (d_state d) \<or> covered db (d_tenant d) (d_authority d)))
       (db_dispatches db) rows"
    and new: "new = [] \<or> (\<exists>d. new = [d] \<and> d_state d = Authorized \<and> d_mission d = au_mission (d_authority d) \<and>
        d_id d \<notin> d_id ` set (db_dispatches db) \<and> covered db (d_tenant d) (d_authority d))"
    by (auto simp: dispatch_write_def)
  have cov: "covered db' t a = covered db t a" for t a
    by (simp add: db' covered_def findMission_def snapshot_current_def task_covered_def findTask_def blocked_def
        mission_exceptions_def cong: option.case_cong)
  have ids: "map d_id rows = map d_id (db_dispatches db)"
    using all2 by (simp add: list_all2_conv_all_nth dispatch_move_def same_intent_def list_eq_iff_nth_eq)
  have old: "d_mission d' = au_mission (d_authority d') \<and> (live (d_state d') \<longrightarrow> covered db (d_tenant d') (d_authority d'))"
    if "d' \<in> set rows" for d'
  proof -
    from that obtain d where "d \<in> set (db_dispatches db)" "same_intent d d'"
      "live (d_state d') \<longrightarrow> live (d_state d) \<or> covered db (d_tenant d) (d_authority d)"
      using all2 by (auto simp: in_set_conv_nth list_all2_conv_all_nth dispatch_move_def) metis
    with control_invD(7)[OF inv] show ?thesis by (auto simp: dispatches_ok_def same_intent_def)
  qed
  have "dispatches_ok db'"
    unfolding dispatches_ok_def cov using old new by (auto simp: db')
  moreover have "dispatches_keyed db'"
  proof -
    have "set (map d_id rows) = d_id ` set (db_dispatches db)" by (simp only: ids set_map)
    with new control_invD(3)[OF inv] show ?thesis
      by (auto simp: dispatches_keyed_def db' ids simp flip: set_map)
  qed
  ultimately show ?thesis using inv
    by (simp add: control_inv_def db' missions_keyed_def tasks_keyed_def log_ok_def tenant_rows_def exceptions_sound_def
        exceptions_scoped_def findMission_def)
qed

lemma environment_inv:
  assumes inv: "control_inv h db"
  shows "control_inv h (exec h (Environment ps js rs ss cs es) db)"
proof -
  let ?p = "exec h (Environment ps js rs ss cs es) db"
  have "covered ?p t a" if "covered db t a" for t a
  proof -
    have "snapshot_current ?p t a" if "snapshot_current db t a" using that
      by (auto simp: snapshot_current_def split: option.splits)
        (simp add: find_filter split: list.splits)+
    moreover have "task_covered ?p t a = task_covered db t a" by (rule task_covered_same) simp
    moreover have "blocked ?p t m s = blocked db t m s" for m s by (rule blocked_cong) simp
    moreover have "findMission ?p t m = findMission db t m" for m by (rule findMission_cong) simp
    ultimately show ?thesis using that by (auto simp: covered_def)
  qed
  then have "dispatches_ok ?p" using control_invD(7)[OF inv] by (auto simp: dispatches_ok_def)
  then show ?thesis using inv
    by (simp add: control_inv_def missions_keyed_def tasks_keyed_def dispatches_keyed_def log_ok_def tenant_rows_def
        exceptions_sound_def exceptions_scoped_def findMission_def)
qed


section \<open>The abstract machine\<close>

text \<open>The steps the system is made of. Every command is a sequence of at most three steps of the tables
  or one step of the dispatch table.\<close>

inductive table_step :: "host \<Rightarrow> app_db \<Rightarrow> app_db \<Rightarrow> bool" for h where
  mission_new: "mission_insert h c m payload db db' \<Longrightarrow> m_revision m = 1 \<Longrightarrow> m_tenant m = c_tenant c \<Longrightarrow>
     m_fettler m = None \<Longrightarrow> m_regauge m = None \<Longrightarrow> m_state m = MCreated \<Longrightarrow> m_graphVersion m = None \<Longrightarrow> m_policyVersion m = None \<Longrightarrow>
     product_of p = Some (m_product m) \<Longrightarrow> trigger_of k = Some (m_trigger m) \<Longrightarrow> payload = created_payload p k \<Longrightarrow>
     table_step h db db'"
| mission_change: "mission_write h c mid ch db db' \<Longrightarrow> table_step h db db'"
| task_new: "task_insert h c t payload db db' \<Longrightarrow> t_status t = TUnassigned \<Longrightarrow> t_retries t = 0 \<Longrightarrow> t_revision t = 1 \<Longrightarrow> table_step h db db'"
| task_change: "task_write h c tid to p r db db' \<Longrightarrow> table_step h db db'"
| dependency_new: "dependency_insert i db db' \<Longrightarrow> table_step h db db'"
| exception_change: "exception_write h c ty x db db' \<Longrightarrow> ty \<noteq> ''mission.created'' \<Longrightarrow> (\<And>ch. ty \<noteq> change_type ch) \<Longrightarrow> table_step h db db'"
| environment: "table_step h db (db\<lparr>db_principals := ps, db_jobs := js, db_repositories := db_repositories db @ rs,
     db_snapshots := db_snapshots db @ ss, db_campaigns := db_campaigns db @ cs, db_envelopes := db_envelopes db @ es\<rparr>)"

abbreviation table_steps :: "host \<Rightarrow> app_db \<Rightarrow> app_db \<Rightarrow> bool" where
  "table_steps h \<equiv> rtranclp (table_step h)"

definition control_step :: "host \<Rightarrow> app_db \<Rightarrow> app_db \<Rightarrow> bool" where
  "control_step h db db' \<longleftrightarrow> table_step h db db' \<or> dispatch_write db db'"

abbreviation control_steps :: "host \<Rightarrow> app_db \<Rightarrow> app_db \<Rightarrow> bool" where
  "control_steps h \<equiv> rtranclp (control_step h)"

lemma table_step_inv: "table_step h db db' \<Longrightarrow> control_inv h db \<Longrightarrow> control_inv h db'"
  by (induction rule: table_step.induct)
    (auto intro: mission_insert_inv mission_write_inv task_insert_inv task_write_inv dependency_insert_inv exception_write_inv
      environment_inv[simplified])

lemma table_steps_inv: "table_steps h db db' \<Longrightarrow> control_inv h db \<Longrightarrow> control_inv h db'"
  by (induction rule: rtranclp_induct) (auto intro: table_step_inv)

lemma control_step_inv: "control_step h db db' \<Longrightarrow> control_inv h db \<Longrightarrow> control_inv h db'"
  by (auto simp: control_step_def intro: table_step_inv dispatch_write_inv)

lemma control_steps_inv: "control_steps h db db' \<Longrightarrow> control_inv h db \<Longrightarrow> control_inv h db'"
  by (induction rule: rtranclp_induct) (auto intro: control_step_inv)

lemma table_steps_control: "table_steps h db db' \<Longrightarrow> control_steps h db db'"
  by (rule rtranclp_mono[THEN predicate2D]) (auto simp: control_step_def)

subsection \<open>Every command is a sequence of steps\<close>

lemma steps1: "table_step h db db' \<Longrightarrow> table_steps h db db'"
  by (rule r_into_rtranclp)

lemma op_result_steps: "op_result h c mid ch db v db' \<Longrightarrow> table_steps h db db'"
  by (auto simp: op_result_def intro: steps1 mission_change)

lemma createMission_steps:
  assumes "createMission h c i db = Inr (v, db')"
  shows "table_steps h db db'"
  using createMissionD[OF assms]
proof (elim disjE exE conjE)
  fix p k assume "product_of (ci_product i) = Some p" "trigger_of (ci_trigger i) = Some k"
    and "mission_insert h c (new_mission c i p k (trim (ci_objective i))) (created_payload (ci_product i) (ci_trigger i)) db db'"
  then show ?thesis by (intro steps1) (rule mission_new, auto simp: new_mission_def)
qed simp

lemma createMissionTask_steps:
  assumes "control_inv h db" and "createMissionTask h c i db = Inr (v, db')"
  shows "table_steps h db db'"
  using createMissionTaskD(2)[OF control_invD(3)[OF assms(1)] assms(2)]
proof (elim disjE exE conjE)
  fix r payload assume "task_insert h c (new_task c i (trim (ti_acceptance i)) r) payload db db'"
  then show ?thesis by (intro steps1) (rule task_new, auto simp: new_task_def)
qed simp

lemma transitionMissionTask_steps:
  assumes "control_inv h db" and "transitionMissionTask h c tid e to p r db = Inr (v, db')"
  shows "table_steps h db db'"
  using transitionMissionTaskD(2)[OF control_invD(2,3)[OF assms(1)] assms(2)] by (auto intro: steps1 task_change)

lemma advance_job_task_steps:
  "control_inv h (snd td) \<Longrightarrow> advance_job_task h c i from to td = Inr td' \<Longrightarrow> table_steps h (snd td) (snd td')"
  by (cases td') (auto simp: advance_job_task_def split: if_splits intro: transitionMissionTask_steps)

lemma ensureMissionTaskForJob_steps:
  assumes inv: "control_inv h db" and op: "ensureMissionTaskForJob h c i db = Inr (v, db')"
  shows "table_steps h db db'"
proof -
  from op obtain td1 td2 where
    1: "(case getMissionTask db (c_tenant c) (missionTaskIdForJob h (ji_job i)) of
         None \<Rightarrow> createMissionTask h (jobTaskCall h c i ''created'')
           \<lparr>ti_id = missionTaskIdForJob h (ji_job i), ti_mission = ji_mission i, ti_type = ji_type i,
            ti_acceptance = ji_acceptance i, ti_risk = ji_risk i\<rparr> db
       | Some t \<Rightarrow> ensure (t_mission t = ji_mission i) ''mission_task_job_mission_mismatch'' (Inr (t, db))) = Inr td1"
    and 2: "advance_job_task h c i TUnassigned TAgentAssigned td1 = Inr td2"
    and 3: "advance_job_task h c i TAgentAssigned TAgentWorking td2 = Inr (v, db')"
    by (auto simp: ensureMissionTaskForJob_def bindR_eq_Inr Let_def)
  have s1: "table_steps h db (snd td1)"
    using 1 inv createMissionTask_steps by (cases td1) (auto simp: ensure_eq_Inr split: option.splits)
  have s2: "table_steps h (snd td1) (snd td2)" by (rule advance_job_task_steps[OF table_steps_inv[OF s1 inv] 2])
  have i2: "control_inv h (snd td2)" by (rule table_steps_inv[OF s2 table_steps_inv[OF s1 inv]])
  from advance_job_task_steps[OF i2 3] have "table_steps h (snd td2) db'" by simp
  with s1 s2 show ?thesis by (meson rtranclp_trans)
qed

lemma completeTask_steps:
  assumes "control_inv h db" and "completeMissionMutationAuthorityTask h t a k s db = Inr (v, db')"
  shows "table_steps h db db'"
  using assms(2) transitionMissionTask_steps[OF assms(1)]
  by (auto simp: completeMissionMutationAuthorityTask_def bindR_eq_Inr ensure_eq_Inr option_throw_eq_Inr Let_def split: if_splits)

text \<open>The events of the exception records: none of them changes a mission row.\<close>

lemma exception_types:
  "change_type ch \<notin> {''mission.exception_raised'', ''mission.exception_resolved'', ''mission.exception_withdrawn'',
     ''mission.exception_reaffirmed''}"
  by (cases ch rule: change_type.cases; simp)

lemma exception_step:
  assumes "exception_write h c ty x db db'"
    and "ty \<in> {''mission.exception_raised'', ''mission.exception_resolved'', ''mission.exception_withdrawn'',
      ''mission.exception_reaffirmed''}"
  shows "table_steps h db db'"
  using assms by (intro steps1) (rule exception_change, auto simp: exception_types[simplified])

lemma transitionException_steps:
  assumes "control_inv h db" and "transitionException h c t db = Inr (v, db')"
    and "xt_eventType t = ''mission.exception_resolved'' \<or> xt_eventType t = ''mission.exception_withdrawn'' \<or>
      xt_eventType t = ''mission.exception_reaffirmed''"
  shows "table_steps h db db'"
  using transitionExceptionD[OF control_invD(6)[OF assms(1)] assms(2)] assms(3)
  by (auto intro: exception_step)

lemma close_exception_steps:
  assumes "control_inv h db" and "close_exception h c status ty p n db = Inr (v, db')"
    and "ty = ''mission.exception_resolved'' \<or> ty = ''mission.exception_withdrawn''"
  shows "table_steps h db db'"
  using assms(2,3) by (auto simp: close_exception_def bindR_eq_Inr intro: transitionException_steps[OF assms(1)])

lemma raiseMissionException_steps:
  assumes "raiseMissionException h c i db = Inr (v, db')"
  shows "table_steps h db db'"
  using raiseMissionExceptionD[OF assms] by (auto intro: exception_step)

lemma db_of_steps: "(\<And>v db'. r = Inr (v, db') \<Longrightarrow> table_steps h db db') \<Longrightarrow> table_steps h db (db_of db r)"
  by (auto simp: db_of_def split: sum.splits)

lemma db_of_dispatch: "(\<And>v db'. r = Inr (v, db') \<Longrightarrow> dispatch_write db db') \<Longrightarrow> dispatch_write db (db_of db r)"
  by (auto simp: db_of_def dispatch_write_refl split: sum.splits)

lemma db_or_dispatch: "(\<And>db'. r = Inr db' \<Longrightarrow> dispatch_write db db') \<Longrightarrow> dispatch_write db (db_or db r)"
  by (auto simp: db_or_def dispatch_write_refl split: sum.splits)

fun dispatch_cmd :: "control_cmd \<Rightarrow> bool" where
  "dispatch_cmd (AuthorizeDispatch i k a) = True"
| "dispatch_cmd (ReauthorizeDispatch i) = True"
| "dispatch_cmd (BeginDispatch i u) = True"
| "dispatch_cmd (UncertainDispatch t j d s) = True"
| "dispatch_cmd (SettleDispatch t j d s) = True"
| "dispatch_cmd cmd = False"

lemma exec_dispatch:
  assumes "dispatch_cmd cmd"
  shows "dispatch_write db (exec h cmd db)"
proof (cases cmd)
  case (BeginDispatch i u)
  then show ?thesis by (simp add: beginMissionMutationRemoteCallD)
qed (use assms in \<open>auto intro!: db_of_dispatch db_or_dispatch
    intro: authorizeMissionMutationDispatchD reauthorizeSettledD markUncertainD settleD\<close>)

lemma exec_tables:
  assumes inv: "control_inv h db" and "\<not> dispatch_cmd cmd"
  shows "table_steps h db (exec h cmd db)"
proof (cases cmd)
  case (BindGraph c m v)
  have "table_steps h db db'" if "bindMissionGraphVersion h c m v db = Inr (x, db')" for x db'
    using bindMissionExecutionVersionD[OF control_invD(1)[OF inv] that[unfolded bindMissionGraphVersion_def]] op_result_steps by simp
  with BindGraph show ?thesis by (auto intro: db_of_steps)
next
  case (BindPolicy c m v)
  have "table_steps h db db'" if "bindMissionPolicyEnvelopeVersion h c m v db = Inr (x, db')" for x db'
    using bindMissionExecutionVersionD[OF control_invD(1)[OF inv] that[unfolded bindMissionPolicyEnvelopeVersion_def]] op_result_steps by simp
  with BindPolicy show ?thesis by (auto intro: db_of_steps)
next
  case (Environment ps js rs ss cs es)
  then show ?thesis by (auto intro: steps1 environment)
next
  case (ReaffirmException c p b o')
  have "table_steps h db db'" if "reaffirmMissionException h c p b o' db = Inr (v, db')" for v db'
    using that by (auto simp: reaffirmMissionException_def bindR_eq_Inr dest!: transitionException_steps[OF inv])
  with ReaffirmException show ?thesis by (auto intro: db_of_steps)
qed (use assms(2) in \<open>auto intro!: db_of_steps
      intro: createMission_steps op_result_steps createMissionTask_steps[OF inv] transitionMissionTask_steps[OF inv]
        ensureMissionTaskForJob_steps[OF inv] completeTask_steps[OF inv] close_exception_steps[OF inv]
        raiseMissionException_steps steps1 mission_change dependency_new
      dest!: transitionMissionD[OF control_invD(1)[OF inv]] bindMissionScopeD[OF control_invD(1)[OF inv]]
        advanceMissionPolicyEnvelopeVersionD[OF control_invD(1)[OF inv]] linkFettlerCampaignToMissionD[OF control_invD(1)[OF inv]]
        linkRegaugeCampaignToMissionD[OF control_invD(1)[OF inv]] addMissionTaskDependencyD[OF control_invD(2,3)[OF inv]]
      simp: resolveMissionException_def withdrawMissionException_def\<close>)

lemma exec_steps: "control_inv h db \<Longrightarrow> control_steps h db (exec h cmd db)"
  using exec_tables[THEN table_steps_control] exec_dispatch by (cases "dispatch_cmd cmd") (auto simp: control_step_def)

lemma run_control_steps: "control_inv h db \<Longrightarrow> control_steps h db (run_control h cmds db)"
proof (induction cmds arbitrary: db)
  case (Cons cmd cmds)
  note now = exec_steps[OF Cons.prems, of cmd]
  from Cons.IH[OF control_steps_inv[OF now Cons.prems]] now show ?case by (simp add: rtranclp_trans)
qed simp

lemma reachable_inv: "control_reachable h db \<Longrightarrow> control_inv h db"
  by (induction rule: control_reachable.induct) (auto intro: fresh_control_inv control_steps_inv exec_steps)

text \<open>Induction along steps, with the invariant at hand.\<close>

lemma control_steps_induct [consumes 2, case_names base step]:
  assumes "control_inv h db" and "control_steps h db db'" and "P db"
    and "\<And>db db'. control_inv h db \<Longrightarrow> P db \<Longrightarrow> control_step h db db' \<Longrightarrow> P db'"
  shows "P db'"
proof -
  have "P db' \<and> control_inv h db'" using assms(2)
    by (induction rule: rtranclp_induct) (use assms control_step_inv in auto)
  then show ?thesis by simp
qed

lemma reachable_induct [consumes 1, case_names start step]:
  assumes "control_reachable h db" and "\<And>db. fresh_control db \<Longrightarrow> P db"
    and step: "\<And>db db'. control_inv h db \<Longrightarrow> P db \<Longrightarrow> control_step h db db' \<Longrightarrow> P db'"
  shows "P db"
  using assms(1)
proof (induction rule: control_reachable.induct)
  case (step db cmd)
  show ?case by (rule control_steps_induct[OF reachable_inv exec_steps]) (use step reachable_inv assms(3) in auto)
qed (rule assms(2))

end
