(* ===== verification/ControlProperties.thy ===== *)
theory ControlProperties
  imports ControlPlane "HOL-Library.Sublist"
begin

text \<open>
  What the mission control plane guarantees on every reachable database: a dispatch that may still reach
  the remote host rests on a current authority, dispatches move along their state machine, and the audit
  log verifies and only grows.
\<close>

section \<open>A sample run\<close>

definition demo_host :: host where
  "demo_host = \<lparr>h_sha = \<lambda>s. take 40 (rev s), h_dateParse = \<lambda>s. None, h_number = \<lambda>s. None\<rparr>"

definition demo_call :: "string \<Rightarrow> call" where
  "demo_call e = \<lparr>c_tenant = ''t'', c_actor = ''p'', c_eventId = e, c_idempotencyKey = e, c_correlation = ''c'',
     c_causation = None, c_createdAt = ''2026-08-26T00:00:00.000Z''\<rparr>"

definition demo_sha :: string where
  "demo_sha = replicate 40 (CHR ''a'')"

definition demo_start :: app_db where
  "demo_start = empty_db\<lparr>db_repositories := [\<lparr>rp_id = ''r'', rp_tenant = ''t''\<rparr>],
     db_snapshots := [\<lparr>sn_id = ''s'', sn_tenant = ''t'', sn_repository = ''r'', sn_sha = demo_sha, sn_manifest = ''x''\<rparr>],
     db_jobs := [\<lparr>jb_id = ''j'', jb_tenant = ''t'', jb_status = ''running'', jb_owner = Some ''w'', jb_generation = 1,
       jb_expires = Some ''2026-08-26T01:00:00.000Z''\<rparr>]\<rparr>"

definition demo_authority :: authority where
  "demo_authority = \<lparr>au_mission = ''m'', au_missionRevision = 1, au_missionState = MCreated, au_task = Some ''k'',
     au_taskRevision = Some 1, au_taskStatus = Some TUnassigned, au_repository = ''r'', au_snapshot = ''s'', au_sha = demo_sha\<rparr>"

definition demo_intent :: string where
  "demo_intent = ''sha256:'' @ replicate 64 (CHR ''b'')"

definition demo_dispatch :: dispatch_input where
  "demo_dispatch = \<lparr>din_tenant = ''t'', din_job = ''j'', din_authority = demo_authority, din_intent = demo_intent,
     din_worker = ''w'', din_generation = 1, din_observedAt = ''2026-08-26T00:30:00.000Z''\<rparr>"

definition demo_task :: "string \<Rightarrow> control_cmd" where
  "demo_task tid = CreateTask (demo_call (''e'' @ tid))
     \<lparr>ti_id = tid, ti_mission = ''m'', ti_type = ''change'', ti_acceptance = ''tests pass'', ti_risk = ''low''\<rparr>"

definition demo_mission :: control_cmd where
  "demo_mission = CreateMission (demo_call ''e1'')
     \<lparr>ci_id = ''m'', ci_product = ''fettler'', ci_trigger = ''provider_change'', ci_objective = ''upgrade'',
      ci_repository = Some ''r'', ci_snapshot = Some ''s''\<rparr>"

definition demo_run :: "control_cmd list" where
  "demo_run = [demo_mission, demo_task ''k'', AuthorizeDispatch demo_dispatch ''pull_request'' ''pr'', BeginDispatch demo_dispatch False]"

definition demo_db :: app_db where
  "demo_db = run_control demo_host demo_run demo_start"

lemma demo_reachable: "control_reachable demo_host demo_db"
  unfolding demo_db_def by (rule run_control_reachable, rule start) code_simp

section \<open>Live dispatches\<close>

text \<open>Claim C1: a dispatch that may still write to the remote host acts on a current authority. On every
  reachable database the mission of an authorized, dispatching or uncertain dispatch is at the revision,
  state and scope of its authority, the snapshot still has the recorded commit, the task, if the authority
  names one, is the authorized task (or its claim), and the exceptions of the mission evaluate and do not
  block: no operation of the control plane can change what an open dispatch was authorized against.\<close>

theorem live_dispatch_authority_current:
  assumes "control_reachable h db" and "d \<in> set (db_dispatches db)"
    and "d_state d = Authorized \<or> d_state d = Dispatching \<or> d_state d = Uncertain"
  shows "(\<exists>m. getMission db (d_tenant d) (d_mission d) = Some m \<and> mission_current m (d_authority d)) \<and>
    snapshot_current db (d_tenant d) (d_authority d) \<and>
    (case au_task (d_authority d) of None \<Rightarrow> True
     | Some tid \<Rightarrow> task_matches dispatch_options (d_authority d) (getMissionTask db (d_tenant d) tid)) \<and>
    (\<exists>e. evaluateMissionExceptions h db (d_tenant d) (d_mission d)
        (Some \<lparr>si_snapshot = au_snapshot (d_authority d), si_sha = au_sha (d_authority d)\<rparr>) = Inr e \<and> \<not> xe_missionBlocked e)"
proof -
  note inv = reachable_inv[OF assms(1)]
  from control_invD(7)[OF inv] assms(2,3)
  have "covered db (d_tenant d) (d_authority d)" "d_mission d = au_mission (d_authority d)"
    by (auto simp: dispatches_ok_def live_def in_flight_def)
  with evaluateMissionExceptions_ok[OF control_invD(5)[OF inv], of "d_tenant d" "d_mission d"
      "authority_snapshot (d_authority d)"] show ?thesis
    by (auto simp: covered_def task_covered_def authority_snapshot_def getMission_def getMissionTask_def cong: option.case_cong)
qed

lemma demo_dispatching: "map d_state (db_dispatches demo_db) = [Dispatching] \<and> map d_mission (db_dispatches demo_db) = [''m'']"
  unfolding demo_db_def by code_simp

theorem live_dispatch_authority_current_witness:
  "\<exists>d \<in> set (db_dispatches demo_db). d_state d = Dispatching \<and> getMission demo_db (d_tenant d) (d_mission d) \<noteq> None"
proof -
  from demo_dispatching obtain d where d: "d \<in> set (db_dispatches demo_db)" "d_state d = Dispatching" by auto
  with live_dispatch_authority_current[OF demo_reachable d(1)] show ?thesis by auto
qed

text \<open>A step of the other tables revokes authorized rows or leaves them alone.\<close>

definition revoke_move :: "dispatch_row \<Rightarrow> dispatch_row \<Rightarrow> bool" where
  "revoke_move d d' \<longleftrightarrow> d' = d \<or> (d_state d = Authorized \<and> (\<exists>s. d' = revoke_row s d))"

lemma revoke_moves_update:
  "list_all2 revoke_move ds (update_where (\<lambda>d. P d \<and> d_state d = Authorized) (revoke_row s) ds)"
  by (auto simp: list_all2_conv_all_nth update_where_def revoke_move_def)

lemma revoke_moves_refl [simp]: "list_all2 revoke_move ds ds"
  by (simp add: list_all2_conv_all_nth revoke_move_def)

lemma event_step_dispatches: "event_step h i db db' \<Longrightarrow> db_dispatches db' = db_dispatches db"
  by (auto dest: event_step_frame)

lemma table_step_revokes: "table_step h db db' \<Longrightarrow> list_all2 revoke_move (db_dispatches db) (db_dispatches db')"
proof (induction rule: table_step.induct)
  case (exception_change c ty x db db')
  then show ?case using revoke_moves_update
    by (auto simp: exception_write_def exception_insert_def Let_def revoke_mission_def dest!: event_step_dispatches split: if_splits)
qed (auto simp: mission_insert_def mission_write_def task_insert_def task_write_def dependency_insert_def Let_def
    revoke_mission_def revoke_task_def put_task_def revoke_moves_update dest!: event_step_dispatches)

lemma table_steps_revoke: "table_steps h db db' \<Longrightarrow> list_all2 revoke_move (db_dispatches db) (db_dispatches db')"
proof (induction rule: rtranclp_induct)
  case (step db1 db2)
  have trans: "revoke_move d d'' " if "revoke_move d d'" "revoke_move d' d''" for d d' d''
    using that by (auto simp: revoke_move_def revoke_row_def)
  from list_all2_trans[OF trans step.IH table_step_revokes[OF step(2)]] show ?case .
qed simp

lemma revoke_move_moves: "revoke_move d d' \<Longrightarrow> dispatch_move d d'"
  by (auto simp: revoke_move_def) (simp add: move_simps)



section \<open>The audit log\<close>

lemma dispatch_write_frame: "dispatch_write db db' \<Longrightarrow> \<exists>ds. db' = db\<lparr>db_dispatches := ds\<rparr>"
  by (auto simp: dispatch_write_def)

lemma event_step_events: "event_step h i db db' \<Longrightarrow> prefix (db_events db) (db_events db')"
  by (auto simp: event_step_def with_event_def)

lemma table_step_events: "table_step h db db' \<Longrightarrow> prefix (db_events db) (db_events db')"
proof (induction rule: table_step.induct)
  case (exception_change c ty x db db')
  then show ?case
    by (auto simp: exception_write_def exception_insert_def Let_def revoke_mission_def dest!: event_step_events split: if_splits)
qed (auto simp: mission_insert_def mission_write_def task_insert_def task_write_def dependency_insert_def Let_def
    revoke_mission_def revoke_task_def put_task_def dest!: event_step_events split: if_splits)

lemma control_steps_events: "control_steps h db db' \<Longrightarrow> prefix (db_events db) (db_events db')"
proof (induction rule: rtranclp_induct)
  case (step db1 db2)
  then have "prefix (db_events db1) (db_events db2)"
    by (auto simp: control_step_def dest: table_step_events dest!: dispatch_write_frame)
  with step.IH show ?case by (rule prefix_order.trans)
qed simp

lemma distinct_by_class:
  "(\<And>t. distinct (map f (filter (\<lambda>e. g e = t) xs))) \<Longrightarrow> distinct (map (\<lambda>e. (g e, f e)) xs)"
proof (induction xs)
  case (Cons x xs)
  have "distinct (map f (filter (\<lambda>e. g e = t) xs))" for t using Cons.prems[of t] by (auto split: if_splits)
  moreover have "(g x, f x) \<notin> (\<lambda>e. (g e, f e)) ` set xs" using Cons.prems[of "g x"] by auto
  ultimately show ?case using Cons.IH by simp
qed simp

lemma log_ok_keys:
  assumes "log_ok h db"
  shows "log_keys db"
proof -
  have seq: "map ev_sequence (filter (\<lambda>e. ev_tenant e = t) (db_events db)) = [1..<Suc (length (tenant_rows db t))]" for t
    using linked_sequences[OF log_ok_linked[OF assms, of t]] by (simp add: tenant_rows_def)
  have "distinct (map (\<lambda>e. (ev_tenant e, ev_sequence e)) (db_events db))" by (rule distinct_by_class) (simp only: seq distinct_upt)
  moreover have "1 \<le> ev_sequence e" if "e \<in> set (db_events db)" for e
  proof -
    have "ev_sequence e \<in> set (map ev_sequence (filter (\<lambda>x. ev_tenant x = ev_tenant e) (db_events db)))" using that by simp
    then show ?thesis unfolding seq by auto
  qed
  ultimately show ?thesis using assms by (simp add: log_keys_def log_ok_def list_all_iff)
qed

text \<open>Claim C12: the audit log of every reachable database verifies. The chain of each tenant passes the full
  verification, which visits every row of the tenant, every event of it passes the bounded check of its own
  hash and its two links, and whatever commands run next, failed ones included, the events stay the
  beginning of the log, unchanged and in order.\<close>

theorem audit_log_verifies:
  assumes "control_reachable h db"
  shows "ig_ok (verifyDomainEventIntegrity h db t) \<and>
    ig_checked (verifyDomainEventIntegrity h db t) = length (filter (\<lambda>e. ev_tenant e = t) (db_events db)) \<and>
    list_all (\<lambda>e. ig_ok (verifyDomainEventRecordIntegrity h db t (ev_id e))) (tenant_events db t) \<and>
    prefix (db_events db) (db_events (run_control h cmds db))"
proof -
  note log = control_invD(4)[OF reachable_inv[OF assms]]
  have "linked h 0 None (tenant_events db t)" using log_ok_linked[OF log] by (simp add: tenant_events_ok[OF log])
  from linked_records[OF log_ok_keys[OF log] this] record_integrity_sound[OF log_ok_keys[OF log]] log_ok_verifies[OF log]
    control_steps_events[OF run_control_steps[OF reachable_inv[OF assms]]]
  show ?thesis by (simp add: tenant_rows_def list_all_iff)
qed

theorem audit_log_verifies_witness:
  "ig_ok (verifyDomainEventIntegrity demo_host demo_db ''t'')"
  using audit_log_verifies[OF demo_reachable] by simp

end
