(* ===== verification/MissionProperties.thy ===== *)
theory MissionProperties
  imports ControlProperties
begin

text \<open>
  The history of missions under the control plane: how a row may evolve, that a writer with a stale
  revision is turned away, and that the audit log determines the row: replaying the events of a mission
  gives back its state, revision, versions and links.
\<close>

section \<open>Evolution\<close>

definition write_once :: "'a option \<Rightarrow> 'a option \<Rightarrow> bool" where
  "write_once a b \<longleftrightarrow> a = None \<or> b = a"

abbreviation leads_to :: "mission_state \<Rightarrow> mission_state \<Rightarrow> bool" where
  "leads_to \<equiv> (\<lambda>s t. t \<in> set (missionTransitions s))\<^sup>*\<^sup>*"

text \<open>What stays, what is written once, and what a revision pins.\<close>

definition mission_evolves :: "mission \<Rightarrow> mission \<Rightarrow> bool" where
  "mission_evolves m m' \<longleftrightarrow>
     m_product m' = m_product m \<and> m_trigger m' = m_trigger m \<and> m_objective m' = m_objective m \<and>
     m_owner m' = m_owner m \<and> m_createdAt m' = m_createdAt m \<and>
     write_once (m_repository m) (m_repository m') \<and> write_once (m_snapshot m) (m_snapshot m') \<and>
     write_once (m_graphVersion m) (m_graphVersion m') \<and> write_once (m_fettler m) (m_fettler m') \<and>
     write_once (m_regauge m) (m_regauge m') \<and> leads_to (m_state m) (m_state m') \<and>
     m_revision m \<le> m_revision m' \<and>
     (m_revision m' = m_revision m \<longrightarrow> m_state m' = m_state m \<and> m_repository m' = m_repository m \<and>
        m_snapshot m' = m_snapshot m \<and> m_graphVersion m' = m_graphVersion m \<and> m_policyVersion m' = m_policyVersion m)"

lemma evolves_refl [simp]: "mission_evolves m m"
  by (simp add: mission_evolves_def write_once_def)

lemma write_once_trans: "write_once a b \<Longrightarrow> write_once b c \<Longrightarrow> write_once a c"
  by (auto simp: write_once_def)

lemma evolves_trans:
  assumes "mission_evolves a b" and "mission_evolves b c"
  shows "mission_evolves a c"
proof -
  have "leads_to (m_state a) (m_state c)" using assms by (auto simp: mission_evolves_def)
  with assms show ?thesis
    unfolding mission_evolves_def by (intro conjI impI) (auto intro: write_once_trans)
qed

lemma change_evolves:
  assumes "change_allowed ch m"
  shows "mission_evolves m (apply_change s ch m)"
proof (cases ch)
  case (Transitioned t)
  with assms have "leads_to (m_state m) t" by (simp add: r_into_rtranclp)
  with Transitioned show ?thesis by (simp add: mission_evolves_def write_once_def apply_change_def)
next
  case (VersionBound c v)
  with assms show ?thesis by (cases c) (simp_all add: mission_evolves_def write_once_def apply_change_def)
qed (use assms in \<open>simp_all add: mission_evolves_def write_once_def apply_change_def\<close>)

text \<open>The missions of two databases, one after the other.\<close>

definition missions_evolve :: "app_db \<Rightarrow> app_db \<Rightarrow> bool" where
  "missions_evolve db db' \<longleftrightarrow> (\<forall>t mid m. findMission db t mid = Some m \<longrightarrow> (\<exists>m'. findMission db' t mid = Some m' \<and> mission_evolves m m'))"

lemma missions_evolve_same: "db_missions db' = db_missions db \<Longrightarrow> missions_evolve db db'"
  by (simp add: missions_evolve_def findMission_def)

lemma missions_evolve_trans: "missions_evolve a b \<Longrightarrow> missions_evolve b c \<Longrightarrow> missions_evolve a c"
  unfolding missions_evolve_def using evolves_trans by meson

lemma event_step_missions: "event_step h i db db' \<Longrightarrow> db_missions db' = db_missions db"
  by (auto dest!: event_step_frame)

lemma findMission_cong_missions: "db_missions db' = db_missions db \<Longrightarrow> findMission db' t mid = findMission db t mid"
  by (simp add: findMission_def)

lemma missions_evolveD:
  assumes "missions_evolve db db'" and "findMission db t mid = Some m"
  obtains m' where "findMission db' t mid = Some m'" "mission_evolves m m'"
  using assms unfolding missions_evolve_def by blast

text \<open>Only two steps touch the missions.\<close>

lemma control_step_missions:
  assumes "control_step h db db'"
  obtains (insert) c m p k where "mission_insert h c m (created_payload p k) db db'" "m_revision m = 1" "m_tenant m = c_tenant c"
      "m_fettler m = None" "m_regauge m = None" "m_state m = MCreated" "m_graphVersion m = None" "m_policyVersion m = None"
      "product_of p = Some (m_product m)" "trigger_of k = Some (m_trigger m)"
  | (change) c mid ch where "mission_write h c mid ch db db'"
  | (same) "db_missions db' = db_missions db"
proof (cases "dispatch_write db db'")
  case True
  then show thesis by (intro same) (auto dest!: dispatch_write_frame)
next
  case False
  with assms have "table_step h db db'" by (simp add: control_step_def)
  then show thesis
  proof (cases rule: table_step.cases)
    case (exception_change c ty x)
    then show thesis
      by (intro same) (auto simp: exception_write_def exception_insert_def Let_def dest!: event_step_missions split: if_splits)
  qed (auto intro: insert change same simp: task_insert_def task_write_def dependency_insert_def Let_def put_task_def revoke_task_def
      dest!: event_step_missions)
qed

lemma mission_insert_find:
  assumes "mission_insert h c m payload db db'"
  shows "findMission db' t mid = (if t = m_tenant m \<and> mid = m_id m then Some m else findMission db t mid)"
    and "findMission db t (m_id m) = None"
proof -
  from assms have fresh: "m_id m \<notin> m_id ` set (db_missions db)" and rows: "db_missions db' = db_missions db @ [m]"
    by (auto simp: mission_insert_def dest!: event_step_missions)
  show "findMission db t (m_id m) = None" using fresh by (auto simp: findMission_def find_None_iff image_iff)
  then show "findMission db' t mid = (if t = m_tenant m \<and> mid = m_id m then Some m else findMission db t mid)"
    by (auto simp: findMission_def rows find_append_fresh split: option.splits)
qed

lemma mission_write_find:
  assumes "mission_write h c mid ch db db'"
  obtains cur where "findMission db (c_tenant c) mid = Some cur" "change_allowed ch cur"
    "\<And>t mid'. findMission db' t mid' = (if t = c_tenant c \<and> mid' = mid then Some (apply_change (c_createdAt c) ch cur) else findMission db t mid')"
proof -
  from assms obtain cur i where cur: "findMission db (c_tenant c) mid = Some cur" "change_allowed ch cur"
    and ev: "event_step h i (put_mission (c_tenant c) mid (apply_change (c_createdAt c) ch)
          (if bumps ch then revoke_mission (c_tenant c) mid (c_createdAt c) db else db)) db'"
    by (auto simp: mission_write_def)
  have "findMission db' t mid' = (if t = c_tenant c \<and> mid' = mid then Some (apply_change (c_createdAt c) ch cur) else findMission db t mid')"
    for t mid' using cur by (auto simp: findMission_cong_missions[OF event_step_missions[OF ev]] findMission_put)
  with cur show thesis by (rule that)
qed

lemma control_step_evolves:
  assumes "control_step h db db'"
  shows "missions_evolve db db'"
  using assms
proof (cases rule: control_step_missions)
  case (insert c m p k)
  then show ?thesis using mission_insert_find[OF insert(1)] by (auto simp: missions_evolve_def)
next
  case (change c mid ch)
  then obtain cur where "findMission db (c_tenant c) mid = Some cur" "change_allowed ch cur"
    "\<And>t mid'. findMission db' t mid' = (if t = c_tenant c \<and> mid' = mid then Some (apply_change (c_createdAt c) ch cur) else findMission db t mid')"
    by (rule mission_write_find) blast
  then show ?thesis using change_evolves by (auto simp: missions_evolve_def)
qed (simp add: missions_evolve_same)

lemma control_steps_evolve: "control_steps h db db' \<Longrightarrow> missions_evolve db db'"
  by (induction rule: rtranclp_induct) (auto intro: missions_evolve_same missions_evolve_trans control_step_evolves)

text \<open>Claim C14: the history of a mission. Along every run its product, trigger, objective, owner and creation
  time never change, its scope, graph version and campaign links are written at most once, its state only
  moves along the legal transitions, its revision never decreases, and two readings with the same revision
  show the same state, scope and versions.\<close>

theorem mission_history:
  assumes "control_reachable h db" and "getMission db t mid = Some m"
  shows "\<exists>m'. getMission (run_control h cmds db) t mid = Some m' \<and> mission_evolves m m'"
  using control_steps_evolve[OF run_control_steps[OF reachable_inv[OF assms(1)]]] assms(2)
  by (auto simp: missions_evolve_def getMission_def)

text \<open>A closed mission stays closed: once it is accepted, rejected, partial, failed or cancelled, no
  run of commands gives it another state.\<close>

theorem terminal_mission_final:
  assumes "control_reachable h db" and "getMission db t mid = Some m" and "m_state m \<in> set terminal_states"
  shows "map_option m_state (getMission (run_control h cmds db) t mid) = Some (m_state m)"
proof -
  obtain m' where m': "getMission (run_control h cmds db) t mid = Some m'" "mission_evolves m m'"
    unfolding getMission_def using assms(2)[unfolded getMission_def]
    by (rule missions_evolveD[OF control_steps_evolve[OF run_control_steps[OF reachable_inv[OF assms(1)]]]])
  from m'(2) have "m_state m' = m_state m"
    using mission.leads_final[of "m_state m" "m_state m'"] assms(3) by (simp add: mission_evolves_def terminal_iff)
  with m'(1) show ?thesis by simp
qed

text \<open>Claim C16: optimistic concurrency. After a transition made at some revision, every later transition that
  still expects that revision is refused as a conflict, whatever ran in between; it changes nothing.\<close>

theorem stale_revision_refused:
  assumes "control_reachable h db" and "transitionMission h c mid e to db = Inr (m, db1)"
    and "c_tenant c' = c_tenant c" and "active_principal (run_control h cmds db1) (c_tenant c') (c_actor c')"
  shows "transitionMission h c' mid e to' (run_control h cmds db1) = throw ''mission_revision_conflict''"
proof -
  note inv = reachable_inv[OF assms(1)]
  have op: "m_revision m = e + 1 \<and> findMission db1 (c_tenant c) mid = Some m"
  proof -
    from assms(2) obtain cur where cur: "findMission db (c_tenant c) mid = Some cur" "m_revision cur = e"
      by (auto simp: transitionMission_def bindR_eq_Inr ensure_eq_Inr dest!: with_missionD)
    from transitionMissionD[OF control_invD(1)[OF inv] assms(2)]
    have w: "mission_write h c mid (Transitioned to) db db1" "findMission db1 (c_tenant c) mid = Some m" by simp_all
    from w(1) obtain cur' where "findMission db (c_tenant c) mid = Some cur'"
      "\<And>t mid'. findMission db1 t mid' = (if t = c_tenant c \<and> mid' = mid then Some (apply_change (c_createdAt c) (Transitioned to) cur') else findMission db t mid')"
      by (rule mission_write_find) blast
    with cur w(2) show ?thesis by (auto simp: apply_change_def)
  qed
  have "exec h (TransitionMission c mid e to) db = db1" by (simp add: assms(2) db_of_def)
  with exec_steps[OF inv, of "TransitionMission c mid e to"] have "control_inv h db1"
    using control_steps_inv[OF _ inv] by metis
  from missions_evolveD[OF control_steps_evolve[OF run_control_steps[OF this]] op[THEN conjunct2]] obtain m' where
    m': "findMission (run_control h cmds db1) (c_tenant c) mid = Some m'" "mission_evolves m m'" .
  with op have "m_revision m' \<noteq> e" by (auto simp: mission_evolves_def)
  with m' assms(3,4) show ?thesis
    by (simp add: transitionMission_def assertPrincipal_def with_mission_def)
qed

section \<open>Samples\<close>

definition cancel_demo :: control_cmd where
  "cancel_demo = TransitionMission (demo_call ''e2'') ''m'' 1 MCancelled"

definition cancelled_db :: app_db where
  "cancelled_db = run_control demo_host [demo_mission, cancel_demo] demo_start"

lemma cancelled_reachable: "control_reachable demo_host cancelled_db"
  unfolding cancelled_db_def by (rule run_control_reachable, rule start) code_simp

lemma cancelled_state: "map_option m_state (getMission cancelled_db ''t'' ''m'') = Some MCancelled"
  unfolding cancelled_db_def by code_simp

theorem mission_history_witness:
  "\<exists>m m'. getMission cancelled_db ''t'' ''m'' = Some m \<and>
    getMission (run_control demo_host [cancel_demo] cancelled_db) ''t'' ''m'' = Some m' \<and> mission_evolves m m'"
proof -
  from cancelled_state obtain m where "getMission cancelled_db ''t'' ''m'' = Some m" by auto
  with mission_history[OF cancelled_reachable this, of "[cancel_demo]"] show ?thesis by auto
qed

theorem terminal_mission_final_witness:
  "map_option m_state (getMission (run_control demo_host [cancel_demo] cancelled_db) ''t'' ''m'') = Some MCancelled"
proof -
  from cancelled_state obtain m where "getMission cancelled_db ''t'' ''m'' = Some m" "m_state m = MCancelled" by auto
  from terminal_mission_final[OF cancelled_reachable this(1), of "[cancel_demo]"] this(2) show ?thesis by (simp add: terminal_states_def)
qed

definition created_db :: app_db where
  "created_db = run_control demo_host [demo_mission] demo_start"

theorem stale_revision_refused_witness:
  "\<exists>m db1. transitionMission demo_host (demo_call ''e2'') ''m'' 1 MDiscovering created_db = Inr (m, db1) \<and>
    transitionMission demo_host (demo_call ''e3'') ''m'' 1 MCancelled db1 = throw ''mission_revision_conflict''"
proof -
  have reach: "control_reachable demo_host created_db"
    unfolding created_db_def by (rule run_control_reachable, rule start) code_simp
  have "case transitionMission demo_host (demo_call ''e2'') ''m'' 1 MDiscovering created_db of
      Inl e \<Rightarrow> False | Inr (m, db1) \<Rightarrow> active_principal db1 ''t'' ''p''" unfolding created_db_def by code_simp
  then obtain m db1 where 1: "transitionMission demo_host (demo_call ''e2'') ''m'' 1 MDiscovering created_db = Inr (m, db1)"
    and 2: "active_principal db1 ''t'' ''p''" by (auto split: sum.splits)
  have "c_tenant (demo_call e) = ''t''" "c_actor (demo_call e) = ''p''" for e by (simp_all add: demo_call_def)
  with stale_revision_refused[OF reach 1, of "demo_call ''e3''" "[]" MCancelled] 1 2 show ?thesis by simp
qed

end
