(* ===== verification/TaskProperties.thy ===== *)
theory TaskProperties
  imports MissionProperties
begin

text \<open>
  The tasks of a mission: the cycle check of \<open>addMissionTaskDependency\<close> decides reachability, the
  dependencies of every reachable database are acyclic and stay inside one mission, so that a mission with
  unfinished tasks always has one that is ready, and the rows of tasks and missions are well-formed.
\<close>

section \<open>Task dependencies\<close>

definition edges :: "task_dependency list \<Rightarrow> string \<Rightarrow> (string \<times> string) set" where
  "edges rows tenant = {(dp_task d, dp_dependsOn d) | d. d \<in> set rows \<and> dp_tenant d = tenant}"

lemma prerequisites_edges: "set (prerequisites rows tenant tid) = edges rows tenant `` {tid}"
  by (auto simp: prerequisites_def edges_def)

lemma leave_closed:
  assumes "(x, t) \<in> E\<^sup>*" and "x \<in> A" and "t \<notin> A" and "E `` A \<subseteq> A \<union> S"
  shows "\<exists>y \<in> S. (y, t) \<in> E\<^sup>*"
  using assms(1,2)
proof (induction rule: converse_rtrancl_induct)
  case (step y z)
  then show ?case using assms(4) by (cases "z \<in> A") auto
qed (use assms(3) in simp)

text \<open>The loop decides reachability when the visited nodes lead only to visited or stacked ones.\<close>

lemma depends_loop_iff:
  assumes "target \<notin> set seen" and "edges rows tenant `` set seen \<subseteq> set seen \<union> set stack"
  shows "depends_loop rows tenant target seen stack \<longleftrightarrow> (\<exists>c \<in> set stack. (c, target) \<in> (edges rows tenant)\<^sup>*)"
  using assms
proof (induction rows tenant target seen stack rule: depends_loop.induct)
  case (2 rows tenant target seen c stack)
  let ?E = "edges rows tenant"
  consider "c = target" | "c \<noteq> target" "c \<in> set seen" | "c \<noteq> target" "c \<notin> set seen" by blast
  then show ?case
  proof cases
    case 2
    have closed: "?E `` set seen \<subseteq> set seen \<union> set stack" using "2.prems"(2) 2 by auto
    have "\<exists>y \<in> set stack. (y, target) \<in> ?E\<^sup>*" if "(c, target) \<in> ?E\<^sup>*"
      using leave_closed[OF that 2(2) "2.prems"(1) closed] .
    with "2.IH"(1)[OF 2 "2.prems"(1) closed] 2 show ?thesis by auto
  next
    case 3
    have step: "(c, target) \<in> ?E\<^sup>* \<longleftrightarrow> (\<exists>p \<in> set (prerequisites rows tenant c). (p, target) \<in> ?E\<^sup>*)"
      using 3(1) by (auto simp: prerequisites_edges elim: converse_rtranclE intro: converse_rtrancl_into_rtrancl)
    have "?E `` set (c # seen) \<subseteq> set (c # seen) \<union> set (rev (prerequisites rows tenant c) @ stack)"
      using "2.prems"(2) by (auto simp: prerequisites_edges)
    with "2.IH"(2)[OF 3] 3(1) "2.prems"(1) step 3 show ?thesis by auto
  qed simp
qed simp

text \<open>Claim C21: \<open>dependsOnTransitively\<close> is reachability. The depth-first search with its visited set answers
  whether the target is reached from the start along the dependency edges of the tenant, in any number of
  steps, on every table of dependencies, cyclic ones included.\<close>

theorem dependsOnTransitively_reaches:
  "dependsOnTransitively db tenant from target \<longleftrightarrow> (from, target) \<in> (edges (db_dependencies db) tenant)\<^sup>*"
  by (simp add: dependsOnTransitively_def depends_loop_iff del: depends_loop.simps)


subsection \<open>The dependencies of a reachable database\<close>

definition dependencies_ok :: "app_db \<Rightarrow> bool" where
  "dependencies_ok db \<longleftrightarrow> (\<forall>t. acyclic (edges (db_dependencies db) t)) \<and>
     (\<forall>d \<in> set (db_dependencies db). \<forall>tid \<in> {dp_task d, dp_dependsOn d}.
        \<exists>k. findTask db (dp_tenant d) tid = Some k \<and> t_mission k = dp_mission d)"

text \<open>Tasks keep their mission.\<close>

definition tasks_extend :: "app_db \<Rightarrow> app_db \<Rightarrow> bool" where
  "tasks_extend db db' \<longleftrightarrow> (\<forall>t tid k. findTask db t tid = Some k \<longrightarrow> (\<exists>k'. findTask db' t tid = Some k' \<and> t_mission k' = t_mission k))"

lemma tasks_extend_same: "db_tasks db' = db_tasks db \<Longrightarrow> tasks_extend db db'"
  by (simp add: tasks_extend_def findTask_def)

lemma event_step_tasks: "event_step h i db db' \<Longrightarrow> db_tasks db' = db_tasks db \<and> db_dependencies db' = db_dependencies db"
  by (auto dest!: event_step_frame)

lemma put_task_extend:
  assumes "\<And>k. task_key (f k) = task_key k" and "\<And>k. findTask db t tid = Some k \<Longrightarrow> t_mission (f k) = t_mission k"
    and "db_tasks db1 = db_tasks db" and "db_tasks db' = db_tasks (put_task t tid f db1)"
  shows "tasks_extend db db'"
proof -
  have "findTask db' t' tid' = findTask (put_task t tid f db) t' tid'" for t' tid'
    using assms(3,4) by (simp add: findTask_def put_task_def)
  with assms(1,2) show ?thesis by (auto simp: tasks_extend_def findTask_put)
qed

lemma table_step_tasks: "table_step h db db' \<Longrightarrow> tasks_extend db db'"
proof (induction rule: table_step.induct)
  case (task_new c t payload db db')
  then have "db_tasks db' = db_tasks db @ [t]" by (auto simp: task_insert_def Let_def dest!: event_step_tasks)
  then show ?case by (auto simp: tasks_extend_def findTask_def find_append_fresh split: option.splits)
next
  case (task_change c tid to p r db db')
  then obtain cur i where cur: "findTask db (c_tenant c) tid = Some cur"
    and ev: "event_step h i (put_task (c_tenant c) tid (transition_task c cur to p r)
          (revoke_task (c_tenant c) (t_mission cur) (Some tid) (c_createdAt c) db)) db'"
    by (auto simp: task_write_def)
  show ?case
    by (rule put_task_extend[OF _ _ _ event_step_tasks[OF ev, THEN conjunct1]]) (simp_all add: transition_task_def task_key_def)
next
  case (dependency_new i db db')
  show ?case
    by (rule put_task_extend[of "bump_task (di_createdAt i)" _ "di_tenant i" "di_task i"
          "revoke_task (di_tenant i) (di_mission i) (Some (di_task i)) (di_createdAt i) db"])
      (use dependency_new in \<open>simp_all add: bump_task_def task_key_def dependency_insert_def\<close>)
next
  case (exception_change c ty x db db')
  then have "db_tasks db' = db_tasks db"
    by (auto simp: exception_write_def exception_insert_def Let_def dest!: event_step_tasks split: if_splits)
  then show ?case by (rule tasks_extend_same)
qed (auto simp: mission_insert_def mission_write_def intro!: tasks_extend_same dest!: event_step_tasks)

lemma table_step_dependencies:
  "table_step h db db' \<Longrightarrow> db_dependencies db' = db_dependencies db \<or> (\<exists>i. dependency_insert i db db')"
proof (induction rule: table_step.induct)
  case (exception_change c ty x db db')
  then have "db_dependencies db' = db_dependencies db"
    by (auto simp: exception_write_def exception_insert_def Let_def revoke_mission_def dest!: event_step_tasks split: if_splits)
  then show ?case ..
qed (auto simp: mission_insert_def mission_write_def task_insert_def task_write_def Let_def revoke_mission_def revoke_task_def
    put_task_def dest!: event_step_tasks)

lemma edges_snoc: "edges (rows @ [d]) t = edges rows t \<union> (if dp_tenant d = t then {(dp_task d, dp_dependsOn d)} else {})"
  by (auto simp: edges_def)

lemma dependencies_ok_step:
  assumes ok: "dependencies_ok db" and step: "control_step h db db'"
  shows "dependencies_ok db'"
proof -
  have ext: "tasks_extend db db'"
    using step by (auto simp: control_step_def intro: table_step_tasks tasks_extend_same dest!: dispatch_write_frame)
  from step consider "db_dependencies db' = db_dependencies db" | i where "dependency_insert i db db'"
    by (auto simp: control_step_def dest!: table_step_dependencies dispatch_write_frame)
  then show ?thesis
  proof cases
    case 1
    with ok ext show ?thesis unfolding dependencies_ok_def tasks_extend_def by metis
  next
    case (2 i)
    let ?d = "dependency_row i"
    from 2 have rows: "db_dependencies db' = db_dependencies db @ [?d]"
      and nocycle: "(di_dependsOn i, di_task i) \<notin> (edges (db_dependencies db) (di_tenant i))\<^sup>*"
      and ends: "\<forall>tid \<in> {di_task i, di_dependsOn i}. \<exists>k. findTask db (di_tenant i) tid = Some k \<and> t_mission k = di_mission i"
      by (auto simp: dependency_insert_def dependsOnTransitively_reaches)
    have d: "dp_tenant ?d = di_tenant i" "dp_task ?d = di_task i" "dp_dependsOn ?d = di_dependsOn i" "dp_mission ?d = di_mission i"
      by (simp_all add: dependency_row_def)
    have "acyclic (edges (db_dependencies db') t)" for t
      using ok nocycle unfolding rows edges_snoc d by (auto simp: dependencies_ok_def)
    moreover have "\<exists>k. findTask db' (dp_tenant e) tid = Some k \<and> t_mission k = dp_mission e"
      if "e \<in> set (db_dependencies db')" "tid \<in> {dp_task e, dp_dependsOn e}" for e tid
    proof -
      have "\<exists>k. findTask db (dp_tenant e) tid = Some k \<and> t_mission k = dp_mission e"
        using that ok ends unfolding rows dependencies_ok_def by (auto simp: d)
      with ext show ?thesis unfolding tasks_extend_def by metis
    qed
    ultimately show ?thesis by (simp add: dependencies_ok_def)
  qed
qed

lemma fresh_dependencies: "fresh_control db \<Longrightarrow> dependencies_ok db"
  by (simp add: fresh_control_def dependencies_ok_def edges_def acyclic_def)

lemma reachable_dependencies: "control_reachable h db \<Longrightarrow> dependencies_ok db"
  by (induction rule: reachable_induct) (auto intro: fresh_dependencies dependencies_ok_step)

text \<open>Claim C22: the dependencies between tasks are acyclic on every reachable database, and both ends of each
  are existing tasks of the mission it names.\<close>

theorem dependencies_acyclic:
  assumes "control_reachable h db"
  shows "acyclic (edges (db_dependencies db) t) \<and>
    list_all (\<lambda>d. \<forall>tid \<in> {dp_task d, dp_dependsOn d}.
      \<exists>k. getMissionTask db (dp_tenant d) tid = Some k \<and> t_mission k = dp_mission d) (db_dependencies db)"
  using reachable_dependencies[OF assms] by (simp add: dependencies_ok_def list_all_iff getMissionTask_def)

text \<open>Claim C17: a mission never deadlocks on the order of its tasks. While some task of it is not complete,
  some incomplete task of the same mission is ready: all its prerequisites are complete.\<close>

theorem unfinished_mission_has_ready_task:
  assumes "control_reachable h db" and "getMissionTask db t tid = Some k" and "t_status k \<noteq> TComplete"
  shows "\<exists>tid' k'. getMissionTask db t tid' = Some k' \<and> t_mission k' = t_mission k \<and> t_status k' \<noteq> TComplete \<and>
    missionTaskReady db t tid'"
proof -
  let ?E = "edges (db_dependencies db) t"
  note ok = reachable_dependencies[OF assms(1)]
  have "?E = (\<lambda>d. (dp_task d, dp_dependsOn d)) ` {d \<in> set (db_dependencies db). dp_tenant d = t}" by (auto simp: edges_def)
  then have "finite ?E" by simp
  moreover have "acyclic ?E" using ok by (simp add: dependencies_ok_def)
  ultimately have "wf (?E\<inverse>)" by (rule finite_acyclic_wf_converse)
  then show ?thesis using assms(2,3)
  proof (induction tid arbitrary: k rule: wf_induct_rule)
    case (less tid)
    note k = less.prems[unfolded getMissionTask_def]
    show ?case
    proof (cases "missionTaskReady db t tid")
      case True
      with less.prems show ?thesis by blast
    next
      case False
      with k obtain p where p: "p \<in> set (prerequisites (db_dependencies db) t tid)"
        and open_p: "\<not> (case findTask db t p of None \<Rightarrow> False | Some q \<Rightarrow> t_status q = TComplete)"
        by (auto simp: missionTaskReady_def list_all_iff)
      then obtain d where d: "d \<in> set (db_dependencies db)" "dp_tenant d = t" "dp_task d = tid" "dp_dependsOn d = p"
        by (auto simp: prerequisites_def)
      with ok k obtain q where q: "findTask db t p = Some q" "t_mission q = t_mission k"
        unfolding dependencies_ok_def by fastforce
      have "(p, tid) \<in> ?E\<inverse>" using d by (auto simp: edges_def)
      from less.IH[OF this] q open_p show ?thesis by (simp add: getMissionTask_def)
    qed
  qed
qed

definition demo_tasks :: app_db where
  "demo_tasks = run_control demo_host [demo_mission, demo_task ''k'', demo_task ''n'',
     AddDependency \<lparr>di_id = ''d'', di_tenant = ''t'', di_mission = ''m'', di_task = ''k'', di_dependsOn = ''n'',
       di_createdAt = ''2026-08-26T00:00:00.000Z''\<rparr>] demo_start"

lemma demo_tasks_reachable: "control_reachable demo_host demo_tasks"
  unfolding demo_tasks_def by (rule run_control_reachable, rule start) code_simp

lemma demo_tasks_state:
  "map dp_dependsOn (db_dependencies demo_tasks) = [''n''] \<and> map_option t_status (getMissionTask demo_tasks ''t'' ''k'') = Some TUnassigned"
  unfolding demo_tasks_def by code_simp

theorem dependencies_acyclic_witness:
  "db_dependencies demo_tasks \<noteq> [] \<and> acyclic (edges (db_dependencies demo_tasks) ''t'')"
  using demo_tasks_state dependencies_acyclic[OF demo_tasks_reachable] by auto

theorem unfinished_mission_has_ready_task_witness: "\<exists>tid. missionTaskReady demo_tasks ''t'' tid"
proof -
  from demo_tasks_state obtain k where "getMissionTask demo_tasks ''t'' ''k'' = Some k" "t_status k \<noteq> TComplete" by auto
  from unfinished_mission_has_ready_task[OF demo_tasks_reachable this] show ?thesis by blast
qed

section \<open>Well-formed rows\<close>

definition mission_ok :: "mission \<Rightarrow> bool" where
  "mission_ok m \<longleftrightarrow> 1 \<le> m_revision m \<and> (m_fettler m \<noteq> None \<longrightarrow> m_product m = Fettler) \<and> (m_regauge m \<noteq> None \<longrightarrow> m_product m = Regauge)"

definition task_ok :: "app_db \<Rightarrow> mission_task \<Rightarrow> bool" where
  "task_ok db k \<longleftrightarrow> 1 \<le> t_revision k \<and> 0 \<le> t_retries k \<and> ownerForStatus (t_status k) (t_owner k) = t_owner k \<and>
     findMission db (t_tenant k) (t_mission k) \<noteq> None"

definition rows_ok :: "app_db \<Rightarrow> bool" where
  "rows_ok db \<longleftrightarrow> list_all mission_ok (db_missions db) \<and> list_all (task_ok db) (db_tasks db)"

lemma owner_idem: "ownerForStatus s (ownerForStatus s w) = ownerForStatus s w"
  by (simp add: ownerForStatus_def)

lemma task_ok_evolves: "task_ok db k \<Longrightarrow> missions_evolve db db' \<Longrightarrow> task_ok db' k"
  unfolding task_ok_def missions_evolve_def by blast

lemma list_all_update_where:
  "list_all Q rows \<Longrightarrow> (\<And>r. r \<in> set rows \<Longrightarrow> P r \<Longrightarrow> Q r \<Longrightarrow> Q (f r)) \<Longrightarrow> list_all Q (update_where P f rows)"
  by (auto simp: list_all_iff update_where_def)

lemma mission_ok_change: "change_allowed ch m \<Longrightarrow> mission_ok m \<Longrightarrow> mission_ok (apply_change s ch m)"
  by (cases ch rule: change_type.cases) (auto simp: mission_ok_def apply_change_def)

lemma transition_task_ok:
  assumes "task_ok db cur" and "task_ok db k" and "t_mission k = t_mission cur" and "t_tenant k = t_tenant cur"
  shows "task_ok db (transition_task c cur to p r k)"
  using assms by (simp add: task_ok_def transition_task_def owner_idem)

text \<open>How each table changes in a step.\<close>

lemma missions_ok_step:
  assumes keyed: "missions_keyed db" and ok: "list_all mission_ok (db_missions db)" and step: "control_step h db db'"
  shows "list_all mission_ok (db_missions db')"
  using step
proof (cases rule: control_step_missions)
  case (insert c m p k)
  then have "db_missions db' = db_missions db @ [m]" by (auto simp: mission_insert_def dest!: event_step_missions)
  with insert ok show ?thesis by (simp add: mission_ok_def)
next
  case (change c mid ch)
  let ?f = "apply_change (c_createdAt c) ch"
  from change obtain cur i where cur: "findMission db (c_tenant c) mid = Some cur" "change_allowed ch cur"
    and ev: "event_step h i (put_mission (c_tenant c) mid ?f
          (if bumps ch then revoke_mission (c_tenant c) mid (c_createdAt c) db else db)) db'"
    by (auto simp: mission_write_def)
  have rows: "db_missions db' = update_where (\<lambda>m. mission_key m = (mid, c_tenant c)) ?f (db_missions db)"
    unfolding event_step_missions[OF ev] by (simp add: put_mission_def)
  have "m = cur" if "m \<in> set (db_missions db)" "mission_key m = (mid, c_tenant c)" for m
    using that keyed findMission_Some[OF cur(1)] by (auto simp: missions_keyed_def mission_key_def dest: distinct_map_eq)
  with ok cur(2) show ?thesis unfolding rows by (intro list_all_update_where) (auto intro: mission_ok_change)
qed (use ok in simp)

lemma tasks_ok_step:
  assumes keyed: "tasks_keyed db" and ok: "list_all (task_ok db) (db_tasks db)" and step: "control_step h db db'"
  shows "list_all (task_ok db') (db_tasks db')"
proof -
  have "list_all (task_ok db) (db_tasks db')"
  proof (cases "dispatch_write db db'")
    case True
    with ok show ?thesis by (auto dest!: dispatch_write_frame)
  next
    case False
    with step have "table_step h db db'" by (simp add: control_step_def)
    then show ?thesis
    proof (cases rule: table_step.cases)
      case (task_new c t payload)
      then have "db_tasks db' = db_tasks db @ [t]" "findMission db (t_tenant t) (t_mission t) \<noteq> None"
        by (auto simp: task_insert_def Let_def dest!: event_step_tasks)
      with ok task_new show ?thesis by (simp add: task_ok_def ownerForStatus_def starts_with_def)
    next
      case (task_change c tid to p r)
      then obtain cur i where cur: "findTask db (c_tenant c) tid = Some cur"
        and ev: "event_step h i (put_task (c_tenant c) tid (transition_task c cur to p r)
          (revoke_task (c_tenant c) (t_mission cur) (Some tid) (c_createdAt c) db)) db'"
        by (auto simp: task_write_def)
      have rows: "db_tasks db' = update_where (\<lambda>k. task_key k = (tid, c_tenant c)) (transition_task c cur to p r) (db_tasks db)"
        using event_step_tasks[OF ev] by (simp add: put_task_def)
      have "k = cur" if "k \<in> set (db_tasks db)" "task_key k = (tid, c_tenant c)" for k
        using that keyed findTask_Some[OF cur] by (auto simp: tasks_keyed_def task_key_def dest: distinct_map_eq)
      with ok show ?thesis unfolding rows by (intro list_all_update_where) (auto intro: transition_task_ok)
    next
      case (dependency_new i)
      then have rows: "db_tasks db' = update_where (\<lambda>k. task_key k = (di_task i, di_tenant i)) (bump_task (di_createdAt i)) (db_tasks db)"
        by (auto simp: dependency_insert_def put_task_def)
      show ?thesis unfolding rows by (rule list_all_update_where[OF ok]) (simp add: task_ok_def bump_task_def)
    next
      case (exception_change c ty x)
      then have "db_tasks db' = db_tasks db"
        by (auto simp: exception_write_def exception_insert_def Let_def dest!: event_step_tasks split: if_splits)
      with ok show ?thesis by simp
    qed (use ok in \<open>auto simp: mission_insert_def mission_write_def dest!: event_step_tasks\<close>)
  qed
  then show ?thesis using control_step_evolves[OF step] by (auto simp: list_all_iff intro: task_ok_evolves)
qed

lemma reachable_rows: "control_reachable h db \<Longrightarrow> rows_ok db"
proof (induction rule: reachable_induct)
  case (step db db')
  then show ?case using missions_ok_step[OF control_invD(1)] tasks_ok_step[OF control_invD(2)] by (simp add: rows_ok_def)
qed (simp add: fresh_control_def rows_ok_def)

text \<open>Claim C23: the rows of every reachable database are well-typed: ids of missions and tasks are unique,
  revisions are positive, a mission is linked to a campaign of its own product only, every task belongs to an
  existing mission and has the owner that its status calls for, and every exception carries the digest of its
  own content and belongs to an existing mission.\<close>

theorem rows_well_formed:
  assumes "control_reachable h db"
  shows "distinct (map m_id (db_missions db)) \<and> distinct (map t_id (db_tasks db)) \<and>
    list_all (\<lambda>m. 1 \<le> m_revision m \<and> (m_fettler m \<noteq> None \<longrightarrow> m_product m = Fettler) \<and>
      (m_regauge m \<noteq> None \<longrightarrow> m_product m = Regauge)) (db_missions db) \<and>
    list_all (\<lambda>k. 1 \<le> t_revision k \<and> 0 \<le> t_retries k \<and> ownerForStatus (t_status k) (t_owner k) = t_owner k \<and>
      getMission db (t_tenant k) (t_mission k) \<noteq> None) (db_tasks db) \<and>
    list_all (\<lambda>x. contentDigest h (exceptionDigestBody x) = x_id x \<and> getMission db (x_tenant x) (x_mission x) \<noteq> None) (db_exceptions db)"
  using reachable_rows[OF assms] reachable_inv[OF assms]
  by (auto simp: rows_ok_def control_inv_def missions_keyed_def tasks_keyed_def exceptions_sound_def exceptions_scoped_def
      list_all_iff mission_ok_def task_ok_def getMission_def)

theorem rows_well_formed_witness:
  "db_tasks demo_tasks \<noteq> [] \<and> list_all (\<lambda>k. getMission demo_tasks (t_tenant k) (t_mission k) \<noteq> None) (db_tasks demo_tasks)"
  using rows_well_formed[OF demo_tasks_reachable] demo_tasks_state
  by (auto simp: list_all_iff getMissionTask_def findTask_def find_None_iff)

end
