(* ===== verification/MissionRecords.thy ===== *)
theory MissionRecords
  imports MissionDispatch
begin

text \<open>
  The durable records of a mission beside its control plane: decisions (\<open>mission-decisions.ts\<close>),
  verification evidence (\<open>mission-verification.ts\<close>), registered artifacts with their lineage
  (\<open>mission-artifacts.ts\<close>), and the timeline read out of the audit log (\<open>mission-timeline.ts\<close>). A row's id
  is the digest of its content, so storing the same content again replays the row. The author, verifier,
  producer or recorder of a row is the actor of the call.
\<close>

section \<open>Rows\<close>

datatype decision_status = DActive | DRetracted

record decision_row =
  dc_id :: string
  dc_tenant :: string
  dc_mission :: string
  dc_decision :: string
  dc_scope :: string
  dc_author :: string
  dc_evidence :: "string list"
  dc_status :: decision_status
  dc_supersedes :: "string option"
  dc_digest :: string
  dc_createdAt :: string
  dc_type :: "string option"

datatype verification_status = VPassed | VFailed | VInconclusive

record verification_row =
  vr_id :: string
  vr_tenant :: string
  vr_mission :: string
  vr_verification :: string
  vr_scope :: string
  vr_snapshot :: string
  vr_sha :: string
  vr_manifest :: string
  vr_status :: verification_status
  vr_verifier :: string
  vr_digest :: string
  vr_createdAt :: string

record manifest_row =
  am_id :: string
  am_tenant :: string
  am_sha :: string

record artifact_row =
  ar_id :: string
  ar_tenant :: string
  ar_mission :: string
  ar_role :: string
  ar_artifact :: string
  ar_sha :: string
  ar_label :: string
  ar_producer :: string
  ar_digest :: string
  ar_createdAt :: string
  ar_task :: "string option"
  ar_snapshot :: "string option"

record lineage_row =
  ln_id :: string
  ln_tenant :: string
  ln_mission :: string
  ln_artifact :: string
  ln_parent :: string
  ln_recorder :: string
  ln_digest :: string
  ln_createdAt :: string

record record_store =
  rs_db :: app_db
  rs_decisions :: "decision_row list"
  rs_verifications :: "verification_row list"
  rs_manifests :: "manifest_row list"
  rs_artifacts :: "artifact_row list"
  rs_lineage :: "lineage_row list"

section \<open>Content-addressed insertion\<close>

text \<open>A row with this id is replayed if it is intact. Otherwise \<open>check\<close> gives the row to insert, the event is
  appended, and the row is read back.\<close>

definition put_content ::
  "('s \<Rightarrow> 'r list) \<Rightarrow> ('r \<Rightarrow> 's \<Rightarrow> 's) \<Rightarrow> ('r \<Rightarrow> string) \<Rightarrow> ('r \<Rightarrow> 'r result) \<Rightarrow> ('r \<Rightarrow> 's \<Rightarrow> 's result) \<Rightarrow>
     string \<Rightarrow> 'r result \<Rightarrow> 's \<Rightarrow> ('r \<times> 's) result" where
  "put_content rows add rid hydrate event dg check st =
     (case List.find (\<lambda>r. rid r = dg) (rows st) of
        Some e \<Rightarrow> bindR (hydrate e) (\<lambda>v. Inr (v, st))
      | None \<Rightarrow>
          bindR check (\<lambda>row.
          bindR (event row (add row st)) (\<lambda>st1.
          case List.find (\<lambda>r. rid r = dg) (rows st1) of
            None \<Rightarrow> throw ''TypeError''
          | Some e \<Rightarrow> bindR (hydrate e) (\<lambda>v. Inr (v, st1)))))"

text \<open>The event of a row: its id and idempotency key are derived from the digest.\<close>

definition record_event :: "host \<Rightarrow> call \<Rightarrow> string \<Rightarrow> string \<Rightarrow> string \<Rightarrow> string \<Rightarrow> json \<Rightarrow> record_store \<Rightarrow> record_store result" where
  "record_event h c kind dg mid ty payload st =
     bindR (mission_event h (c\<lparr>c_eventId := kind @ dg, c_idempotencyKey := kind @ dg\<rparr>) mid ty payload (rs_db st)) (\<lambda>db.
       Inr (st\<lparr>rs_db := db\<rparr>))"

section \<open>Decisions\<close>

fun decision_status_text :: "decision_status \<Rightarrow> string" where
  "decision_status_text DActive = ''active''"
| "decision_status_text DRetracted = ''retracted''"

definition decision_types :: "string list" where
  "decision_types = [''architecture'', ''migration'', ''policy'', ''verification'', ''exception_resolution'', ''preference'', ''other'']"

definition normalizeDecisionType :: "string option \<Rightarrow> string option result" where
  "normalizeDecisionType v =
     (if \<not> truthy v then Inr None else ensure (the v \<in> set decision_types) ''mission_decision_type_invalid'' (Inr v))"

fun evidence_refs :: "string list \<Rightarrow> string list \<Rightarrow> string list result" where
  "evidence_refs seen [] = Inr []"
| "evidence_refs seen (r # rs) =
     bindR (boundedText r ''mission_decision_evidence_invalid'' 1024) (\<lambda>t.
     ensure (t \<notin> set seen) ''mission_decision_evidence_invalid''
     (bindR (evidence_refs (t # seen) rs) (\<lambda>ts. Inr (t # ts))))"

definition normalizeEvidence :: "string list option \<Rightarrow> string list result" where
  "normalizeEvidence evidence =
     (case evidence of
        None \<Rightarrow> Inr []
      | Some rs \<Rightarrow> ensure (length rs \<le> 64) ''mission_decision_evidence_invalid'' (evidence_refs [] rs))"

definition decisionDigestBody :: "decision_row \<Rightarrow> json" where
  "decisionDigestBody d = JObj
     [(''kind'', JStr ''mission_decision''), (''schemaVersion'', JNum 1), (''tenantId'', JStr (dc_tenant d)),
      (''missionId'', JStr (dc_mission d)), (''decision'', JStr (dc_decision d)), (''scope'', JStr (dc_scope d)),
      (''authorPrincipalId'', JStr (dc_author d)), (''evidence'', JArr (map JStr (dc_evidence d))),
      (''status'', JStr (decision_status_text (dc_status d))), (''supersedesId'', opt_json (dc_supersedes d)),
      (''createdAt'', JStr (dc_createdAt d))]"

definition decisionDigest :: "host \<Rightarrow> decision_row \<Rightarrow> string" where
  "decisionDigest h d = contentDigest h (decisionDigestBody d)"

definition hydrateDecision :: "host \<Rightarrow> decision_row \<Rightarrow> decision_row result" where
  "hydrateDecision h d =
     ensure (decisionDigest h d = dc_digest d \<and> dc_digest d = dc_id d) ''mission_decision_corrupt'' (Inr d)"

definition add_decision :: "decision_row \<Rightarrow> record_store \<Rightarrow> record_store" where
  "add_decision d st = st\<lparr>rs_decisions := rs_decisions st @ [d]\<rparr>"

definition decision_event_type :: "decision_row \<Rightarrow> string" where
  "decision_event_type d = (if truthy (dc_supersedes d) then ''mission.decision_superseded'' else ''mission.decision_recorded'')"

definition decision_payload :: "decision_row \<Rightarrow> json" where
  "decision_payload d = JObj
     [(''decisionId'', JStr (dc_id d)), (''scope'', JStr (dc_scope d)),
      (''status'', JStr (decision_status_text (dc_status d))), (''supersedesId'', opt_json (dc_supersedes d))]"

definition decision_event :: "host \<Rightarrow> call \<Rightarrow> decision_row \<Rightarrow> record_store \<Rightarrow> record_store result" where
  "decision_event h c d =
     record_event h c ''mission-decision:'' (dc_id d) (dc_mission d) (decision_event_type d) (decision_payload d)"

text \<open>\<open>insertDecision\<close>: \<open>x\<close> carries the content; its id, digest and checked type are filled in here. The type
  is checked before the row is looked up.\<close>

definition insertDecision :: "host \<Rightarrow> call \<Rightarrow> decision_row \<Rightarrow> record_store \<Rightarrow> (decision_row \<times> record_store) result" where
  "insertDecision h c x st =
     bindR (normalizeDecisionType (dc_type x)) (\<lambda>ty.
       let dg = decisionDigest h x in
       put_content rs_decisions add_decision dc_id (hydrateDecision h) (decision_event h c) dg
         (Inr (x\<lparr>dc_id := dg, dc_digest := dg, dc_type := ty\<rparr>)) st)"

record decision_input =
  dn_decision :: string
  dn_scope :: string
  dn_evidence :: "string list option"
  dn_type :: "string option"

definition new_decision :: "call \<Rightarrow> string \<Rightarrow> string \<Rightarrow> string \<Rightarrow> string list \<Rightarrow> decision_status \<Rightarrow> string option \<Rightarrow> string option \<Rightarrow> decision_row" where
  "new_decision c mid decision scope evidence status supersedes ty =
     \<lparr>dc_id = [], dc_tenant = c_tenant c, dc_mission = mid, dc_decision = decision, dc_scope = scope, dc_author = c_actor c,
      dc_evidence = evidence, dc_status = status, dc_supersedes = supersedes, dc_digest = [], dc_createdAt = c_createdAt c,
      dc_type = ty\<rparr>"

definition recordMissionDecision :: "host \<Rightarrow> call \<Rightarrow> string \<Rightarrow> decision_input \<Rightarrow> record_store \<Rightarrow> (decision_row \<times> record_store) result" where
  "recordMissionDecision h c mid i st =
     bindR (boundedText (dn_decision i) ''mission_decision_text_invalid'' 4000) (\<lambda>decision.
     bindR (boundedText (dn_scope i) ''mission_decision_scope_invalid'' 512) (\<lambda>scope.
     bindR (boundedText (c_correlation c) ''mission_decision_correlation_invalid'' 256) (\<lambda>correlation.
     bindR (exactUtc (c_createdAt c) ''mission_decision_created_at_invalid'') (\<lambda>_.
     bindR (normalizeEvidence (dn_evidence i)) (\<lambda>evidence.
     bindR (assertMissionScope (rs_db st) (c_tenant c) mid) (\<lambda>_.
     bindR (assertRecordPrincipal (rs_db st) (c_tenant c) (c_actor c) ''mission_decision_author_tenant_mismatch'') (\<lambda>_.
     insertDecision h (c\<lparr>c_correlation := correlation\<rparr>) (new_decision c mid decision scope evidence DActive None (dn_type i)) st)))))))"

definition findDecision :: "record_store \<Rightarrow> string \<Rightarrow> string \<Rightarrow> decision_row option" where
  "findDecision st tenant did = List.find (\<lambda>d. dc_id d = did \<and> dc_tenant d = tenant) (rs_decisions st)"

text \<open>The transaction of \<open>supersedeMissionDecision\<close> and \<open>retractMissionDecision\<close>: the new row points at the
  prior one, which no other row may supersede.\<close>

definition supersede_prior :: "host \<Rightarrow> call \<Rightarrow> string \<Rightarrow> (decision_row \<Rightarrow> decision_row) \<Rightarrow> record_store \<Rightarrow> (decision_row \<times> record_store) result" where
  "supersede_prior h c priorId successor st =
     (case findDecision st (c_tenant c) priorId of
        None \<Rightarrow> throw ''mission_decision_prior_not_found''
      | Some prior \<Rightarrow>
          ensure (case List.find (\<lambda>d. dc_tenant d = c_tenant c \<and> dc_supersedes d = Some priorId) (rs_decisions st) of
              None \<Rightarrow> True | Some already \<Rightarrow> dc_id already = decisionDigest h (successor prior)) ''mission_decision_already_superseded''
            (insertDecision h c (successor prior) st))"

definition supersedeMissionDecision :: "host \<Rightarrow> call \<Rightarrow> string \<Rightarrow> decision_input \<Rightarrow> record_store \<Rightarrow> (decision_row \<times> record_store) result" where
  "supersedeMissionDecision h c priorId i st =
     bindR (boundedText (dn_decision i) ''mission_decision_text_invalid'' 4000) (\<lambda>decision.
     bindR (boundedText (dn_scope i) ''mission_decision_scope_invalid'' 512) (\<lambda>scope.
     bindR (boundedText (c_correlation c) ''mission_decision_correlation_invalid'' 256) (\<lambda>correlation.
     bindR (exactUtc (c_createdAt c) ''mission_decision_created_at_invalid'') (\<lambda>_.
     bindR (normalizeEvidence (dn_evidence i)) (\<lambda>evidence.
     bindR (assertRecordPrincipal (rs_db st) (c_tenant c) (c_actor c) ''mission_decision_author_tenant_mismatch'') (\<lambda>_.
     supersede_prior h (c\<lparr>c_correlation := correlation\<rparr>) priorId
       (\<lambda>prior. new_decision c (dc_mission prior) decision scope evidence DActive (Some priorId) (or_else (dn_type i) (dc_type prior))) st))))))"

definition retractMissionDecision :: "host \<Rightarrow> call \<Rightarrow> string \<Rightarrow> string \<Rightarrow> record_store \<Rightarrow> (decision_row \<times> record_store) result" where
  "retractMissionDecision h c priorId rationale st =
     bindR (boundedText rationale ''mission_decision_text_invalid'' 4000) (\<lambda>text.
     bindR (boundedText (c_correlation c) ''mission_decision_correlation_invalid'' 256) (\<lambda>correlation.
     bindR (exactUtc (c_createdAt c) ''mission_decision_created_at_invalid'') (\<lambda>_.
     bindR (assertRecordPrincipal (rs_db st) (c_tenant c) (c_actor c) ''mission_decision_author_tenant_mismatch'') (\<lambda>_.
     supersede_prior h (c\<lparr>c_correlation := correlation\<rparr>) priorId
       (\<lambda>prior. new_decision c (dc_mission prior) text (dc_scope prior) [] DRetracted (Some priorId) None) st))))"

datatype effective_status = EffActive | EffSuperseded | EffRetracted

record decision_view =
  dv_row :: decision_row
  dv_status :: effective_status
  dv_supersededBy :: "string option"

text \<open>\<open>annotate\<close>: the last row that names a row supersedes it.\<close>

definition decision_superseder :: "decision_row list \<Rightarrow> string \<Rightarrow> string option" where
  "decision_superseder rows did =
     map_option dc_id (List.find (\<lambda>d. truthy (dc_supersedes d) \<and> dc_supersedes d = Some did) (rev rows))"

definition annotate_row :: "decision_row list \<Rightarrow> decision_row \<Rightarrow> decision_view" where
  "annotate_row rows d =
     (let by = decision_superseder rows (dc_id d)
      in \<lparr>dv_row = d,
          dv_status = (if truthy by then EffSuperseded else if dc_status d = DActive then EffActive else EffRetracted),
          dv_supersededBy = by\<rparr>)"

fun hydrate_all :: "('r \<Rightarrow> 'r result) \<Rightarrow> 'r list \<Rightarrow> 'r list result" where
  "hydrate_all f [] = Inr []"
| "hydrate_all f (r # rs) = bindR (f r) (\<lambda>v. bindR (hydrate_all f rs) (\<lambda>vs. Inr (v # vs)))"

definition annotate :: "host \<Rightarrow> decision_row list \<Rightarrow> decision_view list result" where
  "annotate h rows = bindR (hydrate_all (hydrateDecision h) rows) (\<lambda>ds. Inr (map (annotate_row rows) ds))"

definition mission_decisions :: "record_store \<Rightarrow> string \<Rightarrow> string \<Rightarrow> decision_row list" where
  "mission_decisions st tenant mid = filter (\<lambda>d. dc_tenant d = tenant \<and> dc_mission d = mid) (rs_decisions st)"

definition listMissionDecisions :: "host \<Rightarrow> record_store \<Rightarrow> string \<Rightarrow> string \<Rightarrow> decision_view list result" where
  "listMissionDecisions h st tenant mid =
     annotate h (sort_key dc_createdAt (sort_key dc_id (mission_decisions st tenant mid)))"

definition getActiveMissionDecisions :: "host \<Rightarrow> record_store \<Rightarrow> string \<Rightarrow> string \<Rightarrow> decision_view list result" where
  "getActiveMissionDecisions h st tenant mid =
     bindR (listMissionDecisions h st tenant mid) (\<lambda>vs. Inr (filter (\<lambda>v. dv_status v = EffActive) vs))"

definition getMissionDecision :: "host \<Rightarrow> record_store \<Rightarrow> string \<Rightarrow> string \<Rightarrow> decision_view option result" where
  "getMissionDecision h st tenant did =
     (case findDecision st tenant did of
        None \<Rightarrow> Inr None
      | Some row \<Rightarrow>
          bindR (annotate h (mission_decisions st tenant (dc_mission row))) (\<lambda>vs.
            Inr (List.find (\<lambda>v. dc_id (dv_row v) = did) vs)))"

section \<open>Verification evidence\<close>

record verification_identity =
  vi_snapshot :: string
  vi_sha :: string
  vi_manifest :: string

fun verification_status_text :: "verification_status \<Rightarrow> string" where
  "verification_status_text VPassed = ''passed''"
| "verification_status_text VFailed = ''failed''"
| "verification_status_text VInconclusive = ''inconclusive''"

definition verificationDigestBody :: "verification_row \<Rightarrow> json" where
  "verificationDigestBody v = JObj
     [(''kind'', JStr ''mission_verification''), (''schemaVersion'', JNum 1), (''tenantId'', JStr (vr_tenant v)),
      (''missionId'', JStr (vr_mission v)), (''verification'', JStr (vr_verification v)), (''scope'', JStr (vr_scope v)),
      (''snapshotId'', JStr (vr_snapshot v)), (''resolvedSha'', JStr (vr_sha v)), (''manifestSha256'', JStr (vr_manifest v)),
      (''status'', JStr (verification_status_text (vr_status v))), (''verifierPrincipalId'', JStr (vr_verifier v)),
      (''createdAt'', JStr (vr_createdAt v))]"

definition verificationDigest :: "host \<Rightarrow> verification_row \<Rightarrow> string" where
  "verificationDigest h v = contentDigest h (verificationDigestBody v)"

definition hydrateVerification :: "host \<Rightarrow> verification_row \<Rightarrow> verification_row result" where
  "hydrateVerification h v =
     ensure (verificationDigest h v = vr_digest v \<and> vr_digest v = vr_id v) ''mission_verification_corrupt'' (Inr v)"

definition add_verification :: "verification_row \<Rightarrow> record_store \<Rightarrow> record_store" where
  "add_verification v st = st\<lparr>rs_verifications := rs_verifications st @ [v]\<rparr>"

definition resolveMissionSnapshotIdentity :: "record_store \<Rightarrow> string \<Rightarrow> string \<Rightarrow> verification_identity result" where
  "resolveMissionSnapshotIdentity st tenant sid =
     (case List.find (\<lambda>s. sn_id s = sid \<and> sn_tenant s = tenant) (db_snapshots (rs_db st)) of
        None \<Rightarrow> throw ''mission_verification_snapshot_not_found''
      | Some s \<Rightarrow> Inr \<lparr>vi_snapshot = sid, vi_sha = sn_sha s, vi_manifest = sn_manifest s\<rparr>)"

record verification_input =
  vn_verification :: string
  vn_scope :: string
  vn_identity :: verification_identity
  vn_status :: verification_status

definition new_verification :: "host \<Rightarrow> call \<Rightarrow> string \<Rightarrow> verification_input \<Rightarrow> string \<Rightarrow> string \<Rightarrow> verification_row" where
  "new_verification h c mid i verification scope =
     (let v = \<lparr>vr_id = [], vr_tenant = c_tenant c, vr_mission = mid, vr_verification = verification, vr_scope = scope,
        vr_snapshot = vi_snapshot (vn_identity i), vr_sha = vi_sha (vn_identity i), vr_manifest = vi_manifest (vn_identity i),
        vr_status = vn_status i, vr_verifier = c_actor c, vr_digest = [], vr_createdAt = c_createdAt c\<rparr>
      in v\<lparr>vr_id := verificationDigest h v, vr_digest := verificationDigest h v\<rparr>)"

definition verification_payload :: "verification_row \<Rightarrow> json" where
  "verification_payload v = JObj
     [(''verificationId'', JStr (vr_id v)), (''scope'', JStr (vr_scope v)),
      (''status'', JStr (verification_status_text (vr_status v))), (''snapshotId'', JStr (vr_snapshot v)),
      (''resolvedSha'', JStr (vr_sha v)), (''manifestSha256'', JStr (vr_manifest v))]"

definition verification_event :: "host \<Rightarrow> call \<Rightarrow> verification_row \<Rightarrow> record_store \<Rightarrow> record_store result" where
  "verification_event h c v =
     record_event h c ''mission-verification:'' (vr_id v) (vr_mission v) ''mission.verification_recorded'' (verification_payload v)"

definition recordMissionVerification :: "host \<Rightarrow> call \<Rightarrow> string \<Rightarrow> verification_input \<Rightarrow> record_store \<Rightarrow> (verification_row \<times> record_store) result" where
  "recordMissionVerification h c mid i st =
     bindR (boundedText (vn_verification i) ''mission_verification_text_invalid'' 4000) (\<lambda>verification.
     bindR (boundedText (vn_scope i) ''mission_verification_scope_invalid'' 512) (\<lambda>scope.
     bindR (boundedText (c_correlation c) ''mission_verification_correlation_invalid'' 256) (\<lambda>correlation.
     bindR (exactUtc (c_createdAt c) ''mission_verification_created_at_invalid'') (\<lambda>_.
     bindR (assertMissionScope (rs_db st) (c_tenant c) mid) (\<lambda>_.
     bindR (assertRecordPrincipal (rs_db st) (c_tenant c) (c_actor c) ''mission_verification_verifier_tenant_mismatch'') (\<lambda>_.
     bindR (resolveMissionSnapshotIdentity st (c_tenant c) (vi_snapshot (vn_identity i))) (\<lambda>bound.
     ensure (vi_sha bound = vi_sha (vn_identity i) \<and> vi_manifest bound = vi_manifest (vn_identity i))
       ''mission_verification_snapshot_binding_mismatch''
     (let v = new_verification h c mid i verification scope in
      put_content rs_verifications add_verification vr_id (hydrateVerification h)
        (verification_event h (c\<lparr>c_correlation := correlation\<rparr>)) (vr_id v) (Inr v) st))))))))"

datatype identity_field = SnapshotId | ResolvedSha | ManifestSha

datatype verification_absence =
    NoVerificationRecorded | CurrentVerificationFailed | CurrentVerificationInconclusive | OnlyStaleEvidence
  | AmbiguousCurrentCandidate

datatype verification_standing =
    CurrentEvidence verification_row
  | StaleEvidence verification_row identity_field string string
  | NoCurrentEvidence verification_absence

definition identityMatches :: "verification_row \<Rightarrow> verification_identity \<Rightarrow> bool" where
  "identityMatches v cur \<longleftrightarrow> vr_snapshot v = vi_snapshot cur \<and> vr_sha v = vi_sha cur \<and> vr_manifest v = vi_manifest cur"

definition stale_evidence :: "verification_row \<Rightarrow> verification_identity \<Rightarrow> verification_standing" where
  "stale_evidence v cur =
     (if vr_snapshot v \<noteq> vi_snapshot cur then StaleEvidence v SnapshotId (vr_snapshot v) (vi_snapshot cur)
      else if vr_sha v \<noteq> vi_sha cur then StaleEvidence v ResolvedSha (vr_sha v) (vi_sha cur)
      else StaleEvidence v ManifestSha (vr_manifest v) (vi_manifest cur))"

text \<open>The comparison function of the sort: newest first, and of two with one timestamp the greater id first.\<close>

definition recency :: "verification_row \<Rightarrow> verification_row \<Rightarrow> int" where
  "recency a b =
     (if vr_createdAt a < vr_createdAt b then 1 else if vr_createdAt b < vr_createdAt a then -1
      else if vr_id a < vr_id b then 1 else -1)"

definition classifyMissionVerificationEvidence :: "verification_row list \<Rightarrow> verification_identity \<Rightarrow> verification_standing" where
  "classifyMissionVerificationEvidence records cur =
     (let byRecency = js_sort recency records;
          currentIdentity = filter (\<lambda>v. identityMatches v cur) byRecency
      in case List.find (\<lambda>v. vr_status v = VPassed) currentIdentity of
           Some v \<Rightarrow> CurrentEvidence v
         | None \<Rightarrow>
             (case currentIdentity of
                latest # _ \<Rightarrow> NoCurrentEvidence (if vr_status latest = VFailed then CurrentVerificationFailed else CurrentVerificationInconclusive)
              | [] \<Rightarrow>
                  (case List.find (\<lambda>v. vr_status v = VPassed) byRecency of
                     Some v \<Rightarrow> stale_evidence v cur
                   | None \<Rightarrow> NoCurrentEvidence (if records = [] then NoVerificationRecorded else OnlyStaleEvidence))))"

definition verificationScopeFamily :: "string \<Rightarrow> string" where
  "verificationScopeFamily scope =
     (let n = length scope - 64; m = n - 11
      in if 75 \<le> length scope \<and> list_all hex_lower (drop n scope) \<and> take 11 (drop m scope) = '':candidate:'' then take m scope else scope)"

datatype verification_selection =
    CurrentSelection string verification_row
  | AmbiguousSelection string "verification_row list"

fun selection_family :: "verification_selection \<Rightarrow> string" where
  "selection_family (CurrentSelection f v) = f"
| "selection_family (AmbiguousSelection f vs) = f"

definition group_families :: "verification_row list \<Rightarrow> (string, verification_row list) jsmap" where
  "group_families records =
     fold (\<lambda>v m. let f = verificationScopeFamily (vr_scope v) in
        map_set m f ((case map_get m f of None \<Rightarrow> [] | Some b \<Rightarrow> b) @ [v])) records []"

definition newest_of :: "verification_row list \<Rightarrow> verification_row list" where
  "newest_of vs =
     (let top = fold (\<lambda>v t. if t < vr_createdAt v then vr_createdAt v else t) vs (vr_createdAt (hd vs))
      in filter (\<lambda>v. vr_createdAt v = top) vs)"

definition selectCurrentVerificationRecords :: "verification_row list \<Rightarrow> verification_selection list" where
  "selectCurrentVerificationRecords records =
     js_sort (\<lambda>a b. compare_text (selection_family a) (selection_family b))
       (map (\<lambda>(f, b). case newest_of b of [v] \<Rightarrow> CurrentSelection f v | vs \<Rightarrow> AmbiguousSelection f vs) (group_families records))"

text \<open>\<open>ORDER BY created_at DESC, id DESC\<close>.\<close>

definition newest_first :: "('r \<Rightarrow> string) \<Rightarrow> ('r \<Rightarrow> string) \<Rightarrow> 'r list \<Rightarrow> 'r list" where
  "newest_first createdAt rid rows = rev (sort_key createdAt (sort_key rid rows))"

definition listMissionVerifications :: "host \<Rightarrow> record_store \<Rightarrow> string \<Rightarrow> string \<Rightarrow> string option \<Rightarrow> verification_row list result" where
  "listMissionVerifications h st tenant mid scope =
     hydrate_all (hydrateVerification h)
       (newest_first vr_createdAt vr_id
         (filter (\<lambda>v. vr_tenant v = tenant \<and> vr_mission v = mid \<and> (case scope of None \<Rightarrow> True | Some x \<Rightarrow> vr_scope v = x)) (rs_verifications st)))"

definition missionVerificationStanding :: "host \<Rightarrow> record_store \<Rightarrow> string \<Rightarrow> string \<Rightarrow> string \<Rightarrow> verification_identity \<Rightarrow> verification_standing result" where
  "missionVerificationStanding h st tenant mid scope cur =
     bindR (listMissionVerifications h st tenant mid (Some scope)) (\<lambda>vs. Inr (classifyMissionVerificationEvidence vs cur))"

section \<open>Artifacts\<close>

definition artifact_roles :: "string list" where
  "artifact_roles = [''impact_report'', ''migration_plan'', ''candidate_patch'', ''pull_request'', ''test_run'',
     ''verification_report'', ''architecture_report'', ''rollback_plan'', ''graph_diff'']"

definition artifactDigestBody :: "artifact_row \<Rightarrow> json" where
  "artifactDigestBody a = JObj
     [(''kind'', JStr ''mission_artifact''), (''schemaVersion'', JNum 1), (''tenantId'', JStr (ar_tenant a)),
      (''missionId'', JStr (ar_mission a)), (''role'', JStr (ar_role a)), (''artifactId'', JStr (ar_artifact a)),
      (''artifactSha256'', JStr (ar_sha a)), (''label'', JStr (ar_label a)), (''producerPrincipalId'', JStr (ar_producer a)),
      (''createdAt'', JStr (ar_createdAt a))]"

definition artifactDigest :: "host \<Rightarrow> artifact_row \<Rightarrow> string" where
  "artifactDigest h a = contentDigest h (artifactDigestBody a)"

definition hydrateArtifact :: "host \<Rightarrow> artifact_row \<Rightarrow> artifact_row result" where
  "hydrateArtifact h a =
     ensure (artifactDigest h a = ar_digest a \<and> ar_digest a = ar_id a) ''mission_artifact_corrupt'' (Inr a)"

definition add_artifact :: "artifact_row \<Rightarrow> record_store \<Rightarrow> record_store" where
  "add_artifact a st = st\<lparr>rs_artifacts := rs_artifacts st @ [a]\<rparr>"

definition requireTenantArtifact :: "record_store \<Rightarrow> string \<Rightarrow> string \<Rightarrow> string result" where
  "requireTenantArtifact st tenant aid =
     (case List.find (\<lambda>m. am_id m = aid \<and> am_tenant m = tenant) (rs_manifests st) of
        None \<Rightarrow> throw ''mission_artifact_manifest_not_found''
      | Some m \<Rightarrow> Inr (am_sha m))"

definition artifact_payload :: "artifact_row \<Rightarrow> json" where
  "artifact_payload a = JObj
     [(''artifactRegistrationId'', JStr (ar_id a)), (''role'', JStr (ar_role a)), (''artifactId'', JStr (ar_artifact a)),
      (''artifactSha256'', JStr (ar_sha a))]"

definition artifact_event :: "host \<Rightarrow> call \<Rightarrow> artifact_row \<Rightarrow> record_store \<Rightarrow> record_store result" where
  "artifact_event h c a =
     record_event h c ''mission-artifact:'' (ar_id a) (ar_mission a) ''mission.artifact_registered'' (artifact_payload a)"

record artifact_input =
  an_role :: string
  an_artifact :: string
  an_label :: string
  an_task :: "string option"
  an_snapshot :: "string option"

definition optional_text :: "string option \<Rightarrow> string \<Rightarrow> string option result" where
  "optional_text v code =
     (if \<not> truthy v then Inr None else bindR (boundedText (the v) code 256) (\<lambda>t. Inr (Some t)))"

definition new_artifact :: "host \<Rightarrow> call \<Rightarrow> string \<Rightarrow> artifact_input \<Rightarrow> string \<Rightarrow> string \<Rightarrow> artifact_row" where
  "new_artifact h c mid i sha label =
     (let a = \<lparr>ar_id = [], ar_tenant = c_tenant c, ar_mission = mid, ar_role = an_role i, ar_artifact = an_artifact i, ar_sha = sha,
        ar_label = label, ar_producer = c_actor c, ar_digest = [], ar_createdAt = c_createdAt c, ar_task = None, ar_snapshot = None\<rparr>
      in a\<lparr>ar_id := artifactDigest h a, ar_digest := artifactDigest h a\<rparr>)"

definition check_artifact :: "artifact_input \<Rightarrow> artifact_row \<Rightarrow> record_store \<Rightarrow> artifact_row result" where
  "check_artifact i a st =
     ensure (\<not> exists_row (\<lambda>x. ar_tenant x = ar_tenant a \<and> ar_mission x = ar_mission a \<and> ar_role x = ar_role a \<and> ar_artifact x = ar_artifact a)
         (rs_artifacts st)) ''mission_artifact_already_registered''
     (bindR (optional_text (an_task i) ''mission_artifact_task_id_invalid'') (\<lambda>task.
      bindR (optional_text (an_snapshot i) ''mission_artifact_source_snapshot_invalid'') (\<lambda>snapshot.
      Inr (a\<lparr>ar_task := task, ar_snapshot := snapshot\<rparr>))))"

definition registerMissionArtifact :: "host \<Rightarrow> call \<Rightarrow> string \<Rightarrow> artifact_input \<Rightarrow> record_store \<Rightarrow> (artifact_row \<times> record_store) result" where
  "registerMissionArtifact h c mid i st =
     ensure (an_role i \<in> set artifact_roles) ''mission_artifact_role_invalid''
     (bindR (boundedText (an_label i) ''mission_artifact_label_invalid'' 512) (\<lambda>label.
      bindR (boundedText (c_correlation c) ''mission_artifact_correlation_invalid'' 256) (\<lambda>correlation.
      bindR (exactUtc (c_createdAt c) ''mission_artifact_created_at_invalid'') (\<lambda>_.
      bindR (assertMissionScope (rs_db st) (c_tenant c) mid) (\<lambda>_.
      bindR (assertRecordPrincipal (rs_db st) (c_tenant c) (c_actor c) ''mission_artifact_producer_tenant_mismatch'') (\<lambda>_.
      bindR (requireTenantArtifact st (c_tenant c) (an_artifact i)) (\<lambda>sha.
      let a = new_artifact h c mid i sha label in
      put_content rs_artifacts add_artifact ar_id (hydrateArtifact h)
        (artifact_event h (c\<lparr>c_correlation := correlation\<rparr>)) (ar_id a) (check_artifact i a st) st)))))))"

definition listMissionArtifacts :: "host \<Rightarrow> record_store \<Rightarrow> string \<Rightarrow> string \<Rightarrow> string option \<Rightarrow> int option \<Rightarrow> artifact_row list result" where
  "listMissionArtifacts h st tenant mid role limit =
     ensure (case limit of None \<Rightarrow> True | Some n \<Rightarrow> 1 \<le> n \<and> n \<le> 1000) ''mission_artifact_list_limit_invalid''
     (let rows = newest_first ar_createdAt ar_id
        (filter (\<lambda>a. ar_tenant a = tenant \<and> ar_mission a = mid \<and> (case role of None \<Rightarrow> True | Some r \<Rightarrow> ar_role a = r)) (rs_artifacts st))
      in hydrate_all (hydrateArtifact h) (case limit of None \<Rightarrow> rows | Some n \<Rightarrow> take (nat n) rows))"

section \<open>Lineage\<close>

definition lineageDigestBody :: "lineage_row \<Rightarrow> json" where
  "lineageDigestBody l = JObj
     [(''kind'', JStr ''mission_artifact_lineage''), (''schemaVersion'', JNum 1), (''relation'', JStr ''derived_from''),
      (''tenantId'', JStr (ln_tenant l)), (''missionId'', JStr (ln_mission l)), (''artifactId'', JStr (ln_artifact l)),
      (''parentArtifactId'', JStr (ln_parent l)), (''recordedByPrincipalId'', JStr (ln_recorder l)),
      (''createdAt'', JStr (ln_createdAt l))]"

definition lineageDigest :: "host \<Rightarrow> lineage_row \<Rightarrow> string" where
  "lineageDigest h l = contentDigest h (lineageDigestBody l)"

definition hydrateLineage :: "host \<Rightarrow> lineage_row \<Rightarrow> lineage_row result" where
  "hydrateLineage h l =
     ensure (lineageDigest h l = ln_digest l \<and> ln_digest l = ln_id l) ''mission_artifact_lineage_corrupt'' (Inr l)"

definition add_lineage :: "lineage_row \<Rightarrow> record_store \<Rightarrow> record_store" where
  "add_lineage l st = st\<lparr>rs_lineage := rs_lineage st @ [l]\<rparr>"

definition lineage_payload :: "lineage_row \<Rightarrow> json" where
  "lineage_payload l = JObj
     [(''lineageId'', JStr (ln_id l)), (''artifactId'', JStr (ln_artifact l)), (''parentArtifactId'', JStr (ln_parent l)),
      (''relation'', JStr ''derived_from'')]"

definition lineage_event :: "host \<Rightarrow> call \<Rightarrow> lineage_row \<Rightarrow> record_store \<Rightarrow> record_store result" where
  "lineage_event h c l =
     record_event h c ''mission-artifact-lineage:'' (ln_id l) (ln_mission l) ''mission.artifact_lineage_recorded'' (lineage_payload l)"

definition lineage_parents :: "lineage_row list \<Rightarrow> string \<Rightarrow> string \<Rightarrow> string \<Rightarrow> string list" where
  "lineage_parents rows tenant mid a =
     map ln_parent (filter (\<lambda>l. ln_tenant l = tenant \<and> ln_mission l = mid \<and> ln_artifact l = a) rows)"

definition max_lineage_walk :: int where "max_lineage_walk = 4096"

text \<open>The walk of \<open>wouldCreateCycle\<close>; the head of the frontier is its end.\<close>

function cycle_walk :: "(string \<Rightarrow> string list) \<Rightarrow> string \<Rightarrow> string list \<Rightarrow> int \<Rightarrow> string list \<Rightarrow> bool result" where
  "cycle_walk parents target seen visited [] = Inr False"
| "cycle_walk parents target seen visited (n # frontier) =
     (if n = target then Inr True
      else if n \<in> set seen then cycle_walk parents target seen visited frontier
      else if max_lineage_walk < visited + 1 then throw ''mission_artifact_lineage_walk_exceeded''
      else cycle_walk parents target (n # seen) (visited + 1) (rev (parents n) @ frontier))"
  by pat_completeness auto
termination
  by (relation "measures [\<lambda>(parents, target, seen, visited, frontier). nat (max_lineage_walk - visited),
    \<lambda>(parents, target, seen, visited, frontier). length frontier]") auto

definition wouldCreateCycle :: "record_store \<Rightarrow> string \<Rightarrow> string \<Rightarrow> string \<Rightarrow> string \<Rightarrow> bool result" where
  "wouldCreateCycle st tenant mid artifact parent =
     cycle_walk (lineage_parents (rs_lineage st) tenant mid) artifact [] 0 [parent]"

definition artifact_registered :: "record_store \<Rightarrow> string \<Rightarrow> string \<Rightarrow> string \<Rightarrow> bool" where
  "artifact_registered st tenant mid a \<longleftrightarrow>
     exists_row (\<lambda>x. ar_tenant x = tenant \<and> ar_mission x = mid \<and> ar_artifact x = a) (rs_artifacts st)"

definition new_lineage :: "host \<Rightarrow> call \<Rightarrow> string \<Rightarrow> string \<Rightarrow> string \<Rightarrow> lineage_row" where
  "new_lineage h c mid a p =
     (let l = \<lparr>ln_id = [], ln_tenant = c_tenant c, ln_mission = mid, ln_artifact = a, ln_parent = p, ln_recorder = c_actor c,
        ln_digest = [], ln_createdAt = c_createdAt c\<rparr>
      in l\<lparr>ln_id := lineageDigest h l, ln_digest := lineageDigest h l\<rparr>)"

definition check_lineage :: "lineage_row \<Rightarrow> record_store \<Rightarrow> lineage_row result" where
  "check_lineage l st =
     ensure (\<not> exists_row (\<lambda>x. ln_tenant x = ln_tenant l \<and> ln_mission x = ln_mission l \<and> ln_artifact x = ln_artifact l \<and> ln_parent x = ln_parent l)
         (rs_lineage st)) ''mission_artifact_lineage_already_recorded''
     (bindR (wouldCreateCycle st (ln_tenant l) (ln_mission l) (ln_artifact l) (ln_parent l)) (\<lambda>cycle.
      ensure (\<not> cycle) ''mission_artifact_lineage_cycle'' (Inr l)))"

definition recordMissionArtifactLineage :: "host \<Rightarrow> call \<Rightarrow> string \<Rightarrow> string \<Rightarrow> string \<Rightarrow> record_store \<Rightarrow> (lineage_row \<times> record_store) result" where
  "recordMissionArtifactLineage h c mid artifact parent st =
     bindR (boundedText (c_correlation c) ''mission_artifact_lineage_correlation_invalid'' 256) (\<lambda>correlation.
     bindR (exactUtc (c_createdAt c) ''mission_artifact_lineage_created_at_invalid'') (\<lambda>_.
     ensure (artifact \<noteq> parent) ''mission_artifact_lineage_self_loop''
     (bindR (assertMissionScope (rs_db st) (c_tenant c) mid) (\<lambda>_.
      bindR (assertRecordPrincipal (rs_db st) (c_tenant c) (c_actor c) ''mission_artifact_lineage_recorder_tenant_mismatch'') (\<lambda>_.
      ensure (artifact_registered st (c_tenant c) mid artifact) ''mission_artifact_lineage_child_unregistered''
      (ensure (artifact_registered st (c_tenant c) mid parent) ''mission_artifact_lineage_parent_unregistered''
      (let l = new_lineage h c mid artifact parent in
       put_content rs_lineage add_lineage ln_id (hydrateLineage h)
         (lineage_event h (c\<lparr>c_correlation := correlation\<rparr>)) (ln_id l) (check_lineage l st) st)))))))"

definition listMissionArtifactLineage :: "host \<Rightarrow> record_store \<Rightarrow> string \<Rightarrow> string \<Rightarrow> lineage_row list result" where
  "listMissionArtifactLineage h st tenant mid =
     hydrate_all (hydrateLineage h)
       (newest_first ln_createdAt ln_id (filter (\<lambda>l. ln_tenant l = tenant \<and> ln_mission l = mid) (rs_lineage st)))"

text \<open>\<open>Set.add\<close> of every element.\<close>

definition add_all :: "'a list \<Rightarrow> 'a list \<Rightarrow> 'a list" where
  "add_all xs acc = fold (\<lambda>x a. if x \<in> set a then a else a @ [x]) xs acc"

function ancestry_walk :: "(string \<Rightarrow> string list) \<Rightarrow> string list \<Rightarrow> string list \<Rightarrow> int \<Rightarrow> string list \<Rightarrow> string list result" where
  "ancestry_walk parents seen ancestors visited [] = Inr ancestors"
| "ancestry_walk parents seen ancestors visited (n # frontier) =
     (if n \<in> set seen then ancestry_walk parents seen ancestors visited frontier
      else if max_lineage_walk < visited + 1 then throw ''mission_artifact_lineage_walk_exceeded''
      else ancestry_walk parents (n # seen) (add_all (parents n) ancestors) (visited + 1)
             (rev (filter (\<lambda>p. p \<notin> set (n # seen)) (parents n)) @ frontier))"
  by pat_completeness auto
termination
  by (relation "measures [\<lambda>(parents, seen, ancestors, visited, frontier). nat (max_lineage_walk - visited),
    \<lambda>(parents, seen, ancestors, visited, frontier). length frontier]") auto

definition traceMissionArtifactAncestry :: "record_store \<Rightarrow> string \<Rightarrow> string \<Rightarrow> string \<Rightarrow> string list result" where
  "traceMissionArtifactAncestry st tenant mid a =
     ancestry_walk (lineage_parents (rs_lineage st) tenant mid) [] [] 0 [a]"

section \<open>Timeline\<close>

record timeline_entry =
  te_sequence :: nat
  te_eventId :: string
  te_type :: string
  te_actor :: string
  te_correlation :: string
  te_causation :: "string option"
  te_payload :: json
  te_payloadSha :: string
  te_hash :: string
  te_createdAt :: string

definition toEntry :: "domain_event \<Rightarrow> timeline_entry" where
  "toEntry e = \<lparr>te_sequence = ev_sequence e, te_eventId = ev_id e, te_type = ev_type e, te_actor = ev_actor e,
     te_correlation = ev_correlation e, te_causation = ev_causation e, te_payload = ev_payload e,
     te_payloadSha = ev_payloadSha e, te_hash = ev_hash e, te_createdAt = ev_createdAt e\<rparr>"

text \<open>The timeline: whether the mission exists, the entries and the number of events checked.\<close>

datatype timeline =
    TimelineOk bool "timeline_entry list" nat
  | ChainBroken nat string
  | Unreadable string

definition readMissionTimeline :: "host \<Rightarrow> app_db \<Rightarrow> string \<Rightarrow> string \<Rightarrow> timeline" where
  "readMissionTimeline h db tenant mid =
     (let ig = verifyDomainEventIntegrity h db tenant
      in if \<not> ig_ok ig then ChainBroken (ig_checked ig) (case ig_error ig of None \<Rightarrow> ''domain_event_integrity_failed'' | Some e \<Rightarrow> e)
         else (case listDomainEvents db tenant ''mission'' mid of
                 Inl (Error e) \<Rightarrow> Unreadable e
               | Inr rows \<Rightarrow> TimelineOk (findMission db tenant mid \<noteq> None) (map toEntry rows) (ig_checked ig)))"

end
