(* ===== verification/MissionHandoff.thy ===== *)
theory MissionHandoff
  imports MissionRecords
begin

text \<open>
  The hand-over of a task from the agent to a human and back (\<open>mission-handoff.ts\<close>): a composition of the
  exception register, the decision log and the task engine. The inner operations run inside one
  transaction, so an error of any of them leaves the store as it was.
\<close>

section \<open>Helpers\<close>

definition handoff_reasons :: "string list" where
  "handoff_reasons = [''graph_incomplete'', ''high_risk_change'', ''ambiguous_requirement'', ''policy_exception'',
     ''verification_failure'', ''architecture_decision_required'']"

definition assertHandoffReason :: "string \<Rightarrow> string result" where
  "assertHandoffReason r = ensure (r \<in> set handoff_reasons) ''task_handoff_reason_invalid'' (Inr r)"

definition human_handoff_statuses :: "task_status list" where
  "human_handoff_statuses = [THumanReviewRequired, THumanAssigned, THumanWorking]"

definition eventKey :: "string \<Rightarrow> string \<Rightarrow> task_status \<Rightarrow> int \<Rightarrow> string" where
  "eventKey correlation tid to revision =
     correlation @ '':mission-task:'' @ tid @ '':'' @ status_text to @ '':r'' @ int_str revision"

definition bound_task :: "app_db \<Rightarrow> string \<Rightarrow> string \<Rightarrow> string \<Rightarrow> mission_task result" where
  "bound_task db tenant mid tid =
     (case getMissionTask db tenant tid of
        None \<Rightarrow> throw ''mission_task_not_found''
      | Some t \<Rightarrow> ensure (t_mission t = mid) ''mission_task_mission_mismatch'' (Inr t))"

definition transitionBoundTask :: "host \<Rightarrow> call \<Rightarrow> string \<Rightarrow> string \<Rightarrow> task_status \<Rightarrow> string option \<Rightarrow> app_db \<Rightarrow> (mission_task \<times> app_db) result" where
  "transitionBoundTask h c mid tid to handoff db =
     bindR (bound_task db (c_tenant c) mid tid) (\<lambda>t.
       let key = eventKey (c_correlation c) (t_id t) to (t_revision t)
       in transitionMissionTask h (c\<lparr>c_eventId := key, c_idempotencyKey := key\<rparr>) (t_id t) (t_revision t) to None handoff db)"

section \<open>Opening\<close>

record handoff_input =
  ho_mission :: string
  ho_reason :: string
  ho_question :: string
  ho_context :: string
  ho_task :: "string option"
  ho_observed :: "snapshot_identity option"

definition handoff_exception :: "handoff_input \<Rightarrow> string \<Rightarrow> raise_input" where
  "handoff_exception i reason =
     \<lparr>ri_mission = ho_mission i, ri_reason = ''['' @ reason @ ''] '' @ trim (ho_question i), ri_impact = ho_context i,
      ri_resolution = ''await_human_resolution'', ri_blocking = True, ri_observed = ho_observed i,
      ri_task = (if truthy (ho_task i) then ho_task i else None), ri_category = Some reason\<rparr>"

text \<open>The owner of the exception is the actor of the call.\<close>

definition openTaskHandoff :: "host \<Rightarrow> call \<Rightarrow> handoff_input \<Rightarrow> app_db \<Rightarrow> (exception_row \<times> app_db) result" where
  "openTaskHandoff h c i db =
     bindR (assertHandoffReason (ho_reason i)) (\<lambda>reason.
     ensure (has_text (ho_question i)) ''task_handoff_question_required''
     (bindR (raiseMissionException h c (handoff_exception i reason) db) (\<lambda>(x, db1).
      if \<not> truthy (ho_task i) then Inr (x, db1)
      else bindR (bound_task db1 (c_tenant c) (ho_mission i) (the (ho_task i))) (\<lambda>t.
           ensure (t_status t = TAgentWorking \<or> t_status t = THumanReviewRequired) ''task_handoff_task_not_agent_working''
           (bindR (transitionBoundTask h c (ho_mission i) (the (ho_task i)) THumanReviewRequired (Some reason) db1) (\<lambda>(t', db2).
              Inr (x, db2)))))))"

section \<open>Resolving\<close>

record resolution_input =
  hr_exception :: string
  hr_note :: string
  hr_decision :: string
  hr_scope :: string
  hr_evidence :: "string list option"
  hr_task :: "string option"

definition resolveTaskHandoff :: "host \<Rightarrow> call \<Rightarrow> resolution_input \<Rightarrow> record_store \<Rightarrow> ((exception_row \<times> decision_row) \<times> record_store) result" where
  "resolveTaskHandoff h c i st =
     bindR (resolveMissionException h c (hr_exception i) (hr_note i) (rs_db st)) (\<lambda>(x, db1).
     bindR (recordMissionDecision h c (x_mission x)
         \<lparr>dn_decision = hr_decision i, dn_scope = hr_scope i, dn_evidence = hr_evidence i, dn_type = Some ''exception_resolution''\<rparr>
         (st\<lparr>rs_db := db1\<rparr>)) (\<lambda>(d, st2).
     if \<not> truthy (hr_task i) then Inr ((x, d), st2)
     else bindR (bound_task (rs_db st2) (c_tenant c) (x_mission x) (the (hr_task i))) (\<lambda>t.
          ensure (t_status t = TAgentResume \<or> t_status t \<in> set human_handoff_statuses) ''task_handoff_task_not_human_owned''
          (bindR (transitionBoundTask h c (x_mission x) (the (hr_task i)) TAgentResume None (rs_db st2)) (\<lambda>(t', db3).
             Inr ((x, d), st2\<lparr>rs_db := db3\<rparr>))))))"

section \<open>Directives and revisions\<close>

definition recordReviewerDirective :: "host \<Rightarrow> call \<Rightarrow> string \<Rightarrow> decision_input \<Rightarrow> record_store \<Rightarrow> (decision_row \<times> record_store) result" where
  "recordReviewerDirective h c mid i st = recordMissionDecision h c mid i st"

definition reviseDecisionOnNewEvidence :: "host \<Rightarrow> call \<Rightarrow> string \<Rightarrow> string \<Rightarrow> string \<Rightarrow> string list \<Rightarrow> record_store \<Rightarrow> (decision_row \<times> record_store) result" where
  "reviseDecisionOnNewEvidence h c priorId decision scope evidence st =
     ensure (evidence \<noteq> []) ''task_handoff_revision_evidence_required''
     (supersedeMissionDecision h c priorId
        \<lparr>dn_decision = decision, dn_scope = scope, dn_evidence = Some evidence, dn_type = None\<rparr> st)"

end
