(* ===== verification/RecordSteps.thy ===== *)
theory RecordSteps
  imports TaskProperties MissionHandoff
begin

text \<open>
  The durable records as one system. \<open>content_store\<close> is the contract the four record tables share: rows are
  only appended, each under the digest of its content, and an append comes with its event. Every command
  on the records is a sequence of steps, each a step of the control plane or one appended row.
\<close>

section \<open>The content-addressed table\<close>

locale content_store =
  fixes rows :: "'s \<Rightarrow> 'r list" and add :: "'r \<Rightarrow> 's \<Rightarrow> 's" and rid :: "'r \<Rightarrow> string" and intact :: "'r \<Rightarrow> bool"
    and hydrate :: "'r \<Rightarrow> 'r result" and event :: "'r \<Rightarrow> 's \<Rightarrow> 's result"
  assumes rows_add: "rows (add r s) = rows s @ [r]"
    and hydrate_intact: "hydrate r = Inr v \<longleftrightarrow> intact r \<and> v = r"
    and event_rows: "event r s = Inr s' \<Longrightarrow> rows s' = rows s"
begin

lemma replayD: "bindR (hydrate e) (\<lambda>v. Inr (v, s)) = Inr (v, s') \<Longrightarrow> s' = s \<and> v = e \<and> intact e"
  using hydrate_intact[of e v] by (cases "hydrate e") auto

text \<open>A successful call replays an intact row or appends the checked one with its event.\<close>

lemma put_cases:
  assumes "put_content rows add rid hydrate event dg check s = Inr (v, s')"
  obtains (replay) "s' = s" "v \<in> set (rows s)" "rid v = dg" "intact v"
  | (append) "dg \<notin> rid ` set (rows s)" "check = Inr v" "event v (add v s) = Inr s'" "rid v = dg" "intact v" "rows s' = rows s @ [v]"
proof (cases "List.find (\<lambda>r. rid r = dg) (rows s)")
  case (Some e)
  then have e: "e \<in> set (rows s)" "rid e = dg" using find_SomeD[OF Some] by auto
  have "s' = s \<and> v = e \<and> intact e" by (rule replayD) (use assms Some in \<open>simp add: put_content_def\<close>)
  with e show ?thesis by (intro replay) simp_all
next
  case None
  then have fresh: "dg \<notin> rid ` set (rows s)" by (auto simp: find_None_iff)
  obtain row s1 where row: "check = Inr row" "event row (add row s) = Inr s1"
    and last: "(case List.find (\<lambda>r. rid r = dg) (rows s1) of None \<Rightarrow> throw ''TypeError'' | Some e \<Rightarrow> bindR (hydrate e) (\<lambda>v. Inr (v, s1))) = Inr (v, s')"
    using assms None by (auto simp: put_content_def bindR_eq_Inr)
  have rows: "rows s1 = rows s @ [row]" using event_rows[OF row(2)] by (simp add: rows_add)
  obtain e where found: "List.find (\<lambda>r. rid r = dg) (rows s1) = Some e" using last by (cases "List.find (\<lambda>r. rid r = dg) (rows s1)") simp_all
  have e: "s' = s1 \<and> v = e \<and> intact e" by (rule replayD) (use last found in simp)
  have "e = row" "rid row = dg" using find_SomeD[OF found] fresh rows by auto
  with fresh row e rows show ?thesis by (intro append) simp_all
qed

definition sound :: "'s \<Rightarrow> bool" where
  "sound s \<longleftrightarrow> list_all intact (rows s) \<and> distinct (map rid (rows s))"

lemma put_sound: "put_content rows add rid hydrate event dg check s = Inr (v, s') \<Longrightarrow> sound s \<Longrightarrow> sound s'"
  by (erule put_cases) (auto simp: sound_def)

lemma put_stored: "put_content rows add rid hydrate event dg check s = Inr (v, s') \<Longrightarrow> v \<in> set (rows s') \<and> rid v = dg"
  by (erule put_cases) auto

lemma hydrate_rows: "list_all intact rs \<Longrightarrow> hydrate_all hydrate rs = Inr rs"
proof (induction rs)
  case (Cons r rs)
  then have "hydrate r = Inr r" by (simp add: hydrate_intact)
  with Cons show ?case by simp
qed simp

lemma sound_hydrates: "sound s \<Longrightarrow> set rs \<subseteq> set (rows s) \<Longrightarrow> hydrate_all hydrate rs = Inr rs"
  by (rule hydrate_rows) (auto simp: sound_def list_all_iff)

end

text \<open>An event of a record changes the event log only.\<close>

lemma record_eventD:
  assumes "record_event h c kind dg mid ty payload st = Inr st'"
  obtains i where "ei_payload i = payload" "ei_type i = ty" "ei_tenant i = c_tenant c" "ei_aggregateType i = ''mission''"
    "ei_aggregateId i = mid" "event_step h i (rs_db st) (rs_db st')" "st' = st\<lparr>rs_db := rs_db st'\<rparr>"
proof -
  let ?c = "c\<lparr>c_eventId := kind @ dg, c_idempotencyKey := kind @ dg\<rparr>"
  obtain db where db: "mission_event h ?c mid ty payload (rs_db st) = Inr db" "st' = st\<lparr>rs_db := db\<rparr>"
    using assms by (auto simp: record_event_def bindR_eq_Inr)
  show ?thesis by (rule that[of "call_event ?c ''mission'' mid ty payload"])
      (use mission_event_step[OF db(1)] db(2) in \<open>simp_all add: call_event_def\<close>)
qed

lemma record_event_tables:
  "record_event h c kind dg mid ty payload st = Inr st' \<Longrightarrow> rs_decisions st' = rs_decisions st \<and>
     rs_verifications st' = rs_verifications st \<and> rs_artifacts st' = rs_artifacts st \<and> rs_lineage st' = rs_lineage st"
  by (erule record_eventD) (metis record_store.ext_inject record_store.surjective record_store.update_convs(1))

definition decision_intact :: "host \<Rightarrow> decision_row \<Rightarrow> bool" where
  "decision_intact h d \<longleftrightarrow> decisionDigest h d = dc_digest d \<and> dc_digest d = dc_id d"

definition verification_intact :: "host \<Rightarrow> verification_row \<Rightarrow> bool" where
  "verification_intact h v \<longleftrightarrow> verificationDigest h v = vr_digest v \<and> vr_digest v = vr_id v"

definition artifact_intact :: "host \<Rightarrow> artifact_row \<Rightarrow> bool" where
  "artifact_intact h a \<longleftrightarrow> artifactDigest h a = ar_digest a \<and> ar_digest a = ar_id a"

definition lineage_intact :: "host \<Rightarrow> lineage_row \<Rightarrow> bool" where
  "lineage_intact h l \<longleftrightarrow> lineageDigest h l = ln_digest l \<and> ln_digest l = ln_id l"

interpretation decisions: content_store rs_decisions add_decision dc_id "decision_intact h" "hydrateDecision h" "decision_event h c" for h c
  by unfold_locales (auto simp: add_decision_def hydrateDecision_def decision_intact_def ensure_eq_Inr decision_event_def
      dest: record_event_tables)

interpretation verifications: content_store rs_verifications add_verification vr_id "verification_intact h" "hydrateVerification h"
  "verification_event h c" for h c
  by unfold_locales (auto simp: add_verification_def hydrateVerification_def verification_intact_def ensure_eq_Inr
      verification_event_def dest: record_event_tables)

interpretation artifacts: content_store rs_artifacts add_artifact ar_id "artifact_intact h" "hydrateArtifact h" "artifact_event h c" for h c
  by unfold_locales (auto simp: add_artifact_def hydrateArtifact_def artifact_intact_def ensure_eq_Inr artifact_event_def
      dest: record_event_tables)

interpretation lineage: content_store rs_lineage add_lineage ln_id "lineage_intact h" "hydrateLineage h" "lineage_event h c" for h c
  by unfold_locales (auto simp: add_lineage_def hydrateLineage_def lineage_intact_def ensure_eq_Inr lineage_event_def
      dest: record_event_tables)

section \<open>The records as one system\<close>

datatype record_cmd =
    Control control_cmd
  | RecordDecision call string decision_input
  | SupersedeDecision call string decision_input
  | RetractDecision call string string
  | ReviseDecision call string string string "string list"
  | RecordVerification call string verification_input
  | RegisterArtifact call string artifact_input
  | RecordLineage call string string string
  | OpenHandoff call handoff_input
  | ResolveHandoff call resolution_input
  | NewManifests "manifest_row list"

definition store_of :: "record_store \<Rightarrow> ('a \<times> record_store) result \<Rightarrow> record_store" where
  "store_of st r = (case r of Inl e \<Rightarrow> st | Inr (v, st') \<Rightarrow> st')"

fun exec_record :: "host \<Rightarrow> record_cmd \<Rightarrow> record_store \<Rightarrow> record_store" where
  "exec_record h (Control cmd) st = st\<lparr>rs_db := exec h cmd (rs_db st)\<rparr>"
| "exec_record h (RecordDecision c mid i) st = store_of st (recordMissionDecision h c mid i st)"
| "exec_record h (SupersedeDecision c p i) st = store_of st (supersedeMissionDecision h c p i st)"
| "exec_record h (RetractDecision c p r) st = store_of st (retractMissionDecision h c p r st)"
| "exec_record h (ReviseDecision c p d s e) st = store_of st (reviseDecisionOnNewEvidence h c p d s e st)"
| "exec_record h (RecordVerification c mid i) st = store_of st (recordMissionVerification h c mid i st)"
| "exec_record h (RegisterArtifact c mid i) st = store_of st (registerMissionArtifact h c mid i st)"
| "exec_record h (RecordLineage c mid a p) st = store_of st (recordMissionArtifactLineage h c mid a p st)"
| "exec_record h (OpenHandoff c i) st = st\<lparr>rs_db := db_of (rs_db st) (openTaskHandoff h c i (rs_db st))\<rparr>"
| "exec_record h (ResolveHandoff c i) st = store_of st (resolveTaskHandoff h c i st)"
| "exec_record h (NewManifests ms) st = st\<lparr>rs_manifests := rs_manifests st @ ms\<rparr>"

fun run_records :: "host \<Rightarrow> record_cmd list \<Rightarrow> record_store \<Rightarrow> record_store" where
  "run_records h [] st = st"
| "run_records h (cmd # cmds) st = run_records h cmds (exec_record h cmd st)"

definition fresh_records :: "record_store \<Rightarrow> bool" where
  "fresh_records st \<longleftrightarrow> fresh_control (rs_db st) \<and> rs_decisions st = [] \<and> rs_verifications st = [] \<and> rs_artifacts st = [] \<and>
     rs_lineage st = []"

inductive records_reachable :: "host \<Rightarrow> record_store \<Rightarrow> bool" for h where
  records_start: "fresh_records st \<Longrightarrow> records_reachable h st"
| records_more: "records_reachable h st \<Longrightarrow> records_reachable h (exec_record h cmd st)"

lemma run_records_reachable: "records_reachable h st \<Longrightarrow> records_reachable h (run_records h cmds st)"
  by (induction cmds arbitrary: st) (auto intro: records_more)

subsection \<open>Steps\<close>

text \<open>A decision may supersede an earlier one of its mission that nothing else supersedes.\<close>

definition link_ok :: "decision_row list \<Rightarrow> decision_row \<Rightarrow> bool" where
  "link_ok rows d \<longleftrightarrow> (\<forall>p. dc_supersedes d = Some p \<longrightarrow>
     (\<exists>e\<in>set rows. dc_id e = p \<and> dc_tenant e = dc_tenant d \<and> dc_mission e = dc_mission d) \<and>
     \<not> (\<exists>e\<in>set rows. dc_tenant e = dc_tenant d \<and> dc_supersedes e = Some p))"

definition lineage_edges :: "lineage_row list \<Rightarrow> string \<Rightarrow> string \<Rightarrow> (string \<times> string) set" where
  "lineage_edges rows tenant mid = {(ln_artifact l, ln_parent l) | l. l \<in> set rows \<and> ln_tenant l = tenant \<and> ln_mission l = mid}"

definition edge_ok :: "record_store \<Rightarrow> lineage_row \<Rightarrow> bool" where
  "edge_ok st l \<longleftrightarrow> (ln_parent l, ln_artifact l) \<notin> (lineage_edges (rs_lineage st) (ln_tenant l) (ln_mission l))\<^sup>* \<and>
     artifact_registered st (ln_tenant l) (ln_mission l) (ln_artifact l) \<and>
     artifact_registered st (ln_tenant l) (ln_mission l) (ln_parent l)"

inductive record_step :: "host \<Rightarrow> record_store \<Rightarrow> record_store \<Rightarrow> bool" for h where
  control: "control_step h (rs_db st) db \<Longrightarrow> record_step h st (st\<lparr>rs_db := db\<rparr>)"
| decision: "dc_id d \<notin> dc_id ` set (rs_decisions st) \<Longrightarrow> decision_intact h d \<Longrightarrow> link_ok (rs_decisions st) d \<Longrightarrow> dc_tenant d = c_tenant c \<Longrightarrow>
     decision_event h c d (add_decision d st) = Inr st' \<Longrightarrow> record_step h st st'"
| verification: "vr_id v \<notin> vr_id ` set (rs_verifications st) \<Longrightarrow> verification_intact h v \<Longrightarrow> vr_tenant v = c_tenant c \<Longrightarrow>
     resolveMissionSnapshotIdentity st (vr_tenant v) (vr_snapshot v) = Inr \<lparr>vi_snapshot = vr_snapshot v, vi_sha = vr_sha v, vi_manifest = vr_manifest v\<rparr> \<Longrightarrow>
     verification_event h c v (add_verification v st) = Inr st' \<Longrightarrow> record_step h st st'"
| artifact: "ar_id a \<notin> ar_id ` set (rs_artifacts st) \<Longrightarrow> artifact_intact h a \<Longrightarrow> ar_tenant a = c_tenant c \<Longrightarrow>
     artifact_event h c a (add_artifact a st) = Inr st' \<Longrightarrow> record_step h st st'"
| edge: "ln_id l \<notin> ln_id ` set (rs_lineage st) \<Longrightarrow> lineage_intact h l \<Longrightarrow> edge_ok st l \<Longrightarrow> ln_tenant l = c_tenant c \<Longrightarrow>
     lineage_event h c l (add_lineage l st) = Inr st' \<Longrightarrow> record_step h st st'"
| manifests: "record_step h st (st\<lparr>rs_manifests := rs_manifests st @ ms\<rparr>)"

abbreviation record_steps :: "host \<Rightarrow> record_store \<Rightarrow> record_store \<Rightarrow> bool" where
  "record_steps h \<equiv> rtranclp (record_step h)"

lemma control_steps_record: "control_steps h (rs_db st) db \<Longrightarrow> record_steps h st (st\<lparr>rs_db := db\<rparr>)"
proof (induction rule: rtranclp_induct)
  case (step db1 db2)
  have "record_step h (st\<lparr>rs_db := db1\<rparr>) (st\<lparr>rs_db := db2\<rparr>)" using record_step.control[of h "st\<lparr>rs_db := db1\<rparr>" db2] step.hyps(2) by simp
  with step.IH show ?case by (rule rtranclp.rtrancl_into_rtrancl)
qed simp

lemma digest_of_filled [simp]: "decisionDigest h (x\<lparr>dc_id := i, dc_digest := g, dc_type := t\<rparr>) = decisionDigest h x"
  by (simp add: decisionDigest_def decisionDigestBody_def)

lemma insertDecision_step:
  assumes "insertDecision h c x st = Inr (d, st')" and "dc_tenant x = c_tenant c"
    and "decisionDigest h x \<notin> dc_id ` set (rs_decisions st) \<Longrightarrow> link_ok (rs_decisions st) x"
  shows "record_steps h st st' \<and> d \<in> set (rs_decisions st')"
proof -
  obtain ty where put: "put_content rs_decisions add_decision dc_id (hydrateDecision h) (decision_event h c) (decisionDigest h x)
      (Inr (x\<lparr>dc_id := decisionDigest h x, dc_digest := decisionDigest h x, dc_type := ty\<rparr>)) st = Inr (d, st')"
    using assms(1) by (auto simp: insertDecision_def bindR_eq_Inr Let_def)
  from put show ?thesis
  proof (cases rule: decisions.put_cases)
    case replay
    then show ?thesis by simp
  next
    case append
    have "link_ok (rs_decisions st) d" using assms(3) append(1,2) by (auto simp: link_ok_def)
    moreover have "dc_tenant d = c_tenant c" using append(2) assms(2) by auto
    ultimately have "record_step h st st'" using append(1,3,4,5) by (intro record_step.decision[of d]) simp_all
    then show ?thesis using append(6) by simp
  qed
qed

lemma recordMissionDecision_step:
  assumes "recordMissionDecision h c mid i st = Inr (d, st')"
  shows "record_steps h st st' \<and> d \<in> set (rs_decisions st')"
proof -
  obtain decision scope correlation evidence where
    "insertDecision h (c\<lparr>c_correlation := correlation\<rparr>) (new_decision c mid decision scope evidence DActive None (dn_type i)) st = Inr (d, st')"
    using assms by (auto simp: recordMissionDecision_def bindR_eq_Inr)
  then show ?thesis by (rule insertDecision_step) (simp_all add: new_decision_def link_ok_def)
qed

lemma supersede_prior_step:
  assumes "supersede_prior h c priorId successor st = Inr (d, st')"
    and "\<And>prior. dc_tenant (successor prior) = c_tenant c" and "\<And>prior. dc_mission (successor prior) = dc_mission prior"
    and "\<And>prior. dc_supersedes (successor prior) = Some priorId"
  shows "record_steps h st st'"
proof -
  obtain prior where prior: "findDecision st (c_tenant c) priorId = Some prior"
    and free: "case List.find (\<lambda>d. dc_tenant d = c_tenant c \<and> dc_supersedes d = Some priorId) (rs_decisions st) of
              None \<Rightarrow> True | Some already \<Rightarrow> dc_id already = decisionDigest h (successor prior)"
    and ins: "insertDecision h c (successor prior) st = Inr (d, st')"
    using assms(1) by (auto simp: supersede_prior_def ensure_eq_Inr split: option.splits)
  have p: "prior \<in> set (rs_decisions st)" "dc_id prior = priorId" "dc_tenant prior = c_tenant c"
    using find_SomeD[OF prior[unfolded findDecision_def]] by auto
  have "link_ok (rs_decisions st) (successor prior)" if new: "decisionDigest h (successor prior) \<notin> dc_id ` set (rs_decisions st)"
  proof (cases "List.find (\<lambda>d. dc_tenant d = c_tenant c \<and> dc_supersedes d = Some priorId) (rs_decisions st)")
    case None
    then show ?thesis using p assms(2,3,4) by (auto simp: link_ok_def find_None_iff)
  next
    case (Some already)
    then have "already \<in> set (rs_decisions st)" "dc_id already = decisionDigest h (successor prior)"
      using find_SomeD[OF Some] free by simp_all
    with new show ?thesis by (metis imageI)
  qed
  then show ?thesis using insertDecision_step[OF ins assms(2)] by blast
qed

lemma supersedeMissionDecision_step: "supersedeMissionDecision h c p i st = Inr (d, st') \<Longrightarrow> record_steps h st st'"
  by (auto simp: supersedeMissionDecision_def bindR_eq_Inr new_decision_def elim!: supersede_prior_step)

lemma retractMissionDecision_step: "retractMissionDecision h c p r st = Inr (d, st') \<Longrightarrow> record_steps h st st'"
  by (auto simp: retractMissionDecision_def bindR_eq_Inr new_decision_def elim!: supersede_prior_step)

lemma reviseDecision_step: "reviseDecisionOnNewEvidence h c p d s e st = Inr (v, st') \<Longrightarrow> record_steps h st st'"
  by (auto simp: reviseDecisionOnNewEvidence_def ensure_eq_Inr dest: supersedeMissionDecision_step)

lemma recordMissionVerification_step:
  assumes "recordMissionVerification h c mid i st = Inr (v, st')"
  shows "record_steps h st st'"
proof -
  obtain correlation verification scope bound where
    bound: "resolveMissionSnapshotIdentity st (c_tenant c) (vi_snapshot (vn_identity i)) = Inr bound"
    and same: "vi_sha bound = vi_sha (vn_identity i)" "vi_manifest bound = vi_manifest (vn_identity i)"
    and put: "put_content rs_verifications add_verification vr_id (hydrateVerification h)
        (verification_event h (c\<lparr>c_correlation := correlation\<rparr>)) (vr_id (new_verification h c mid i verification scope))
        (Inr (new_verification h c mid i verification scope)) st = Inr (v, st')"
    using assms by (auto simp: recordMissionVerification_def bindR_eq_Inr ensure_eq_Inr Let_def)
  from put show ?thesis
  proof (cases rule: verifications.put_cases)
    case append
    have "vi_snapshot bound = vi_snapshot (vn_identity i)"
      using bound by (auto simp: resolveMissionSnapshotIdentity_def split: option.splits)
    then have "bound = \<lparr>vi_snapshot = vr_snapshot v, vi_sha = vr_sha v, vi_manifest = vr_manifest v\<rparr>" "vr_tenant v = c_tenant c"
      "vi_snapshot (vn_identity i) = vr_snapshot v"
      using append(2) same by (auto simp: new_verification_def Let_def)
    then have "record_step h st st'" using append bound by (intro record_step.verification[of v]) simp_all
    then show ?thesis by simp
  qed simp
qed

lemma registerMissionArtifact_step:
  assumes "registerMissionArtifact h c mid i st = Inr (a, st')"
  shows "record_steps h st st'"
proof -
  obtain correlation label sha where
    put: "put_content rs_artifacts add_artifact ar_id (hydrateArtifact h) (artifact_event h (c\<lparr>c_correlation := correlation\<rparr>))
        (ar_id (new_artifact h c mid i sha label)) (check_artifact i (new_artifact h c mid i sha label) st) st = Inr (a, st')"
    using assms by (auto simp: registerMissionArtifact_def bindR_eq_Inr ensure_eq_Inr Let_def)
  from put show ?thesis
  proof (cases rule: artifacts.put_cases)
    case append
    have "ar_tenant a = c_tenant c"
      using append(2) by (auto simp: check_artifact_def new_artifact_def Let_def bindR_eq_Inr ensure_eq_Inr)
    then have "record_step h st st'" using append by (intro record_step.artifact[of a]) simp_all
    then show ?thesis by simp
  qed simp
qed

subsection \<open>The lineage graph\<close>

lemma lineage_parents_edges: "set (lineage_parents rows t mid a) = lineage_edges rows t mid `` {a}"
  by (auto simp: lineage_parents_def lineage_edges_def)

text \<open>An answer of the walk decides reachability, when the visited nodes lead only to visited or pending ones.\<close>

lemma cycle_walk_iff:
  assumes "cycle_walk parents target seen visited frontier = Inr b" and "\<And>n. set (parents n) = E `` {n}"
    and "target \<notin> set seen" and "E `` set seen \<subseteq> set seen \<union> set frontier"
  shows "b \<longleftrightarrow> (\<exists>n \<in> set frontier. (n, target) \<in> E\<^sup>*)"
  using assms
proof (induction parents target seen visited frontier rule: cycle_walk.induct)
  case (2 parents target seen visited n frontier)
  consider "n = target" | "n \<noteq> target" "n \<in> set seen" | "n \<noteq> target" "n \<notin> set seen" by blast
  then show ?case
  proof cases
    case 1
    with "2.prems"(1) show ?thesis by auto
  next
    case seen: 2
    have closed: "E `` set seen \<subseteq> set seen \<union> set frontier" using "2.prems"(4) seen by auto
    have "b \<longleftrightarrow> (\<exists>n \<in> set frontier. (n, target) \<in> E\<^sup>*)" using "2.IH"(1)[OF seen] "2.prems" seen closed by simp
    moreover have "\<exists>y \<in> set frontier. (y, target) \<in> E\<^sup>*" if "(n, target) \<in> E\<^sup>*"
      using leave_closed[OF that seen(2) "2.prems"(3) closed] .
    ultimately show ?thesis by auto
  next
    case new: 3
    have step: "(n, target) \<in> E\<^sup>* \<longleftrightarrow> (\<exists>p \<in> set (parents n). (p, target) \<in> E\<^sup>*)"
      using new(1) by (auto simp: "2.prems"(2) elim: converse_rtranclE intro: converse_rtrancl_into_rtrancl)
    have within: "\<not> max_lineage_walk < visited + 1" using "2.prems"(1) new by (auto split: if_splits)
    have "E `` set (n # seen) \<subseteq> set (n # seen) \<union> set (rev (parents n) @ frontier)"
      using "2.prems"(4) by (auto simp: "2.prems"(2))
    then have "b \<longleftrightarrow> (\<exists>p \<in> set (rev (parents n) @ frontier). (p, target) \<in> E\<^sup>*)"
      using "2.IH"(2)[OF new within] "2.prems" new within by simp
    with step show ?thesis by auto
  qed
qed simp

lemma wouldCreateCycle_iff:
  "wouldCreateCycle st t mid a p = Inr b \<Longrightarrow> b \<longleftrightarrow> (p, a) \<in> (lineage_edges (rs_lineage st) t mid)\<^sup>*"
  using cycle_walk_iff[of "lineage_parents (rs_lineage st) t mid" a "[]" 0 "[p]" b "lineage_edges (rs_lineage st) t mid"]
  by (simp add: wouldCreateCycle_def lineage_parents_edges)

lemma recordMissionArtifactLineage_step:
  assumes "recordMissionArtifactLineage h c mid a p st = Inr (l, st')"
  shows "record_steps h st st'"
proof -
  obtain correlation where
    reg: "artifact_registered st (c_tenant c) mid a" "artifact_registered st (c_tenant c) mid p"
    and put: "put_content rs_lineage add_lineage ln_id (hydrateLineage h) (lineage_event h (c\<lparr>c_correlation := correlation\<rparr>))
        (ln_id (new_lineage h c mid a p)) (check_lineage (new_lineage h c mid a p) st) st = Inr (l, st')"
    using assms by (auto simp: recordMissionArtifactLineage_def bindR_eq_Inr ensure_eq_Inr Let_def)
  from put show ?thesis
  proof (cases rule: lineage.put_cases)
    case append
    then have l: "l = new_lineage h c mid a p" and free: "wouldCreateCycle st (ln_tenant l) (ln_mission l) (ln_artifact l) (ln_parent l) = Inr False"
      by (auto simp: check_lineage_def bindR_eq_Inr ensure_eq_Inr)
    have f: "ln_tenant l = c_tenant c" "ln_mission l = mid" "ln_artifact l = a" "ln_parent l = p"
      by (simp_all add: l new_lineage_def Let_def)
    have "edge_ok st l" using wouldCreateCycle_iff[OF free] reg by (simp add: edge_ok_def f)
    then have "record_step h st st'" using append f by (intro record_step.edge[of l]) simp_all
    then show ?thesis by simp
  qed simp
qed

subsection \<open>Hand-overs\<close>

lemma transitionBoundTask_steps:
  "control_inv h db \<Longrightarrow> transitionBoundTask h c mid tid to r db = Inr (t, db') \<Longrightarrow> table_steps h db db'"
  by (auto simp: transitionBoundTask_def bindR_eq_Inr Let_def intro: transitionMissionTask_steps)

lemma openTaskHandoff_steps:
  assumes inv: "control_inv h db" and op: "openTaskHandoff h c i db = Inr (x, db')"
  shows "table_steps h db db'"
proof -
  obtain r db1 where raised: "raiseMissionException h c (handoff_exception i r) db = Inr (x, db1)"
    and rest: "db' = db1 \<or> (\<exists>t. transitionBoundTask h c (ho_mission i) (the (ho_task i)) THumanReviewRequired (Some r) db1 = Inr (t, db'))"
    using op by (auto simp: openTaskHandoff_def bindR_eq_Inr ensure_eq_Inr split: if_splits)
  note s1 = raiseMissionException_steps[OF raised]
  show ?thesis using rest s1 transitionBoundTask_steps[OF table_steps_inv[OF s1 inv]] by (auto intro: rtranclp_trans)
qed

lemma resolveMissionException_steps:
  "control_inv h db \<Longrightarrow> resolveMissionException h c p n db = Inr (x, db') \<Longrightarrow> table_steps h db db'"
  by (auto simp: resolveMissionException_def intro: close_exception_steps)

lemma record_event_inv: "record_event h c kind dg mid ty payload st = Inr st' \<Longrightarrow> control_inv h (rs_db st) \<Longrightarrow> control_inv h (rs_db st')"
  by (erule record_eventD) (auto intro: event_step_inv)

lemma added_db [simp]:
  "rs_db (add_decision d st) = rs_db st" "rs_db (add_verification v st) = rs_db st"
  "rs_db (add_artifact a st) = rs_db st" "rs_db (add_lineage l st) = rs_db st"
  by (simp_all add: add_decision_def add_verification_def add_artifact_def add_lineage_def)

lemma record_step_control: "record_step h st st' \<Longrightarrow> control_inv h (rs_db st) \<Longrightarrow> control_inv h (rs_db st')"
proof (induction rule: record_step.induct)
  case (control st db)
  then show ?case by (auto intro: control_step_inv)
qed (auto simp: decision_event_def verification_event_def artifact_event_def lineage_event_def dest!: record_event_inv)

lemma record_steps_control: "record_steps h st st' \<Longrightarrow> control_inv h (rs_db st) \<Longrightarrow> control_inv h (rs_db st')"
  by (induction rule: rtranclp_induct) (auto intro: record_step_control)

lemma table_steps_record: "table_steps h (rs_db st) db \<Longrightarrow> record_steps h st (st\<lparr>rs_db := db\<rparr>)"
  by (rule control_steps_record[OF table_steps_control])

lemma resolveTaskHandoff_step:
  assumes inv: "control_inv h (rs_db st)" and op: "resolveTaskHandoff h c i st = Inr (v, st')"
  shows "record_steps h st st'"
proof -
  obtain x d db1 st2 where resolved: "resolveMissionException h c (hr_exception i) (hr_note i) (rs_db st) = Inr (x, db1)"
    and recorded: "recordMissionDecision h c (x_mission x)
         \<lparr>dn_decision = hr_decision i, dn_scope = hr_scope i, dn_evidence = hr_evidence i, dn_type = Some ''exception_resolution''\<rparr>
         (st\<lparr>rs_db := db1\<rparr>) = Inr (d, st2)"
    and rest: "st' = st2 \<or> (\<exists>t db3. transitionBoundTask h c (x_mission x) (the (hr_task i)) TAgentResume None (rs_db st2) = Inr (t, db3) \<and>
       st' = st2\<lparr>rs_db := db3\<rparr>)"
    using op by (auto simp: resolveTaskHandoff_def bindR_eq_Inr ensure_eq_Inr split: if_splits)
  have s2: "record_steps h st st2"
    using table_steps_record[OF resolveMissionException_steps[OF inv resolved]] recordMissionDecision_step[OF recorded]
    by (meson rtranclp_trans)
  note inv2 = record_steps_control[OF s2 inv]
  from rest show ?thesis
  proof (elim disjE exE conjE)
    fix t db3 assume "transitionBoundTask h c (x_mission x) (the (hr_task i)) TAgentResume None (rs_db st2) = Inr (t, db3)"
      and st': "st' = st2\<lparr>rs_db := db3\<rparr>"
    from table_steps_record[OF transitionBoundTask_steps[OF inv2 this(1)]] s2 show ?thesis unfolding st' by (meson rtranclp_trans)
  qed (use s2 in simp)
qed

subsection \<open>Every command is a sequence of steps\<close>

lemma store_of_steps: "(\<And>v st'. r = Inr (v, st') \<Longrightarrow> record_steps h st st') \<Longrightarrow> record_steps h st (store_of st r)"
  by (auto simp: store_of_def split: sum.splits)

lemma exec_record_steps:
  assumes inv: "control_inv h (rs_db st)"
  shows "record_steps h st (exec_record h cmd st)"
proof (cases cmd)
  case (Control cc)
  then show ?thesis using control_steps_record[OF exec_steps[OF inv]] by simp
next
  case (OpenHandoff c i)
  then show ?thesis using table_steps_record[OF db_of_steps] openTaskHandoff_steps[OF inv] by fastforce
next
  case (NewManifests ms)
  then show ?thesis using record_step.manifests by auto
qed (auto intro!: store_of_steps intro: supersedeMissionDecision_step retractMissionDecision_step reviseDecision_step
    recordMissionVerification_step registerMissionArtifact_step recordMissionArtifactLineage_step resolveTaskHandoff_step[OF inv]
    dest: recordMissionDecision_step)

lemma records_reachable_control: "records_reachable h st \<Longrightarrow> control_inv h (rs_db st)"
  by (induction rule: records_reachable.induct)
    (auto simp: fresh_records_def intro: fresh_control_inv record_steps_control exec_record_steps)

lemma records_induct [consumes 1, case_names start step]:
  assumes "records_reachable h st" and "\<And>st. fresh_records st \<Longrightarrow> P st"
    and step: "\<And>st st'. control_inv h (rs_db st) \<Longrightarrow> P st \<Longrightarrow> record_step h st st' \<Longrightarrow> P st'"
  shows "P st"
  using assms(1)
proof (induction rule: records_reachable.induct)
  case (records_more st cmd)
  from exec_record_steps[OF records_reachable_control[OF records_more(1)], of cmd]
  have "P (exec_record h cmd st) \<and> control_inv h (rs_db (exec_record h cmd st))"
    by (induction rule: rtranclp_induct) (use records_more records_reachable_control step record_step_control in auto)
  then show ?case by simp
qed (rule assms(2))

end
