(* ===== verification/RecordProperties.thy ===== *)
theory RecordProperties
  imports RecordSteps
begin

text \<open>
  What the durable records guarantee on every reachable store: decision chains with one head each, an
  acyclic lineage whose ancestry is traced exactly, verification evidence that is never credited to
  changed code, and a timeline that verifies and shows every record.
\<close>

section \<open>Decisions\<close>

text \<open>Every row links to rows before it.\<close>

definition chained :: "decision_row list \<Rightarrow> bool" where
  "chained rows \<longleftrightarrow> distinct (map dc_id rows) \<and> (\<forall>k < length rows. link_ok (take k rows) (rows ! k))"

definition supersessions :: "decision_row list \<Rightarrow> (decision_row \<times> decision_row) set" where
  "supersessions rows = {(a, b). a \<in> set rows \<and> b \<in> set rows \<and> dc_supersedes b = Some (dc_id a)}"

lemma chained_snoc: "chained (rows @ [d]) \<longleftrightarrow> chained rows \<and> dc_id d \<notin> dc_id ` set rows \<and> link_ok rows d"
  by (auto simp: chained_def nth_append less_Suc_eq)

lemma chained_linked:
  "chained rows \<Longrightarrow> e \<in> set rows \<Longrightarrow> dc_supersedes e = Some p \<Longrightarrow>
     \<exists>q\<in>set rows. dc_id q = p \<and> dc_tenant q = dc_tenant e \<and> dc_mission q = dc_mission e"
proof (induction rows rule: rev_induct)
  case (snoc d rows)
  then show ?case by (auto simp: chained_snoc link_ok_def)
qed simp

lemma supersessions_snoc:
  assumes "chained (rows @ [d])"
  shows "supersessions (rows @ [d]) = supersessions rows \<union> {(p, d) | p. p \<in> set rows \<and> dc_supersedes d = Some (dc_id p)}"
proof -
  have "dc_supersedes e \<noteq> Some (dc_id d)" if "e \<in> set rows" for e
    using chained_linked[of rows e "dc_id d"] assms that unfolding chained_snoc by (metis imageI)
  moreover have "dc_supersedes d \<noteq> Some (dc_id d)" using assms unfolding chained_snoc link_ok_def by (metis imageI)
  ultimately show ?thesis by (auto simp: supersessions_def)
qed

lemma supersessions_scoped:
  assumes "chained rows" and "(a, b) \<in> supersessions rows"
  shows "dc_tenant b = dc_tenant a \<and> dc_mission b = dc_mission a"
proof -
  from assms(2) have ab: "a \<in> set rows" "b \<in> set rows" "dc_supersedes b = Some (dc_id a)" by (auto simp: supersessions_def)
  from chained_linked[OF assms(1) ab(2,3)] obtain q where "q \<in> set rows" "dc_id q = dc_id a"
    "dc_tenant q = dc_tenant b" "dc_mission q = dc_mission b" by auto
  moreover from this have "q = a" using assms(1) ab(1) by (auto simp: chained_def distinct_map dest: inj_onD)
  ultimately show ?thesis by simp
qed

lemma chained_single: "chained rows \<Longrightarrow> single_valued (supersessions rows)"
proof (induction rows rule: rev_induct)
  case (snoc d rows)
  from snoc.prems have old: "chained rows" and link: "link_ok rows d" by (auto simp: chained_snoc)
  have "b \<noteq> d \<Longrightarrow> False" if "(a, b) \<in> supersessions rows" "a \<in> set rows" "dc_supersedes d = Some (dc_id a)" for a b
  proof -
    from link that(2,3) old have "dc_tenant a = dc_tenant d" unfolding link_ok_def
      by (auto simp: chained_def distinct_map dest: inj_onD)
    then show False using link that supersessions_scoped[OF old that(1)] by (auto simp: link_ok_def supersessions_def)
  qed
  then show ?case using snoc.IH[OF old] unfolding supersessions_snoc[OF snoc.prems] single_valued_def by blast
qed (simp add: supersessions_def)

lemma chained_acyclic: "chained rows \<Longrightarrow> acyclic (supersessions rows)"
proof (induction rows rule: rev_induct)
  case (snoc d rows)
  then have old: "acyclic (supersessions rows)" and fresh: "dc_id d \<notin> dc_id ` set rows" by (auto simp: chained_snoc)
  let ?new = "{(p, d) | p. p \<in> set rows \<and> dc_supersedes d = Some (dc_id p)}"
  have "?new = {(p, d)}" if "p \<in> set rows" "dc_supersedes d = Some (dc_id p)" for p
    using that snoc.prems by (auto simp: chained_def distinct_map dest: inj_onD)
  then consider "?new = {}" | p where "p \<in> set rows" "?new = {(p, d)}" by blast
  then show ?case unfolding supersessions_snoc[OF snoc.prems]
  proof cases
    case 1
    show "acyclic (supersessions rows \<union> ?new)" unfolding 1 using old by simp
  next
    case (2 p)
    have "(d, p) \<notin> (supersessions rows)\<^sup>*"
      using fresh 2(1) by (auto simp: supersessions_def elim: converse_rtranclE)
    then show "acyclic (supersessions rows \<union> ?new)" unfolding 2(2) using old by simp
  qed
qed (simp add: supersessions_def acyclic_def)

lemma finite_supersessions: "finite (supersessions rows)"
  by (rule finite_subset[of _ "set rows \<times> set rows"]) (auto simp: supersessions_def)

text \<open>A chain ends in exactly one row that nothing supersedes.\<close>

lemma chain_head:
  assumes "chained rows" and "d \<in> set rows"
  shows "\<exists>!x. (d, x) \<in> (supersessions rows)\<^sup>* \<and> x \<notin> Domain (supersessions rows)"
proof (rule ex_ex1I)
  have "wf ((supersessions rows)\<inverse>)" by (rule finite_acyclic_wf_converse[OF finite_supersessions chained_acyclic[OF assms(1)]])
  then show "\<exists>x. (d, x) \<in> (supersessions rows)\<^sup>* \<and> x \<notin> Domain (supersessions rows)"
  proof (induction d rule: wf_induct_rule)
    case (less d)
    show ?case
    proof (cases "d \<in> Domain (supersessions rows)")
      case True
      then obtain b where b: "(d, b) \<in> supersessions rows" by blast
      with less.IH[of b] show ?thesis by (meson converseI converse_rtrancl_into_rtrancl)
    qed blast
  qed
next
  fix x y
  assume x: "(d, x) \<in> (supersessions rows)\<^sup>* \<and> x \<notin> Domain (supersessions rows)"
    and y: "(d, y) \<in> (supersessions rows)\<^sup>* \<and> y \<notin> Domain (supersessions rows)"
  with single_valued_confluent[OF chained_single[OF assms(1)], of d x y]
  show "x = y" by (auto elim: converse_rtranclE)
qed

section \<open>The invariant\<close>

definition records_ok :: "host \<Rightarrow> record_store \<Rightarrow> bool" where
  "records_ok h st \<longleftrightarrow> list_all (decision_intact h) (rs_decisions st) \<and> chained (rs_decisions st) \<and>
     list_all (verification_intact h) (rs_verifications st) \<and> list_all (artifact_intact h) (rs_artifacts st) \<and>
     list_all (lineage_intact h) (rs_lineage st) \<and> (\<forall>t mid. acyclic (lineage_edges (rs_lineage st) t mid))"

lemma lineage_edges_snoc:
  "lineage_edges (rows @ [l]) t mid =
     lineage_edges rows t mid \<union> (if ln_tenant l = t \<and> ln_mission l = mid then {(ln_artifact l, ln_parent l)} else {})"
  by (auto simp: lineage_edges_def)

lemma decision_event_tables:
  assumes "decision_event h c d (add_decision d st) = Inr st'"
  shows "rs_decisions st' = rs_decisions st @ [d]" "rs_verifications st' = rs_verifications st" "rs_artifacts st' = rs_artifacts st"
    "rs_lineage st' = rs_lineage st"
  using record_event_tables[OF assms[unfolded decision_event_def]] by (simp_all add: add_decision_def)

lemma verification_event_tables:
  assumes "verification_event h c v (add_verification v st) = Inr st'"
  shows "rs_decisions st' = rs_decisions st" "rs_verifications st' = rs_verifications st @ [v]" "rs_artifacts st' = rs_artifacts st"
    "rs_lineage st' = rs_lineage st"
  using record_event_tables[OF assms[unfolded verification_event_def]] by (simp_all add: add_verification_def)

lemma artifact_event_tables:
  assumes "artifact_event h c a (add_artifact a st) = Inr st'"
  shows "rs_decisions st' = rs_decisions st" "rs_verifications st' = rs_verifications st" "rs_artifacts st' = rs_artifacts st @ [a]"
    "rs_lineage st' = rs_lineage st"
  using record_event_tables[OF assms[unfolded artifact_event_def]] by (simp_all add: add_artifact_def)

lemma lineage_event_tables:
  assumes "lineage_event h c l (add_lineage l st) = Inr st'"
  shows "rs_decisions st' = rs_decisions st" "rs_verifications st' = rs_verifications st" "rs_artifacts st' = rs_artifacts st"
    "rs_lineage st' = rs_lineage st @ [l]"
  using record_event_tables[OF assms[unfolded lineage_event_def]] by (simp_all add: add_lineage_def)

lemmas event_tables = decision_event_tables verification_event_tables artifact_event_tables lineage_event_tables

lemma records_ok_step: "record_step h st st' \<Longrightarrow> records_ok h st \<Longrightarrow> records_ok h st'"
  by (induction rule: record_step.induct)
    (auto simp: records_ok_def event_tables chained_snoc lineage_edges_snoc edge_ok_def)

lemma fresh_records_ok: "fresh_records st \<Longrightarrow> records_ok h st"
  by (simp add: fresh_records_def records_ok_def chained_def lineage_edges_def acyclic_def)

lemma reachable_records_ok: "records_reachable h st \<Longrightarrow> records_ok h st"
  by (induction rule: records_induct) (auto intro: fresh_records_ok records_ok_step)

section \<open>Lists of decisions\<close>

definition non_empty_hash :: "host \<Rightarrow> bool" where
  "non_empty_hash h \<longleftrightarrow> (\<forall>s. h_sha h s \<noteq> [])"

lemma intact_nonempty: "non_empty_hash h \<Longrightarrow> decision_intact h d \<Longrightarrow> dc_id d \<noteq> []"
  by (auto simp: non_empty_hash_def decision_intact_def decisionDigest_def contentDigest_def)

lemma annotated_status:
  assumes ok: "records_ok h st" "non_empty_hash h" and rows: "set rows = set (mission_decisions st t mid)" and d: "d \<in> set rows"
  shows "dv_status (annotate_row rows d) \<noteq> EffSuperseded \<longleftrightarrow> d \<notin> Domain (supersessions (rs_decisions st))"
proof -
  let ?P = "\<lambda>e. truthy (dc_supersedes e) \<and> dc_supersedes e = Some (dc_id d)"
  have chain: "chained (rs_decisions st)" using ok by (simp add: records_ok_def)
  have ne: "dc_id e \<noteq> []" if "e \<in> set (rs_decisions st)" for e
    using intact_nonempty[OF ok(2)] ok(1) that by (auto simp: records_ok_def list_all_iff)
  have sub: "set rows \<subseteq> set (rs_decisions st)" using rows by (auto simp: mission_decisions_def)
  have "List.find ?P (rev rows) = None \<longleftrightarrow> d \<notin> Domain (supersessions (rs_decisions st))"
  proof -
    have here: "e \<in> set rows" if "(d, e) \<in> supersessions (rs_decisions st)" for e
      using supersessions_scoped[OF chain that] that d rows by (auto simp: mission_decisions_def supersessions_def)
    have "dc_id d \<noteq> []" using ne d sub by blast
    then have find: "List.find ?P (rev rows) = None \<longleftrightarrow> (\<forall>e \<in> set rows. dc_supersedes e \<noteq> Some (dc_id d))"
      by (auto simp: find_None_iff truthy_def)
    show ?thesis unfolding find using here sub d by (auto simp: supersessions_def)
  qed
  moreover have "dv_status (annotate_row rows d) \<noteq> EffSuperseded \<longleftrightarrow> List.find ?P (rev rows) = None"
  proof (cases "List.find ?P (rev rows)")
    case (Some e)
    then have "e \<in> set rows" using find_SomeD[OF Some] by simp
    with Some ne sub show ?thesis by (auto simp: annotate_row_def decision_superseder_def truthy_def Let_def)
  qed (simp add: annotate_row_def decision_superseder_def truthy_def Let_def)
  ultimately show ?thesis by simp
qed

text \<open>Claim C15: the decisions of a mission form chains with one head each. On every reachable store the list of the
  decisions succeeds (no row is corrupt) and shows every decision of the mission once; following the
  superseding rows from any of them ends in exactly one decision that is not superseded, so one decision
  of each chain is in force or retracted.\<close>

theorem decision_chains:
  assumes "records_reachable h st" and "non_empty_hash h"
  shows "\<exists>vs. listMissionDecisions h st t mid = Inr vs \<and> mset (map dv_row vs) = mset (mission_decisions st t mid) \<and>
    (\<forall>v \<in> set vs. \<exists>!w. w \<in> set vs \<and> (dv_row v, dv_row w) \<in> (supersessions (rs_decisions st))\<^sup>* \<and> dv_status w \<noteq> EffSuperseded)"
proof -
  note ok = reachable_records_ok[OF assms(1)]
  let ?rows = "sort_key dc_createdAt (sort_key dc_id (mission_decisions st t mid))"
  let ?vs = "map (annotate_row ?rows) ?rows"
  have rows: "set ?rows = set (mission_decisions st t mid)" by simp
  have chain: "chained (rs_decisions st)" and intact: "list_all (decision_intact h) (rs_decisions st)"
    using ok by (simp_all add: records_ok_def)
  have "listMissionDecisions h st t mid = Inr ?vs"
    using decisions.hydrate_rows[of h ?rows] intact
    by (auto simp: listMissionDecisions_def annotate_def mission_decisions_def list_all_iff)
  moreover have row: "dv_row (annotate_row ?rows d) = d" for d by (simp add: annotate_row_def Let_def)
  then have "map dv_row ?vs = ?rows" by (simp add: comp_def)
  moreover have "\<exists>!w. w \<in> set ?vs \<and> (d, dv_row w) \<in> (supersessions (rs_decisions st))\<^sup>* \<and> dv_status w \<noteq> EffSuperseded"
    if d: "d \<in> set ?rows" for d
  proof -
    have d': "d \<in> set (rs_decisions st)" using d by (simp add: mission_decisions_def)
    have scoped: "x \<in> set ?rows" if "(d, x) \<in> (supersessions (rs_decisions st))\<^sup>*" for x
      using that
    proof (induction rule: rtrancl_induct)
      case (step y z)
      then show ?case using supersessions_scoped[OF chain step(2)] by (auto simp: mission_decisions_def supersessions_def)
    qed (rule d)
    from chain_head[OF chain d'] obtain x where x: "(d, x) \<in> (supersessions (rs_decisions st))\<^sup>*"
      "x \<notin> Domain (supersessions (rs_decisions st))"
      and unique: "\<And>y. (d, y) \<in> (supersessions (rs_decisions st))\<^sup>* \<Longrightarrow> y \<notin> Domain (supersessions (rs_decisions st)) \<Longrightarrow> y = x"
      by (elim ex1E) blast
    show ?thesis
    proof (rule ex1I[of _ "annotate_row ?rows x"])
      show "annotate_row ?rows x \<in> set ?vs \<and> (d, dv_row (annotate_row ?rows x)) \<in> (supersessions (rs_decisions st))\<^sup>* \<and>
          dv_status (annotate_row ?rows x) \<noteq> EffSuperseded"
        using scoped[OF x(1)] x annotated_status[OF ok assms(2) rows scoped[OF x(1)]] by (simp add: row)
    next
      fix w assume w: "w \<in> set ?vs \<and> (d, dv_row w) \<in> (supersessions (rs_decisions st))\<^sup>* \<and> dv_status w \<noteq> EffSuperseded"
      then obtain y where y: "y \<in> set ?rows" "w = annotate_row ?rows y" by auto
      with w annotated_status[OF ok assms(2) rows y(1)] unique[of y] show "w = annotate_row ?rows x" by (simp add: row)
    qed
  qed
  ultimately show ?thesis by (intro exI[of _ ?vs]) (auto simp: row)
qed

section \<open>Lineage\<close>

lemma set_add_all [simp]: "set (add_all xs acc) = set acc \<union> set xs"
  unfolding add_all_def by (induction xs arbitrary: acc) auto

lemma distinct_add_all: "distinct acc \<Longrightarrow> distinct (add_all xs acc)"
  unfolding add_all_def by (induction xs arbitrary: acc) auto

text \<open>The walk visits the nodes reached from \<open>a\<close>, each once; it gives up on more than 4096 of them.\<close>

lemma ancestry_walk_exact:
  fixes E :: "(string \<times> string) set" and a :: string
  defines "R \<equiv> E\<^sup>* `` {a}"
  assumes "finite R" and "\<And>n. set (parents n) = E `` {n}" and "distinct seen" and "visited = int (length seen)"
    and "int (length seen) \<le> max_lineage_walk" and "set seen \<union> set frontier \<subseteq> R" and "a \<in> set seen \<union> set frontier"
    and "E `` set seen \<subseteq> set seen \<union> set frontier" and "set ancestors = E `` set seen" and "distinct ancestors"
  shows "if int (card R) \<le> max_lineage_walk
    then \<exists>as. ancestry_walk parents seen ancestors visited frontier = Inr as \<and> distinct as \<and> set as = E `` R
    else ancestry_walk parents seen ancestors visited frontier = throw ''mission_artifact_lineage_walk_exceeded''"
  using assms(2-)
proof (induction parents seen ancestors visited frontier rule: ancestry_walk.induct)
  case (1 parents seen ancestors visited)
  have "R \<subseteq> set seen"
  proof
    fix x assume "x \<in> R"
    then have "(a, x) \<in> E\<^sup>*" by (simp add: R_def)
    then show "x \<in> set seen"
    proof (induction rule: rtrancl_induct)
      case base
      then show ?case using "1.prems"(7) by simp
    next
      case (step y z)
      then show ?case using "1.prems"(8) by auto
    qed
  qed
  then have R: "R = set seen" using "1.prems"(6) by simp
  have "card (set seen) = length seen" using "1.prems"(3) by (rule distinct_card)
  with "1.prems"(5,9,10) R show ?case by auto
next
  case (2 parents seen ancestors visited n frontier)
  show ?case
  proof (cases "n \<in> set seen")
    case True
    have "E `` set seen \<subseteq> set seen \<union> set frontier" using "2.prems"(8) True by auto
    with "2.IH"(1)[OF True "2.prems"(1-5) _ _ this "2.prems"(9,10)] "2.prems"(6,7) True show ?thesis by auto
  next
    case False
    have n: "insert n (set seen) \<subseteq> R" using "2.prems"(6) by auto
    have "card (insert n (set seen)) \<le> card R" using n "2.prems"(1) by (rule card_mono[rotated])
    then have card: "length seen + 1 \<le> card R" using False "2.prems"(3) by (simp add: distinct_card)
    show ?thesis
    proof (cases "max_lineage_walk < visited + 1")
      case True
      then show ?thesis using False card "2.prems"(4) by simp
    next
      case within: False
      let ?new = "rev (filter (\<lambda>p. p \<notin> set (n # seen)) (parents n)) @ frontier"
      have step: "E `` {n} \<subseteq> R" using n by (auto simp: R_def intro: rtrancl_into_rtrancl)
      have 1: "distinct (n # seen)" "visited + 1 = int (length (n # seen))" "int (length (n # seen)) \<le> max_lineage_walk"
        using False within "2.prems"(3,4) by simp_all
      have 2: "set (n # seen) \<union> set ?new \<subseteq> R" "a \<in> set (n # seen) \<union> set ?new" "E `` set (n # seen) \<subseteq> set (n # seen) \<union> set ?new"
        using "2.prems"(2,6,7,8) step by auto
      have 3: "set (add_all (parents n) ancestors) = E `` set (n # seen)" using "2.prems"(2,9) by auto
      have eq: "ancestry_walk parents seen ancestors visited (n # frontier) =
          ancestry_walk parents (n # seen) (add_all (parents n) ancestors) (visited + 1) ?new"
        using False within by (simp only: ancestry_walk.simps if_False)
      show ?thesis unfolding eq by (rule "2.IH"(2)[OF False within "2.prems"(1,2) 1 2 3 distinct_add_all[OF "2.prems"(10)]])
    qed
  qed
qed

lemma finite_lineage: "finite (lineage_edges rows t mid)"
proof -
  have "lineage_edges rows t mid = (\<lambda>l. (ln_artifact l, ln_parent l)) ` {l \<in> set rows. ln_tenant l = t \<and> ln_mission l = mid}"
    by (auto simp: lineage_edges_def)
  then show ?thesis by simp
qed

lemma finite_reach:
  assumes "finite E"
  shows "finite (E\<^sup>* `` {a})"
proof (rule finite_subset)
  show "E\<^sup>* `` {a} \<subseteq> insert a (Range E)" by (auto elim: rtranclE)
qed (use assms in \<open>simp add: Range_snd\<close>)

text \<open>Claim C20: the lineage of a mission is acyclic on every reachable store, no artifact is its own ancestor, and
  \<open>traceMissionArtifactAncestry\<close> is the transitive closure: it returns every artifact the given one
  derives from, directly or through others, once, as long as the walk meets at most 4096 artifacts, and
  is refused otherwise, never cut short.\<close>

theorem lineage_ancestry:
  assumes "records_reachable h st"
  shows "acyclic (lineage_edges (rs_lineage st) t mid) \<and>
    (if card ((lineage_edges (rs_lineage st) t mid)\<^sup>* `` {a}) \<le> 4096
     then \<exists>as. traceMissionArtifactAncestry st t mid a = Inr as \<and> distinct as \<and>
       set as = (lineage_edges (rs_lineage st) t mid)\<^sup>+ `` {a} \<and> a \<notin> set as
     else traceMissionArtifactAncestry st t mid a = throw ''mission_artifact_lineage_walk_exceeded'')"
proof -
  let ?E = "lineage_edges (rs_lineage st) t mid"
  have acyclic: "acyclic ?E" using reachable_records_ok[OF assms] by (simp add: records_ok_def)
  have "if int (card (?E\<^sup>* `` {a})) \<le> max_lineage_walk
    then \<exists>as. traceMissionArtifactAncestry st t mid a = Inr as \<and> distinct as \<and> set as = ?E `` (?E\<^sup>* `` {a})
    else traceMissionArtifactAncestry st t mid a = throw ''mission_artifact_lineage_walk_exceeded''"
    unfolding traceMissionArtifactAncestry_def
    by (rule ancestry_walk_exact) (simp_all add: finite_reach finite_lineage lineage_parents_edges max_lineage_walk_def)
  moreover have "?E `` (?E\<^sup>* `` {a}) = ?E\<^sup>+ `` {a}" by (auto intro: rtrancl_into_trancl1 elim: tranclE dest: trancl_into_rtrancl)
  ultimately show ?thesis using acyclic by (auto simp: max_lineage_walk_def acyclic_def split: if_splits)
qed

end
