(* ===== verification/EvidenceProperties.thy ===== *)
theory EvidenceProperties
  imports RecordProperties
begin

text \<open>
  Verification evidence and the timeline on every reachable store: evidence for changed code is never
  current evidence, every verification is bound to the stored snapshot it names, and the timeline of a
  mission verifies and shows the event of every record.
\<close>

section \<open>The order of the evidence\<close>

definition ranked :: "('a \<Rightarrow> 'a \<Rightarrow> int) \<Rightarrow> 'a list \<Rightarrow> bool" where
  "ranked cmp xs \<longleftrightarrow> sorted_wrt (\<lambda>a b. cmp a b \<le> 0) xs"

lemma ranked_insert:
  assumes "\<And>a b. cmp a b \<le> 0 \<or> cmp b a \<le> 0" and "\<And>a b c. cmp a b \<le> 0 \<Longrightarrow> cmp b c \<le> 0 \<Longrightarrow> cmp a c \<le> 0"
    and "ranked cmp xs"
  shows "ranked cmp (js_insert cmp x xs)"
  using assms(3)
proof (induction xs)
  case (Cons y ys)
  have "set (js_insert cmp x ys) = insert x (set ys)" by (metis mset_js_insert set_mset_add_mset_insert set_mset_mset)
  then show ?case using Cons assms(1)[of x y] assms(2)[of x y] by (auto simp: ranked_def)
qed (simp add: ranked_def)

lemma ranked_sort:
  assumes "\<And>a b. cmp a b \<le> 0 \<or> cmp b a \<le> 0" and "\<And>a b c. cmp a b \<le> 0 \<Longrightarrow> cmp b c \<le> 0 \<Longrightarrow> cmp a c \<le> 0"
  shows "ranked cmp (js_sort cmp xs)"
proof (induction xs)
  case (Cons x xs)
  have "js_sort cmp (x # xs) = js_insert cmp x (js_sort cmp xs)" by (simp add: js_sort_def)
  with ranked_insert[OF assms Cons.IH] show ?case by simp
qed (simp add: ranked_def)

text \<open>The first match of a ranked list precedes every other match.\<close>

lemma find_ranked:
  "ranked cmp xs \<Longrightarrow> List.find P xs = Some x \<Longrightarrow> y \<in> set xs \<Longrightarrow> P y \<Longrightarrow> y = x \<or> cmp x y \<le> 0"
  by (induction xs) (auto simp: ranked_def split: if_splits)

lemma recency_newest: "recency a b \<le> 0 \<Longrightarrow> vr_createdAt b \<le> vr_createdAt a"
  by (auto simp: recency_def split: if_splits)

lemma ranked_recency: "ranked recency (js_sort recency xs)"
  by (rule ranked_sort) (auto simp: recency_def split: if_splits)

section \<open>The three standings\<close>

definition standing_sound :: "verification_row list \<Rightarrow> verification_identity \<Rightarrow> verification_standing \<Rightarrow> bool" where
  "standing_sound rows cur s \<longleftrightarrow>
     (case s of
        CurrentEvidence v \<Rightarrow> v \<in> set rows \<and> vr_status v = VPassed \<and> identityMatches v cur \<and>
          (\<forall>w \<in> set rows. vr_status w = VPassed \<and> identityMatches w cur \<longrightarrow> vr_createdAt w \<le> vr_createdAt v)
      | StaleEvidence v field old new \<Rightarrow> v \<in> set rows \<and> vr_status v = VPassed \<and> old \<noteq> new \<and>
          (\<forall>w \<in> set rows. \<not> identityMatches w cur) \<and> (\<forall>w \<in> set rows. vr_status w = VPassed \<longrightarrow> vr_createdAt w \<le> vr_createdAt v)
      | NoCurrentEvidence why \<Rightarrow> (\<forall>w \<in> set rows. vr_status w = VPassed \<longrightarrow> \<not> identityMatches w cur) \<and>
          (case why of
             NoVerificationRecorded \<Rightarrow> rows = []
           | CurrentVerificationFailed \<Rightarrow> \<exists>v \<in> set rows. identityMatches v cur \<and> vr_status v = VFailed
           | CurrentVerificationInconclusive \<Rightarrow> \<exists>v \<in> set rows. identityMatches v cur \<and> vr_status v = VInconclusive
           | OnlyStaleEvidence \<Rightarrow> rows \<noteq> [] \<and> (\<forall>w \<in> set rows. vr_status w \<noteq> VPassed \<and> \<not> identityMatches w cur)
           | AmbiguousCurrentCandidate \<Rightarrow> False))"

lemma classify_sound: "standing_sound rows cur (classifyMissionVerificationEvidence rows cur)"
proof -
  let ?by = "js_sort recency rows"
  let ?now = "filter (\<lambda>v. identityMatches v cur) ?by"
  have now: "ranked recency ?now" using ranked_recency by (auto simp: ranked_def sorted_wrt_filter)
  show ?thesis
  proof (cases "List.find (\<lambda>v. vr_status v = VPassed) ?now")
    case (Some v)
    have "vr_createdAt w \<le> vr_createdAt v" if "w \<in> set rows" "vr_status w = VPassed" "identityMatches w cur" for w
      using find_ranked[OF now Some, of w] that recency_newest by auto
    then show ?thesis using find_SomeD[OF Some] Some
      by (auto simp: standing_sound_def classifyMissionVerificationEvidence_def Let_def)
  next
    case none: None
    then have nopass: "\<forall>w \<in> set rows. vr_status w = VPassed \<longrightarrow> \<not> identityMatches w cur" by (auto simp: find_None_iff)
    show ?thesis
    proof (cases ?now)
      case (Cons latest rest)
      then have "latest \<in> set ?now" by simp
      then have l: "latest \<in> set rows" "identityMatches latest cur" by auto
      with nopass have "vr_status latest \<noteq> VPassed" by blast
      with l nopass none Cons show ?thesis
        by (cases "vr_status latest") (auto simp: standing_sound_def classifyMissionVerificationEvidence_def Let_def)
    next
      case Nil
      then have nomatch: "\<forall>w \<in> set rows. \<not> identityMatches w cur" by (metis empty_filter_conv set_js_sort)
      show ?thesis
      proof (cases "List.find (\<lambda>v. vr_status v = VPassed) ?by")
        case (Some v)
        have newest: "vr_createdAt w \<le> vr_createdAt v" if "w \<in> set rows" "vr_status w = VPassed" for w
          using find_ranked[OF ranked_recency Some, of w] that recency_newest by auto
        have v: "v \<in> set rows" "vr_status v = VPassed" using find_SomeD[OF Some] by simp_all
        with nomatch have "\<not> identityMatches v cur" by blast
        then show ?thesis using v newest nomatch none Nil Some
          by (auto simp: standing_sound_def classifyMissionVerificationEvidence_def Let_def stale_evidence_def identityMatches_def)
      next
        case None
        then have "\<forall>w \<in> set rows. vr_status w \<noteq> VPassed" by (auto simp: find_None_iff)
        then show ?thesis using nomatch none Nil None
          by (auto simp: standing_sound_def classifyMissionVerificationEvidence_def Let_def)
      qed
    qed
  qed
qed

section \<open>Snapshots and events only grow\<close>

definition grows :: "record_store \<Rightarrow> record_store \<Rightarrow> bool" where
  "grows st st' \<longleftrightarrow> prefix (db_snapshots (rs_db st)) (db_snapshots (rs_db st')) \<and> prefix (db_events (rs_db st)) (db_events (rs_db st'))"

lemma table_step_snapshots: "table_step h db db' \<Longrightarrow> prefix (db_snapshots db) (db_snapshots db')"
proof (induction rule: table_step.induct)
  case (exception_change c ty x db db')
  then show ?case
    by (auto simp: exception_write_def exception_insert_def Let_def revoke_mission_def dest!: event_step_frame split: if_splits)
qed (auto simp: mission_insert_def mission_write_def task_insert_def task_write_def dependency_insert_def Let_def
    revoke_mission_def revoke_task_def put_task_def put_mission_def dest!: event_step_frame split: if_splits)

lemma control_step_grows: "control_step h (rs_db st) db \<Longrightarrow> grows st (st\<lparr>rs_db := db\<rparr>)"
  by (auto simp: grows_def control_step_def dest: table_step_events table_step_snapshots dest!: dispatch_write_frame)

lemma record_event_grows: "record_event h c kind dg mid ty payload st = Inr st' \<Longrightarrow> grows st st'"
  by (erule record_eventD) (auto simp: grows_def dest: event_step_events event_step_frame)

lemma grows_added [simp]:
  "grows (add_decision d st) = grows st" "grows (add_verification v st) = grows st"
  "grows (add_artifact a st) = grows st" "grows (add_lineage l st) = grows st"
  by (simp_all add: grows_def fun_eq_iff)

lemma record_step_grows: "record_step h st st' \<Longrightarrow> grows st st'"
proof (induction rule: record_step.induct)
  case (control st db)
  then show ?case by (rule control_step_grows)
qed (auto simp: decision_event_def verification_event_def artifact_event_def lineage_event_def grows_def[of _ "_\<lparr>rs_manifests := _\<rparr>"]
    dest!: record_event_grows)

section \<open>Evidence on reachable stores\<close>

definition row_identity :: "verification_row \<Rightarrow> verification_identity" where
  "row_identity v = \<lparr>vi_snapshot = vr_snapshot v, vi_sha = vr_sha v, vi_manifest = vr_manifest v\<rparr>"

definition verifications_bound :: "record_store \<Rightarrow> bool" where
  "verifications_bound st \<longleftrightarrow> list_all (\<lambda>v. resolveMissionSnapshotIdentity st (vr_tenant v) (vr_snapshot v) = Inr (row_identity v)) (rs_verifications st)"

lemma find_append_Some: "List.find P xs = Some x \<Longrightarrow> List.find P (xs @ ys) = Some x"
  by (induction xs) (auto split: if_splits)

lemma resolve_grows:
  "grows st st' \<Longrightarrow> resolveMissionSnapshotIdentity st t sid = Inr b \<Longrightarrow> resolveMissionSnapshotIdentity st' t sid = Inr b"
  by (auto simp: grows_def prefix_def resolveMissionSnapshotIdentity_def find_append_Some split: option.splits)

lemma verifications_bound_step:
  assumes "record_step h st st'" and "verifications_bound st"
  shows "verifications_bound st'"
proof -
  note keep = resolve_grows[OF record_step_grows[OF assms(1)]]
  have "set (rs_verifications st') \<subseteq> set (rs_verifications st) \<union>
      {v. resolveMissionSnapshotIdentity st (vr_tenant v) (vr_snapshot v) = Inr (row_identity v)}"
    using assms(1) by (cases rule: record_step.cases) (auto simp: event_tables row_identity_def)
  then show ?thesis using assms(2) keep by (fastforce simp: verifications_bound_def list_all_iff)
qed

lemma reachable_bound: "records_reachable h st \<Longrightarrow> verifications_bound st"
  by (induction rule: records_induct) (auto simp: fresh_records_def verifications_bound_def intro: verifications_bound_step[unfolded verifications_bound_def])

definition scope_verifications :: "record_store \<Rightarrow> string \<Rightarrow> string \<Rightarrow> string \<Rightarrow> verification_row list" where
  "scope_verifications st t mid scope = filter (\<lambda>v. vr_tenant v = t \<and> vr_mission v = mid \<and> vr_scope v = scope) (rs_verifications st)"

lemma standing_cong: "set rows = set rows' \<Longrightarrow> standing_sound rows cur s = standing_sound rows' cur s"
  unfolding standing_sound_def by (simp cong: verification_standing.case_cong verification_absence.case_cong)
    (auto split: verification_standing.splits verification_absence.splits)

text \<open>Claim C7: evidence for changed code is never current. On every reachable store the standing of a scope of a
  mission is computed (no row is corrupt) and is exact: current evidence is a passed verification of the
  current snapshot, commit and manifest, the newest such; stale evidence says that something passed but
  nothing was verified at the current identity, and names a field that differs; every absence means that
  nothing passed at the current identity, with its reason. Every verification is bound to the stored
  snapshot it names, with the commit and manifest of that snapshot.\<close>

theorem evidence_standing_sound:
  assumes "records_reachable h st"
  shows "\<exists>s. missionVerificationStanding h st t mid scope cur = Inr s \<and> standing_sound (scope_verifications st t mid scope) cur s \<and>
    list_all (\<lambda>v. resolveMissionSnapshotIdentity st (vr_tenant v) (vr_snapshot v) = Inr (row_identity v)) (scope_verifications st t mid scope)"
proof -
  let ?rows = "newest_first vr_createdAt vr_id (scope_verifications st t mid scope)"
  have rows: "set ?rows = set (scope_verifications st t mid scope)" by (simp add: newest_first_def)
  have "list_all (verification_intact h) ?rows"
    using reachable_records_ok[OF assms] unfolding list_all_iff rows by (auto simp: records_ok_def list_all_iff scope_verifications_def)
  then have "listMissionVerifications h st t mid (Some scope) = Inr ?rows"
    using verifications.hydrate_rows[of h ?rows] by (simp add: listMissionVerifications_def scope_verifications_def)
  then have "missionVerificationStanding h st t mid scope cur = Inr (classifyMissionVerificationEvidence ?rows cur)"
    by (simp add: missionVerificationStanding_def)
  moreover have "standing_sound (scope_verifications st t mid scope) cur (classifyMissionVerificationEvidence ?rows cur)"
    using classify_sound[of ?rows cur] unfolding standing_cong[OF rows] .
  moreover have "list_all (\<lambda>v. resolveMissionSnapshotIdentity st (vr_tenant v) (vr_snapshot v) = Inr (row_identity v))
      (scope_verifications st t mid scope)"
    using reachable_bound[OF assms] by (auto simp: verifications_bound_def scope_verifications_def list_all_iff)
  ultimately show ?thesis by blast
qed

section \<open>The timeline\<close>

definition logged :: "host \<Rightarrow> record_store \<Rightarrow> string \<Rightarrow> string \<Rightarrow> string \<Rightarrow> json \<Rightarrow> bool" where
  "logged h st t mid ty payload \<longleftrightarrow> (\<exists>e \<in> set (db_events (rs_db st)). ev_tenant e = t \<and> ev_aggregateType e = ''mission'' \<and>
     ev_aggregateId e = mid \<and> ev_type e = ty \<and> ev_payloadSha e = digest h payload)"

lemma logged_grows: "grows st st' \<Longrightarrow> logged h st t mid ty p \<Longrightarrow> logged h st' t mid ty p"
  by (auto simp: logged_def grows_def prefix_def)

lemma record_event_logged:
  assumes "record_event h c kind dg mid ty payload st = Inr st'"
  shows "logged h st' (c_tenant c) mid ty payload"
  using assms
proof (rule record_eventD)
  fix i
  assume i: "ei_payload i = payload" "ei_type i = ty" "ei_tenant i = c_tenant c" "ei_aggregateType i = ''mission''" "ei_aggregateId i = mid"
    and ev: "event_step h i (rs_db st) (rs_db st')"
  let ?e = "new_event h i (last_event (rs_db st) (ei_tenant i))"
  from ev show ?thesis unfolding event_step_def
  proof (elim disjE conjE)
    assume "event_known h i (rs_db st)" "rs_db st' = rs_db st"
    then show ?thesis using i by (auto simp: logged_def event_known_def same_event_def)
  next
    assume "rs_db st' = with_event h i (rs_db st)"
    then have "?e \<in> set (db_events (rs_db st'))" by (simp add: with_event_def)
    then show ?thesis unfolding logged_def using i by (intro bexI[of _ ?e]) simp_all
  qed
qed

definition records_logged :: "host \<Rightarrow> record_store \<Rightarrow> bool" where
  "records_logged h st \<longleftrightarrow>
     list_all (\<lambda>d. logged h st (dc_tenant d) (dc_mission d) (decision_event_type d) (decision_payload d)) (rs_decisions st) \<and>
     list_all (\<lambda>v. logged h st (vr_tenant v) (vr_mission v) ''mission.verification_recorded'' (verification_payload v)) (rs_verifications st) \<and>
     list_all (\<lambda>a. logged h st (ar_tenant a) (ar_mission a) ''mission.artifact_registered'' (artifact_payload a)) (rs_artifacts st) \<and>
     list_all (\<lambda>l. logged h st (ln_tenant l) (ln_mission l) ''mission.artifact_lineage_recorded'' (lineage_payload l)) (rs_lineage st)"

lemma event_logged:
  "decision_event h c d s = Inr st' \<Longrightarrow> logged h st' (c_tenant c) (dc_mission d) (decision_event_type d) (decision_payload d)"
  "verification_event h c v s = Inr st' \<Longrightarrow> logged h st' (c_tenant c) (vr_mission v) ''mission.verification_recorded'' (verification_payload v)"
  "artifact_event h c a s = Inr st' \<Longrightarrow> logged h st' (c_tenant c) (ar_mission a) ''mission.artifact_registered'' (artifact_payload a)"
  "lineage_event h c l s = Inr st' \<Longrightarrow> logged h st' (c_tenant c) (ln_mission l) ''mission.artifact_lineage_recorded'' (lineage_payload l)"
  by (simp_all add: decision_event_def verification_event_def artifact_event_def lineage_event_def record_event_logged)

lemma records_logged_step:
  assumes step: "record_step h st st'" and logged: "records_logged h st"
  shows "records_logged h st'"
proof -
  note keep = logged_grows[OF record_step_grows[OF step]]
  have old: "list_all (\<lambda>d. logged h st' (dc_tenant d) (dc_mission d) (decision_event_type d) (decision_payload d)) (rs_decisions st)"
     "list_all (\<lambda>v. logged h st' (vr_tenant v) (vr_mission v) ''mission.verification_recorded'' (verification_payload v)) (rs_verifications st)"
     "list_all (\<lambda>a. logged h st' (ar_tenant a) (ar_mission a) ''mission.artifact_registered'' (artifact_payload a)) (rs_artifacts st)"
     "list_all (\<lambda>l. logged h st' (ln_tenant l) (ln_mission l) ''mission.artifact_lineage_recorded'' (lineage_payload l)) (rs_lineage st)"
    using logged keep by (simp_all add: records_logged_def list_all_iff)
  from step show ?thesis
    by (cases rule: record_step.cases) (use old event_logged in \<open>simp_all add: records_logged_def event_tables\<close>)
qed

lemma reachable_logged: "records_reachable h st \<Longrightarrow> records_logged h st"
proof (induction rule: records_induct)
  case (start st)
  then show ?case by (simp add: fresh_records_def records_logged_def)
qed (rule records_logged_step)

definition shown :: "host \<Rightarrow> timeline_entry list \<Rightarrow> string \<Rightarrow> json \<Rightarrow> bool" where
  "shown h es ty payload \<longleftrightarrow> (\<exists>e \<in> set es. te_type e = ty \<and> te_payloadSha e = digest h payload)"

text \<open>Claim C6: the timeline of a mission is complete. On every reachable store it is readable: the chain verifies,
  the entries are exactly the events of the mission in the order they were appended, and every decision,
  verification, artifact and lineage link of the mission has an entry with its type and the digest of its
  payload.\<close>

theorem timeline_complete:
  assumes "records_reachable h st" and "mid \<noteq> []"
  shows "\<exists>es n. readMissionTimeline h (rs_db st) t mid = TimelineOk (getMission (rs_db st) t mid \<noteq> None) es n \<and>
    es = map toEntry (filter (\<lambda>e. ev_tenant e = t \<and> ev_aggregateType e = ''mission'' \<and> ev_aggregateId e = mid) (db_events (rs_db st))) \<and>
    list_all (\<lambda>d. dc_tenant d = t \<and> dc_mission d = mid \<longrightarrow> shown h es (decision_event_type d) (decision_payload d)) (rs_decisions st) \<and>
    list_all (\<lambda>v. vr_tenant v = t \<and> vr_mission v = mid \<longrightarrow> shown h es ''mission.verification_recorded'' (verification_payload v)) (rs_verifications st) \<and>
    list_all (\<lambda>a. ar_tenant a = t \<and> ar_mission a = mid \<longrightarrow> shown h es ''mission.artifact_registered'' (artifact_payload a)) (rs_artifacts st) \<and>
    list_all (\<lambda>l. ln_tenant l = t \<and> ln_mission l = mid \<longrightarrow> shown h es ''mission.artifact_lineage_recorded'' (lineage_payload l)) (rs_lineage st)"
proof -
  let ?rows = "filter (\<lambda>e. ev_tenant e = t \<and> ev_aggregateType e = ''mission'' \<and> ev_aggregateId e = mid) (db_events (rs_db st))"
  note log = control_invD(4)[OF records_reachable_control[OF assms(1)]]
  have "aggregate_events (rs_db st) t ''mission'' mid = ?rows"
    using aggregate_events_ok[OF log, of t "''mission''" mid] by (simp add: tenant_rows_def conj_commute conj_left_commute)
  then have "readMissionTimeline h (rs_db st) t mid =
      TimelineOk (getMission (rs_db st) t mid \<noteq> None) (map toEntry ?rows) (ig_checked (verifyDomainEventIntegrity h (rs_db st) t))"
    using assms(2) log_ok_verifies[OF log, of t] by (simp add: readMissionTimeline_def Let_def listDomainEvents_def ensure_def getMission_def)
  moreover have "shown h (map toEntry ?rows) ty p" if "logged h st t mid ty p" for ty p
    using that by (auto simp: logged_def shown_def toEntry_def)
  ultimately show ?thesis using reachable_logged[OF assms(1)]
    by (intro exI conjI) (auto simp: records_logged_def list_all_iff)
qed

section \<open>A sample run\<close>

definition hash_host :: host where
  "hash_host = demo_host\<lparr>h_sha := \<lambda>s. CHR ''0'' # take 40 (rev s)\<rparr>"

definition demo_record :: "string \<Rightarrow> decision_input" where
  "demo_record text = \<lparr>dn_decision = text, dn_scope = ''api'', dn_evidence = None, dn_type = Some ''migration''\<rparr>"

definition records_start :: record_store where
  "records_start = \<lparr>rs_db = demo_start, rs_decisions = [], rs_verifications = [], rs_manifests =
     [\<lparr>am_id = ''a'', am_tenant = ''t'', am_sha = demo_sha\<rparr>, \<lparr>am_id = ''b'', am_tenant = ''t'', am_sha = demo_sha\<rparr>],
     rs_artifacts = [], rs_lineage = []\<rparr>"

definition demo_identity :: verification_identity where
  "demo_identity = \<lparr>vi_snapshot = ''s'', vi_sha = demo_sha, vi_manifest = ''x''\<rparr>"

definition demo_artifact :: "string \<Rightarrow> string \<Rightarrow> record_cmd" where
  "demo_artifact role aid = RegisterArtifact (demo_call aid) ''m''
     \<lparr>an_role = role, an_artifact = aid, an_label = role, an_task = None, an_snapshot = None\<rparr>"

definition decided_demo :: record_store where
  "decided_demo = run_records hash_host [Control demo_mission, RecordDecision (demo_call ''d'') ''m'' (demo_record ''wrap'')] records_start"

definition verified_demo :: record_store where
  "verified_demo = run_records hash_host [Control demo_mission, RecordVerification (demo_call ''v'') ''m''
     \<lparr>vn_verification = ''tests'', vn_scope = ''api'', vn_identity = demo_identity, vn_status = VPassed\<rparr>] records_start"

definition derived_demo :: record_store where
  "derived_demo = run_records hash_host [Control demo_mission, demo_artifact ''test_run'' ''a'', demo_artifact ''pull_request'' ''b'',
     RecordLineage (demo_call ''l'') ''m'' ''b'' ''a''] records_start"

lemma demos_reachable:
  "records_reachable hash_host decided_demo" "records_reachable hash_host verified_demo" "records_reachable hash_host derived_demo"
proof -
  have "records_reachable hash_host records_start" by (rule records_reachable.records_start) code_simp
  then show "records_reachable hash_host decided_demo" "records_reachable hash_host verified_demo" "records_reachable hash_host derived_demo"
    unfolding decided_demo_def verified_demo_def derived_demo_def by (blast intro: run_records_reachable)+
qed

lemma decided_demo_state: "map dc_decision (mission_decisions decided_demo ''t'' ''m'') = [''wrap'']"
  by code_simp

lemma verified_demo_state: "map vr_status (scope_verifications verified_demo ''t'' ''m'' ''api'') = [VPassed]"
  by code_simp

lemma hash_host_non_empty: "non_empty_hash hash_host"
  by (simp add: non_empty_hash_def hash_host_def)

theorem decision_chains_witness:
  "\<exists>vs. listMissionDecisions hash_host decided_demo ''t'' ''m'' = Inr vs \<and> length vs = 1 \<and> (\<exists>w \<in> set vs. dv_status w \<noteq> EffSuperseded)"
proof -
  from decision_chains[OF demos_reachable(1) hash_host_non_empty, of "''t''" "''m''"] obtain vs where
    vs: "listMissionDecisions hash_host decided_demo ''t'' ''m'' = Inr vs"
      "mset (map dv_row vs) = mset (mission_decisions decided_demo ''t'' ''m'')"
    and head: "\<forall>v \<in> set vs. \<exists>!w. w \<in> set vs \<and> (dv_row v, dv_row w) \<in> (supersessions (rs_decisions decided_demo))\<^sup>* \<and> dv_status w \<noteq> EffSuperseded"
    by blast
  have "length (mission_decisions decided_demo ''t'' ''m'') = 1" using arg_cong[OF decided_demo_state, of length] by simp
  then have len: "length vs = 1" using arg_cong[OF vs(2), of size] by simp
  then obtain v where "v \<in> set vs" by (cases vs) auto
  with head have "\<exists>w \<in> set vs. dv_status w \<noteq> EffSuperseded" by blast
  with vs(1) len show ?thesis by blast
qed

theorem lineage_ancestry_witness: "acyclic (lineage_edges (rs_lineage derived_demo) ''t'' ''m'')"
  using lineage_ancestry[OF demos_reachable(3)] by blast

theorem evidence_standing_sound_witness:
  "scope_verifications verified_demo ''t'' ''m'' ''api'' \<noteq> [] \<and>
   (\<exists>s. missionVerificationStanding hash_host verified_demo ''t'' ''m'' ''api'' demo_identity = Inr s \<and>
     standing_sound (scope_verifications verified_demo ''t'' ''m'' ''api'') demo_identity s)"
proof
  show "scope_verifications verified_demo ''t'' ''m'' ''api'' \<noteq> []" using verified_demo_state by auto
qed (use evidence_standing_sound[OF demos_reachable(2), of "''t''" "''m''" "''api''" demo_identity] in blast)

theorem timeline_complete_witness:
  "\<exists>es n. readMissionTimeline hash_host (rs_db decided_demo) ''t'' ''m'' = TimelineOk (getMission (rs_db decided_demo) ''t'' ''m'' \<noteq> None) es n \<and>
    (\<exists>e \<in> set es. te_type e \<in> {''mission.decision_recorded'', ''mission.decision_superseded''})"
proof -
  from timeline_complete[OF demos_reachable(1), of "''m''" "''t''"] obtain es n where
    t: "readMissionTimeline hash_host (rs_db decided_demo) ''t'' ''m'' = TimelineOk (getMission (rs_db decided_demo) ''t'' ''m'' \<noteq> None) es n"
    and d: "list_all (\<lambda>d. dc_tenant d = ''t'' \<and> dc_mission d = ''m'' \<longrightarrow> shown hash_host es (decision_event_type d) (decision_payload d)) (rs_decisions decided_demo)"
    by auto
  from decided_demo_state have "mission_decisions decided_demo ''t'' ''m'' \<noteq> []" by auto
  then obtain d where "d \<in> set (rs_decisions decided_demo)" "dc_tenant d = ''t''" "dc_mission d = ''m''"
    by (auto simp: mission_decisions_def filter_empty_conv)
  with d have "shown hash_host es (decision_event_type d) (decision_payload d)" by (simp add: list_all_iff)
  then have "\<exists>e \<in> set es. te_type e \<in> {''mission.decision_recorded'', ''mission.decision_superseded''}"
    by (auto simp: shown_def decision_event_type_def split: if_splits)
  with t show ?thesis by blast
qed

end
