(* ===== verification/MissionReplay.thy ===== *)
theory MissionReplay
  imports MissionProperties
begin

text \<open>
  The audit log as the record of a mission: an abstract replay folds the events of a mission into a view of
  its row, and on every reachable database the replay of the listed events is the view of the stored row.
  The host's hash must not collide, since an append with a known idempotency key is compared by digest.
\<close>

section \<open>The replay\<close>

record mission_view =
  v_product :: "json option"
  v_trigger :: "json option"
  v_state :: "json option"
  v_revision :: "json option"
  v_graph :: "json option"
  v_policy :: "json option"
  v_fettler :: "json option"
  v_regauge :: "json option"

definition field :: "string \<Rightarrow> json \<Rightarrow> json option" where
  "field k v = (case v of JObj kvs \<Rightarrow> map_of kvs k | _ \<Rightarrow> None)"

definition replay_change :: "string \<Rightarrow> json \<Rightarrow> mission_view \<Rightarrow> mission_view" where
  "replay_change ty p v =
     (if ty = ''mission.transitioned'' then v\<lparr>v_state := field ''to'' p, v_revision := field ''revision'' p\<rparr>
      else if ty = ''mission.scope_bound'' then v\<lparr>v_revision := field ''revision'' p\<rparr>
      else if ty = ''mission.graph_version_bound'' then v\<lparr>v_graph := field ''graphVersionId'' p, v_revision := field ''revision'' p\<rparr>
      else if ty = ''mission.policy_envelope_bound''
        then v\<lparr>v_policy := field ''policyEnvelopeVersion'' p, v_revision := field ''revision'' p\<rparr>
      else if ty = ''mission.policy_envelope_advanced''
        then v\<lparr>v_policy := field ''toPolicyEnvelopeVersion'' p, v_revision := field ''revision'' p\<rparr>
      else if ty = ''mission.fettler_campaign_linked'' then v\<lparr>v_fettler := field ''campaignId'' p\<rparr>
      else if ty = ''mission.regauge_campaign_linked'' then v\<lparr>v_regauge := field ''regaugeCampaignId'' p\<rparr>
      else v)"

definition replay_event :: "mission_view option \<Rightarrow> domain_event \<Rightarrow> mission_view option" where
  "replay_event v e =
     (let p = ev_payload e in
      if ev_type e = ''mission.created''
      then Some \<lparr>v_product = field ''product'' p, v_trigger = field ''triggerKind'' p, v_state = field ''state'' p,
        v_revision = field ''revision'' p, v_graph = None, v_policy = None, v_fettler = None, v_regauge = None\<rparr>
      else map_option (replay_change (ev_type e) p) v)"

definition replay :: "domain_event list \<Rightarrow> mission_view option" where
  "replay es = foldl replay_event None es"

fun product_text :: "mission_product \<Rightarrow> string" where
  "product_text Fettler = ''fettler''"
| "product_text Regauge = ''regauge''"

fun trigger_text :: "mission_trigger \<Rightarrow> string" where
  "trigger_text ProviderChange = ''provider_change''"
| "trigger_text MigrationObjective = ''migration_objective''"

definition view :: "mission \<Rightarrow> mission_view" where
  "view m = \<lparr>v_product = Some (JStr (product_text (m_product m))), v_trigger = Some (JStr (trigger_text (m_trigger m))),
     v_state = Some (JStr (state_text (m_state m))), v_revision = Some (JNum (m_revision m)),
     v_graph = map_option JStr (m_graphVersion m), v_policy = map_option JStr (m_policyVersion m),
     v_fettler = map_option JStr (m_fettler m), v_regauge = map_option JStr (m_regauge m)\<rparr>"

lemma product_of_text: "product_of p = Some x \<Longrightarrow> p = product_text x"
  by (auto simp: product_of_def split: if_splits)

lemma trigger_of_text: "trigger_of k = Some x \<Longrightarrow> k = trigger_text x"
  by (auto simp: trigger_of_def split: if_splits)

text \<open>Replaying the event of a change changes the view as the row was changed.\<close>

lemma replay_change_view:
  "replay_change (change_type ch) (change_payload ch m) (view m) = view (apply_change s ch m)"
  by (cases ch rule: change_type.cases)
    (simp_all add: replay_change_def change_payload_def field_def view_def apply_change_def)

lemma change_type_created [simp]: "change_type ch \<noteq> ''mission.created''" "''mission.created'' \<noteq> change_type ch"
  by (cases ch rule: change_type.cases; simp)+

lemma replay_change_other:
  assumes "\<And>ch. ty \<noteq> change_type ch"
  shows "replay_change ty p v = v"
  using assms[of "Transitioned MCreated"] assms[of "ScopeBound [] []"] assms[of "VersionBound GraphVersion []"]
    assms[of "VersionBound PolicyVersion []"] assms[of "VersionAdvanced [] [] []"] assms[of "FettlerLinked []"] assms[of "RegaugeLinked []"]
  by (simp add: replay_change_def)

text \<open>\<open>change_made ch m cur\<close>: the change that was made to the row \<open>m\<close> shows in the row \<open>cur\<close>. The event of a
  change determines it up to that.\<close>

fun change_made :: "mission_change \<Rightarrow> mission \<Rightarrow> mission \<Rightarrow> bool" where
  "change_made (FettlerLinked c) m cur \<longleftrightarrow> m_fettler cur \<noteq> None"
| "change_made (RegaugeLinked c) m cur \<longleftrightarrow> m_regauge cur \<noteq> None"
| "change_made ch m cur \<longleftrightarrow> m_revision m < m_revision cur"

lemma change_made_evolves: "change_made ch m cur \<Longrightarrow> mission_evolves cur cur' \<Longrightarrow> change_made ch m cur'"
  by (cases ch) (auto simp: mission_evolves_def write_once_def)

lemma change_made_now: "change_made ch cur (apply_change s ch cur)"
  by (cases ch) (simp_all add: apply_change_def)

lemma change_made_once: "change_allowed ch cur \<Longrightarrow> \<not> change_made ch cur cur"
  by (cases ch) simp_all

lemma change_made_payload:
  "change_type ch = change_type ch' \<Longrightarrow> change_payload ch m = change_payload ch' m' \<Longrightarrow> change_made ch' m' cur = change_made ch m cur"
  by (cases ch rule: change_type.cases; cases ch' rule: change_type.cases; simp add: change_payload_def)

definition covers :: "mission \<Rightarrow> domain_event \<Rightarrow> bool" where
  "covers cur e \<longleftrightarrow> (\<forall>ch m. ev_type e = change_type ch \<longrightarrow> ev_payload e = change_payload ch m \<longrightarrow> change_made ch m cur)"

lemma covers_evolves: "covers cur e \<Longrightarrow> mission_evolves cur cur' \<Longrightarrow> covers cur' e"
  unfolding covers_def using change_made_evolves by blast

lemma covers_other: "(\<And>ch. ev_type e \<noteq> change_type ch) \<Longrightarrow> covers cur e"
  by (simp add: covers_def)

lemma covers_change:
  "ev_type e = change_type ch \<Longrightarrow> ev_payload e = change_payload ch cur \<Longrightarrow> covers (apply_change s ch cur) e"
  unfolding covers_def using change_made_payload[of ch] change_made_now[of ch cur s] by metis

lemma covers_fresh:
  "covers cur e \<Longrightarrow> change_allowed ch cur \<Longrightarrow> ev_type e = change_type ch \<Longrightarrow> ev_payload e \<noteq> change_payload ch cur"
  unfolding covers_def using change_made_once by blast

section \<open>The events of a mission\<close>

definition mission_log :: "app_db \<Rightarrow> string \<Rightarrow> string \<Rightarrow> domain_event list" where
  "mission_log db t mid = filter (\<lambda>e. ev_aggregateType e = ''mission'' \<and> ev_aggregateId e = mid) (tenant_rows db t)"

lemma mission_log_listed: "log_ok h db \<Longrightarrow> aggregate_events db t ''mission'' mid = mission_log db t mid"
  by (simp add: aggregate_events_ok mission_log_def)

lemma mission_log_cong: "db_events db' = db_events db \<Longrightarrow> mission_log db' t mid = mission_log db t mid"
  by (simp add: mission_log_def tenant_rows_def)

lemma mission_log_with_event:
  "mission_log (with_event h i db) t mid = mission_log db t mid @
     (if ei_tenant i = t \<and> ei_aggregateType i = ''mission'' \<and> ei_aggregateId i = mid
      then [new_event h i (last_event db (ei_tenant i))] else [])"
  by (simp add: mission_log_def tenant_rows_def with_event_def)

lemma replay_snoc: "replay (es @ [e]) = replay_event (replay es) e"
  by (simp add: replay_def)

text \<open>An event of a mission is spent: its mission exists, and the change it records has been made, so that no
  later change of the row has the same event.\<close>

definition spent :: "app_db \<Rightarrow> domain_event \<Rightarrow> bool" where
  "spent db e \<longleftrightarrow> (\<exists>cur. findMission db (ev_tenant e) (ev_aggregateId e) = Some cur \<and> covers cur e)"

definition audited :: "app_db \<Rightarrow> bool" where
  "audited db \<longleftrightarrow> (\<forall>t mid m. findMission db t mid = Some m \<longrightarrow> replay (mission_log db t mid) = Some (view m)) \<and>
     (\<forall>e \<in> set (db_events db). ev_aggregateType e = ''mission'' \<longrightarrow> spent db e)"

lemma auditedD:
  "audited db \<Longrightarrow> findMission db t mid = Some m \<Longrightarrow> replay (mission_log db t mid) = Some (view m)"
  "audited db \<Longrightarrow> e \<in> set (db_events db) \<Longrightarrow> ev_aggregateType e = ''mission'' \<Longrightarrow> spent db e"
  by (auto simp: audited_def)

lemma spent_evolves: "spent db e \<Longrightarrow> missions_evolve db db' \<Longrightarrow> spent db' e"
  unfolding spent_def missions_evolve_def using covers_evolves by blast

lemma spent_cong: "db_missions db' = db_missions db \<Longrightarrow> spent db' e = spent db e"
  by (simp add: spent_def findMission_def)

lemma audited_frame:
  assumes "audited db" and "db_missions db' = db_missions db" and "db_events db' = db_events db"
  shows "audited db'"
  using assms(1) by (simp add: audited_def spent_cong[OF assms(2)] mission_log_cong[OF assms(3)] findMission_cong_missions[OF assms(2)] assms(3))

lemma linked_digest: "linked h n prev es \<Longrightarrow> e \<in> set es \<Longrightarrow> ev_payloadSha e = digest h (ev_payload e)"
  by (induction es arbitrary: n prev) (auto simp: sound_event_def)

text \<open>Known events were appended before, with the same payload.\<close>

lemma known_event:
  assumes "inj (h_sha h)" and "log_ok h db" and "event_known h i db"
  obtains e where "e \<in> set (db_events db)" "ev_tenant e = ei_tenant i" "ev_type e = ei_type i"
    "ev_aggregateType e = ei_aggregateType i" "ev_aggregateId e = ei_aggregateId i" "ev_payload e = ei_payload i"
proof -
  from assms(3) obtain e where e: "e \<in> set (db_events db)" "ev_tenant e = ei_tenant i" "same_event h i e"
    by (auto simp: event_known_def)
  then have "e \<in> set (tenant_rows db (ev_tenant e))" by (simp add: tenant_rows_def)
  then have "ev_payloadSha e = digest h (ev_payload e)" by (rule linked_digest[OF log_ok_linked[OF assms(2)]])
  with e(3) have "ev_payload e = ei_payload i" by (simp add: same_event_def digest_def inj_eq[OF assms(1)])
  with e that show thesis by (auto simp: same_event_def)
qed

section \<open>Steps\<close>

lemma audited_event_step:
  assumes ev: "event_step h i db db'" and ok: "audited db"
    and neutral: "ei_aggregateType i \<noteq> ''mission'' \<or> ei_type i \<noteq> ''mission.created'' \<and> (\<forall>ch. ei_type i \<noteq> change_type ch) \<and>
      findMission db (ei_tenant i) (ei_aggregateId i) \<noteq> None"
  shows "audited db'"
proof (cases "db' = db")
  case False
  with ev have db': "db' = with_event h i db" by (auto simp: event_step_def)
  let ?e = "new_event h i (last_event db (ei_tenant i))"
  have rows: "db_events db' = db_events db @ [?e]" and same: "db_missions db' = db_missions db"
    by (simp_all add: db' with_event_def)
  have "replay (mission_log db' t mid) = Some (view m)" if "findMission db t mid = Some m" for t mid m
    using auditedD(1)[OF ok that] neutral
    by (auto simp: db' mission_log_with_event replay_snoc replay_event_def replay_change_other)
  moreover have "spent db' e" if e: "e \<in> set (db_events db')" "ev_aggregateType e = ''mission''" for e
  proof (cases "e \<in> set (db_events db)")
    case True
    from auditedD(2)[OF ok True e(2)] show ?thesis by (simp only: spent_cong[OF same])
  next
    case False
    with e(1) have new: "e = ?e" by (simp add: rows)
    with neutral e(2) obtain cur where "findMission db (ei_tenant i) (ei_aggregateId i) = Some cur" "\<And>ch. ev_type e \<noteq> change_type ch"
      by auto
    with new show ?thesis unfolding spent_cong[OF same] by (simp add: spent_def covers_other)
  qed
  ultimately show ?thesis by (simp add: audited_def findMission_cong_missions[OF same])
qed (use ok in simp)

lemma audited_insert:
  assumes inj: "inj (h_sha h)" and log: "log_ok h db" and ok: "audited db"
    and ins: "mission_insert h c m (created_payload p k) db db'" and m: "m_revision m = 1" "m_tenant m = c_tenant c"
      "m_fettler m = None" "m_regauge m = None" "m_state m = MCreated" "m_graphVersion m = None" "m_policyVersion m = None"
      "product_of p = Some (m_product m)" "trigger_of k = Some (m_trigger m)"
  shows "audited db'"
proof -
  let ?i = "call_event c ''mission'' (m_id m) ''mission.created'' (created_payload p k)"
  let ?db1 = "db\<lparr>db_missions := db_missions db @ [m]\<rparr>"
  note find = mission_insert_find[OF ins]
  have i: "ei_tenant ?i = m_tenant m" "ei_aggregateType ?i = ''mission''" "ei_aggregateId ?i = m_id m"
    "ei_type ?i = ''mission.created''" "ei_payload ?i = created_payload p k"
    by (simp_all add: call_event_def m)
  have none: "\<not> (ev_aggregateType e = ''mission'' \<and> ev_tenant e = m_tenant m \<and> ev_aggregateId e = m_id m)"
    if "e \<in> set (db_events db)" for e
    using auditedD(2)[OF ok that] find(2) by (auto simp: spent_def)
  have log1: "log_ok h ?db1" using log by (simp add: log_ok_def tenant_rows_def)
  have "\<not> event_known h ?i ?db1"
  proof
    assume "event_known h ?i ?db1"
    with inj log1 obtain e where "e \<in> set (db_events ?db1)" "ev_tenant e = ei_tenant ?i"
      "ev_aggregateType e = ei_aggregateType ?i" "ev_aggregateId e = ei_aggregateId ?i" by (rule known_event)
    with none i show False by simp
  qed
  then have db': "db' = with_event h ?i ?db1" using ins by (auto simp: mission_insert_def event_step_def)
  have empty: "mission_log db (m_tenant m) (m_id m) = []" 
    unfolding mission_log_def tenant_rows_def filter_filter filter_empty_conv using none by blast
  have old: "mission_log ?db1 t mid = mission_log db t mid" for t mid by (rule mission_log_cong) simp
  have "replay (mission_log db' t mid) = Some (view m')" if "findMission db' t mid = Some m'" for t mid m'
  proof (cases "t = m_tenant m \<and> mid = m_id m")
    case True
    with that have "m' = m" by (simp add: find(1))
    with True show ?thesis unfolding db' mission_log_with_event old
      by (simp add: empty i replay_def replay_event_def view_def m created_payload_def field_def
          product_of_text[OF m(8)] trigger_of_text[OF m(9)] call_event_def Let_def)
  next
    case False
    with that have "findMission db t mid = Some m'" by (simp only: find(1) if_False)
    from auditedD(1)[OF ok this] False show ?thesis unfolding db' mission_log_with_event old by (auto simp: i)
  qed
  moreover have "spent db' e" if "e \<in> set (db_events db')" "ev_aggregateType e = ''mission''" for e
  proof (cases "e \<in> set (db_events db)")
    case True
    have "missions_evolve db db'" using find by (auto simp: missions_evolve_def)
    from spent_evolves[OF auditedD(2)[OF ok True that(2)] this] show ?thesis .
  next
    case False
    with that have "ev_tenant e = m_tenant m" "ev_aggregateId e = m_id m" "ev_type e = ''mission.created''"
      by (auto simp: db' with_event_def i)
    then show ?thesis by (simp add: spent_def find(1) covers_other)
  qed
  ultimately show ?thesis by (simp add: audited_def)
qed

lemma audited_write:
  assumes inj: "inj (h_sha h)" and log: "log_ok h db" and ok: "audited db" and w: "mission_write h c mid ch db db'"
  shows "audited db'"
proof -
  from w obtain cur where cur: "findMission db (c_tenant c) mid = Some cur" "change_allowed ch cur"
    and find: "\<And>t mid'. findMission db' t mid' = (if t = c_tenant c \<and> mid' = mid then Some (apply_change (c_createdAt c) ch cur) else findMission db t mid')"
    by (rule mission_write_find) blast
  let ?i = "call_event c ''mission'' mid (change_type ch) (change_payload ch cur)"
  let ?db1 = "put_mission (c_tenant c) mid (apply_change (c_createdAt c) ch)
          (if bumps ch then revoke_mission (c_tenant c) mid (c_createdAt c) db else db)"
  have i: "ei_tenant ?i = c_tenant c" "ei_aggregateType ?i = ''mission''" "ei_aggregateId ?i = mid"
    "ei_type ?i = change_type ch" "ei_payload ?i = change_payload ch cur" by (simp_all add: call_event_def)
  have ev: "event_step h ?i ?db1 db'" using w cur(1) by (auto simp: mission_write_def)
  have events: "db_events ?db1 = db_events db" by simp
  have "\<not> event_known h ?i ?db1"
  proof
    assume known: "event_known h ?i ?db1"
    from log have "log_ok h ?db1" by (simp add: log_ok_cong[OF events])
    with inj obtain e where e: "e \<in> set (db_events ?db1)" "ev_tenant e = ei_tenant ?i" "ev_type e = ei_type ?i"
      "ev_aggregateType e = ei_aggregateType ?i" "ev_aggregateId e = ei_aggregateId ?i" "ev_payload e = ei_payload ?i"
      using known by (rule known_event)
    with auditedD(2)[OF ok, of e] cur(1) have "covers cur e" unfolding i events by (auto simp: spent_def)
    from covers_fresh[OF this cur(2)] e(3,6) show False by (simp add: i)
  qed
  with ev have db': "db' = with_event h ?i ?db1" by (auto simp: event_step_def)
  have old: "mission_log ?db1 t mid = mission_log db t mid" for t mid by (rule mission_log_cong[OF events])
  have "replay (mission_log db' t mid') = Some (view m')" if "findMission db' t mid' = Some m'" for t mid' m'
  proof (cases "t = c_tenant c \<and> mid' = mid")
    case True
    with that have "m' = apply_change (c_createdAt c) ch cur" by (simp add: find)
    with True auditedD(1)[OF ok cur(1)] show ?thesis unfolding db' mission_log_with_event old
      by (simp add: i replay_snoc replay_event_def replay_change_view)
  next
    case False
    with that have "findMission db t mid' = Some m'" by (simp only: find if_False)
    from auditedD(1)[OF ok this] False show ?thesis unfolding db' mission_log_with_event old by (auto simp: i)
  qed
  moreover have "spent db' e" if "e \<in> set (db_events db')" "ev_aggregateType e = ''mission''" for e
  proof (cases "e \<in> set (db_events db)")
    case True
    have "missions_evolve db db'" using find cur change_evolves by (auto simp: missions_evolve_def)
    from spent_evolves[OF auditedD(2)[OF ok True that(2)] this] show ?thesis .
  next
    case False
    with that have "e = new_event h ?i (last_event ?db1 (c_tenant c))" unfolding db' with_event_def i by (simp del: put_mission_frame add: events)
    then have "ev_tenant e = c_tenant c" "ev_aggregateId e = mid" "ev_type e = change_type ch" "ev_payload e = change_payload ch cur"
      by (simp_all add: i)
    then show ?thesis by (simp add: spent_def find covers_change)
  qed
  ultimately show ?thesis by (simp add: audited_def)
qed

lemma audited_exception:
  assumes ok: "audited db" and w: "exception_write h c ty x db db'" and ty: "ty \<noteq> ''mission.created''" "\<And>ch. ty \<noteq> change_type ch"
  shows "audited db'"
proof -
  let ?base = "if x_status x = Open \<and> x_blocking x then revoke_mission (x_tenant x) (x_mission x) (c_createdAt c) db else db"
  have base: "audited ?base" by (rule audited_frame[OF ok]) (simp_all split: if_splits)
  from w consider "db' = ?base" | "exception_insert h c ty x ?base db'" by (auto simp: exception_write_def Let_def)
  then show ?thesis
  proof cases
    case 2
    then obtain row i where i: "ei_tenant i = c_tenant c" "ei_type i = ty" "ei_aggregateId i = x_mission x"
      and ev: "event_step h i (?base\<lparr>db_exceptions := db_exceptions ?base @ [row]\<rparr>) db'"
      unfolding exception_insert_def by blast
    let ?db1 = "?base\<lparr>db_exceptions := db_exceptions ?base @ [row]\<rparr>"
    have "audited ?db1" by (rule audited_frame[OF base]) simp_all
    moreover have "findMission ?db1 (ei_tenant i) (ei_aggregateId i) \<noteq> None"
      using w by (auto simp: exception_write_def i findMission_cong_missions[of ?db1 db])
    ultimately show ?thesis using audited_event_step[OF ev] ty i(2) by blast
  qed (use base in simp)
qed

lemma audited_step:
  assumes inj: "inj (h_sha h)" and inv: "control_inv h db" and ok: "audited db" and step: "control_step h db db'"
  shows "audited db'"
proof (cases "dispatch_write db db'")
  case True
  then show ?thesis by (intro audited_frame[OF ok]) (auto dest!: dispatch_write_frame)
next
  case False
  with step have "table_step h db db'" by (simp add: control_step_def)
  then show ?thesis
  proof (cases rule: table_step.cases)
    case (mission_new c m payload p k)
    then show ?thesis using audited_insert[OF inj control_invD(4)[OF inv] ok] by simp
  next
    case (mission_change c mid ch)
    with audited_write[OF inj control_invD(4)[OF inv] ok] show ?thesis by blast
  next
    case (task_new c t payload)
    let ?db1 = "revoke_task (t_tenant t) (t_mission t) None (c_createdAt c) db"
    have "audited (?db1\<lparr>db_tasks := db_tasks ?db1 @ [t]\<rparr>)" by (rule audited_frame[OF ok]) (simp_all add: revoke_task_def)
    with task_new show ?thesis by (auto simp: task_insert_def Let_def call_event_def elim!: audited_event_step)
  next
    case (task_change c tid to p r)
    have "audited (put_task t tid f (revoke_task t mid tid' s db))" for t f mid tid' s
      by (rule audited_frame[OF ok]) (simp_all add: revoke_task_def put_task_def)
    with task_change show ?thesis by (auto simp: task_write_def call_event_def elim!: audited_event_step)
  next
    case (dependency_new i)
    then show ?thesis by (intro audited_frame[OF ok]) (auto simp: dependency_insert_def put_task_def revoke_task_def)
  next
    case (exception_change c ty x)
    with audited_exception[OF ok] show ?thesis by blast
  next
    case environment
    then show ?thesis by (intro audited_frame[OF ok]) auto
  qed
qed

lemma reachable_audited:
  assumes "inj (h_sha h)" and "control_reachable h db"
  shows "audited db"
  using assms(2)
proof (induction rule: reachable_induct)
  case (start db)
  then show ?case by (simp add: fresh_control_def audited_def findMission_def)
qed (rule audited_step[OF assms(1)])

text \<open>Claim C4: the audit log determines the mission. On every reachable database, and with a hash that does not
  collide, replaying the events that \<open>listDomainEvents\<close> returns for a mission gives exactly the product,
  trigger, state, revision, execution versions and campaign links of the stored row: no operation changes a
  mission without its event, and no event is recorded twice or dropped under an idempotency key.\<close>

theorem mission_log_replays:
  assumes "inj (h_sha h)" and "control_reachable h db" and "getMission db t mid = Some m" and "mid \<noteq> []"
  shows "map_option replay (case listDomainEvents db t ''mission'' mid of Inl e \<Rightarrow> None | Inr es \<Rightarrow> Some es) = Some (Some (view m))"
proof -
  note inv = reachable_inv[OF assms(2)]
  have "listDomainEvents db t ''mission'' mid = Inr (mission_log db t mid)"
    using mission_log_listed[OF control_invD(4)[OF inv]] assms(4) by (simp add: listDomainEvents_def ensure_def)
  with auditedD(1)[OF reachable_audited[OF assms(1,2)], of t mid m] assms(3) show ?thesis by (simp add: getMission_def)
qed

definition replayed_db :: app_db where
  "replayed_db = run_control plain_host [demo_mission, cancel_demo] demo_start"

theorem mission_log_replays_witness:
  "\<exists>m. getMission replayed_db ''t'' ''m'' = Some m \<and> m_state m = MCancelled \<and>
    map_option replay (case listDomainEvents replayed_db ''t'' ''mission'' ''m'' of Inl e \<Rightarrow> None | Inr es \<Rightarrow> Some es) = Some (Some (view m))"
proof -
  have reach: "control_reachable plain_host replayed_db"
    unfolding replayed_db_def by (rule run_control_reachable, rule start) code_simp
  have "map_option m_state (getMission replayed_db ''t'' ''m'') = Some MCancelled" unfolding replayed_db_def by code_simp
  then obtain m where m: "getMission replayed_db ''t'' ''m'' = Some m" "m_state m = MCancelled" by auto
  with mission_log_replays[OF plain_host_inj reach m(1)] show ?thesis by simp
qed

end
