(* ===== verification/JsDate.thy ===== *)
theory JsDate
  imports JsTime
begin

text \<open>
  \<open>new Date(ms).toISOString()\<close> and arithmetic on timestamps: the civil date of a day count, its text, and
  the proof that reading the text of an instant of the years 0 to 9999 gives the instant back. Milliseconds
  count from 0000-01-01, as \<open>canonical_ms\<close> does.
\<close>

section \<open>The civil date of a day\<close>

text \<open>The mean length of a year gives the year or one of its neighbours.\<close>

definition year_of :: "int \<Rightarrow> int" where
  "year_of d =
     (let y = d * 400 div 146097
      in if d < year_days_i y then y - 1 else if year_days_i (y + 1) \<le> d then y + 1 else y)"

lemma div_bounds:
  fixes z k :: int
  assumes "0 < k"
  shows "k * (z div k) \<le> z" and "z < k * (z div k) + k"
  using mult_div_mod_eq[of k z] pos_mod_bound[OF assms, of z] pos_mod_sign[OF assms, of z] by linarith+

lemma year_days_near:
  fixes z d :: int
  shows "400 * year_days_i z \<le> 146097 * z + 400 * 3" and "146097 * z \<le> 400 * year_days_i z + 400 * 3"
proof -
  define a b c where "a = (z + 3) div 4" and "b = (z + 399) div 400" and "c = (z + 99) div 100"
  have "4 * a \<le> z + 3" "z + 3 < 4 * a + 4" unfolding a_def by (rule div_bounds; simp)+
  moreover have "400 * b \<le> z + 399" "z + 399 < 400 * b + 400" unfolding b_def by (rule div_bounds; simp)+
  moreover have "100 * c \<le> z + 99" "z + 99 < 100 * c + 100" unfolding c_def by (rule div_bounds; simp)+
  moreover have "year_days_i z = 365 * z + a + b - c" by (simp add: year_days_i_def a_def b_def c_def)
  ultimately show "400 * year_days_i z \<le> 146097 * z + 400 * 3" "146097 * z \<le> 400 * year_days_i z + 400 * 3" by linarith+
qed

lemma year_of_bounds: "year_days_i (year_of d) \<le> d \<and> d < year_days_i (year_of d + 1)"
proof -
  define y where "y = d * 400 div 146097"
  have y: "146097 * y \<le> 400 * d" "400 * d < 146097 * y + 146097" using div_bounds[of 146097 "d * 400"] by (simp_all add: y_def)
  have "year_days_i (y - 1) \<le> d" using y(1) year_days_near(1)[of "y - 1"] by auto
  moreover have "d < year_days_i (y + 1 + 1)" using y(2) year_days_near(2)[of "y + 1 + 1"] by auto
  ultimately show ?thesis by (simp add: year_of_def Let_def flip: y_def)
qed

function month_from :: "int \<Rightarrow> int \<Rightarrow> int \<Rightarrow> int \<times> int" where
  "month_from y m k = (if 12 \<le> m \<or> k < month_i y m then (m, k) else month_from y (m + 1) (k - month_i y m))"
  by pat_completeness auto
termination by (relation "measure (\<lambda>(y, m, k). nat (12 - m))") auto

declare month_from.simps [simp del]

text \<open>The month and the day of the month (from 0) of day \<open>k\<close> after the start of month \<open>m\<close>.\<close>

lemma month_from_spec:
  assumes "1 \<le> m" and "m \<le> 12" and "0 \<le> k"
    and "month_days_i y (nat m) + k < month_days_i y 13" and "month_from y m k = (m', k')"
  shows "1 \<le> m' \<and> m' \<le> 12 \<and> 0 \<le> k' \<and> k' < month_i y m' \<and> month_days_i y (nat m') + k' = month_days_i y (nat m) + k"
  using assms
proof (induction y m k rule: month_from.induct)
  case (1 y m k)
  have suc: "month_days_i y (nat (m + 1)) = month_days_i y (nat m) + month_i y m"
    using "1.prems"(1) by (simp add: nat_add_distrib)
  show ?case
  proof (cases "12 \<le> m \<or> k < month_i y m")
    case True
    have "k < month_i y m"
    proof (cases "12 \<le> m")
      case True
      then have "m = 12" using "1.prems"(2) by simp
      with "1.prems"(4) suc show ?thesis by simp
    qed (use True in simp)
    with True "1.prems" show ?thesis by (auto simp: month_from.simps)
  next
    case False
    have "month_from y (m + 1) (k - month_i y m) = (m', k')" using "1.prems"(5) False by (simp add: month_from.simps)
    with "1.IH"[OF False] False "1.prems"(1-4) suc show ?thesis by auto
  qed
qed

lemma year_i_length: "month_days_i y 13 = (if leap_i y then 366 else 365)"
  by (simp add: numeral_eq_Suc month_i_def)

lemma year_days_Suc: "0 \<le> y \<Longrightarrow> year_days_i (y + 1) = year_days_i y + month_days_i y 13"
  using year_days_int[of "nat y"] year_days_int[of "Suc (nat y)"] leap_int[of "nat y"] by (simp add: year_i_length add.commute)

section \<open>Text\<close>

definition pad :: "nat \<Rightarrow> int \<Rightarrow> string" where
  "pad n i = (let s = nat_str (nat i) in replicate (n - length s) (CHR ''0'') @ s)"

definition year_text :: "int \<Rightarrow> string" where
  "year_text y = (if 0 \<le> y \<and> y \<le> 9999 then pad 4 y else (if y < 0 then CHR ''-'' else CHR ''+'') # pad 6 (abs y))"

definition iso_string :: "int \<Rightarrow> string" where
  "iso_string ms =
     (let day = ms div 86400000; t = ms mod 86400000; y = year_of day;
          (m, k) = month_from y 1 (day - year_days_i y)
      in year_text y @ ''-'' @ pad 2 m @ ''-'' @ pad 2 (k + 1) @ ''T'' @ pad 2 (t div 3600000) @ '':'' @
         pad 2 (t div 60000 mod 60) @ '':'' @ pad 2 (t div 1000 mod 60) @ ''.'' @ pad 3 (t mod 1000) @ ''Z'')"

lemma nat_str_length: "0 < k \<Longrightarrow> n < 10 ^ k \<Longrightarrow> length (nat_str n) \<le> k"
proof (induction n arbitrary: k rule: nat_str.induct)
  case (1 n)
  show ?case
  proof (cases "n < 10")
    case True
    with "1.prems"(1) show ?thesis by (subst nat_str.simps) simp
  next
    case False
    then obtain k' where k: "k = Suc k'" "0 < k'" using "1.prems" by (cases k; cases "k - 1") auto
    have "n div 10 < 10 ^ k'" using "1.prems"(2) k by (simp add: less_mult_imp_div_less mult.commute)
    with "1.IH"[OF False k(2)] False k show ?thesis by (subst nat_str.simps) simp
  qed
qed

lemma digits_val_zeros: "digits_val (replicate n (CHR ''0'') @ s) = digits_val s"
  by (induction n) (simp_all add: digits_val_def)

lemma pad_digits:
  assumes "0 < n" and "0 \<le> i" and "i < 10 ^ n"
  shows "length (pad n i) = n" and "list_all is_digit (pad n i)" and "digits_val (pad n i) = nat i"
proof -
  have "nat i < 10 ^ n" using assms by (simp add: nat_less_iff)
  then have len: "length (nat_str (nat i)) \<le> n" using nat_str_length[OF assms(1)] by blast
  show "length (pad n i) = n" using len by (simp add: pad_def Let_def)
  show "list_all is_digit (pad n i)"
    using nat_str_digits[of "nat i"] by (auto simp: pad_def Let_def list_all_iff is_digit_def)
  show "digits_val (pad n i) = nat i" by (simp add: pad_def Let_def digits_val_zeros)
qed

lemma iso_fields:
  assumes len: "length a = 4" "length b = 2" "length c = 2" "length d = 2" "length e = 2" "length f = 2" "length g = 3"
    and s: "s = a @ ''-'' @ b @ ''-'' @ c @ ''T'' @ d @ '':'' @ e @ '':'' @ f @ ''.'' @ g @ ''Z''"
  shows "length s = 24" "field_at 0 4 s = a" "field_at 5 2 s = b" "field_at 8 2 s = c" "field_at 11 2 s = d"
    "field_at 14 2 s = e" "field_at 17 2 s = f" "field_at 20 3 s = g"
    "s ! 4 = CHR ''-''" "s ! 7 = CHR ''-''" "s ! 10 = CHR ''T''" "s ! 13 = CHR '':''" "s ! 16 = CHR '':''" "s ! 19 = CHR ''.''"
    "s ! 23 = CHR ''Z''"
  unfolding s by (simp_all add: len field_at_def nth_append)

lemma civil_text:
  assumes y: "0 \<le> y" "y \<le> 9999" and md: "1 \<le> m" "m \<le> 12" "0 \<le> k" "k < month_i y m"
    and r: "0 \<le> h" "h < 24" "0 \<le> mi" "mi < 60" "0 \<le> sec" "sec < 60" "0 \<le> f" "f < 1000"
  shows "canonical_ms (pad 4 y @ ''-'' @ pad 2 m @ ''-'' @ pad 2 (k + 1) @ ''T'' @ pad 2 h @ '':'' @ pad 2 mi @ '':'' @ pad 2 sec @ ''.'' @
      pad 3 f @ ''Z'') = Some (ms_i y m (k + 1) h mi sec f)"
proof -
  let ?s = "pad 4 y @ ''-'' @ pad 2 m @ ''-'' @ pad 2 (k + 1) @ ''T'' @ pad 2 h @ '':'' @ pad 2 mi @ '':'' @ pad 2 sec @ ''.'' @ pad 3 f @ ''Z''"
  have k: "k < 31" using md(4) by (auto simp: month_i_def split: if_splits)
  have p: "length (pad n i) = n \<and> list_all is_digit (pad n i) \<and> digits_i (pad n i) = i" if "0 < n" "0 \<le> i" "i < 10 ^ n" for n i
    using pad_digits[OF that] that(2) by (simp add: digits_int)
  have ps: "length (pad 4 y) = 4 \<and> list_all is_digit (pad 4 y) \<and> digits_i (pad 4 y) = y"
    "length (pad 2 m) = 2 \<and> list_all is_digit (pad 2 m) \<and> digits_i (pad 2 m) = m"
    "length (pad 2 (k + 1)) = 2 \<and> list_all is_digit (pad 2 (k + 1)) \<and> digits_i (pad 2 (k + 1)) = k + 1"
    "length (pad 2 h) = 2 \<and> list_all is_digit (pad 2 h) \<and> digits_i (pad 2 h) = h"
    "length (pad 2 mi) = 2 \<and> list_all is_digit (pad 2 mi) \<and> digits_i (pad 2 mi) = mi"
    "length (pad 2 sec) = 2 \<and> list_all is_digit (pad 2 sec) \<and> digits_i (pad 2 sec) = sec"
    "length (pad 3 f) = 3 \<and> list_all is_digit (pad 3 f) \<and> digits_i (pad 3 f) = f"
    by (rule p; use y md k r in simp)+
  note fields = iso_fields[OF ps[THEN conjunct1] refl]
  have "canonical_form ?s" unfolding canonical_form_def digits_def fields using ps by simp
  moreover have "canonical_date_i y m (k + 1) h mi sec" using md r by (simp add: canonical_date_i_def)
  ultimately show ?thesis unfolding canonical_ms_code Let_def fields using ps by simp
qed

definition last_ms :: int where
  "last_ms = 315569520000000"

lemma last_year: "last_ms = year_days_i 10000 * 86400000"
  by (simp add: last_ms_def year_days_i_def)

lemma year_days_mono: "y \<le> z \<Longrightarrow> year_days_i y \<le> year_days_i z"
  using year_days_near(1)[of y] year_days_near(2)[of z] by (cases "y = z") auto

text \<open>The instants of the years 0 to 9999 survive \<open>toISOString\<close> and \<open>Date.parse\<close>, and the text is canonical.\<close>

theorem iso_round_trip:
  assumes "0 \<le> ms" and "ms < last_ms"
  shows "canonical_ms (iso_string ms) = Some ms"
proof -
  define day t y where "day = ms div 86400000" and "t = ms mod 86400000" and "y = year_of day"
  obtain m k where mk: "month_from y 1 (day - year_days_i y) = (m, k)" by (cases "month_from y 1 (day - year_days_i y)")
  have day: "0 \<le> day" "day < year_days_i 10000"
  proof -
    show "0 \<le> day" using assms(1) by (simp add: day_def pos_imp_zdiv_nonneg_iff)
    have "86400000 * day < year_days_i 10000 * 86400000" using assms(2) div_bounds(1)[of 86400000 ms] unfolding last_year day_def by linarith
    then show "day < year_days_i 10000" by simp
  qed
  have y: "year_days_i y \<le> day" "day < year_days_i (y + 1)" using year_of_bounds[of day] unfolding y_def by blast+
  have y0: "0 \<le> y"
  proof (rule ccontr)
    assume "\<not> 0 \<le> y"
    then have "year_days_i (y + 1) \<le> year_days_i 0" by (intro year_days_mono) simp
    moreover have "year_days_i 0 = 0" by (simp add: year_days_i_def)
    ultimately show False using y(2) day(1) by linarith
  qed
  have y1: "y \<le> 9999"
  proof (rule ccontr)
    assume "\<not> y \<le> 9999"
    then have "year_days_i 10000 \<le> year_days_i y" by (intro year_days_mono) simp
    with y(1) day(2) show False by linarith
  qed
  have md: "1 \<le> m" "m \<le> 12" "0 \<le> k" "k < month_i y m" "month_days_i y (nat m) + k = day - year_days_i y"
    using month_from_spec[OF _ _ _ _ mk] y year_days_Suc[OF y0] by (auto simp: month_i_def)
  have t: "0 \<le> t" "t < 86400000" by (simp_all add: t_def)
  define h mi sec f where "h = t div 3600000" and "mi = t div 60000 mod 60" and "sec = t div 1000 mod 60" and "f = t mod 1000"
  have r: "0 \<le> h" "h < 24" "0 \<le> mi" "mi < 60" "0 \<le> sec" "sec < 60" "0 \<le> f" "f < 1000"
    unfolding h_def mi_def sec_def f_def
  proof -
    show "0 \<le> t div 3600000" using t(1) by (simp add: pos_imp_zdiv_nonneg_iff)
    show "t div 3600000 < 24" using t(2) div_bounds(1)[of 3600000 t] by linarith
  qed simp_all
  have s: "iso_string ms = pad 4 y @ ''-'' @ pad 2 m @ ''-'' @ pad 2 (k + 1) @ ''T'' @ pad 2 h @ '':'' @ pad 2 mi @ '':'' @ pad 2 sec @ ''.'' @
      pad 3 f @ ''Z''"
    using y0 y1 mk by (simp add: iso_string_def Let_def year_text_def flip: day_def t_def y_def h_def mi_def sec_def f_def)
  have "t = 3600000 * h + 60000 * mi + 1000 * sec + f"
  proof -
    have "t div 60000 = t div 1000 div 60" using zdiv_zmult2_eq[of 60 t 1000] by simp
    moreover have "t div 3600000 = t div 60000 div 60" using zdiv_zmult2_eq[of 60 t 60000] by simp
    moreover note mult_div_mod_eq[of 60 "t div 60000"] mult_div_mod_eq[of 60 "t div 1000"] mult_div_mod_eq[of 1000 t]
    ultimately show ?thesis unfolding h_def mi_def sec_def f_def by linarith
  qed
  moreover have "ms = 86400000 * day + t" using mult_div_mod_eq[of 86400000 ms] by (simp add: day_def t_def)
  ultimately have "ms_i y m (k + 1) h mi sec f = ms" using md(5) by (simp add: ms_i_def algebra_simps)
  with civil_text[OF y0 y1 md(1-4) r] show ?thesis unfolding s by simp
qed

end
