(* ===== verification/JobRows.thy ===== *)
theory JobRows
  imports MissionDispatch JsDate JsNum "HOL-Library.List_Lexorder"
begin

text \<open>
  The rows of the job queue of \<open>packages/db/src/index.ts\<close>: jobs, the external deliveries that recovery asks
  about, and the model reservations of \<open>packages/db/src/warden-model-accounting.ts\<close>; the scope of a tenant, the
  expiry of a lease, and times, which are text compared as SQLite compares text. Generated worker names and
  the clock are arguments.
\<close>

section \<open>Rows\<close>

record job =
  jq_id :: string
  jq_tenant :: string
  jq_type :: string
  jq_payload :: json
  jq_status :: string
  jq_attempts :: int
  jq_maxAttempts :: int
  jq_error :: "string option"
  jq_result :: "json option"
  jq_createdAt :: string
  jq_startedAt :: "string option"
  jq_finishedAt :: "string option"
  jq_leaseOwner :: "string option"
  jq_leaseExpiresAt :: "string option"
  jq_availableAt :: "string option"
  jq_generation :: int
  jq_errorCode :: "string option"
  jq_lastErrorAt :: "string option"
  jq_deadAt :: "string option"
  jq_cancelledAt :: "string option"

record delivery_row =
  dl_job :: string
  dl_tenant :: string
  dl_status :: string
  dl_intent :: "string option"

text \<open>A reservation of the budget of a job for one call of a model. A measured number the caller reports may
  be any number; SQLite stores a NaN as NULL.\<close>

datatype reservation_status = RActive | RSucceeded | RFailed | ROverBudget | RUnknown

record reservation =
  rv_id :: string
  rv_tenant :: string
  rv_job :: string
  rv_run :: string
  rv_worker :: string
  rv_generation :: int
  rv_callIndex :: int
  rv_requestDigest :: string
  rv_reservationDigest :: string
  rv_settlementDigest :: "string option"
  rv_provider :: string
  rv_configuredModel :: string
  rv_actualModel :: "string option"
  rv_endpointHost :: string
  rv_bodyRequestId :: "string option"
  rv_headerRequestId :: "string option"
  rv_status :: reservation_status
  rv_maxInput :: int
  rv_maxOutput :: int
  rv_maxTotal :: int
  rv_maxCost :: rat
  rv_jobBudget :: rat
  rv_reportedInput :: "jsnum option"
  rv_reportedOutput :: "jsnum option"
  rv_reportedTotal :: "jsnum option"
  rv_reportedCost :: "jsnum option"
  rv_chargedInput :: "int option"
  rv_chargedOutput :: "int option"
  rv_chargedTotal :: "int option"
  rv_chargedCost :: "rat option"
  rv_errorCode :: "string option"
  rv_reservedAt :: string
  rv_settledAt :: "string option"

record queue =
  qu_jobs :: "job list"
  qu_adaptive :: "delivery_row list"
  qu_candidate :: "delivery_row list"
  qu_reservations :: "reservation list"

definition put_jobs :: "job list \<Rightarrow> queue \<Rightarrow> queue" where
  "put_jobs js q = q\<lparr>qu_jobs := js\<rparr>"

text \<open>\<open>db.raw.prepare(UPDATE jobs ... WHERE ...).run(...)\<close>: whether exactly one row changed, and the queue.\<close>

definition update_job :: "(job \<Rightarrow> bool) \<Rightarrow> (job \<Rightarrow> job) \<Rightarrow> queue \<Rightarrow> bool \<times> queue" where
  "update_job P f q = (changes P (qu_jobs q) = 1, put_jobs (update_where P f (qu_jobs q)) q)"

section \<open>Time\<close>

definition parse_date :: "host \<Rightarrow> string \<Rightarrow> int option" where
  "parse_date h s = (case canonical_ms s of Some n \<Rightarrow> Some n | None \<Rightarrow> h_dateParse h s)"

text \<open>The largest distance of a time value from 1970, in milliseconds, and 1970 itself.\<close>

definition time_value :: "int \<Rightarrow> bool" where
  "time_value ms \<longleftrightarrow> abs (ms - 62167219200000) \<le> 8640000000000000"

text \<open>\<open>new Date(Date.parse(s) + ms).toISOString()\<close>.\<close>

definition date_plus :: "host \<Rightarrow> string \<Rightarrow> int \<Rightarrow> string result" where
  "date_plus h s ms =
     (case parse_date h s of
        None \<Rightarrow> throw ''Invalid time value''
      | Some n \<Rightarrow> ensure (time_value (n + ms)) ''Invalid time value'' (Inr (iso_string (n + ms))))"

section \<open>Scope and leases\<close>

definition assertTenantScope :: "string option \<Rightarrow> unit result" where
  "assertTenantScope tenant =
     ensure (case tenant of None \<Rightarrow> True | Some t \<Rightarrow> trim t \<noteq> []) ''tenant_scope_required'' (Inr ())"

definition in_scope :: "string option \<Rightarrow> job \<Rightarrow> bool" where
  "in_scope tenant j \<longleftrightarrow> (case tenant of None \<Rightarrow> True | Some t \<Rightarrow> jq_tenant j = t)"

definition findJob :: "queue \<Rightarrow> string \<Rightarrow> job option" where
  "findJob q jid = List.find (\<lambda>j. jq_id j = jid) (qu_jobs q)"

definition lease_expired :: "string \<Rightarrow> job \<Rightarrow> bool" where
  "lease_expired now j \<longleftrightarrow> jq_status j = ''running'' \<and> (case jq_leaseExpiresAt j of None \<Rightarrow> False | Some e \<Rightarrow> e \<le> now)"

end
