(* ===== verification/ModelAccounting.thy ===== *)
theory ModelAccounting
  imports JobRows Json
begin

text \<open>
  The accounting of model calls, \<open>packages/db/src/warden-model-accounting.ts\<close>: a call reserves its maximum cost
  against the budget of its job and is settled at what was measured, or at the maximum when the measurement
  is incomplete. Reserving and settling ask for the lease of the job. Every row carries a digest of its
  identity and, once settled, one of the whole row.

  Costs are rationals (\<open>JsNum\<close>), so the rounding of a sum of binary64 values is not represented. The text
  of a number in JSON is the argument \<open>nt\<close>; the SHA-256 of a text is \<^const>\<open>h_sha\<close>.
\<close>

section \<open>Validation\<close>

type_synonym number_text = "rat \<Rightarrow> string"

definition id_head :: "char \<Rightarrow> bool" where
  "id_head c \<longleftrightarrow> (let n = of_char c :: int in (48 \<le> n \<and> n \<le> 57) \<or> (65 \<le> n \<and> n \<le> 90) \<or> (97 \<le> n \<and> n \<le> 122))"

definition id_tail :: "char \<Rightarrow> bool" where
  "id_tail c \<longleftrightarrow> id_head c \<or> c = CHR ''.'' \<or> c = CHR ''_'' \<or> c = CHR '':'' \<or> c = CHR ''-''"

text \<open>\<open>ID = /^[A-Za-z0-9][A-Za-z0-9._:-]{0,255}$/\<close>.\<close>

definition account_id :: "string \<Rightarrow> bool" where
  "account_id s \<longleftrightarrow> (case s of [] \<Rightarrow> False | c # cs \<Rightarrow> id_head c \<and> length cs \<le> 255 \<and> list_all id_tail cs)"

definition requireId :: "string \<Rightarrow> string \<Rightarrow> 'a result \<Rightarrow> 'a result" where
  "requireId value code rest = ensure (account_id value) code rest"

definition requireIso :: "string \<Rightarrow> string \<Rightarrow> 'a result \<Rightarrow> 'a result" where
  "requireIso value code rest = ensure (canonical_ms value \<noteq> None) code rest"

definition requireInteger :: "jsnum \<Rightarrow> string \<Rightarrow> bool \<Rightarrow> 'a result \<Rightarrow> 'a result" where
  "requireInteger value code allowZero rest =
     ensure (is_safe_integer value \<and> \<not> num_lt value (Fin (if allowZero then 0 else 1))) code rest"

definition requireMoney :: "jsnum \<Rightarrow> string \<Rightarrow> 'a result \<Rightarrow> 'a result" where
  "requireMoney value code rest = ensure (is_finite value \<and> \<not> num_lt value (Fin 0)) code rest"

text \<open>The integer of a number that passed \<^const>\<open>requireInteger\<close>.\<close>

definition num_int :: "jsnum \<Rightarrow> int" where
  "num_int x = \<lfloor>num_val x\<rfloor>"

section \<open>Digests\<close>

datatype account_value = ANull | AText string | ANumber jsnum

fun account_text :: "number_text \<Rightarrow> account_value \<Rightarrow> string" where
  "account_text nt ANull = ''null''"
| "account_text nt (AText s) = json_quote s"
| "account_text nt (ANumber (Fin q)) = nt q"
| "account_text nt (ANumber x) = ''null''"

definition account_int :: "int \<Rightarrow> account_value" where
  "account_int i = ANumber (Fin (of_int i))"

definition null_or :: "('a \<Rightarrow> account_value) \<Rightarrow> 'a option \<Rightarrow> account_value" where
  "null_or f v = (case v of None \<Rightarrow> ANull | Some x \<Rightarrow> f x)"

text \<open>\<open>JSON.stringify(canonical(value))\<close> of a flat object whose keys are listed in the order \<open>canonical\<close> sorts them in.\<close>

definition canonical_text :: "number_text \<Rightarrow> (string \<times> account_value) list \<Rightarrow> string" where
  "canonical_text nt fs = ''{'' @ join_with '','' (map (\<lambda>f. json_quote (fst f) @ '':'' @ account_text nt (snd f)) fs) @ ''}''"

definition account_digest :: "host \<Rightarrow> number_text \<Rightarrow> (string \<times> account_value) list \<Rightarrow> string" where
  "account_digest h nt fs = ''sha256:'' @ h_sha h (canonical_text nt fs)"

definition versionedDigest :: "host \<Rightarrow> number_text \<Rightarrow> (string \<times> account_value) list \<Rightarrow> string" where
  "versionedDigest h nt fs = ''v2:'' @ account_digest h nt fs"

definition reservation_identity :: "reservation \<Rightarrow> (string \<times> account_value) list" where
  "reservation_identity r =
     [(''callIndex'', account_int (rv_callIndex r)), (''configuredModel'', AText (rv_configuredModel r)),
      (''endpointHost'', AText (rv_endpointHost r)), (''id'', AText (rv_id r)),
      (''jobBudgetUsd'', ANumber (Fin (rv_jobBudget r))), (''jobId'', AText (rv_job r)),
      (''leaseGeneration'', account_int (rv_generation r)), (''maximumCostUsd'', ANumber (Fin (rv_maxCost r))),
      (''maximumInputTokens'', account_int (rv_maxInput r)), (''maximumOutputTokens'', account_int (rv_maxOutput r)),
      (''maximumTotalTokens'', account_int (rv_maxTotal r)), (''provider'', AText (rv_provider r)),
      (''requestDigest'', AText (rv_requestDigest r)), (''runId'', AText (rv_run r)),
      (''tenantId'', AText (rv_tenant r)), (''workerId'', AText (rv_worker r))]"

definition reservationFingerprint :: "host \<Rightarrow> number_text \<Rightarrow> reservation \<Rightarrow> string" where
  "reservationFingerprint h nt r = account_digest h nt (reservation_identity r)"

fun reservation_status_text :: "reservation_status \<Rightarrow> string" where
  "reservation_status_text RActive = ''active''"
| "reservation_status_text RSucceeded = ''succeeded''"
| "reservation_status_text RFailed = ''failed''"
| "reservation_status_text ROverBudget = ''over_budget''"
| "reservation_status_text RUnknown = ''unknown''"

definition settlement_fields :: "reservation \<Rightarrow> (string \<times> account_value) list" where
  "settlement_fields r =
     [(''actualModel'', null_or AText (rv_actualModel r)), (''bodyRequestId'', null_or AText (rv_bodyRequestId r)),
      (''callIndex'', account_int (rv_callIndex r)), (''chargedCostUsd'', null_or (\<lambda>q. ANumber (Fin q)) (rv_chargedCost r)),
      (''chargedInputTokens'', null_or account_int (rv_chargedInput r)),
      (''chargedOutputTokens'', null_or account_int (rv_chargedOutput r)),
      (''chargedTotalTokens'', null_or account_int (rv_chargedTotal r)), (''configuredModel'', AText (rv_configuredModel r)),
      (''endpointHost'', AText (rv_endpointHost r)), (''errorCode'', null_or AText (rv_errorCode r)),
      (''headerRequestId'', null_or AText (rv_headerRequestId r)), (''jobBudgetUsd'', ANumber (Fin (rv_jobBudget r))),
      (''jobId'', AText (rv_job r)), (''leaseGeneration'', account_int (rv_generation r)),
      (''maximumCostUsd'', ANumber (Fin (rv_maxCost r))), (''maximumInputTokens'', account_int (rv_maxInput r)),
      (''maximumOutputTokens'', account_int (rv_maxOutput r)), (''maximumTotalTokens'', account_int (rv_maxTotal r)),
      (''provider'', AText (rv_provider r)), (''reportedCostUsd'', null_or ANumber (rv_reportedCost r)),
      (''reportedInputTokens'', null_or ANumber (rv_reportedInput r)),
      (''reportedOutputTokens'', null_or ANumber (rv_reportedOutput r)),
      (''reportedTotalTokens'', null_or ANumber (rv_reportedTotal r)),
      (''reservationDigest'', AText (rv_reservationDigest r)), (''reservationId'', AText (rv_id r)),
      (''reservedAt'', AText (rv_reservedAt r)), (''runId'', AText (rv_run r)),
      (''schemaVersion'', AText ''mendpoint.warden-model-settlement/2''), (''settledAt'', null_or AText (rv_settledAt r)),
      (''status'', AText (reservation_status_text (rv_status r))), (''tenantId'', AText (rv_tenant r)),
      (''workerId'', AText (rv_worker r))]"

definition storedSettlementFingerprint :: "host \<Rightarrow> number_text \<Rightarrow> reservation \<Rightarrow> string" where
  "storedSettlementFingerprint h nt r = versionedDigest h nt (settlement_fields r)"

section \<open>Settlements\<close>

text \<open>An optional field is \<^term>\<open>None\<close> when absent; \<^term>\<open>Some None\<close> is a field given as null.\<close>

record settlement_input =
  ws_tenant :: string
  ws_job :: string
  ws_reservation :: string
  ws_worker :: string
  ws_generation :: jsnum
  ws_succeeded :: bool
  ws_actualModel :: "string option option"
  ws_bodyRequestId :: "string option option"
  ws_headerRequestId :: "string option option"
  ws_inputTokens :: "jsnum option"
  ws_outputTokens :: "jsnum option"
  ws_totalTokens :: "jsnum option"
  ws_costUsd :: "jsnum option option"
  ws_errorCode :: "string option"
  ws_observedAt :: string

definition given :: "string \<Rightarrow> ('a \<Rightarrow> account_value) \<Rightarrow> 'a option \<Rightarrow> (string \<times> account_value) list" where
  "given k f v = (case v of None \<Rightarrow> [] | Some x \<Rightarrow> [(k, f x)])"

definition settlementFingerprint :: "host \<Rightarrow> number_text \<Rightarrow> settlement_input \<Rightarrow> string" where
  "settlementFingerprint h nt i = account_digest h nt
     (given ''actualModel'' (null_or AText) (ws_actualModel i) @ given ''bodyRequestId'' (null_or AText) (ws_bodyRequestId i) @
      given ''costUsd'' (null_or ANumber) (ws_costUsd i) @ given ''errorCode'' AText (ws_errorCode i) @
      given ''headerRequestId'' (null_or AText) (ws_headerRequestId i) @ given ''inputTokens'' ANumber (ws_inputTokens i) @
      [(''jobId'', AText (ws_job i)), (''leaseGeneration'', ANumber (ws_generation i))] @
      given ''outputTokens'' ANumber (ws_outputTokens i) @ [(''reservationId'', AText (ws_reservation i)),
       (''status'', AText (if ws_succeeded i then ''succeeded'' else ''failed'')), (''tenantId'', AText (ws_tenant i))] @
      given ''totalTokens'' ANumber (ws_totalTokens i) @ [(''workerId'', AText (ws_worker i))])"

text \<open>\<open>value?.trim() || null\<close>.\<close>

definition text_or_null :: "string option \<Rightarrow> string option" where
  "text_or_null v = (case v of None \<Rightarrow> None | Some s \<Rightarrow> (if trim s = [] then None else Some (trim s)))"

text \<open>\<open>value ?? null\<close> of a field that may be given as null.\<close>

definition flat :: "'a option option \<Rightarrow> 'a option" where
  "flat v = (case v of None \<Rightarrow> None | Some x \<Rightarrow> x)"

definition positive_integer :: "jsnum option \<Rightarrow> bool" where
  "positive_integer v \<longleftrightarrow> (case v of None \<Rightarrow> False | Some x \<Rightarrow> is_safe_integer x \<and> num_lt (Fin 0) x)"

definition completeMeasured :: "jsnum option \<Rightarrow> jsnum option \<Rightarrow> jsnum option \<Rightarrow> jsnum option \<Rightarrow> bool" where
  "completeMeasured inT outT totT cost \<longleftrightarrow> positive_integer inT \<and> positive_integer outT \<and>
     (case totT of None \<Rightarrow> False
      | Some t \<Rightarrow> is_safe_integer t \<and> t = Fin (num_val (the inT) + num_val (the outT))) \<and>
     (case cost of None \<Rightarrow> False | Some c \<Rightarrow> is_finite c \<and> num_lt (Fin 0) c)"

definition reported_val :: "jsnum option \<Rightarrow> rat" where
  "reported_val v = (case v of None \<Rightarrow> 0 | Some x \<Rightarrow> num_val x)"

definition reported_int :: "jsnum option \<Rightarrow> int" where
  "reported_int v = \<lfloor>reported_val v\<rfloor>"

definition withinReservation :: "reservation \<Rightarrow> settlement_input \<Rightarrow> bool" where
  "withinReservation r i \<longleftrightarrow> completeMeasured (ws_inputTokens i) (ws_outputTokens i) (ws_totalTokens i) (flat (ws_costUsd i)) \<and>
     reported_val (ws_inputTokens i) \<le> of_int (rv_maxInput r) \<and> reported_val (ws_outputTokens i) \<le> of_int (rv_maxOutput r) \<and>
     reported_val (ws_totalTokens i) \<le> of_int (rv_maxTotal r) \<and> reported_val (flat (ws_costUsd i)) \<le> rv_maxCost r"

definition settled_error :: "reservation_status \<Rightarrow> string option \<Rightarrow> string option" where
  "settled_error status code =
     (case code of
        Some s \<Rightarrow> if trim s \<noteq> [] then Some (take 128 (trim s))
                  else if status = ROverBudget then Some ''warden_model_budget_exceeded'' else None
      | None \<Rightarrow> if status = ROverBudget then Some ''warden_model_budget_exceeded'' else None)"

definition materializeSettlement :: "reservation \<Rightarrow> settlement_input \<Rightarrow> reservation" where
  "materializeSettlement r i =
     (let exact = ws_succeeded i \<and> withinReservation r i;
          status = (if exact then RSucceeded else if ws_succeeded i then ROverBudget else RFailed)
      in r\<lparr>rv_settlementDigest := None, rv_actualModel := text_or_null (flat (ws_actualModel i)),
           rv_bodyRequestId := text_or_null (flat (ws_bodyRequestId i)),
           rv_headerRequestId := text_or_null (flat (ws_headerRequestId i)), rv_status := status,
           rv_reportedInput := ws_inputTokens i, rv_reportedOutput := ws_outputTokens i,
           rv_reportedTotal := ws_totalTokens i, rv_reportedCost := flat (ws_costUsd i),
           rv_chargedInput := Some (if exact then reported_int (ws_inputTokens i) else rv_maxInput r),
           rv_chargedOutput := Some (if exact then reported_int (ws_outputTokens i) else rv_maxOutput r),
           rv_chargedTotal := Some (if exact then reported_int (ws_totalTokens i) else rv_maxTotal r),
           rv_chargedCost := Some (if exact then reported_val (flat (ws_costUsd i)) else rv_maxCost r),
           rv_errorCode := settled_error status (ws_errorCode i), rv_settledAt := Some (ws_observedAt i)\<rparr>)"

section \<open>Rows and leases\<close>

definition put_reservations :: "reservation list \<Rightarrow> queue \<Rightarrow> queue" where
  "put_reservations rs q = q\<lparr>qu_reservations := rs\<rparr>"

definition getRow :: "queue \<Rightarrow> string \<Rightarrow> string \<Rightarrow> reservation option" where
  "getRow q tenant rid = List.find (\<lambda>r. rv_tenant r = tenant \<and> rv_id r = rid) (qu_reservations q)"

definition model_lease :: "queue \<Rightarrow> string \<Rightarrow> string \<Rightarrow> string \<Rightarrow> int \<Rightarrow> string \<Rightarrow> bool" where
  "model_lease q tenant jid worker generation observedAt \<longleftrightarrow>
     (case List.find (\<lambda>j. jq_id j = jid \<and> jq_tenant j = tenant) (qu_jobs q) of
        None \<Rightarrow> False
      | Some j \<Rightarrow> jq_status j = ''running'' \<and> jq_leaseOwner j = Some worker \<and> jq_generation j = generation \<and>
          (case jq_leaseExpiresAt j of None \<Rightarrow> False | Some e \<Rightarrow> e \<noteq> [] \<and> observedAt < e))"

definition assertModelLease :: "queue \<Rightarrow> string \<Rightarrow> string \<Rightarrow> string \<Rightarrow> int \<Rightarrow> string \<Rightarrow> 'a result \<Rightarrow> 'a result" where
  "assertModelLease q tenant jid worker generation observedAt rest =
     ensure (model_lease q tenant jid worker generation observedAt) ''warden_model_job_lease_stale'' rest"

text \<open>The row named by the update statements of the settlements, which change exactly one row or fail.\<close>

definition settle_row :: "string \<Rightarrow> string \<Rightarrow> string \<Rightarrow> int \<Rightarrow> (reservation \<Rightarrow> reservation) \<Rightarrow> queue \<Rightarrow> queue result" where
  "settle_row rid tenant worker generation f q =
     (let P = (\<lambda>r. rv_id r = rid \<and> rv_tenant r = tenant \<and> rv_status r = RActive \<and> rv_worker r = worker \<and> rv_generation r = generation)
      in ensure (changes P (qu_reservations q) = 1) ''warden_model_job_lease_stale''
           (Inr (put_reservations (update_where P f (qu_reservations q)) q)))"

section \<open>Unknown outcomes\<close>

definition unknown_settlement :: "reservation \<Rightarrow> string \<Rightarrow> string \<Rightarrow> reservation" where
  "unknown_settlement r observedAt code = r\<lparr>rv_status := RUnknown, rv_chargedInput := Some (rv_maxInput r),
     rv_chargedOutput := Some (rv_maxOutput r), rv_chargedTotal := Some (rv_maxTotal r), rv_chargedCost := Some (rv_maxCost r),
     rv_errorCode := Some code, rv_settledAt := Some observedAt\<rparr>"

definition settleUnknownReservation :: "host \<Rightarrow> number_text \<Rightarrow> reservation \<Rightarrow> string \<Rightarrow> string \<Rightarrow> queue \<Rightarrow> queue result" where
  "settleUnknownReservation h nt r observedAt code q =
     (let dg = storedSettlementFingerprint h nt (unknown_settlement r observedAt code)
      in settle_row (rv_id r) (rv_tenant r) (rv_worker r) (rv_generation r)
           (\<lambda>x. (unknown_settlement x observedAt code)\<lparr>rv_settlementDigest := Some dg\<rparr>) q)"

fun settle_each :: "host \<Rightarrow> number_text \<Rightarrow> string \<Rightarrow> string \<Rightarrow> reservation list \<Rightarrow> queue \<Rightarrow> queue result" where
  "settle_each h nt observedAt code [] q = Inr q"
| "settle_each h nt observedAt code (r # rs) q =
     bindR (settleUnknownReservation h nt r observedAt code q) (settle_each h nt observedAt code rs)"

text \<open>\<open>ORDER BY tenant_id, id\<close>.\<close>

definition reservation_order :: "reservation list \<Rightarrow> reservation list" where
  "reservation_order rs = sort_key rv_tenant (sort_key rv_id rs)"

definition settle_where :: "host \<Rightarrow> number_text \<Rightarrow> string \<Rightarrow> string \<Rightarrow> (reservation \<Rightarrow> bool) \<Rightarrow> queue \<Rightarrow> (nat \<times> queue) result" where
  "settle_where h nt observedAt code P q =
     (let rs = reservation_order (filter (\<lambda>r. rv_status r = RActive \<and> P r) (qu_reservations q))
      in bindR (settle_each h nt observedAt code rs q) (\<lambda>q1. Inr (length rs, q1)))"

text \<open>The job whose lease a reservation was made under, still running under it.\<close>

definition reserved_under :: "(string \<Rightarrow> bool) \<Rightarrow> queue \<Rightarrow> reservation \<Rightarrow> bool" where
  "reserved_under E q r \<longleftrightarrow> exists_row (\<lambda>j. jq_id j = rv_job r \<and> jq_tenant j = rv_tenant r \<and> jq_status j = ''running'' \<and>
     jq_leaseOwner j = Some (rv_worker r) \<and> jq_generation j = rv_generation r \<and>
     (case jq_leaseExpiresAt j of None \<Rightarrow> False | Some e \<Rightarrow> E e)) (qu_jobs q)"

definition settleExpiredWardenModelReservations :: "host \<Rightarrow> number_text \<Rightarrow> string \<Rightarrow> string option \<Rightarrow> queue \<Rightarrow> (nat \<times> queue) result" where
  "settleExpiredWardenModelReservations h nt observedAt tenant q =
     requireIso observedAt ''warden_model_observed_at_invalid'' (
     bindR (assertTenantScope tenant) (\<lambda>_.
     ensure (case tenant of None \<Rightarrow> True | Some t \<Rightarrow> account_id t) ''warden_model_tenant_invalid'' (
     settle_where h nt observedAt ''warden_model_lease_expired''
       (\<lambda>r. (case tenant of None \<Rightarrow> True | Some t \<Rightarrow> rv_tenant r = t) \<and> reserved_under (\<lambda>e. e \<le> observedAt) q r) q)))"

definition settleActiveWardenModelReservationsForFence :: "host \<Rightarrow> number_text \<Rightarrow> string \<Rightarrow> string \<Rightarrow> jsnum \<Rightarrow> string \<Rightarrow> string \<Rightarrow> queue \<Rightarrow>
    (nat \<times> queue) result" where
  "settleActiveWardenModelReservationsForFence h nt jid worker generation observedAt code q =
     requireId jid ''warden_model_job_invalid'' (
     requireId worker ''warden_model_worker_invalid'' (
     requireInteger generation ''warden_model_lease_generation_invalid'' False (
     requireIso observedAt ''warden_model_observed_at_invalid'' (
     requireId code ''warden_model_error_code_invalid'' (
     settle_where h nt observedAt code
       (\<lambda>r. rv_job r = jid \<and> rv_worker r = worker \<and> rv_generation r = num_int generation \<and>
          reserved_under (\<lambda>e. observedAt < e) q r) q)))))"

definition countActiveWardenModelReservations :: "string \<Rightarrow> string \<Rightarrow> string \<Rightarrow> int \<Rightarrow> queue \<Rightarrow> nat" where
  "countActiveWardenModelReservations tenant jid worker generation q =
     changes (\<lambda>r. rv_tenant r = tenant \<and> rv_job r = jid \<and> rv_worker r = worker \<and> rv_generation r = generation \<and>
       rv_status r = RActive) (qu_reservations q)"

definition getWardenModelReservation :: "string \<Rightarrow> string \<Rightarrow> queue \<Rightarrow> reservation option result" where
  "getWardenModelReservation tenant rid q =
     requireId tenant ''warden_model_tenant_invalid'' (
     requireId rid ''warden_model_reservation_id_invalid'' (Inr (getRow q tenant rid)))"

section \<open>Reserving\<close>

record reservation_input =
  wi_id :: string
  wi_tenant :: string
  wi_job :: string
  wi_run :: string
  wi_worker :: string
  wi_generation :: jsnum
  wi_callIndex :: jsnum
  wi_requestDigest :: string
  wi_provider :: string
  wi_configuredModel :: string
  wi_endpointHost :: string
  wi_maxInput :: jsnum
  wi_maxOutput :: jsnum
  wi_maxTotal :: jsnum
  wi_maxCost :: jsnum
  wi_jobBudget :: jsnum
  wi_observedAt :: string

definition endpoint_host_form :: "string \<Rightarrow> bool" where
  "endpoint_host_form s \<longleftrightarrow> trim s \<noteq> [] \<and> length s \<le> 255 \<and> list_all (\<lambda>c. \<not> is_space c \<and> c \<noteq> CHR ''/'' \<and> c \<noteq> CHR ''@'') s"

definition valid_reservation :: "reservation_input \<Rightarrow> 'a result \<Rightarrow> 'a result" where
  "valid_reservation i rest =
     requireId (wi_id i) ''warden_model_reservation_id_invalid'' (
     requireId (wi_tenant i) ''warden_model_tenant_invalid'' (
     requireId (wi_job i) ''warden_model_job_invalid'' (
     requireId (wi_run i) ''warden_model_run_invalid'' (
     requireId (wi_worker i) ''warden_model_worker_invalid'' (
     requireInteger (wi_generation i) ''warden_model_lease_generation_invalid'' False (
     requireInteger (wi_callIndex i) ''warden_model_call_index_invalid'' False (
     ensure (dispatch_digest (wi_requestDigest i)) ''warden_model_request_digest_invalid'' (
     requireId (wi_provider i) ''warden_model_provider_invalid'' (
     requireId (wi_configuredModel i) ''warden_model_configured_model_invalid'' (
     ensure (endpoint_host_form (wi_endpointHost i)) ''warden_model_endpoint_host_invalid'' (
     requireInteger (wi_maxInput i) ''warden_model_maximum_input_tokens_invalid'' True (
     requireInteger (wi_maxOutput i) ''warden_model_maximum_output_tokens_invalid'' False (
     requireInteger (wi_maxTotal i) ''warden_model_maximum_total_tokens_invalid'' False (
     ensure (num_val (wi_maxTotal i) = num_val (wi_maxInput i) + num_val (wi_maxOutput i))
       ''warden_model_maximum_total_tokens_invalid'' (
     requireMoney (wi_maxCost i) ''warden_model_maximum_cost_invalid'' (
     requireMoney (wi_jobBudget i) ''warden_model_job_budget_invalid'' (
     requireIso (wi_observedAt i) ''warden_model_observed_at_invalid'' rest)))))))))))))))))"

definition new_reservation :: "reservation_input \<Rightarrow> reservation" where
  "new_reservation i =
     \<lparr>rv_id = wi_id i, rv_tenant = wi_tenant i, rv_job = wi_job i, rv_run = wi_run i, rv_worker = wi_worker i,
      rv_generation = num_int (wi_generation i), rv_callIndex = num_int (wi_callIndex i), rv_requestDigest = wi_requestDigest i,
      rv_reservationDigest = [], rv_settlementDigest = None, rv_provider = wi_provider i, rv_configuredModel = wi_configuredModel i,
      rv_actualModel = None, rv_endpointHost = wi_endpointHost i, rv_bodyRequestId = None, rv_headerRequestId = None,
      rv_status = RActive, rv_maxInput = num_int (wi_maxInput i), rv_maxOutput = num_int (wi_maxOutput i),
      rv_maxTotal = num_int (wi_maxTotal i), rv_maxCost = num_val (wi_maxCost i), rv_jobBudget = num_val (wi_jobBudget i),
      rv_reportedInput = None, rv_reportedOutput = None, rv_reportedTotal = None, rv_reportedCost = None,
      rv_chargedInput = None, rv_chargedOutput = None, rv_chargedTotal = None, rv_chargedCost = None, rv_errorCode = None,
      rv_reservedAt = wi_observedAt i, rv_settledAt = None\<rparr>"

text \<open>What a reservation holds of the budget: its maximum while active, its charge once settled.\<close>

definition held_cost :: "reservation \<Rightarrow> rat" where
  "held_cost r = (if rv_status r = RActive then rv_maxCost r else case rv_chargedCost r of None \<Rightarrow> 0 | Some c \<Rightarrow> c)"

definition committed :: "queue \<Rightarrow> string \<Rightarrow> string \<Rightarrow> rat" where
  "committed q tenant jid = sum_list (map held_cost (filter (\<lambda>r. rv_tenant r = tenant \<and> rv_job r = jid) (qu_reservations q)))"

definition budget_slack :: rat where
  "budget_slack = 1 / 10 ^ 12"

definition reserveWardenModelCall :: "host \<Rightarrow> number_text \<Rightarrow> reservation_input \<Rightarrow> queue \<Rightarrow> (reservation \<times> queue) result" where
  "reserveWardenModelCall h nt i q =
     valid_reservation i (
       let r = new_reservation i; row = r\<lparr>rv_reservationDigest := reservationFingerprint h nt r\<rparr> in
       assertModelLease q (rv_tenant r) (rv_job r) (rv_worker r) (rv_generation r) (wi_observedAt i) (
       case getRow q (rv_tenant r) (rv_id r) of
         Some prior \<Rightarrow>
           ensure (rv_reservationDigest prior = rv_reservationDigest row) ''warden_model_reservation_idempotency_conflict'' (
           ensure (rv_status prior = RActive) ''warden_model_reservation_not_active'' (Inr (prior, q)))
       | None \<Rightarrow>
           ensure (\<not> exists_row (\<lambda>x. rv_tenant x = rv_tenant r \<and> rv_job x = rv_job r \<and> rv_generation x = rv_generation r \<and>
               rv_callIndex x = rv_callIndex r) (qu_reservations q)) ''warden_model_call_identity_conflict'' (
           ensure (\<not> rv_jobBudget r + budget_slack < committed q (rv_tenant r) (rv_job r) + rv_maxCost r)
             ''warden_model_budget_exhausted'' (
           ensure (\<not> exists_row (\<lambda>x. rv_id x = rv_id r) (qu_reservations q))
             ''UNIQUE constraint failed: fettler_model_reservations.id'' (
           Inr (row, put_reservations (qu_reservations q @ [row]) q))))))"

section \<open>Settling\<close>

text \<open>SQLite stores a NaN as NULL.\<close>

definition stored_number :: "jsnum option \<Rightarrow> jsnum option" where
  "stored_number v = (if v = Some NaN then None else v)"

definition write_settlement :: "reservation \<Rightarrow> string \<Rightarrow> reservation \<Rightarrow> reservation" where
  "write_settlement s dg r = r\<lparr>rv_settlementDigest := Some dg, rv_actualModel := rv_actualModel s,
     rv_bodyRequestId := rv_bodyRequestId s, rv_headerRequestId := rv_headerRequestId s, rv_status := rv_status s,
     rv_reportedInput := stored_number (rv_reportedInput s), rv_reportedOutput := stored_number (rv_reportedOutput s),
     rv_reportedTotal := stored_number (rv_reportedTotal s), rv_reportedCost := stored_number (rv_reportedCost s),
     rv_chargedInput := rv_chargedInput s, rv_chargedOutput := rv_chargedOutput s, rv_chargedTotal := rv_chargedTotal s,
     rv_chargedCost := rv_chargedCost s, rv_errorCode := rv_errorCode s, rv_settledAt := rv_settledAt s\<rparr>"

definition same_settlement :: "host \<Rightarrow> number_text \<Rightarrow> reservation \<Rightarrow> settlement_input \<Rightarrow> bool" where
  "same_settlement h nt r i \<longleftrightarrow> rv_settlementDigest r = Some (settlementFingerprint h nt i) \<or>
     (case rv_settlementDigest r of None \<Rightarrow> False
      | Some d \<Rightarrow> starts_with d ''v2:'' \<and> d = storedSettlementFingerprint h nt (materializeSettlement r i))"

definition settleWardenModelCall :: "host \<Rightarrow> number_text \<Rightarrow> settlement_input \<Rightarrow> queue \<Rightarrow> (reservation option \<times> queue) result" where
  "settleWardenModelCall h nt i q =
     requireId (ws_tenant i) ''warden_model_tenant_invalid'' (
     requireId (ws_job i) ''warden_model_job_invalid'' (
     requireId (ws_reservation i) ''warden_model_reservation_id_invalid'' (
     requireId (ws_worker i) ''warden_model_worker_invalid'' (
     requireInteger (ws_generation i) ''warden_model_lease_generation_invalid'' False (
     requireIso (ws_observedAt i) ''warden_model_observed_at_invalid'' (
     case getRow q (ws_tenant i) (ws_reservation i) of
       None \<Rightarrow> throw ''warden_model_reservation_not_found''
     | Some r \<Rightarrow>
         ensure (rv_job r = ws_job i) ''warden_model_reservation_not_found'' (
         if rv_status r \<noteq> RActive
         then ensure (same_settlement h nt r i) ''warden_model_settlement_idempotency_conflict'' (Inr (Some r, q))
         else
           assertModelLease q (ws_tenant i) (ws_job i) (ws_worker i) (num_int (ws_generation i)) (ws_observedAt i) (
           ensure (rv_worker r = ws_worker i \<and> rv_generation r = num_int (ws_generation i)) ''warden_model_job_lease_stale'' (
           let s = materializeSettlement r i; dg = storedSettlementFingerprint h nt s in
           bindR (settle_row (ws_reservation i) (ws_tenant i) (ws_worker i) (num_int (ws_generation i)) (write_settlement s dg) q) (\<lambda>q1.
           Inr (getRow q1 (ws_tenant i) (ws_reservation i), q1)))))))))))"

section \<open>Checking a row\<close>

record row_integrity =
  ck_ok :: bool
  ck_version :: "int option"
  ck_error :: "string option"

definition row_check :: "bool \<Rightarrow> int option \<Rightarrow> string \<Rightarrow> row_integrity" where
  "row_check ok version err = \<lparr>ck_ok = ok, ck_version = version, ck_error = (if ok then None else Some err)\<rparr>"

text \<open>\<open>legacyInput\<close>: the evidence of a settled row.\<close>

definition legacy_input :: "reservation \<Rightarrow> string \<Rightarrow> settlement_input" where
  "legacy_input r settledAt =
     \<lparr>ws_tenant = rv_tenant r, ws_job = rv_job r, ws_reservation = rv_id r, ws_worker = rv_worker r,
      ws_generation = Fin (of_int (rv_generation r)), ws_succeeded = (rv_status r \<noteq> RFailed),
      ws_actualModel = map_option Some (rv_actualModel r), ws_bodyRequestId = map_option Some (rv_bodyRequestId r),
      ws_headerRequestId = map_option Some (rv_headerRequestId r), ws_inputTokens = rv_reportedInput r,
      ws_outputTokens = rv_reportedOutput r, ws_totalTokens = rv_reportedTotal r,
      ws_costUsd = map_option Some (rv_reportedCost r), ws_errorCode = rv_errorCode r, ws_observedAt = settledAt\<rparr>"

definition charged_maximum :: "reservation \<Rightarrow> bool" where
  "charged_maximum r \<longleftrightarrow> rv_chargedInput r = Some (rv_maxInput r) \<and> rv_chargedOutput r = Some (rv_maxOutput r) \<and>
     rv_chargedTotal r = Some (rv_maxTotal r) \<and> rv_chargedCost r = Some (rv_maxCost r)"

definition legacy_unknown_digest :: "host \<Rightarrow> number_text \<Rightarrow> reservation \<Rightarrow> string" where
  "legacy_unknown_digest h nt r =
     (if rv_errorCode r = Some ''warden_model_lease_expired''
      then account_digest h nt [(''errorCode'', null_or AText (rv_errorCode r)), (''status'', AText ''unknown'')]
      else account_digest h nt [(''errorCode'', null_or AText (rv_errorCode r)), (''jobId'', AText (rv_job r)),
        (''leaseGeneration'', account_int (rv_generation r)), (''status'', AText ''unknown''), (''workerId'', AText (rv_worker r))])"

text \<open>The comparison of a row with its evidence covers every field that \<^const>\<open>materializeSettlement\<close> sets but the
  digest and the time.\<close>

definition legacy_expected :: "host \<Rightarrow> number_text \<Rightarrow> reservation \<Rightarrow> string \<Rightarrow> string" where
  "legacy_expected h nt r settledAt =
     (if rv_status r = RUnknown
      then (if charged_maximum r then legacy_unknown_digest h nt r else ''invalid'')
      else (let m = materializeSettlement r (legacy_input r settledAt)
            in if m\<lparr>rv_settlementDigest := rv_settlementDigest r, rv_settledAt := rv_settledAt r\<rparr> = r
               then settlementFingerprint h nt (legacy_input r settledAt) else ''invalid''))"

definition verifyWardenModelReservationIntegrity :: "host \<Rightarrow> number_text \<Rightarrow> reservation \<Rightarrow> row_integrity" where
  "verifyWardenModelReservationIntegrity h nt r =
     (if rv_reservationDigest r \<noteq> reservationFingerprint h nt r
      then row_check False None ''warden_model_reservation_digest_mismatch''
      else if rv_status r = RActive
      then row_check (rv_settlementDigest r = None \<and> rv_settledAt r = None) None ''warden_model_settlement_state_invalid''
      else (case (rv_settlementDigest r, rv_settledAt r) of
          (Some d, Some t) \<Rightarrow>
            if d = [] \<or> t = [] then row_check False None ''warden_model_settlement_state_invalid''
            else if starts_with d ''v2:''
            then row_check (d = storedSettlementFingerprint h nt r) (Some 2) ''warden_model_settlement_digest_mismatch''
            else row_check (d = legacy_expected h nt r t) (Some 1) ''warden_model_settlement_digest_mismatch''
        | _ \<Rightarrow> row_check False None ''warden_model_settlement_state_invalid''))"

end
