(* ===== verification/JobQueue.thy ===== *)
theory JobQueue
  imports ModelAccounting
begin

text \<open>
  The job queue of \<open>packages/db/src/index.ts\<close>: jobs are claimed under a lease with a generation, worked on,
  and completed, failed with a backoff, rescheduled, retried or cancelled; recovery takes expired leases back.
\<close>

section \<open>Delays and error codes\<close>

definition or_default :: "'a \<Rightarrow> 'a option \<Rightarrow> 'a" where
  "or_default d v = (case v of None \<Rightarrow> d | Some x \<Rightarrow> x)"

definition boundedDelayMs :: "int \<Rightarrow> int \<Rightarrow> int \<Rightarrow> int" where
  "boundedDelayMs attempts baseMs maxMs =
     (let base = max 1000 (min baseMs 86400000);
          ceiling = max base (min maxMs 86400000);
          exponent = max 0 (min (attempts - 1) 16)
      in min ceiling (base * 2 ^ nat exponent))"

definition code_char :: "char \<Rightarrow> bool" where
  "code_char c \<longleftrightarrow> (let n = of_char c :: int in (97 \<le> n \<and> n \<le> 122) \<or> (48 \<le> n \<and> n \<le> 57) \<or> n = 46 \<or> n = 95 \<or> n = 45)"

text \<open>\<open>replace(/[^a-z0-9._-]+/g, "_")\<close>; the flag says whether the last character was replaced.\<close>

fun squeeze :: "bool \<Rightarrow> string \<Rightarrow> string" where
  "squeeze inRun [] = []"
| "squeeze inRun (c # cs) =
     (if code_char c then c # squeeze False cs else if inRun then squeeze True cs else CHR ''_'' # squeeze True cs)"

definition strip_underscores :: "string \<Rightarrow> string" where
  "strip_underscores s = rev (dropWhile (\<lambda>c. c = CHR ''_'') (rev (dropWhile (\<lambda>c. c = CHR ''_'') s)))"

definition normalizeJobErrorCode :: "string option \<Rightarrow> string" where
  "normalizeJobErrorCode v =
     (case v of
        None \<Rightarrow> ''job_failed''
      | Some s \<Rightarrow> (let n = take 64 (strip_underscores (squeeze False (to_lower (trim s)))) in if n = [] then ''job_failed'' else n))"

section \<open>Enqueueing\<close>

record enqueue_input =
  ne_id :: string
  ne_tenant :: string
  ne_type :: string
  ne_payload :: json
  ne_maxAttempts :: "int option"
  ne_createdAt :: string
  ne_availableAt :: "string option"

definition new_job :: "enqueue_input \<Rightarrow> job" where
  "new_job i =
     \<lparr>jq_id = ne_id i, jq_tenant = ne_tenant i, jq_type = ne_type i, jq_payload = ne_payload i, jq_status = ''pending'',
      jq_attempts = 0, jq_maxAttempts = or_default 3 (ne_maxAttempts i), jq_error = None, jq_result = None,
      jq_createdAt = ne_createdAt i, jq_startedAt = None, jq_finishedAt = None, jq_leaseOwner = None, jq_leaseExpiresAt = None,
      jq_availableAt = Some (or_default (ne_createdAt i) (ne_availableAt i)), jq_generation = 0, jq_errorCode = None,
      jq_lastErrorAt = None, jq_deadAt = None, jq_cancelledAt = None\<rparr>"

definition enqueueJob :: "enqueue_input \<Rightarrow> queue \<Rightarrow> queue result" where
  "enqueueJob i q =
     ensure (trim (ne_tenant i) \<noteq> []) ''tenant_id_required''
     (ensure (\<not> exists_row (\<lambda>j. jq_id j = ne_id i) (qu_jobs q)) ''UNIQUE constraint failed: jobs.id''
       (Inr (put_jobs (qu_jobs q @ [new_job i]) q)))"

datatype enqueue_outcome = Enqueued | Reset | AlreadyActive

definition reset_job :: "enqueue_input \<Rightarrow> job \<Rightarrow> job" where
  "reset_job i j = j\<lparr>jq_type := ne_type i, jq_payload := ne_payload i, jq_status := ''pending'', jq_attempts := 0,
     jq_maxAttempts := or_default 3 (ne_maxAttempts i), jq_error := None, jq_errorCode := None, jq_result := None,
     jq_startedAt := None, jq_finishedAt := None, jq_deadAt := None, jq_cancelledAt := None, jq_lastErrorAt := None,
     jq_leaseOwner := None, jq_leaseExpiresAt := None,
     jq_availableAt := Some (or_default (ne_createdAt i) (ne_availableAt i)), jq_generation := jq_generation j + 1\<rparr>"

definition enqueueOrResetJob :: "enqueue_input \<Rightarrow> queue \<Rightarrow> (enqueue_outcome \<times> queue) result" where
  "enqueueOrResetJob i q =
     ensure (trim (ne_tenant i) \<noteq> []) ''tenant_id_required''
     (case findJob q (ne_id i) of
        None \<Rightarrow> bindR (enqueueJob i q) (\<lambda>q1. Inr (Enqueued, q1))
      | Some j \<Rightarrow>
          ensure (jq_tenant j = ne_tenant i) ''job_id_tenant_mismatch''
          (if jq_status j = ''pending'' \<or> jq_status j = ''running'' then Inr (AlreadyActive, q)
           else Inr (Reset, snd (update_job (\<lambda>j. jq_id j = ne_id i \<and> jq_tenant j = ne_tenant i) (reset_job i) q))))"

section \<open>Recovery\<close>

definition delivery_pending :: "delivery_row list \<Rightarrow> job \<Rightarrow> bool" where
  "delivery_pending rows j \<longleftrightarrow> exists_row (\<lambda>d. dl_job d = jq_id j \<and> dl_tenant d = jq_tenant j \<and> dl_status d = ''delivery_pending'' \<and>
     dl_intent d \<noteq> None) rows"

definition externalSideEffectMayExist :: "queue \<Rightarrow> job \<Rightarrow> bool" where
  "externalSideEffectMayExist q j \<longleftrightarrow>
     (jq_type j = ''transformer.adaptive.deliver'' \<and> delivery_pending (qu_adaptive q) j) \<or>
     (jq_type j = ''warden.candidate.deliver'' \<and> delivery_pending (qu_candidate q) j)"

definition shouldRetry :: "queue \<Rightarrow> job \<Rightarrow> bool" where
  "shouldRetry q j \<longleftrightarrow> jq_attempts j < jq_maxAttempts j \<or> externalSideEffectMayExist q j"

definition expiry_code :: "queue \<Rightarrow> job \<Rightarrow> string" where
  "expiry_code q j =
     (if jq_attempts j < jq_maxAttempts j then ''lease_expired''
      else if externalSideEffectMayExist q j then ''lease_expired_external_side_effect_uncertain''
      else ''lease_expired_max_attempts'')"

definition recover_job :: "queue \<Rightarrow> string \<Rightarrow> job \<Rightarrow> job" where
  "recover_job q now j = j\<lparr>jq_status := (if shouldRetry q j then ''pending'' else ''dead_letter''),
     jq_error := Some (expiry_code q j), jq_errorCode := Some (expiry_code q j), jq_lastErrorAt := Some now,
     jq_availableAt := (if shouldRetry q j then Some now else None),
     jq_finishedAt := (if shouldRetry q j then None else Some now),
     jq_deadAt := (if shouldRetry q j then None else Some now),
     jq_leaseOwner := None, jq_leaseExpiresAt := None\<rparr>"

definition recoverExpiredJobs :: "host \<Rightarrow> number_text \<Rightarrow> string \<Rightarrow> string option \<Rightarrow> queue \<Rightarrow> (nat \<times> queue) result" where
  "recoverExpiredJobs h nt now tenant q =
     bindR (assertTenantScope tenant) (\<lambda>_.
     bindR (settleExpiredWardenModelReservations h nt now tenant q) (\<lambda>(n, q1).
       let P = (\<lambda>j. lease_expired now j \<and> in_scope tenant j)
       in Inr (changes P (qu_jobs q1), put_jobs (update_where P (recover_job q1 now) (qu_jobs q1)) q1)))"

section \<open>Claiming\<close>

record claim_input =
  cl_types :: "string list"
  cl_tenant :: "string option"
  cl_worker :: string
  cl_leaseMs :: "int option"
  cl_now :: string
  cl_maxRunning :: "int option"

definition running_of :: "queue \<Rightarrow> string \<Rightarrow> int" where
  "running_of q tenant = int (length (filter (\<lambda>j. jq_tenant j = tenant \<and> jq_status j = ''running'') (qu_jobs q)))"

definition due :: "string \<Rightarrow> job \<Rightarrow> bool" where
  "due now j \<longleftrightarrow> (case jq_availableAt j of None \<Rightarrow> True | Some a \<Rightarrow> a \<le> now)"

definition claimable :: "claim_input \<Rightarrow> queue \<Rightarrow> job \<Rightarrow> bool" where
  "claimable i q j \<longleftrightarrow> jq_status j = ''pending'' \<and> (cl_types i = [] \<or> jq_type j \<in> set (cl_types i)) \<and> in_scope (cl_tenant i) j \<and>
     \<not> list_all (\<lambda>c. c = CHR '' '') (jq_tenant j) \<and> jq_cancelledAt j = None \<and> due (cl_now i) j \<and>
     (case cl_maxRunning i of None \<Rightarrow> True | Some n \<Rightarrow> n = 0 \<or> running_of q (jq_tenant j) < n)"

text \<open>\<open>ORDER BY available_at, created_at, id\<close>; NULL comes first.\<close>

definition null_first :: "string option \<Rightarrow> string list" where
  "null_first v = (case v of None \<Rightarrow> [] | Some s \<Rightarrow> [s])"

definition claim_order :: "job list \<Rightarrow> job list" where
  "claim_order js = sort_key (\<lambda>j. null_first (jq_availableAt j)) (sort_key jq_createdAt (sort_key jq_id js))"

definition lease_job :: "string \<Rightarrow> string \<Rightarrow> string \<Rightarrow> job \<Rightarrow> job" where
  "lease_job worker now expires j = j\<lparr>jq_status := ''running'', jq_attempts := jq_attempts j + 1, jq_startedAt := Some now,
     jq_finishedAt := None, jq_leaseOwner := Some worker, jq_leaseExpiresAt := Some expires,
     jq_generation := jq_generation j + 1\<rparr>"

text \<open>The transaction of \<open>claimNextJob\<close> after recovery, from \<open>q1\<close>; it is rolled back to \<open>q\<close> when the row is taken.\<close>

definition lease_next :: "claim_input \<Rightarrow> string \<Rightarrow> queue \<Rightarrow> queue \<Rightarrow> job option \<times> queue" where
  "lease_next i expires q q1 =
     (case claim_order (filter (claimable i q1) (qu_jobs q1)) of
        [] \<Rightarrow> (None, q1)
      | j # js \<Rightarrow>
          (let (one, q2) = update_job (\<lambda>x. jq_id x = jq_id j \<and> jq_status x = ''pending'') (lease_job (cl_worker i) (cl_now i) expires) q1
           in if one then (findJob q2 (jq_id j), q2) else (None, q)))"

definition claimNextJob :: "host \<Rightarrow> number_text \<Rightarrow> claim_input \<Rightarrow> queue \<Rightarrow> (job option \<times> queue) result" where
  "claimNextJob h nt i q =
     bindR (assertTenantScope (cl_tenant i)) (\<lambda>_.
     bindR (date_plus h (cl_now i) (max 1000 (or_default 60000 (cl_leaseMs i)))) (\<lambda>expires.
     bindR (recoverExpiredJobs h nt (cl_now i) (cl_tenant i) q) (\<lambda>(n, q1). Inr (lease_next i expires q q1))))"

section \<open>Settling a claim\<close>

record lease_fence =
  lf_worker :: string
  lf_generation :: int

text \<open>\<open>lease_owner = ? AND lease_generation = ? AND lease_expires_at > ?\<close>.\<close>

definition holds_lease :: "lease_fence \<Rightarrow> string \<Rightarrow> job \<Rightarrow> bool" where
  "holds_lease f t j \<longleftrightarrow> jq_leaseOwner j = Some (lf_worker f) \<and> jq_generation j = lf_generation f \<and>
     (case jq_leaseExpiresAt j of None \<Rightarrow> False | Some e \<Rightarrow> t < e)"

definition passes_fence :: "lease_fence option \<Rightarrow> string \<Rightarrow> job \<Rightarrow> bool" where
  "passes_fence f t j \<longleftrightarrow> (case f of None \<Rightarrow> True | Some x \<Rightarrow> holds_lease x t j)"

definition complete_job :: "json \<Rightarrow> string \<Rightarrow> job \<Rightarrow> job" where
  "complete_job result t j = j\<lparr>jq_status := ''done'', jq_result := Some result, jq_finishedAt := Some t, jq_error := None,
     jq_errorCode := None, jq_availableAt := None, jq_leaseOwner := None, jq_leaseExpiresAt := None\<rparr>"

definition completeJob :: "string \<Rightarrow> json \<Rightarrow> string \<Rightarrow> lease_fence option \<Rightarrow> queue \<Rightarrow> bool \<times> queue" where
  "completeJob jid result t f q =
     update_job (\<lambda>j. jq_id j = jid \<and> jq_status j = ''running'' \<and> passes_fence f t j) (complete_job result t) q"

definition renewJobLease :: "host \<Rightarrow> string \<Rightarrow> lease_fence \<Rightarrow> string \<Rightarrow> int option \<Rightarrow> queue \<Rightarrow> (bool \<times> queue) result" where
  "renewJobLease h jid f now leaseMs q =
     bindR (date_plus h now (max 1000 (min (or_default 60000 leaseMs) 86400000))) (\<lambda>expires.
     Inr (update_job (\<lambda>j. jq_id j = jid \<and> jq_status j = ''running'' \<and> holds_lease f now j)
       (\<lambda>j. j\<lparr>jq_leaseExpiresAt := Some expires\<rparr>) q))"

record failure_options =
  fo_worker :: "string option"
  fo_generation :: "int option"
  fo_errorCode :: "string option"
  fo_retryable :: "bool option"
  fo_retryPastMax :: bool
  fo_baseDelayMs :: "int option"
  fo_maxDelayMs :: "int option"

record failure_result =
  fr_applied :: bool
  fr_status :: string
  fr_availableAt :: "string option"
  fr_deadAt :: "string option"

definition fence_of :: "failure_options \<Rightarrow> lease_fence option" where
  "fence_of o' = (case (fo_worker o', fo_generation o') of (Some w, Some g) \<Rightarrow> Some \<lparr>lf_worker = w, lf_generation = g\<rparr> | _ \<Rightarrow> None)"

definition retry_wanted :: "failure_options \<Rightarrow> job \<Rightarrow> bool" where
  "retry_wanted o' j \<longleftrightarrow> fo_retryable o' \<noteq> Some False \<and> (fo_retryPastMax o' \<or> jq_attempts j < jq_maxAttempts j)"

definition fail_job :: "bool \<Rightarrow> string \<Rightarrow> string \<Rightarrow> string option \<Rightarrow> string \<Rightarrow> job \<Rightarrow> job" where
  "fail_job retry err code available t j = j\<lparr>jq_status := (if retry then ''pending'' else ''dead_letter''), jq_error := Some err,
     jq_errorCode := Some code, jq_lastErrorAt := Some t, jq_availableAt := available,
     jq_finishedAt := (if retry then None else Some t), jq_deadAt := (if retry then None else Some t),
     jq_leaseOwner := None, jq_leaseExpiresAt := None\<rparr>"

definition fail_fence :: "string \<Rightarrow> string \<Rightarrow> failure_options \<Rightarrow> job \<Rightarrow> bool" where
  "fail_fence jid t o' j \<longleftrightarrow> jq_id j = jid \<and> jq_status j = ''running'' \<and> passes_fence (fence_of o') t j"

text \<open>The time of the next attempt of a job that is retried.\<close>

definition retry_at :: "host \<Rightarrow> string \<Rightarrow> failure_options \<Rightarrow> job \<Rightarrow> string option result" where
  "retry_at h t o' j =
     (if retry_wanted o' j
      then bindR (date_plus h t (boundedDelayMs (jq_attempts j) (or_default 1000 (fo_baseDelayMs o')) (or_default 300000 (fo_maxDelayMs o'))))
        (\<lambda>a. Inr (Some a))
      else Inr None)"

text \<open>The update and the answer of \<open>failJob\<close> for the job \<open>j\<close> it read.\<close>

definition fail_update :: "string \<Rightarrow> string \<Rightarrow> string \<Rightarrow> failure_options \<Rightarrow> job \<Rightarrow> string option \<Rightarrow> queue \<Rightarrow> failure_result \<times> queue" where
  "fail_update jid err t o' j available q =
     (let retry = retry_wanted o' j;
          (applied, q1) = update_job (fail_fence jid t o') (fail_job retry err (normalizeJobErrorCode (fo_errorCode o')) available t) q
      in (\<lparr>fr_applied = applied,
           fr_status = (if applied then (if retry then ''pending'' else ''dead_letter'') else jq_status j),
           fr_availableAt = (if applied then available else jq_availableAt j),
           fr_deadAt = (if applied \<and> \<not> retry then Some t else jq_deadAt j)\<rparr>, q1))"

definition failJob :: "host \<Rightarrow> string \<Rightarrow> string \<Rightarrow> string \<Rightarrow> failure_options \<Rightarrow> queue \<Rightarrow> (failure_result \<times> queue) result" where
  "failJob h jid err t o' q =
     ensure ((fo_worker o' = None) = (fo_generation o' = None)) ''Job failure fencing requires workerId and leaseGeneration''
     (case findJob q jid of
        None \<Rightarrow> Inr (\<lparr>fr_applied = False, fr_status = ''missing'', fr_availableAt = None, fr_deadAt = None\<rparr>, q)
      | Some j \<Rightarrow> bindR (retry_at h t o' j) (\<lambda>available. Inr (fail_update jid err t o' j available q)))"

definition rescheduleJob :: "string \<Rightarrow> string \<Rightarrow> string \<Rightarrow> queue \<Rightarrow> bool \<times> queue" where
  "rescheduleJob jid runAt owner q =
     update_job (\<lambda>j. jq_id j = jid \<and> jq_status j = ''running'' \<and> jq_leaseOwner j = Some owner)
       (\<lambda>j. j\<lparr>jq_status := ''pending'', jq_availableAt := Some runAt, jq_attempts := max (jq_attempts j - 1) 0,
          jq_leaseOwner := None, jq_leaseExpiresAt := None\<rparr>) q"

section \<open>Operator actions\<close>

definition retry_job :: "string \<Rightarrow> bool \<Rightarrow> bool \<Rightarrow> job \<Rightarrow> job" where
  "retry_job now resetAttempts discard j = j\<lparr>jq_status := ''pending'', jq_attempts := (if resetAttempts then 0 else jq_attempts j),
     jq_error := None, jq_result := (if discard then None else jq_result j), jq_errorCode := None, jq_lastErrorAt := None,
     jq_availableAt := Some now, jq_startedAt := None, jq_finishedAt := None, jq_deadAt := None, jq_cancelledAt := None,
     jq_leaseOwner := None, jq_leaseExpiresAt := None\<rparr>"

definition retryJob :: "string \<Rightarrow> string option \<Rightarrow> string \<Rightarrow> bool \<Rightarrow> bool \<Rightarrow> queue \<Rightarrow> (bool \<times> queue) result" where
  "retryJob jid tenant now resetAttempts discard q =
     bindR (assertTenantScope tenant) (\<lambda>_.
     Inr (update_job (\<lambda>j. jq_id j = jid \<and> jq_status j \<in> {''dead_letter'', ''failed'', ''cancelled''} \<and> in_scope tenant j)
       (retry_job now resetAttempts discard) q))"

definition cancel_job :: "string \<Rightarrow> string \<Rightarrow> job \<Rightarrow> job" where
  "cancel_job reason t j = (let waiting = jq_status j = ''pending'' in
     j\<lparr>jq_status := ''cancelled'', jq_error := (if waiting then Some reason else jq_error j),
       jq_errorCode := (if waiting then Some ''job_cancelled'' else jq_errorCode j),
       jq_lastErrorAt := (if waiting then Some t else jq_lastErrorAt j), jq_availableAt := None,
       jq_finishedAt := (if waiting then Some t else jq_finishedAt j), jq_deadAt := (if waiting then None else jq_deadAt j),
       jq_cancelledAt := Some t, jq_leaseOwner := None, jq_leaseExpiresAt := None\<rparr>)"

definition cancelJob :: "string \<Rightarrow> string \<Rightarrow> string option \<Rightarrow> string option \<Rightarrow> queue \<Rightarrow> (bool \<times> queue) result" where
  "cancelJob jid t tenant reason q =
     bindR (assertTenantScope tenant) (\<lambda>_.
     Inr (update_job (\<lambda>j. jq_id j = jid \<and> jq_status j \<in> {''pending'', ''dead_letter'', ''failed''} \<and> in_scope tenant j)
       (cancel_job (case reason of None \<Rightarrow> ''cancelled'' | Some r \<Rightarrow> take 500 r) t) q))"

section \<open>Reading\<close>

definition listJobs :: "nat \<Rightarrow> string option \<Rightarrow> queue \<Rightarrow> job list result" where
  "listJobs limit tenant q =
     bindR (assertTenantScope tenant) (\<lambda>_. Inr (take limit (rev (sort_key jq_createdAt (rev (filter (in_scope tenant) (qu_jobs q)))))))"

definition getJob :: "string \<Rightarrow> string option \<Rightarrow> queue \<Rightarrow> job option result" where
  "getJob jid tenant q =
     bindR (assertTenantScope tenant) (\<lambda>_. Inr (List.find (\<lambda>j. jq_id j = jid \<and> in_scope tenant j) (qu_jobs q)))"

end
