(* ===== verification/ModelRuntime.thy ===== *)
theory ModelRuntime
  imports ModelAccounting
begin

text \<open>
  Who calls the accounting. The agent (\<open>packages/agent/src/agent.ts\<close>) reserves before a call of a model and
  settles after it, through the runtime of the worker (\<open>apps/worker/src/warden-model-accounting.ts\<close>), which adds
  the identity and the lease of its job. The host of a URL is the argument \<open>urlHost\<close>.
\<close>

section \<open>The runtime of the worker\<close>

record model_runtime =
  mr_tenant :: string
  mr_job :: string
  mr_run :: string
  mr_worker :: string
  mr_generation :: int
  mr_provider :: string
  mr_configuredModel :: string
  mr_endpoint :: string
  mr_maxCallCost :: jsnum
  mr_jobBudget :: jsnum

text \<open>\<open>AgentExternalModelReservation\<close> and \<open>AgentExternalModelSettlement\<close>.\<close>

record agent_reservation =
  mc_id :: string
  mc_callIndex :: jsnum
  mc_requestDigest :: string
  mc_provider :: string
  mc_configuredModel :: string
  mc_endpointHost :: string
  mc_maxInput :: jsnum
  mc_maxOutput :: jsnum
  mc_maxTotal :: jsnum
  mc_maxCost :: jsnum

record agent_settlement =
  mo_succeeded :: bool
  mo_actualModel :: "string option option"
  mo_bodyRequestId :: "string option option"
  mo_headerRequestId :: "string option option"
  mo_inputTokens :: "jsnum option"
  mo_outputTokens :: "jsnum option"
  mo_totalTokens :: "jsnum option"
  mo_costUsd :: "jsnum option option"
  mo_errorCode :: "string option"

definition executionScope :: "host \<Rightarrow> model_runtime \<Rightarrow> string" where
  "executionScope h m = ''sha256:'' @ h_sha h (join_with [char_of (0 :: nat)]
     [mr_tenant m, mr_job m, mr_run m, mr_worker m, int_str (mr_generation m)])"

definition num_same :: "jsnum \<Rightarrow> jsnum \<Rightarrow> bool" where
  "num_same x y \<longleftrightarrow> x = y \<and> x \<noteq> NaN"

definition assertReservationProvenance :: "(string \<Rightarrow> string option) \<Rightarrow> model_runtime \<Rightarrow> agent_reservation \<Rightarrow> 'a result \<Rightarrow> 'a result" where
  "assertReservationProvenance urlHost m a rest =
     (case urlHost (mr_endpoint m) of
        None \<Rightarrow> throw ''Invalid URL''
      | Some endpointHost \<Rightarrow>
          ensure (mc_provider a = mr_provider m \<and> mc_configuredModel a = mr_configuredModel m \<and> mc_endpointHost a = endpointHost \<and>
            num_same (mc_maxCost a) (mr_maxCallCost m)) ''warden_model_accounting_provenance_mismatch'' rest)"

definition runtime_reservation :: "model_runtime \<Rightarrow> string \<Rightarrow> agent_reservation \<Rightarrow> reservation_input" where
  "runtime_reservation m now a =
     \<lparr>wi_id = mc_id a, wi_tenant = mr_tenant m, wi_job = mr_job m, wi_run = mr_run m, wi_worker = mr_worker m,
      wi_generation = Fin (of_int (mr_generation m)), wi_callIndex = mc_callIndex a, wi_requestDigest = mc_requestDigest a,
      wi_provider = mc_provider a, wi_configuredModel = mc_configuredModel a, wi_endpointHost = mc_endpointHost a,
      wi_maxInput = mc_maxInput a, wi_maxOutput = mc_maxOutput a, wi_maxTotal = mc_maxTotal a, wi_maxCost = mc_maxCost a,
      wi_jobBudget = mr_jobBudget m, wi_observedAt = now\<rparr>"

definition runtime_reserve :: "host \<Rightarrow> number_text \<Rightarrow> (string \<Rightarrow> string option) \<Rightarrow> model_runtime \<Rightarrow> string \<Rightarrow> agent_reservation \<Rightarrow> queue \<Rightarrow>
    queue result" where
  "runtime_reserve h nt urlHost m now a q =
     assertReservationProvenance urlHost m a (
     bindR (reserveWardenModelCall h nt (runtime_reservation m now a) q) (\<lambda>(r, q1). Inr q1))"

text \<open>An empty error code is left out.\<close>

definition runtime_settlement :: "model_runtime \<Rightarrow> string \<Rightarrow> string \<Rightarrow> agent_settlement \<Rightarrow> settlement_input" where
  "runtime_settlement m now rid s =
     \<lparr>ws_tenant = mr_tenant m, ws_job = mr_job m, ws_reservation = rid, ws_worker = mr_worker m,
      ws_generation = Fin (of_int (mr_generation m)), ws_succeeded = mo_succeeded s, ws_actualModel = mo_actualModel s,
      ws_bodyRequestId = mo_bodyRequestId s, ws_headerRequestId = mo_headerRequestId s, ws_inputTokens = mo_inputTokens s,
      ws_outputTokens = mo_outputTokens s, ws_totalTokens = mo_totalTokens s, ws_costUsd = mo_costUsd s,
      ws_errorCode = (if mo_errorCode s = Some [] then None else mo_errorCode s), ws_observedAt = now\<rparr>"

definition runtime_settle :: "host \<Rightarrow> number_text \<Rightarrow> model_runtime \<Rightarrow> string \<Rightarrow> string \<Rightarrow> agent_settlement \<Rightarrow> queue \<Rightarrow> queue result" where
  "runtime_settle h nt m now rid s q =
     bindR (settleWardenModelCall h nt (runtime_settlement m now rid s) q) (\<lambda>(r, q1). Inr q1)"

definition assertWardenModelAccountingSettled :: "string \<Rightarrow> string \<Rightarrow> string \<Rightarrow> int \<Rightarrow> queue \<Rightarrow> unit result" where
  "assertWardenModelAccountingSettled tenant jid worker generation q =
     ensure (\<not> 0 < countActiveWardenModelReservations tenant jid worker generation q) ''warden_model_reservations_active'' (Inr ())"

section \<open>The agent\<close>

text \<open>What the agent knows of a task: whether it may use a model, the accounting it was given, and the
  provider, the model and the endpoint of its source policy.\<close>

record model_task =
  mt_allowModelSource :: bool
  mt_accounting :: "model_runtime option"
  mt_provider :: string
  mt_model :: string
  mt_endpoint :: string

text \<open>\<open>Buffer.byteLength(text, "utf8")\<close>.\<close>

definition utf8_length :: "string \<Rightarrow> int" where
  "utf8_length s = sum_list (map (\<lambda>c. if (of_char c :: int) < 128 then 1 else 2) s)"

definition agent_reservation_of :: "host \<Rightarrow> model_runtime \<Rightarrow> model_task \<Rightarrow> string \<Rightarrow> string \<Rightarrow> int \<Rightarrow> int \<Rightarrow> agent_reservation" where
  "agent_reservation_of h m t endpointHost body maxOutput callIndex =
     (let requestHex = h_sha h body;
          reservationHex = h_sha h (join_with [char_of (0 :: nat)] [executionScope h m, int_str callIndex, requestHex]);
          maxInput = utf8_length body
      in \<lparr>mc_id = ''wdmodel_'' @ take 48 reservationHex, mc_callIndex = Fin (of_int callIndex), mc_requestDigest = ''sha256:'' @ requestHex,
          mc_provider = mt_provider t, mc_configuredModel = mt_model t, mc_endpointHost = endpointHost,
          mc_maxInput = Fin (of_int maxInput), mc_maxOutput = Fin (of_int maxOutput),
          mc_maxTotal = Fin (of_int (maxInput + maxOutput)), mc_maxCost = mr_maxCallCost m\<rparr>)"

definition reserveExternalModelCall :: "host \<Rightarrow> number_text \<Rightarrow> (string \<Rightarrow> string option) \<Rightarrow> model_task \<Rightarrow> string \<Rightarrow> int \<Rightarrow> int \<Rightarrow> string \<Rightarrow>
    queue \<Rightarrow> (agent_reservation option \<times> queue) result" where
  "reserveExternalModelCall h nt urlHost t body maxOutput callIndex now q =
     (if \<not> mt_allowModelSource t then Inr (None, q)
      else case mt_accounting t of
        None \<Rightarrow> throw ''warden_model_accounting_missing''
      | Some m \<Rightarrow>
          ensure (dispatch_digest (executionScope h m)) ''warden_model_accounting_scope_invalid'' (
          ensure (is_finite (mr_maxCallCost m) \<and> num_lt (Fin 0) (mr_maxCallCost m)) ''warden_model_accounting_cost_bound_invalid'' (
          case urlHost (mt_endpoint t) of
            None \<Rightarrow> throw ''Invalid URL''
          | Some endpointHost \<Rightarrow>
              (let a = agent_reservation_of h m t endpointHost body maxOutput callIndex
               in bindR (runtime_reserve h nt urlHost m now a q) (\<lambda>q1. Inr (Some a, q1))))))"

text \<open>\<open>hasMeasuredUsage\<close> asks for the same evidence as \<^const>\<open>completeMeasured\<close>; it is written out here as the agent has it.\<close>

definition hasMeasuredUsage :: "jsnum option \<Rightarrow> jsnum option \<Rightarrow> jsnum option \<Rightarrow> jsnum option \<Rightarrow> bool" where
  "hasMeasuredUsage inT outT totT cost \<longleftrightarrow>
     (case (inT, outT, totT, cost) of
        (Some a, Some b, Some t, Some c) \<Rightarrow>
          is_safe_integer a \<and> num_lt (Fin 0) a \<and> is_safe_integer b \<and> num_lt (Fin 0) b \<and>
          is_safe_integer t \<and> t = Fin (num_val a + num_val b) \<and> is_finite c \<and> num_lt (Fin 0) c
      | _ \<Rightarrow> False)"

definition at_most :: "jsnum option \<Rightarrow> jsnum \<Rightarrow> bool" where
  "at_most v x \<longleftrightarrow> (case v of None \<Rightarrow> False | Some n \<Rightarrow> num_le n x)"

definition measuredSettlement :: "agent_reservation \<Rightarrow> agent_settlement \<Rightarrow> bool" where
  "measuredSettlement a s \<longleftrightarrow> mo_succeeded s \<and>
     hasMeasuredUsage (mo_inputTokens s) (mo_outputTokens s) (mo_totalTokens s) (flat (mo_costUsd s)) \<and>
     at_most (mo_inputTokens s) (mc_maxInput a) \<and> at_most (mo_outputTokens s) (mc_maxOutput a) \<and>
     at_most (mo_totalTokens s) (mc_maxTotal a) \<and> at_most (flat (mo_costUsd s)) (mc_maxCost a)"

definition settleExternalModelCall :: "host \<Rightarrow> number_text \<Rightarrow> model_runtime \<Rightarrow> agent_reservation option \<Rightarrow> agent_settlement \<Rightarrow> string \<Rightarrow>
    queue \<Rightarrow> (bool \<times> queue) result" where
  "settleExternalModelCall h nt m v s now q =
     (case v of
        None \<Rightarrow> Inr (True, q)
      | Some a \<Rightarrow> bindR (runtime_settle h nt m now (mc_id a) s q) (\<lambda>q1. Inr (measuredSettlement a s, q1)))"

end
