(* ===== verification/RowTable.thy ===== *)
theory RowTable
  imports JobQueue ModelRuntime
begin

text \<open>
  A table whose rows only move, never leave, and whose new rows have new keys: the contract that the jobs and the
  model reservations share under every command on the queue. What every move keeps, every run keeps.
\<close>

section \<open>Moves of rows\<close>

definition moved :: "('r \<Rightarrow> 'r \<Rightarrow> bool) \<Rightarrow> 'r list \<Rightarrow> 'r list \<Rightarrow> bool" where
  "moved move xs ys \<longleftrightarrow> list_all2 move\<^sup>*\<^sup>* xs ys"

lemma moved_refl [simp]: "moved move xs xs"
  by (simp add: moved_def list_all2_refl)

lemma moved_trans: "moved move xs ys \<Longrightarrow> moved move ys zs \<Longrightarrow> moved move xs zs"
  unfolding moved_def by (rule list_all2_trans[where ?P1.0 = "move\<^sup>*\<^sup>*" and ?P2.0 = "move\<^sup>*\<^sup>*"]) auto

lemma moved_update: "(\<And>x. x \<in> set xs \<Longrightarrow> P x \<Longrightarrow> move x (f x)) \<Longrightarrow> moved move xs (update_where P f xs)"
  unfolding moved_def update_where_def by (induction xs) auto

lemma moved_kept:
  assumes "moved move xs ys" and "\<And>x y. move x y \<Longrightarrow> g y = g x"
  shows "map g ys = map g xs"
proof -
  have "move\<^sup>*\<^sup>* x y \<Longrightarrow> g y = g x" for x y by (induction rule: rtranclp_induct) (simp_all add: assms(2))
  with assms(1) show ?thesis unfolding moved_def by (induction rule: list_all2_induct) auto
qed

lemma moved_stable:
  assumes "moved move xs ys" and "\<And>x y. move x y \<Longrightarrow> P x \<Longrightarrow> P y"
    and "\<forall>x \<in> set xs. P x"
  shows "\<forall>y \<in> set ys. P y"
proof -
  have "move\<^sup>*\<^sup>* x y \<Longrightarrow> P x \<Longrightarrow> P y" for x y by (induction rule: rtranclp_induct) (use assms(2) in auto)
  with assms(1,3) show ?thesis unfolding moved_def by (induction rule: list_all2_induct) auto
qed

section \<open>The table\<close>

text \<open>One step: the rows there move, and rows with new keys follow them.\<close>

definition table_step :: "('r \<Rightarrow> 'k) \<Rightarrow> ('r \<Rightarrow> 'r \<Rightarrow> bool) \<Rightarrow> ('r \<Rightarrow> bool) \<Rightarrow> 'r list \<Rightarrow> 'r list \<Rightarrow> bool" where
  "table_step key move fresh rows rows' \<longleftrightarrow> (\<exists>ys xs. rows' = ys @ xs \<and> moved move rows ys \<and>
     (\<forall>x \<in> set xs. fresh x \<and> key x \<notin> key ` set rows) \<and> distinct (map key xs))"

lemma table_step_moved: "moved move rows rows' \<Longrightarrow> table_step key move fresh rows rows'"
  unfolding table_step_def by (rule exI[of _ rows'], rule exI[of _ "[]"]) simp

lemma table_step_refl [simp]: "table_step key move fresh rows rows"
  by (simp add: table_step_moved)

lemma table_step_append: "fresh x \<Longrightarrow> key x \<notin> key ` set rows \<Longrightarrow> table_step key move fresh rows (rows @ [x])"
  unfolding table_step_def by (rule exI[of _ rows], rule exI[of _ "[x]"]) simp

lemma table_step_update:
  "(\<And>x. x \<in> set rows \<Longrightarrow> P x \<Longrightarrow> move x (f x)) \<Longrightarrow> table_step key move fresh rows (update_where P f rows)"
  by (intro table_step_moved moved_update)

lemma table_stepE:
  assumes "table_step key move fresh rows rows'" and "\<And>x y. move x y \<Longrightarrow> key y = key x"
  obtains ys xs where "rows' = ys @ xs" "moved move rows ys" "map key ys = map key rows" "distinct (map key xs)"
    "\<And>x. x \<in> set xs \<Longrightarrow> fresh x \<and> key x \<notin> key ` set rows"
  using assms(1)[unfolded table_step_def] moved_kept[of move rows _ key] assms(2) by metis

lemma table_step_distinct:
  assumes "table_step key move fresh rows rows'" and "\<And>x y. move x y \<Longrightarrow> key y = key x" and "distinct (map key rows)"
  shows "distinct (map key rows')"
proof -
  obtain ys xs where st: "rows' = ys @ xs" "map key ys = map key rows" "distinct (map key xs)"
    "\<And>x. x \<in> set xs \<Longrightarrow> key x \<notin> key ` set rows" by (rule table_stepE[OF assms(1,2)]) blast+
  have "key ` set rows \<inter> key ` set xs = {}"
  proof (rule ccontr)
    assume "key ` set rows \<inter> key ` set xs \<noteq> {}"
    then obtain k where k: "k \<in> key ` set rows" "k \<in> key ` set xs" unfolding disjoint_iff by metis
    from k(2) obtain x where "x \<in> set xs" "k = key x" by (rule imageE)
    with st(4) k(1) show False by simp
  qed
  then show ?thesis using assms(3) st(2,3) by (simp add: st(1))
qed

locale row_table =
  fixes rows :: "'s \<Rightarrow> 'r list" and key :: "'r \<Rightarrow> 'k" and move :: "'r \<Rightarrow> 'r \<Rightarrow> bool" and fresh :: "'r \<Rightarrow> bool"
    and exec :: "'c \<Rightarrow> 's \<Rightarrow> 's" and ok :: "'s \<Rightarrow> bool"
  assumes step: "ok s \<Longrightarrow> table_step key move fresh (rows s) (rows (exec c s))"
    and move_key: "move x y \<Longrightarrow> key y = key x"
    and ok_exec: "ok s \<Longrightarrow> ok (exec c s)"
begin

lemma ok_run: "ok s \<Longrightarrow> ok (fold exec cs s)"
  by (induction cs arbitrary: s) (simp_all add: ok_exec)

text \<open>What a fresh row has and a move keeps, the rows of every state have.\<close>

lemma rows_satisfy:
  assumes fresh: "\<And>x. fresh x \<Longrightarrow> I x" and move: "\<And>x y. move x y \<Longrightarrow> I x \<Longrightarrow> I y"
  shows "ok s \<Longrightarrow> \<forall>x \<in> set (rows s). I x \<Longrightarrow> \<forall>x \<in> set (rows (fold exec cs s)). I x"
proof (induction cs arbitrary: s)
  case (Cons c cs)
  obtain ys xs where st: "rows (exec c s) = ys @ xs" "moved move (rows s) ys" "\<And>x. x \<in> set xs \<Longrightarrow> fresh x"
    by (rule table_stepE[OF step[OF Cons.prems(1), of c] move_key]) blast+
  have "\<forall>y \<in> set ys. I y" using moved_stable[OF st(2), of I] move Cons.prems by blast
  then have "\<forall>x \<in> set (rows (exec c s)). I x" using st fresh by auto
  from Cons.IH[OF ok_exec[OF Cons.prems(1)] this] show ?case by simp
qed simp

text \<open>What a move keeps of the row with a key stays so, for the row is not replaced.\<close>

lemma key_kept:
  assumes move: "\<And>x y. move x y \<Longrightarrow> P x \<Longrightarrow> P y"
  shows "ok s \<Longrightarrow> k \<in> key ` set (rows s) \<Longrightarrow> \<forall>x \<in> set (rows s). key x = k \<longrightarrow> P x \<Longrightarrow>
    k \<in> key ` set (rows (fold exec cs s)) \<and> (\<forall>x \<in> set (rows (fold exec cs s)). key x = k \<longrightarrow> P x)"
proof (induction cs arbitrary: s)
  case (Cons c cs)
  obtain ys xs where st: "rows (exec c s) = ys @ xs" "moved move (rows s) ys" "map key ys = map key (rows s)"
    "\<And>x. x \<in> set xs \<Longrightarrow> key x \<notin> key ` set (rows s)" by (rule table_stepE[OF step[OF Cons.prems(1), of c] move_key]) blast+
  have "\<forall>y \<in> set ys. key y = k \<longrightarrow> P y" using moved_stable[OF st(2), of "\<lambda>x. key x = k \<longrightarrow> P x"] move move_key Cons.prems(3) by metis
  moreover have "key ` set ys = key ` set (rows s)" using st(3) by (metis set_map)
  ultimately have "k \<in> key ` set (rows (exec c s))" "\<forall>x \<in> set (rows (exec c s)). key x = k \<longrightarrow> P x" using st(1,4) Cons.prems(2) by auto
  from Cons.IH[OF ok_exec[OF Cons.prems(1)] this] show ?case by simp
qed simp

end

end
