(* ===== verification/AccountingSteps.thy ===== *)
theory AccountingSteps
  imports RowTable
begin

text \<open>
  What the accounting operations do to the table of reservations, whose ids are its primary key: every change is a
  settlement of an active row, and the loop over expired reservations is one update.
\<close>

section \<open>Frames\<close>

lemma put_simps [simp]:
  "qu_reservations (put_reservations rs q) = rs" "qu_jobs (put_reservations rs q) = qu_jobs q"
  "qu_adaptive (put_reservations rs q) = qu_adaptive q" "qu_candidate (put_reservations rs q) = qu_candidate q"
  "qu_jobs (put_jobs js q) = js" "qu_reservations (put_jobs js q) = qu_reservations q"
  "qu_adaptive (put_jobs js q) = qu_adaptive q" "qu_candidate (put_jobs js q) = qu_candidate q"
  "put_reservations rs (put_reservations rs' q) = put_reservations rs q" "put_reservations (qu_reservations q) q = q"
  "put_jobs (qu_jobs q) q = q"
  by (simp_all add: put_reservations_def put_jobs_def)

lemma requireId_eq_Inr [simp]: "requireId v c rest = Inr x \<longleftrightarrow> account_id v \<and> rest = Inr x"
  by (simp add: requireId_def ensure_eq_Inr)

lemma requireIso_eq_Inr [simp]: "requireIso v c rest = Inr x \<longleftrightarrow> canonical_ms v \<noteq> None \<and> rest = Inr x"
  by (simp add: requireIso_def ensure_eq_Inr)

lemma requireInteger_eq_Inr [simp]: "requireInteger v c z rest = Inr x \<longleftrightarrow>
    is_safe_integer v \<and> \<not> num_lt v (Fin (if z then 0 else 1)) \<and> rest = Inr x"
  by (auto simp: requireInteger_def ensure_eq_Inr)

lemma requireMoney_eq_Inr [simp]: "requireMoney v c rest = Inr x \<longleftrightarrow> is_finite v \<and> \<not> num_lt v (Fin 0) \<and> rest = Inr x"
  by (auto simp: requireMoney_def ensure_eq_Inr)

lemma assertModelLease_eq_Inr [simp]: "assertModelLease q t j w g obs rest = Inr x \<longleftrightarrow> model_lease q t j w g obs \<and> rest = Inr x"
  by (simp add: assertModelLease_def ensure_eq_Inr)

section \<open>Rows by their id\<close>

lemma distinct_key_eq: "distinct (map f xs) \<Longrightarrow> x \<in> set xs \<Longrightarrow> y \<in> set xs \<Longrightarrow> f x = f y \<Longrightarrow> x = y"
  by (auto simp: distinct_map inj_on_def)

lemma find_key: "distinct (map k xs) \<Longrightarrow> x \<in> set xs \<Longrightarrow> P x \<Longrightarrow> (\<And>y. P y \<Longrightarrow> k y = k x) \<Longrightarrow> List.find P xs = Some x"
proof (induction xs)
  case (Cons a xs)
  show ?case
  proof (cases "x = a")
    case False
    then have x: "x \<in> set xs" using Cons.prems(2) by simp
    then have "k x \<in> k ` set xs" by (rule imageI)
    then have "k a \<noteq> k x" using Cons.prems(1) by auto
    then have "\<not> P a" using Cons.prems(4)[of a] by blast
    moreover have "List.find P xs = Some x" 
    proof (rule Cons.IH)
      show "distinct (map k xs)" using Cons.prems(1) by simp
    qed (fact x Cons.prems(3,4))+
    ultimately show ?thesis by simp
  qed (use Cons.prems(3) in simp)
qed simp

lemma changes_one:
  assumes "distinct rows" and "r \<in> set rows" and "\<And>x. x \<in> set rows \<Longrightarrow> P x \<longleftrightarrow> x = r"
  shows "changes P rows = 1"
proof -
  have "filter P rows = filter (\<lambda>x. x = r) rows" by (rule filter_cong) (simp_all add: assms(3))
  moreover have "length (filter (\<lambda>x. x = r) rows) = 1" using assms(1,2) by (simp add: distinct_length_filter Int_absorb2)
  ultimately show ?thesis by (simp add: changes_def)
qed

lemma update_where_cong: "(\<And>x. x \<in> set rows \<Longrightarrow> P x \<longleftrightarrow> Q x) \<Longrightarrow> (\<And>x. x \<in> set rows \<Longrightarrow> P x \<Longrightarrow> f x = g x) \<Longrightarrow>
    update_where P f rows = update_where Q g rows"
  by (simp add: update_where_def)

lemma update_where_none: "(\<And>x. x \<in> set rows \<Longrightarrow> \<not> P x) \<Longrightarrow> update_where P f rows = rows"
  by (simp add: update_where_def map_idI)

lemma getRow_SomeD: "getRow q t rid = Some r \<Longrightarrow> r \<in> set (qu_reservations q) \<and> rv_tenant r = t \<and> rv_id r = rid"
  using find_SomeD[of "\<lambda>r. rv_tenant r = t \<and> rv_id r = rid"] by (auto simp: getRow_def)

text \<open>The update of one active row, found by its id.\<close>

lemma settle_row_eq:
  assumes "distinct (map rv_id (qu_reservations q))" and "r \<in> set (qu_reservations q)" and "rv_status r = RActive"
  shows "settle_row (rv_id r) (rv_tenant r) (rv_worker r) (rv_generation r) f q =
    Inr (put_reservations (update_where (\<lambda>x. x = r) f (qu_reservations q)) q)"
proof -
  let ?P = "\<lambda>x. rv_id x = rv_id r \<and> rv_tenant x = rv_tenant r \<and> rv_status x = RActive \<and> rv_worker x = rv_worker r \<and>
    rv_generation x = rv_generation r"
  have P: "?P x \<longleftrightarrow> x = r" if "x \<in> set (qu_reservations q)" for x
    using distinct_key_eq[OF assms(1) that assms(2)] assms(3) by auto
  have "changes ?P (qu_reservations q) = 1"
    by (rule changes_one[OF _ assms(2)]) (use assms(1) P in \<open>auto simp: distinct_map\<close>)
  moreover have "update_where ?P f (qu_reservations q) = update_where (\<lambda>x. x = r) f (qu_reservations q)"
    by (rule update_where_cong) (simp_all add: P)
  ultimately show ?thesis by (simp add: settle_row_def Let_def ensure_def)
qed

section \<open>The loop over expired reservations\<close>

definition settled_unknown :: "host \<Rightarrow> number_text \<Rightarrow> string \<Rightarrow> string \<Rightarrow> reservation \<Rightarrow> reservation" where
  "settled_unknown h nt observedAt code r =
     (unknown_settlement r observedAt code)\<lparr>rv_settlementDigest := Some (storedSettlementFingerprint h nt (unknown_settlement r observedAt code))\<rparr>"

lemma settled_unknown_simps [simp]:
  "rv_id (settled_unknown h nt t c r) = rv_id r" "rv_status (settled_unknown h nt t c r) = RUnknown"
  by (simp_all add: settled_unknown_def unknown_settlement_def)

lemma settleUnknown_eq:
  assumes "distinct (map rv_id (qu_reservations q))" and "r \<in> set (qu_reservations q)" and "rv_status r = RActive"
  shows "settleUnknownReservation h nt r t c q =
    Inr (put_reservations (update_where (\<lambda>x. x = r) (settled_unknown h nt t c) (qu_reservations q)) q)"
  unfolding settleUnknownReservation_def Let_def settle_row_eq[OF assms]
  by (rule arg_cong[where f = "\<lambda>rs. Inr (put_reservations rs q)"], rule update_where_cong) (simp_all add: settled_unknown_def)

lemma update_where_ids: "map rv_id (update_where P (settled_unknown h nt t c) rows) = map rv_id rows"
  by (rule map_update_where) simp

lemma settle_each_eq:
  "distinct (map rv_id (qu_reservations q)) \<Longrightarrow> set rs \<subseteq> set (qu_reservations q) \<Longrightarrow> \<forall>r \<in> set rs. rv_status r = RActive \<Longrightarrow> distinct rs \<Longrightarrow>
    settle_each h nt t c rs q =
      Inr (put_reservations (update_where (\<lambda>r. r \<in> set rs) (settled_unknown h nt t c) (qu_reservations q)) q)"
proof (induction rs arbitrary: q)
  case Nil
  then show ?case by (simp add: update_where_none)
next
  case (Cons r rs)
  let ?g = "settled_unknown h nt t c"
  let ?q = "put_reservations (update_where (\<lambda>x. x = r) ?g (qu_reservations q)) q"
  have sub: "set rs \<subseteq> set (qu_reservations ?q)"
    using Cons.prems(2,4) by (auto simp: update_where_def image_iff)
  have "settle_each h nt t c (r # rs) q = settle_each h nt t c rs ?q"
    using settleUnknown_eq[OF Cons.prems(1), of r] Cons.prems(2,3) by simp
  also have "\<dots> = Inr (put_reservations (update_where (\<lambda>x. x \<in> set rs) ?g (qu_reservations ?q)) ?q)"
    by (rule Cons.IH) (use Cons.prems sub in \<open>simp_all add: update_where_ids\<close>)
  also have "update_where (\<lambda>x. x \<in> set rs) ?g (qu_reservations ?q) =
      update_where (\<lambda>x. x \<in> set (r # rs)) ?g (qu_reservations q)"
  proof -
    have "?g r \<notin> set rs" using Cons.prems(3) by (auto dest: bspec[where x = "?g r"])
    then show ?thesis by (simp add: update_where_def)
  qed
  finally show ?case by simp
qed

lemma reservation_order_set [simp]: "set (reservation_order rs) = set rs"
  by (simp add: reservation_order_def)

lemma reservation_order_distinct [simp]: "distinct (reservation_order rs) = distinct rs"
  by (simp add: reservation_order_def)

lemma reservation_order_length [simp]: "length (reservation_order rs) = length rs"
  by (simp add: reservation_order_def)

text \<open>Settling the reservations of a selection is one update of the table, and does not fail.\<close>

lemma settle_where_eq:
  assumes "distinct (map rv_id (qu_reservations q))"
  shows "settle_where h nt t c P q =
    (let Q = (\<lambda>r. rv_status r = RActive \<and> P r)
     in Inr (changes Q (qu_reservations q), put_reservations (update_where Q (settled_unknown h nt t c) (qu_reservations q)) q))"
proof -
  let ?Q = "\<lambda>r. rv_status r = RActive \<and> P r"
  let ?rs = "reservation_order (filter ?Q (qu_reservations q))"
  have "settle_each h nt t c ?rs q =
      Inr (put_reservations (update_where (\<lambda>r. r \<in> set ?rs) (settled_unknown h nt t c) (qu_reservations q)) q)"
    by (rule settle_each_eq[OF assms]) (use assms in \<open>auto simp: distinct_map\<close>)
  also have "update_where (\<lambda>r. r \<in> set ?rs) (settled_unknown h nt t c) (qu_reservations q) =
      update_where ?Q (settled_unknown h nt t c) (qu_reservations q)"
    by (rule update_where_cong) simp_all
  finally show ?thesis by (simp add: settle_where_def Let_def changes_def)
qed

end
