(* ===== verification/QueueSteps.thy ===== *)
theory QueueSteps
  imports AccountingSteps
begin

text \<open>
  The commands on the queue as one machine: the operations of the job queue, those of the model accounting, and
  changes of the delivery tables by the rest of the program. Jobs and reservations are two tables of moving rows.
\<close>

section \<open>Commands\<close>

datatype queue_cmd =
    QEnqueue enqueue_input
  | QReset enqueue_input
  | QRecover string "string option"
  | QClaim claim_input
  | QComplete string json string "lease_fence option"
  | QRenew string lease_fence string "int option"
  | QFail string string string failure_options
  | QReschedule string string string
  | QRetry string "string option" string bool bool
  | QCancel string string "string option" "string option"
  | QReserve reservation_input
  | QSettle settlement_input
  | QSettleFence string string jsnum string string
  | QDeliveries "delivery_row list" "delivery_row list"

text \<open>The queue after a call; a call that throws leaves it as it was.\<close>

definition queue_after :: "queue \<Rightarrow> ('a \<times> queue) result \<Rightarrow> queue" where
  "queue_after q r = (case r of Inl e \<Rightarrow> q | Inr (v, q1) \<Rightarrow> q1)"

fun exec_queue :: "host \<Rightarrow> number_text \<Rightarrow> queue_cmd \<Rightarrow> queue \<Rightarrow> queue" where
  "exec_queue h nt (QEnqueue i) q = (case enqueueJob i q of Inl e \<Rightarrow> q | Inr q1 \<Rightarrow> q1)"
| "exec_queue h nt (QReset i) q = queue_after q (enqueueOrResetJob i q)"
| "exec_queue h nt (QRecover now tenant) q = queue_after q (recoverExpiredJobs h nt now tenant q)"
| "exec_queue h nt (QClaim i) q = queue_after q (claimNextJob h nt i q)"
| "exec_queue h nt (QComplete jid v t f) q = snd (completeJob jid v t f q)"
| "exec_queue h nt (QRenew jid f now ms) q = queue_after q (renewJobLease h jid f now ms q)"
| "exec_queue h nt (QFail jid e t opts) q = queue_after q (failJob h jid e t opts q)"
| "exec_queue h nt (QReschedule jid runAt owner) q = snd (rescheduleJob jid runAt owner q)"
| "exec_queue h nt (QRetry jid tenant now z d) q = queue_after q (retryJob jid tenant now z d q)"
| "exec_queue h nt (QCancel jid t tenant reason) q = queue_after q (cancelJob jid t tenant reason q)"
| "exec_queue h nt (QReserve i) q = queue_after q (reserveWardenModelCall h nt i q)"
| "exec_queue h nt (QSettle i) q = queue_after q (settleWardenModelCall h nt i q)"
| "exec_queue h nt (QSettleFence jid w g t code) q = queue_after q (settleActiveWardenModelReservationsForFence h nt jid w g t code q)"
| "exec_queue h nt (QDeliveries a c) q = q\<lparr>qu_adaptive := a, qu_candidate := c\<rparr>"

definition run_queue :: "host \<Rightarrow> number_text \<Rightarrow> queue_cmd list \<Rightarrow> queue \<Rightarrow> queue" where
  "run_queue h nt cs q = fold (exec_queue h nt) cs q"

definition empty_queue :: queue where
  "empty_queue = \<lparr>qu_jobs = [], qu_adaptive = [], qu_candidate = [], qu_reservations = []\<rparr>"

section \<open>Moves of a job\<close>

text \<open>The lease of a row is free, or held by one worker.\<close>

inductive job_move :: "job \<Rightarrow> job \<Rightarrow> bool" where
  claimed: "jq_status j = ''pending'' \<Longrightarrow> jq_cancelledAt j = None \<Longrightarrow> job_move j (lease_job w now e j)"
| completed: "jq_status j = ''running'' \<Longrightarrow> job_move j (complete_job v t j)"
| renewed: "jq_status j = ''running'' \<Longrightarrow> job_move j (j\<lparr>jq_leaseExpiresAt := Some e\<rparr>)"
| failed: "jq_status j = ''running'' \<Longrightarrow> (retry \<longleftrightarrow> available \<noteq> None) \<Longrightarrow> job_move j (fail_job retry err code available t j)"
| rescheduled: "jq_status j = ''running'' \<Longrightarrow> job_move j (j\<lparr>jq_status := ''pending'', jq_availableAt := Some runAt,
    jq_attempts := max (jq_attempts j - 1) 0, jq_leaseOwner := None, jq_leaseExpiresAt := None\<rparr>)"
| recovered: "jq_status j = ''running'' \<Longrightarrow> job_move j (recover_job q now j)"
| reset: "jq_status j \<noteq> ''pending'' \<Longrightarrow> jq_status j \<noteq> ''running'' \<Longrightarrow> job_move j (reset_job i j)"
| retried: "jq_status j \<in> {''dead_letter'', ''failed'', ''cancelled''} \<Longrightarrow> job_move j (retry_job now z d j)"
| cancelled: "jq_status j \<in> {''pending'', ''dead_letter'', ''failed''} \<Longrightarrow> job_move j (cancel_job reason t j)"

inductive_cases job_moveE: "job_move j j'"

lemmas job_write_defs = lease_job_def complete_job_def fail_job_def recover_job_def reset_job_def retry_job_def cancel_job_def Let_def

lemma job_move_id: "job_move j j' \<Longrightarrow> jq_id j' = jq_id j"
  by (erule job_moveE) (simp_all add: job_write_defs)

definition fresh_job :: "job \<Rightarrow> bool" where
  "fresh_job j \<longleftrightarrow> (\<exists>i. j = new_job i \<and> trim (ne_tenant i) \<noteq> [])"

section \<open>Moves of a reservation\<close>

inductive reservation_move :: "host \<Rightarrow> number_text \<Rightarrow> reservation \<Rightarrow> reservation \<Rightarrow> bool" for h nt where
  unknown: "rv_status r = RActive \<Longrightarrow> canonical_ms t \<noteq> None \<Longrightarrow> reservation_move h nt r (settled_unknown h nt t code r)"
| settled: "rv_status r = RActive \<Longrightarrow> canonical_ms (ws_observedAt i) \<noteq> None \<Longrightarrow>
    reservation_move h nt r (write_settlement (materializeSettlement r i) (storedSettlementFingerprint h nt (materializeSettlement r i)) r)"

inductive_cases reservation_moveE: "reservation_move h nt r r'"

lemma reservation_move_id: "reservation_move h nt r r' \<Longrightarrow> rv_id r' = rv_id r"
  by (erule reservation_moveE) (simp_all add: write_settlement_def)

definition valid_input :: "reservation_input \<Rightarrow> bool" where
  "valid_input i \<longleftrightarrow> valid_reservation i (Inr ()) = Inr ()"

definition fresh_reservation :: "host \<Rightarrow> number_text \<Rightarrow> reservation \<Rightarrow> bool" where
  "fresh_reservation h nt r \<longleftrightarrow> (\<exists>i. valid_input i \<and>
     r = (new_reservation i)\<lparr>rv_reservationDigest := reservationFingerprint h nt (new_reservation i)\<rparr>)"

lemma valid_reservation_eq_Inr: "valid_reservation i rest = Inr x \<longleftrightarrow> valid_input i \<and> rest = Inr x"
  by (auto simp: valid_input_def valid_reservation_def ensure_eq_Inr)


section \<open>Every command is a step of both tables\<close>

abbreviation job_step :: "queue \<Rightarrow> queue \<Rightarrow> bool" where
  "job_step q q' \<equiv> table_step jq_id job_move fresh_job (qu_jobs q) (qu_jobs q')"

abbreviation reservation_step :: "host \<Rightarrow> number_text \<Rightarrow> queue \<Rightarrow> queue \<Rightarrow> bool" where
  "reservation_step h nt q q' \<equiv>
     table_step rv_id (reservation_move h nt) (fresh_reservation h nt) (qu_reservations q) (qu_reservations q')"

lemma update_job_snd [simp]: "snd (update_job P f q) = put_jobs (update_where P f (qu_jobs q)) q"
  by (simp add: update_job_def)

lemma update_job_none: "(\<And>j. j \<in> set (qu_jobs q) \<Longrightarrow> \<not> P j) \<Longrightarrow> update_job P f q = (False, q)"
  by (simp add: update_job_def changes_def update_where_none filter_empty_conv)

lemma queue_after_simps [simp]: "queue_after q (Inl e) = q" "queue_after q (Inr (v, q1)) = q1" "queue_after q (Inr p) = snd p"
  by (simp_all add: queue_after_def split: prod.splits)

lemma queue_after_cases: "(\<And>v q1. r = Inr (v, q1) \<Longrightarrow> R q q1) \<Longrightarrow> R q q \<Longrightarrow> R q (queue_after q r)"
  by (cases r) (auto simp: queue_after_def)

lemma new_job_fresh: "trim (ne_tenant i) \<noteq> [] \<Longrightarrow> fresh_job (new_job i)"
  by (auto simp: fresh_job_def)

lemma new_job_id [simp]: "jq_id (new_job i) = ne_id i"
  by (simp add: new_job_def)

lemma not_exists_key: "\<not> exists_row (\<lambda>x. k x = v) rows \<longleftrightarrow> v \<notin> k ` set rows"
  by (auto simp: exists_row_def list_ex_iff)

lemma enqueue_step: "enqueueJob i q = Inr q1 \<Longrightarrow> job_step q q1 \<and> qu_reservations q1 = qu_reservations q"
  by (auto simp: enqueueJob_def ensure_eq_Inr not_exists_key new_job_fresh simp del: image_iff intro!: table_step_append)

lemma findJob_SomeD: "findJob q jid = Some j \<Longrightarrow> j \<in> set (qu_jobs q) \<and> jq_id j = jid"
  using find_SomeD[of "\<lambda>j. jq_id j = jid"] by (auto simp: findJob_def)

lemma reset_step:
  assumes "distinct (map jq_id (qu_jobs q))" and "enqueueOrResetJob i q = Inr (o', q1)"
  shows "job_step q q1 \<and> qu_reservations q1 = qu_reservations q"
proof (cases "findJob q (ne_id i)")
  case None
  then show ?thesis using assms(2) enqueue_step by (auto simp: enqueueOrResetJob_def ensure_eq_Inr bindR_eq_Inr)
next
  case (Some j)
  show ?thesis
  proof (cases "jq_status j = ''pending'' \<or> jq_status j = ''running''")
    case True
    then show ?thesis using assms(2) Some by (auto simp: enqueueOrResetJob_def ensure_eq_Inr)
  next
    case False
    have q1: "q1 = put_jobs (update_where (\<lambda>j. jq_id j = ne_id i \<and> jq_tenant j = ne_tenant i) (reset_job i) (qu_jobs q)) q"
      using assms(2) Some False by (auto simp: enqueueOrResetJob_def ensure_eq_Inr)
    have "x = j" if "x \<in> set (qu_jobs q)" "jq_id x = ne_id i" for x
      using distinct_key_eq[OF assms(1) that(1), of j] findJob_SomeD[OF Some] that(2) by simp
    then have "table_step jq_id job_move fresh_job (qu_jobs q)
        (update_where (\<lambda>j. jq_id j = ne_id i \<and> jq_tenant j = ne_tenant i) (reset_job i) (qu_jobs q))"
      using False by (intro table_step_update job_move.reset) auto
    then show ?thesis by (simp add: q1)
  qed
qed

lemma expired_running: "lease_expired now j \<Longrightarrow> jq_status j = ''running''"
  by (simp add: lease_expired_def)

lemma settle_where_step:
  assumes "distinct (map rv_id (qu_reservations q))" and "canonical_ms t \<noteq> None" and "settle_where h nt t c P q = Inr (n, q1)"
  shows "qu_jobs q1 = qu_jobs q \<and> moved (reservation_move h nt) (qu_reservations q) (qu_reservations q1)"
  using assms(2,3) unfolding settle_where_eq[OF assms(1)] Let_def
  by (auto intro!: moved_update reservation_move.unknown)

lemma settleExpired_step:
  assumes "distinct (map rv_id (qu_reservations q))" and "settleExpiredWardenModelReservations h nt t tenant q = Inr (n, q1)"
  shows "qu_jobs q1 = qu_jobs q \<and> moved (reservation_move h nt) (qu_reservations q) (qu_reservations q1)"
proof (rule settle_where_step[OF assms(1)])
  show "settle_where h nt t ''warden_model_lease_expired''
      (\<lambda>r. (case tenant of None \<Rightarrow> True | Some x \<Rightarrow> rv_tenant r = x) \<and> reserved_under (\<lambda>e. e \<le> t) q r) q = Inr (n, q1)"
    "canonical_ms t \<noteq> None"
    using assms(2) by (auto simp: settleExpiredWardenModelReservations_def bindR_eq_Inr ensure_eq_Inr)
qed

lemma recover_step:
  assumes "distinct (map rv_id (qu_reservations q))" and "recoverExpiredJobs h nt now tenant q = Inr (n, q1)"
  shows "moved job_move (qu_jobs q) (qu_jobs q1) \<and> moved (reservation_move h nt) (qu_reservations q) (qu_reservations q1)"
proof -
  let ?P = "\<lambda>j. lease_expired now j \<and> in_scope tenant j"
  obtain m q0 where q0: "settleExpiredWardenModelReservations h nt now tenant q = Inr (m, q0)"
    and q1: "q1 = put_jobs (update_where ?P (recover_job q0 now) (qu_jobs q0)) q0"
    using assms(2) by (auto simp: recoverExpiredJobs_def bindR_eq_Inr Let_def)
  have "moved job_move (qu_jobs q0) (update_where ?P (recover_job q0 now) (qu_jobs q0))"
    by (rule moved_update) (auto intro!: job_move.recovered dest: expired_running)
  then show ?thesis using settleExpired_step[OF assms(1) q0] by (simp add: q1)
qed

lemma claim_order_set [simp]: "set (claim_order js) = set js"
  by (simp add: claim_order_def)

lemma claimable_job: "claimable i q j \<Longrightarrow> jq_status j = ''pending'' \<and> jq_cancelledAt j = None"
  by (simp add: claimable_def)

lemma claim_order_hd: "claim_order (filter P js) = j # rest \<Longrightarrow> j \<in> set js \<and> P j"
  using claim_order_set[of "filter P js"] by auto

lemma lease_next_cases:
  assumes "lease_next i e q q1 = (v, q2)" and "distinct (map jq_id (qu_jobs q1))"
  obtains (idle) "v = None" "q2 = q1" "\<forall>j \<in> set (qu_jobs q1). \<not> claimable i q1 j"
  | (leased) j rest where "claim_order (filter (claimable i q1) (qu_jobs q1)) = j # rest" "j \<in> set (qu_jobs q1)" "claimable i q1 j"
      "v = Some (lease_job (cl_worker i) (cl_now i) e j)"
      "q2 = put_jobs (update_where (\<lambda>x. x = j) (lease_job (cl_worker i) (cl_now i) e) (qu_jobs q1)) q1"
proof (cases "claim_order (filter (claimable i q1) (qu_jobs q1))")
  case Nil
  then have "filter (claimable i q1) (qu_jobs q1) = []" using claim_order_set[of "filter (claimable i q1) (qu_jobs q1)"] by simp
  then show ?thesis using assms(1) Nil by (intro idle) (auto simp: lease_next_def filter_empty_conv)
next
  case (Cons j rest)
  let ?f = "lease_job (cl_worker i) (cl_now i) e"
  let ?P = "\<lambda>x. jq_id x = jq_id j \<and> jq_status x = ''pending''"
  have j: "j \<in> set (qu_jobs q1)" "claimable i q1 j" using claim_order_hd[OF Cons] by simp_all
  have same: "x = j" if "x \<in> set (qu_jobs q1)" "jq_id x = jq_id j" for x using distinct_key_eq[OF assms(2) that(1) j(1) that(2)] .
  then have P: "?P x \<longleftrightarrow> x = j" if "x \<in> set (qu_jobs q1)" for x using that claimable_job[OF j(2)] by auto
  have one: "changes ?P (qu_jobs q1) = 1" by (rule changes_one[OF _ j(1)]) (use assms(2) P in \<open>auto simp: distinct_map\<close>)
  have up: "update_where ?P ?f (qu_jobs q1) = update_where (\<lambda>x. x = j) ?f (qu_jobs q1)" by (rule update_where_cong) (simp_all add: P)
  have id: "jq_id (?f x) = jq_id x" for x by (simp add: lease_job_def)
  have "findJob (put_jobs (update_where (\<lambda>x. x = j) ?f (qu_jobs q1)) q1) (jq_id j) = Some (?f j)"
  proof -
    have "map jq_id (update_where (\<lambda>x. x = j) ?f (qu_jobs q1)) = map jq_id (qu_jobs q1)" by (rule map_update_where) (simp add: id)
    then have "distinct (map jq_id (update_where (\<lambda>x. x = j) ?f (qu_jobs q1)))" using assms(2) by simp
    moreover have "?f j \<in> set (update_where (\<lambda>x. x = j) ?f (qu_jobs q1))" using j(1) by (force simp: update_where_def)
    ultimately show ?thesis unfolding findJob_def put_simps by (rule find_key) (simp_all add: id)
  qed
  then show ?thesis using assms(1) Cons j one up by (intro leased[of j rest]) (auto simp: lease_next_def update_job_def)
qed

lemma claimD:
  assumes "claimNextJob h nt i q = Inr (v, q2)"
  obtains e n q1 where "date_plus h (cl_now i) (max 1000 (or_default 60000 (cl_leaseMs i))) = Inr e"
    "recoverExpiredJobs h nt (cl_now i) (cl_tenant i) q = Inr (n, q1)" "lease_next i e q q1 = (v, q2)"
  using assms by (auto simp: claimNextJob_def bindR_eq_Inr)

lemma moved_distinct: "moved job_move js js' \<Longrightarrow> distinct (map jq_id js') = distinct (map jq_id js)"
  using moved_kept[of job_move js js' jq_id] job_move_id by simp

lemma claim_step:
  assumes "distinct (map jq_id (qu_jobs q))" and "distinct (map rv_id (qu_reservations q))" and "claimNextJob h nt i q = Inr (v, q2)"
  shows "job_step q q2 \<and> moved (reservation_move h nt) (qu_reservations q) (qu_reservations q2)"
proof -
  obtain e n q1 where q1: "recoverExpiredJobs h nt (cl_now i) (cl_tenant i) q = Inr (n, q1)" and cl: "lease_next i e q q1 = (v, q2)"
    using claimD[OF assms(3)] by metis
  note rec = recover_step[OF assms(2) q1]
  have "distinct (map jq_id (qu_jobs q1))" using moved_distinct[OF rec[THEN conjunct1]] assms(1) by simp
  from cl this show ?thesis
  proof (cases rule: lease_next_cases)
    case idle
    then show ?thesis using rec by (simp add: table_step_moved)
  next
    case (leased j rest)
    have "moved job_move (qu_jobs q1) (qu_jobs q2)"
      using claimable_job[OF leased(3)] by (auto simp: leased(5) intro!: moved_update job_move.claimed)
    then have "moved job_move (qu_jobs q) (qu_jobs q2)" using rec moved_trans by blast
    then show ?thesis using rec leased(5) by (simp add: table_step_moved)
  qed
qed

lemma reserve_cases:
  assumes "reserveWardenModelCall h nt i q = Inr (r, q1)"
  obtains (replay) "q1 = q" "r \<in> set (qu_reservations q)" "rv_status r = RActive"
      "rv_reservationDigest r = reservationFingerprint h nt (new_reservation i)"
  | (added) "valid_input i" "r = (new_reservation i)\<lparr>rv_reservationDigest := reservationFingerprint h nt (new_reservation i)\<rparr>"
      "q1 = put_reservations (qu_reservations q @ [r]) q" "rv_id r \<notin> rv_id ` set (qu_reservations q)"
      "committed q (rv_tenant r) (rv_job r) + rv_maxCost r \<le> rv_jobBudget r + budget_slack"
proof (cases "getRow q (wi_tenant i) (wi_id i)")
  case None
  show ?thesis
    using assms None
    by (intro added) (auto simp: reserveWardenModelCall_def valid_reservation_eq_Inr ensure_eq_Inr Let_def new_reservation_def
        exists_row_def list_ex_iff not_less)
next
  case (Some p)
  show ?thesis
    using assms Some getRow_SomeD[OF Some]
    by (intro replay) (auto simp: reserveWardenModelCall_def valid_reservation_eq_Inr ensure_eq_Inr Let_def new_reservation_def)
qed

lemma reserve_step:
  "reserveWardenModelCall h nt i q = Inr (r, q1) \<Longrightarrow> qu_jobs q1 = qu_jobs q \<and> reservation_step h nt q q1"
  by (erule reserve_cases) (auto simp: fresh_reservation_def intro!: table_step_append)

lemma settle_cases:
  assumes "settleWardenModelCall h nt i q = Inr (v, q1)" and "distinct (map rv_id (qu_reservations q))"
  obtains (replay) r where "q1 = q" "v = Some r" "getRow q (ws_tenant i) (ws_reservation i) = Some r" "rv_status r \<noteq> RActive"
      "same_settlement h nt r i"
  | (written) r where "getRow q (ws_tenant i) (ws_reservation i) = Some r" "rv_status r = RActive" "rv_job r = ws_job i"
      "model_lease q (ws_tenant i) (ws_job i) (rv_worker r) (rv_generation r) (ws_observedAt i)" "rv_worker r = ws_worker i"
      "rv_generation r = num_int (ws_generation i)" "v = getRow q1 (ws_tenant i) (ws_reservation i)"
      "canonical_ms (ws_observedAt i) \<noteq> None"
      "q1 = put_reservations (update_where (\<lambda>x. x = r)
        (write_settlement (materializeSettlement r i) (storedSettlementFingerprint h nt (materializeSettlement r i))) (qu_reservations q)) q"
proof -
  obtain r where r: "getRow q (ws_tenant i) (ws_reservation i) = Some r"
    using assms(1) by (cases "getRow q (ws_tenant i) (ws_reservation i)") (auto simp: settleWardenModelCall_def)
  show ?thesis
  proof (cases "rv_status r = RActive")
    case False
    then show ?thesis using assms(1) r by (intro replay[of r]) (auto simp: settleWardenModelCall_def ensure_eq_Inr)
  next
    case True
    note row = getRow_SomeD[OF r]
    note eq = settle_row_eq[OF assms(2) row[THEN conjunct1] True]
    show ?thesis
      using assms(1) r True row eq
      by (intro written[of r]) (auto simp: settleWardenModelCall_def ensure_eq_Inr bindR_eq_Inr Let_def)
  qed
qed

lemma settle_step:
  assumes "settleWardenModelCall h nt i q = Inr (v, q1)" and "distinct (map rv_id (qu_reservations q))"
  shows "qu_jobs q1 = qu_jobs q \<and> moved (reservation_move h nt) (qu_reservations q) (qu_reservations q1)"
  using assms by (rule settle_cases) (auto intro!: moved_update reservation_move.settled)

lemma settleFence_step:
  assumes "distinct (map rv_id (qu_reservations q))" and "settleActiveWardenModelReservationsForFence h nt jid w g t code q = Inr (n, q1)"
  shows "qu_jobs q1 = qu_jobs q \<and> moved (reservation_move h nt) (qu_reservations q) (qu_reservations q1)"
proof (rule settle_where_step[OF assms(1)])
  show "settle_where h nt t code
      (\<lambda>r. rv_job r = jid \<and> rv_worker r = w \<and> rv_generation r = num_int g \<and> reserved_under (\<lambda>e. t < e) q r) q = Inr (n, q1)"
    "canonical_ms t \<noteq> None"
    using assms(2) by (auto simp: settleActiveWardenModelReservationsForFence_def)
qed

section \<open>The two tables\<close>

definition tables_keyed :: "queue \<Rightarrow> bool" where
  "tables_keyed q \<longleftrightarrow> distinct (map jq_id (qu_jobs q)) \<and> distinct (map rv_id (qu_reservations q))"

definition step_all :: "host \<Rightarrow> number_text \<Rightarrow> queue \<Rightarrow> queue \<Rightarrow> bool" where
  "step_all h nt q q' \<longleftrightarrow> job_step q q' \<and> reservation_step h nt q q'"

lemma step_all_refl [simp]: "step_all h nt q q"
  by (simp add: step_all_def)

lemma update_job_step:
  "(\<And>j. j \<in> set (qu_jobs q) \<Longrightarrow> P j \<Longrightarrow> job_move j (f j)) \<Longrightarrow> step_all h nt q (put_jobs (update_where P f (qu_jobs q)) q)"
  by (simp add: step_all_def table_step_update)

lemma update_jobD: "update_job P f q = (v, q1) \<Longrightarrow> q1 = put_jobs (update_where P f (qu_jobs q)) q \<and> v = (changes P (qu_jobs q) = 1)"
  by (auto simp: update_job_def)

lemma update_job_stepD:
  assumes "update_job P f q = (v, q1)" and "\<And>j. j \<in> set (qu_jobs q) \<Longrightarrow> P j \<Longrightarrow> job_move j (f j)"
  shows "step_all h nt q q1"
  using update_job_step[OF assms(2)] update_jobD[OF assms(1)] by simp

lemma failJobD:
  assumes "failJob h jid e t opts q = Inr (v, q1)"
  obtains (missing) "findJob q jid = None" "q1 = q" "\<not> fr_applied v"
  | (found) j available where "findJob q jid = Some j" "retry_wanted opts j \<longleftrightarrow> available \<noteq> None"
      "update_job (fail_fence jid t opts) (fail_job (retry_wanted opts j) e (normalizeJobErrorCode (fo_errorCode opts)) available t) q =
        (fr_applied v, q1)"
proof (cases "findJob q jid")
  case None
  then show ?thesis using assms by (intro missing) (auto simp: failJob_def ensure_eq_Inr)
next
  case (Some j)
  obtain available where av: "retry_at h t opts j = Inr available" and up: "fail_update jid e t opts j available q = (v, q1)"
    using assms unfolding failJob_def Some ensure_eq_Inr option.case bindR_eq_Inr by auto
  show ?thesis
  proof (rule found[OF Some])
    show "retry_wanted opts j \<longleftrightarrow> available \<noteq> None" using av by (auto simp: retry_at_def bindR_eq_Inr split: if_splits)
    show "update_job (fail_fence jid t opts) (fail_job (retry_wanted opts j) e (normalizeJobErrorCode (fo_errorCode opts)) available t) q =
        (fr_applied v, q1)"
      using up by (auto simp: fail_update_def Let_def split: prod.splits)
  qed
qed

lemma fail_step:
  assumes "failJob h jid e t opts q = Inr (v, q1)"
  shows "step_all h nt q q1"
  using assms
proof (cases rule: failJobD)
  case (found j available)
  show ?thesis
  proof (rule update_job_stepD[OF found(3)])
    fix x assume "fail_fence jid t opts x"
    then have "jq_status x = ''running''" by (simp add: fail_fence_def)
    then show "job_move x (fail_job (retry_wanted opts j) e (normalizeJobErrorCode (fo_errorCode opts)) available t x)"
      using found(2) by (rule job_move.failed)
  qed
qed simp

lemma renew_step: "renewJobLease h jid f now ms q = Inr (v, q1) \<Longrightarrow> step_all h nt q q1"
  by (auto simp: renewJobLease_def bindR_eq_Inr elim!: update_job_stepD intro: job_move.renewed)

lemma retry_step: "retryJob jid tenant now z d q = Inr (v, q1) \<Longrightarrow> step_all h nt q q1"
  by (auto simp: retryJob_def bindR_eq_Inr elim!: update_job_stepD intro: job_move.retried)

lemma cancel_step: "cancelJob jid t tenant reason q = Inr (v, q1) \<Longrightarrow> step_all h nt q q1"
  by (auto simp: cancelJob_def bindR_eq_Inr elim!: update_job_stepD intro: job_move.cancelled)

lemma exec_step_all:
  assumes "tables_keyed q"
  shows "step_all h nt q (exec_queue h nt c q)"
proof -
  have keyed: "distinct (map jq_id (qu_jobs q))" "distinct (map rv_id (qu_reservations q))" using assms by (simp_all add: tables_keyed_def)
  show ?thesis
  proof (cases c)
    case (QEnqueue i)
    then show ?thesis by (cases "enqueueJob i q") (auto simp: step_all_def dest: enqueue_step)
  next
    case (QReset i)
    show ?thesis unfolding QReset exec_queue.simps
      by (rule queue_after_cases) (auto simp: step_all_def dest: reset_step[OF keyed(1)])
  next
    case (QRecover now tenant)
    show ?thesis unfolding QRecover exec_queue.simps
      by (rule queue_after_cases) (auto simp: step_all_def dest: recover_step[OF keyed(2)] intro: table_step_moved)
  next
    case (QClaim i)
    show ?thesis unfolding QClaim exec_queue.simps
      by (rule queue_after_cases) (auto simp: step_all_def dest: claim_step[OF keyed] intro: table_step_moved)
  next
    case (QComplete jid v t f)
    show ?thesis unfolding QComplete exec_queue.simps completeJob_def update_job_snd
      by (rule update_job_step) (auto intro: job_move.completed)
  next
    case (QRenew jid f now ms)
    show ?thesis unfolding QRenew exec_queue.simps by (rule queue_after_cases) (auto dest: renew_step)
  next
    case (QFail jid e t opts)
    show ?thesis unfolding QFail exec_queue.simps by (rule queue_after_cases) (auto dest: fail_step)
  next
    case (QReschedule jid runAt owner)
    show ?thesis unfolding QReschedule exec_queue.simps rescheduleJob_def update_job_snd
      by (rule update_job_step) (auto intro: job_move.rescheduled)
  next
    case (QRetry jid tenant now z d)
    show ?thesis unfolding QRetry exec_queue.simps by (rule queue_after_cases) (auto dest: retry_step)
  next
    case (QCancel jid t tenant reason)
    show ?thesis unfolding QCancel exec_queue.simps by (rule queue_after_cases) (auto dest: cancel_step)
  next
    case (QReserve i)
    show ?thesis unfolding QReserve exec_queue.simps by (rule queue_after_cases) (auto simp: step_all_def dest: reserve_step)
  next
    case (QSettle i)
    show ?thesis unfolding QSettle exec_queue.simps
      by (rule queue_after_cases) (auto simp: step_all_def dest: settle_step[OF _ keyed(2)] intro: table_step_moved)
  next
    case (QSettleFence jid w g t code)
    show ?thesis unfolding QSettleFence exec_queue.simps
      by (rule queue_after_cases) (auto simp: step_all_def dest: settleFence_step[OF keyed(2)] intro: table_step_moved)
  next
    case (QDeliveries a d)
    show ?thesis unfolding QDeliveries by (simp add: step_all_def)
  qed
qed


lemma exec_keyed: "tables_keyed q \<Longrightarrow> tables_keyed (exec_queue h nt c q)"
  using exec_step_all[of q h nt c] table_step_distinct[of jq_id job_move fresh_job "qu_jobs q" "qu_jobs (exec_queue h nt c q)"]
    table_step_distinct[of rv_id "reservation_move h nt" "fresh_reservation h nt" "qu_reservations q" "qu_reservations (exec_queue h nt c q)"]
    job_move_id reservation_move_id[of h nt]
  by (simp add: step_all_def tables_keyed_def)

interpretation jobs: row_table qu_jobs jq_id job_move fresh_job "exec_queue h nt" tables_keyed for h nt
  using exec_step_all job_move_id exec_keyed by unfold_locales (auto simp: step_all_def)

interpretation reservations: row_table qu_reservations rv_id "reservation_move h nt" "fresh_reservation h nt" "exec_queue h nt" tables_keyed
  for h nt
  using exec_step_all reservation_move_id exec_keyed by unfold_locales (auto simp: step_all_def)

lemma empty_keyed: "tables_keyed empty_queue"
  by (simp add: tables_keyed_def empty_queue_def)

lemma run_keyed: "tables_keyed q \<Longrightarrow> tables_keyed (run_queue h nt cs q)"
  unfolding run_queue_def by (rule jobs.ok_run)

end
