(* ===== verification/JobProperties.thy ===== *)
theory JobProperties
  imports QueueSteps
begin

text \<open>
  What the job queue promises: rows that fit their status, leases whose loss is final, claims that take the first
  claimable job, and a recovery that leaves no expired lease behind.
\<close>

section \<open>Rows fit their status\<close>

definition job_sound :: "job \<Rightarrow> bool" where
  "job_sound j \<longleftrightarrow> trim (jq_tenant j) \<noteq> [] \<and> 0 \<le> jq_attempts j \<and> jq_attempts j \<le> jq_generation j \<and>
     (jq_status j = ''running'' \<longleftrightarrow> jq_leaseOwner j \<noteq> None) \<and> (jq_leaseOwner j = None \<longleftrightarrow> jq_leaseExpiresAt j = None) \<and>
     (if jq_status j = ''pending'' then jq_availableAt j \<noteq> None \<and> jq_finishedAt j = None \<and> jq_deadAt j = None \<and> jq_cancelledAt j = None
      else if jq_status j = ''running'' then 1 \<le> jq_attempts j \<and> jq_startedAt j \<noteq> None \<and> jq_finishedAt j = None \<and> jq_deadAt j = None \<and>
        jq_cancelledAt j = None
      else if jq_status j = ''done'' then jq_result j \<noteq> None \<and> jq_finishedAt j \<noteq> None \<and> jq_availableAt j = None \<and> jq_deadAt j = None \<and>
        jq_cancelledAt j = None \<and> jq_error j = None
      else if jq_status j = ''dead_letter'' then jq_error j \<noteq> None \<and> jq_finishedAt j \<noteq> None \<and> jq_deadAt j = jq_finishedAt j \<and>
        jq_availableAt j = None \<and> jq_cancelledAt j = None
      else jq_status j = ''cancelled'' \<and> jq_cancelledAt j \<noteq> None \<and> jq_finishedAt j \<noteq> None \<and> jq_availableAt j = None)"

lemma fresh_job_sound: "fresh_job j \<Longrightarrow> job_sound j"
  by (auto simp: fresh_job_def job_sound_def new_job_def)

lemma job_move_sound: "job_move j j' \<Longrightarrow> job_sound j \<Longrightarrow> job_sound j'"
proof (erule job_moveE, goal_cases)
  case (1 w now e)
  then show ?case by (auto simp: job_sound_def lease_job_def)
next
  case (2 v t)
  then show ?case by (auto simp: job_sound_def complete_job_def)
next
  case (3 e)
  then show ?case by (auto simp: job_sound_def)
next
  case (4 available err code t)
  then show ?case by (cases available) (auto simp: job_sound_def fail_job_def)
next
  case (5 runAt)
  then show ?case by (auto simp: job_sound_def)
next
  case (6 q now)
  then show ?case by (cases "shouldRetry q j") (auto simp: job_sound_def recover_job_def)
next
  case (7 i)
  then show ?case by (auto simp: job_sound_def reset_job_def)
next
  case (8 now z d)
  then show ?case by (auto simp: job_sound_def retry_job_def)
next
  case (9 reason t)
  then show ?case by (auto simp: job_sound_def cancel_job_def Let_def)
qed

lemma rows_sound: "tables_keyed q \<Longrightarrow> \<forall>j \<in> set (qu_jobs q). job_sound j \<Longrightarrow> \<forall>j \<in> set (qu_jobs (run_queue h nt cs q)). job_sound j"
  unfolding run_queue_def by (rule jobs.rows_satisfy[OF fresh_job_sound job_move_sound])

section \<open>Leases\<close>

definition holds :: "lease_fence \<Rightarrow> job \<Rightarrow> bool" where
  "holds f j \<longleftrightarrow> jq_status j = ''running'' \<and> jq_leaseOwner j = Some (lf_worker f) \<and> jq_generation j = lf_generation f"

text \<open>A lease that was given out, as the generation of the row shows, and is not held any more.\<close>

definition lease_over :: "string \<Rightarrow> lease_fence \<Rightarrow> queue \<Rightarrow> bool" where
  "lease_over jid f q \<longleftrightarrow> jid \<in> jq_id ` set (qu_jobs q) \<and>
     (\<forall>j \<in> set (qu_jobs q). jq_id j = jid \<longrightarrow> lf_generation f \<le> jq_generation j \<and> \<not> holds f j)"

lemma job_move_over: "job_move j j' \<Longrightarrow> lf_generation f \<le> jq_generation j \<and> \<not> holds f j \<Longrightarrow> lf_generation f \<le> jq_generation j' \<and> \<not> holds f j'"
  by (erule job_moveE) (auto simp: holds_def job_write_defs)

lemma lease_over_run: "tables_keyed q \<Longrightarrow> lease_over jid f q \<Longrightarrow> lease_over jid f (run_queue h nt cs q)"
  unfolding run_queue_def lease_over_def by (rule jobs.key_kept[OF job_move_over]) auto

lemma lease_overD: "lease_over jid f q \<Longrightarrow> j \<in> set (qu_jobs q) \<Longrightarrow> jq_id j = jid \<Longrightarrow> jq_status j = ''running'' \<Longrightarrow>
    jq_leaseOwner j = Some (lf_worker f) \<Longrightarrow> jq_generation j \<noteq> lf_generation f"
  by (auto simp: lease_over_def holds_def)

lemma over_complete: "lease_over jid f q \<Longrightarrow> completeJob jid v t (Some f) q = (False, q)"
  unfolding completeJob_def by (rule update_job_none) (auto simp: passes_fence_def holds_lease_def dest: lease_overD)

lemma over_renew:
  assumes "lease_over jid f q" and "renewJobLease h jid f now ms q = Inr (b, q')"
  shows "\<not> b \<and> q' = q"
proof -
  have "update_job (\<lambda>j. jq_id j = jid \<and> jq_status j = ''running'' \<and> holds_lease f now j) g q = (False, q)" for g
    by (rule update_job_none) (use lease_overD[OF assms(1)] in \<open>auto simp: holds_lease_def\<close>)
  then show ?thesis using assms(2) by (auto simp: renewJobLease_def bindR_eq_Inr)
qed

lemma over_fail:
  assumes "lease_over jid f q" and "fo_worker opts = Some (lf_worker f)" and "fo_generation opts = Some (lf_generation f)"
    and "failJob h jid e t opts q = Inr (v, q')"
  shows "\<not> fr_applied v \<and> q' = q"
  using assms(4)
proof (cases rule: failJobD)
  case (found j available)
  have "\<not> fail_fence jid t opts x" if "x \<in> set (qu_jobs q)" for x
    using lease_overD[OF assms(1) that] assms(2,3) by (auto simp: fail_fence_def fence_of_def passes_fence_def holds_lease_def)
  then show ?thesis using found(3) update_job_none[of q "fail_fence jid t opts"] by auto
qed simp

lemma over_model_lease:
  assumes "lease_over jid f q"
  shows "\<not> model_lease q tenant jid (lf_worker f) (lf_generation f) t"
proof -
  have "\<not> (jq_status j = ''running'' \<and> jq_leaseOwner j = Some (lf_worker f) \<and> jq_generation j = lf_generation f)"
    if "List.find (\<lambda>j. jq_id j = jid \<and> jq_tenant j = tenant) (qu_jobs q) = Some j" for j
    using find_SomeD[OF that] lease_overD[OF assms, of j] by auto
  then show ?thesis by (auto simp: model_lease_def split: option.splits)
qed

lemma over_reserve:
  assumes "lease_over jid f q" and "wi_job i = jid" and "wi_worker i = lf_worker f" and "num_int (wi_generation i) = lf_generation f"
  shows "reserveWardenModelCall h nt i q \<noteq> Inr (r, q')"
  using over_model_lease[OF assms(1)] assms(2-4)
  by (auto simp: reserveWardenModelCall_def valid_reservation_eq_Inr Let_def new_reservation_def)

lemma over_settle:
  assumes "lease_over jid f q" and "tables_keyed q" and "ws_job i = jid" and "ws_worker i = lf_worker f"
    and "num_int (ws_generation i) = lf_generation f" and "settleWardenModelCall h nt i q = Inr (v, q')"
  shows "q' = q"
  using assms(6) assms(2)[unfolded tables_keyed_def, THEN conjunct2]
proof (cases rule: settle_cases)
  case (written r)
  then show ?thesis using over_model_lease[OF assms(1)] assms(3-5) by auto
qed simp

lemma over_settleFence:
  assumes "lease_over jid f q" and "tables_keyed q" and "num_int g = lf_generation f"
    and "settleActiveWardenModelReservationsForFence h nt jid (lf_worker f) g t code q = Inr (n, q')"
  shows "n = 0 \<and> q' = q"
proof -
  have keyed: "distinct (map rv_id (qu_reservations q))" using assms(2) by (simp add: tables_keyed_def)
  let ?P = "\<lambda>r. rv_status r = RActive \<and> rv_job r = jid \<and> rv_worker r = lf_worker f \<and> rv_generation r = num_int g \<and>
      reserved_under (\<lambda>e. t < e) q r"
  have none: "\<not> ?P r" for r using lease_overD[OF assms(1)] assms(3) by (auto simp: reserved_under_def exists_row_def list_ex_iff)
  have "update_where ?P f rows = rows" "changes ?P rows = 0" for f rows
    using none by (simp_all add: update_where_none changes_def)
  then show ?thesis
    using assms(4) by (simp add: settleActiveWardenModelReservationsForFence_def settle_where_eq[OF keyed] Let_def)
qed


section \<open>The order of claims\<close>

definition claim_before :: "job \<Rightarrow> job \<Rightarrow> bool" where
  "claim_before j k \<longleftrightarrow> null_first (jq_availableAt j) < null_first (jq_availableAt k) \<or>
     null_first (jq_availableAt j) = null_first (jq_availableAt k) \<and>
       (jq_createdAt j < jq_createdAt k \<or> jq_createdAt j = jq_createdAt k \<and> jq_id j \<le> jq_id k)"

lemma sorted_filter_hd:
  assumes "sorted (map f xs)" and "filter P xs = x # rest" and "y \<in> set xs" and "P y"
  shows "f x \<le> f y"
proof -
  have "sorted (map f (filter P xs))" using assms(1) by (rule sorted_filter)
  moreover have "y \<in> set (x # rest)" using assms(3,4) by (simp flip: assms(2))
  ultimately show ?thesis using assms(2) by auto
qed

lemma claim_order_least:
  assumes "claim_order js = j # rest" and "k \<in> set js"
  shows "claim_before j k"
proof -
  let ?a = "\<lambda>j. null_first (jq_availableAt j)"
  define zs where "zs = sort_key jq_id js"
  define ys where "ys = sort_key jq_createdAt zs"
  have hd: "sort_key ?a ys = j # rest" using assms(1) by (simp add: claim_order_def ys_def zs_def)
  have sets: "set ys = set js" "set zs = set js" by (simp_all add: ys_def zs_def)
  have le: "?a j \<le> ?a k" using sorted_sort_key[of ?a ys] hd assms(2) sets(1) set_sort[of ?a ys] by auto
  have y: "filter (\<lambda>x. ?a x = ?a j) ys = j # filter (\<lambda>x. ?a x = ?a j) rest"
    using sort_key_stable[of ?a "?a j" ys] by (simp add: hd)
  have created: "jq_createdAt j \<le> jq_createdAt k" if "?a k = ?a j"
    by (rule sorted_filter_hd[OF _ y]) (use that assms(2) sets in \<open>simp_all add: ys_def\<close>)
  let ?both = "\<lambda>x. ?a x = ?a j \<and> jq_createdAt x = jq_createdAt j"
  have "filter ?both ys = filter ?both zs"
    using arg_cong[OF sort_key_stable[of jq_createdAt "jq_createdAt j" zs], of "filter (\<lambda>x. ?a x = ?a j)"]
    by (simp add: ys_def conj_commute)
  moreover have "\<exists>us. filter ?both ys = j # us"
    using arg_cong[OF y, of "filter (\<lambda>x. jq_createdAt x = jq_createdAt j)"] by (auto simp: conj_commute)
  ultimately obtain us where z: "filter ?both zs = j # us" by auto
  have "jq_id j \<le> jq_id k" if "?both k"
    by (rule sorted_filter_hd[OF _ z]) (use that assms(2) sets in \<open>simp_all add: zs_def\<close>)
  with le created show ?thesis by (auto simp: claim_before_def order_less_le)
qed

section \<open>Recovery\<close>

definition recoverable :: "string \<Rightarrow> string option \<Rightarrow> job \<Rightarrow> bool" where
  "recoverable now tenant j \<longleftrightarrow> lease_expired now j \<and> in_scope tenant j"

text \<open>The reservations that recovery settles: active, in scope, of a job whose lease has expired under them.\<close>

definition abandoned :: "string \<Rightarrow> string option \<Rightarrow> queue \<Rightarrow> reservation \<Rightarrow> bool" where
  "abandoned now tenant q r \<longleftrightarrow> rv_status r = RActive \<and> (case tenant of None \<Rightarrow> True | Some t \<Rightarrow> rv_tenant r = t) \<and>
     reserved_under (\<lambda>e. e \<le> now) q r"

definition recovered_queue :: "host \<Rightarrow> number_text \<Rightarrow> string \<Rightarrow> string option \<Rightarrow> queue \<Rightarrow> queue" where
  "recovered_queue h nt now tenant q = q\<lparr>
     qu_jobs := update_where (recoverable now tenant) (recover_job q now) (qu_jobs q),
     qu_reservations := update_where (abandoned now tenant q) (settled_unknown h nt now ''warden_model_lease_expired'') (qu_reservations q)\<rparr>"

definition recovery_input :: "string \<Rightarrow> string option \<Rightarrow> bool" where
  "recovery_input now tenant \<longleftrightarrow> canonical_ms now \<noteq> None \<and> (case tenant of None \<Rightarrow> True | Some t \<Rightarrow> account_id t)"

lemma recover_job_cong: "qu_adaptive q = qu_adaptive q' \<Longrightarrow> qu_candidate q = qu_candidate q' \<Longrightarrow> recover_job q now j = recover_job q' now j"
  by (simp add: recover_job_def shouldRetry_def expiry_code_def externalSideEffectMayExist_def)

lemma account_id_blank: "account_id t \<Longrightarrow> trim t \<noteq> []"
proof -
  assume "account_id t"
  then obtain c cs where t: "t = c # cs" "id_head c" "list_all id_tail cs" by (cases t) (auto simp: account_id_def)
  have head: "\<not> is_space x" if "id_head x" for x using that by (auto simp: id_head_def is_space_code Let_def)
  have "dropWhile is_space t = t" using t head by simp
  moreover have "\<not> (\<forall>x \<in> set t. is_space x)" using t head by auto
  ultimately show ?thesis by (auto simp: trim_def dropWhile_eq_Nil_conv)
qed

lemma recover_eq:
  assumes "tables_keyed q"
  shows "recoverExpiredJobs h nt now tenant q = Inr (n, q') \<longleftrightarrow>
    recovery_input now tenant \<and> n = changes (recoverable now tenant) (qu_jobs q) \<and> q' = recovered_queue h nt now tenant q"
proof -
  have keyed: "distinct (map rv_id (qu_reservations q))" using assms by (simp add: tables_keyed_def)
  have scope: "assertTenantScope tenant = Inr ()" if "recovery_input now tenant"
    using that account_id_blank by (auto simp: assertTenantScope_def recovery_input_def ensure_def split: option.splits)
  let ?q = "put_reservations (update_where (abandoned now tenant q) (settled_unknown h nt now ''warden_model_lease_expired'') (qu_reservations q)) q"
  have ab: "(\<lambda>r. rv_status r = RActive \<and> (case tenant of None \<Rightarrow> True | Some t \<Rightarrow> rv_tenant r = t) \<and> reserved_under (\<lambda>e. e \<le> now) q r) =
      abandoned now tenant q" by (simp add: abandoned_def fun_eq_iff)
  have st: "settleExpiredWardenModelReservations h nt now tenant q = Inr (m, q1) \<longleftrightarrow>
      recovery_input now tenant \<and> m = changes (abandoned now tenant q) (qu_reservations q) \<and> q1 = ?q" for m q1
    using scope unfolding settleExpiredWardenModelReservations_def settle_where_eq[OF keyed] Let_def ab
    by (auto simp: bindR_eq_Inr ensure_eq_Inr recovery_input_def)
  have rc: "(\<lambda>j. lease_expired now j \<and> in_scope tenant j) = recoverable now tenant" by (simp add: recoverable_def fun_eq_iff)
  have "recover_job ?q now = recover_job q now" by (rule ext, rule recover_job_cong) simp_all
  then have "put_jobs (update_where (recoverable now tenant) (recover_job ?q now) (qu_jobs q)) ?q = recovered_queue h nt now tenant q"
    by (simp add: recovered_queue_def put_jobs_def put_reservations_def)
  then show ?thesis using scope by (auto simp: recoverExpiredJobs_def bindR_eq_Inr st Let_def rc)
qed

lemma recovered_not_expired: "\<not> recoverable now tenant (recover_job q now j)"
  by (simp add: recoverable_def lease_expired_def recover_job_def)

text \<open>A recovered job is due at once, or is dead because its attempts are used up and no delivery is pending.\<close>

definition recovered_well :: "queue \<Rightarrow> string \<Rightarrow> job \<Rightarrow> job \<Rightarrow> bool" where
  "recovered_well q now j j' \<longleftrightarrow> jq_id j' = jq_id j \<and> jq_leaseOwner j' = None \<and> jq_lastErrorAt j' = Some now \<and>
     (if jq_attempts j < jq_maxAttempts j \<or> externalSideEffectMayExist q j
      then jq_status j' = ''pending'' \<and> jq_availableAt j' = Some now \<and> due now j'
      else jq_status j' = ''dead_letter'' \<and> jq_deadAt j' = Some now \<and> jq_errorCode j' = Some ''lease_expired_max_attempts'')"

lemma recover_job_well: "recovered_well q now j (recover_job q now j)"
  by (simp add: recovered_well_def recover_job_def shouldRetry_def expiry_code_def due_def)

section \<open>Times\<close>

lemma date_plus_canonical:
  assumes "canonical_ms s = Some m" and "0 \<le> d" and "m + d < last_ms"
  shows "date_plus h s d = Inr (iso_string (m + d)) \<and> canonical_ms (iso_string (m + d)) = Some (m + d)"
proof -
  have "0 \<le> m" using assms(1) by (auto simp: canonical_ms_def split: if_splits)
  moreover from this assms(2,3) have "time_value (m + d)" by (simp add: time_value_def last_ms_def abs_le_iff)
  ultimately show ?thesis using assms iso_round_trip[of "m + d"] by (simp add: date_plus_def parse_date_def ensure_def)
qed


section \<open>Reachable queues\<close>

lemma reach_keyed: "tables_keyed (run_queue h nt cs empty_queue)"
  by (rule run_keyed[OF empty_keyed])

lemma reach_sound: "j \<in> set (qu_jobs (run_queue h nt cs empty_queue)) \<Longrightarrow> job_sound j"
  using rows_sound[OF empty_keyed] by (auto simp: empty_queue_def)

text \<open>A lease that was held is over once the row does not show it any more.\<close>

lemma held_then_over:
  assumes "tables_keyed q0" and "j \<in> set (qu_jobs q0)" and "holds f j" and "q1 = run_queue h nt ds q0"
    and "\<forall>k \<in> set (qu_jobs q1). jq_id k = jq_id j \<longrightarrow> \<not> holds f k"
  shows "lease_over (jq_id j) f q1"
proof -
  have mono: "job_move x y \<Longrightarrow> lf_generation f \<le> jq_generation x \<Longrightarrow> lf_generation f \<le> jq_generation y" for x y
    by (erule job_moveE) (auto simp: job_write_defs)
  have "k = j" if "k \<in> set (qu_jobs q0)" "jq_id k = jq_id j" for k
    using assms(1,2) that by (auto simp: tables_keyed_def intro: distinct_key_eq)
  then have gen: "\<forall>k \<in> set (qu_jobs q0). jq_id k = jq_id j \<longrightarrow> lf_generation f \<le> jq_generation k" using assms(3) by (metis holds_def order_refl)
  have "jq_id j \<in> jq_id ` set (qu_jobs q1) \<and> (\<forall>k \<in> set (qu_jobs q1). jq_id k = jq_id j \<longrightarrow> lf_generation f \<le> jq_generation k)"
    unfolding assms(4) run_queue_def 
    by (rule jobs.key_kept[where P = "\<lambda>k. lf_generation f \<le> jq_generation k", OF mono assms(1)]) (use assms(2) gen in simp_all)
  with assms(5) show ?thesis by (auto simp: lease_over_def)
qed

text \<open>The rows of the jobs table as the dispatch of the mission control plane reads them.\<close>

definition job_view :: "job \<Rightarrow> job_row" where
  "job_view j = \<lparr>jb_id = jq_id j, jb_tenant = jq_tenant j, jb_status = jq_status j, jb_owner = jq_leaseOwner j,
     jb_generation = jq_generation j, jb_expires = jq_leaseExpiresAt j\<rparr>"

lemma over_assertLease:
  assumes "lease_over (din_job i) f q" and "din_worker i = lf_worker f" and "din_generation i = lf_generation f"
    and "db_jobs db = map job_view (qu_jobs q)"
  shows "isl (assertLease i t db)"
proof -
  have "\<not> exists_row (\<lambda>j. jb_id j = din_job i \<and> jb_tenant j = din_tenant i \<and> jb_status j = ''running'' \<and>
         jb_owner j = Some (din_worker i) \<and> jb_generation j = din_generation i \<and>
         (case jb_expires j of None \<Rightarrow> False | Some e \<Rightarrow> t < e)) (db_jobs db)"
    using lease_overD[OF assms(1)] assms(2-4) by (auto simp: exists_row_def list_ex_iff job_view_def)
  then show ?thesis by (simp add: assertLease_def ensure_def throw_def)
qed

lemma isl_bindR: "isl (bindR r f) \<longleftrightarrow> isl r \<or> (\<exists>x. r = Inr x \<and> isl (f x))"
  by (cases r) (simp_all add: bindR_def)

text \<open>A sequence of checks ends in an error when a check it comes to does.\<close>

lemma isl_ensure_last: "isl r \<Longrightarrow> isl (ensure b c r)"
  by (simp add: ensure_def throw_def)

lemma isl_bind_last: "(\<And>x. isl (f x)) \<Longrightarrow> isl (bindR r f)"
  by (cases r) (simp_all add: bindR_def)

lemma isl_bind_first: "isl r \<Longrightarrow> isl (bindR r f)"
  by (simp add: isl_bindR)

text \<open>Rescheduling is fenced by the owner alone: with an old fence that is over, a worker that holds the job again
  still takes it out of its own new lease.\<close>

lemma reschedule_ignores_generation:
  assumes "tables_keyed q" and "j \<in> set (qu_jobs q)" and "jq_status j = ''running''" and "jq_leaseOwner j = Some w"
    and "lease_over (jq_id j) \<lparr>lf_worker = w, lf_generation = g\<rparr> q"
  shows "fst (rescheduleJob (jq_id j) runAt w q)"
proof -
  let ?P = "\<lambda>x. jq_id x = jq_id j \<and> jq_status x = ''running'' \<and> jq_leaseOwner x = Some w"
  have "?P x \<longleftrightarrow> x = j" if "x \<in> set (qu_jobs q)" for x
    using distinct_key_eq[of jq_id "qu_jobs q" x j] assms(1-4) that by (auto simp: tables_keyed_def)
  then have "changes ?P (qu_jobs q) = 1"
    by (rule changes_one[rotated 2]) (use assms(1,2) in \<open>auto simp: tables_keyed_def distinct_map\<close>)
  then show ?thesis by (simp add: rescheduleJob_def update_job_def)
qed

section \<open>Backoff\<close>

text \<open>The delay of a retry is between a second and a day, and does not fall as attempts rise.\<close>

lemma clamped_delay: "1000 \<le> b \<Longrightarrow> b \<le> (d::int) \<Longrightarrow> b \<le> 86400000 \<Longrightarrow>
  1000 \<le> min (max b (min maximum 86400000)) d \<and> min (max b (min maximum 86400000)) d \<le> 86400000"
  by linarith

lemma backoff_bounds: "1000 \<le> boundedDelayMs n base maximum \<and> boundedDelayMs n base maximum \<le> 86400000"
proof -
  define b where "b = max 1000 (min base 86400000)"
  define k where "k = nat (max 0 (min (n - 1) 16))"
  have b: "1000 \<le> b" "b \<le> 86400000" by (auto simp: b_def)
  have "b * 1 \<le> b * 2 ^ k" using b(1) by (intro mult_left_mono) auto
  then have "b \<le> b * 2 ^ k" by simp
  from clamped_delay[OF b(1) this b(2)] show ?thesis
    unfolding boundedDelayMs_def Let_def b_def[symmetric] k_def[symmetric] .
qed

lemma backoff_rises: "m \<le> n \<Longrightarrow> boundedDelayMs m base maximum \<le> boundedDelayMs n base maximum"
proof -
  assume mn: "m \<le> n"
  define b where "b = max 1000 (min base 86400000)"
  have b: "0 \<le> b" by (auto simp: b_def)
  have "nat (max 0 (min (m - 1) 16)) \<le> nat (max 0 (min (n - 1) 16))" using mn by (intro nat_mono) auto
  then have "(2::int) ^ nat (max 0 (min (m - 1) 16)) \<le> 2 ^ nat (max 0 (min (n - 1) 16))" by (rule power_increasing) simp
  then have "b * 2 ^ nat (max 0 (min (m - 1) 16)) \<le> b * 2 ^ nat (max 0 (min (n - 1) 16))" using b by (rule mult_left_mono)
  then show ?thesis by (simp add: boundedDelayMs_def Let_def min.coboundedI2 flip: b_def)
qed

section \<open>Properties\<close>

text \<open>Claim C19: the rows of the queue fit their status in every state that commands reach. Whatever is enqueued,
  claimed, recovered, settled or administered, job ids and reservation ids stay unique; a job runs exactly
  when it has a lease owner and an expiry; a pending job is due at some time and carries no end; a done job has
  a result, a dead-lettered one an error, and each its times; attempts never exceed lease generations; and the
  tenant is never blank.\<close>

theorem queue_rows_sound:
  "tables_keyed (run_queue h nt cs empty_queue) \<and> list_all job_sound (qu_jobs (run_queue h nt cs empty_queue))"
  using reach_keyed reach_sound by (simp add: list_all_iff)

text \<open>Claim C2: the loss of a lease is final. If a worker held the lease of a job and at some later state the row
  does not show that worker with that generation any more - the lease expired and was recovered, or the job was
  settled, claimed again or reset - then after any further commands nothing the old worker does under its
  fence has an effect: completing, renewing and failing the job change nothing, reserving the cost of a model
  call is refused, and settling calls changes nothing.\<close>

theorem lease_loss_final:
  assumes "q0 = run_queue h nt cs empty_queue" and "j \<in> set (qu_jobs q0)" and "holds f j" and "q1 = run_queue h nt ds q0"
    and "\<forall>k \<in> set (qu_jobs q1). jq_id k = jq_id j \<longrightarrow> \<not> holds f k" and "q = run_queue h nt es q1"
  shows "completeJob (jq_id j) v t (Some f) q = (False, q) \<and>
    (\<forall>b q'. renewJobLease h (jq_id j) f t ms q = Inr (b, q') \<longrightarrow> \<not> b \<and> q' = q) \<and>
    (\<forall>opts r q'. fo_worker opts = Some (lf_worker f) \<and> fo_generation opts = Some (lf_generation f) \<and>
       failJob h (jq_id j) err t opts q = Inr (r, q') \<longrightarrow> \<not> fr_applied r \<and> q' = q) \<and>
    (\<forall>i. wi_job i = jq_id j \<and> wi_worker i = lf_worker f \<and> num_int (wi_generation i) = lf_generation f \<longrightarrow>
       isl (reserveWardenModelCall h nt i q)) \<and>
    (\<forall>i. ws_job i = jq_id j \<and> ws_worker i = lf_worker f \<and> num_int (ws_generation i) = lf_generation f \<longrightarrow>
       queue_after q (settleWardenModelCall h nt i q) = q) \<and>
    (\<forall>g code. num_int g = lf_generation f \<longrightarrow>
       queue_after q (settleActiveWardenModelReservationsForFence h nt (jq_id j) (lf_worker f) g t code q) = q)"
proof -
  have keyed: "tables_keyed q0" "tables_keyed q1" "tables_keyed q" using assms(1,4,6) reach_keyed run_keyed by blast+
  have over: "lease_over (jq_id j) f q"
    unfolding assms(6) by (rule lease_over_run[OF keyed(2) held_then_over[OF keyed(1) assms(2,3,4,5)]])
  note ops = over_complete[OF over] over_renew[OF over] over_fail[OF over] over_reserve[OF over] over_settle[OF over keyed(3)]
    over_settleFence[OF over keyed(3)]
  have "isl (reserveWardenModelCall h nt i q)"
    if "wi_job i = jq_id j" "wi_worker i = lf_worker f" "num_int (wi_generation i) = lf_generation f" for i
    using ops(4)[OF that] by (cases "reserveWardenModelCall h nt i q") auto
  moreover have "queue_after q (settleWardenModelCall h nt i q) = q"
    if "ws_job i = jq_id j" "ws_worker i = lf_worker f" "num_int (ws_generation i) = lf_generation f" for i
    by (rule queue_after_cases) (use ops(5)[OF that] in auto)
  moreover have "queue_after q (settleActiveWardenModelReservationsForFence h nt (jq_id j) (lf_worker f) g t code q) = q"
    if "num_int g = lf_generation f" for g code
    by (rule queue_after_cases) (use ops(6)[OF that] in auto)
  ultimately show ?thesis using ops(1,2,3) by blast
qed

text \<open>Claim C3: a worker that lost its lease can make no remote mutation. With the jobs table as the dispatch of the
  mission control plane reads it, authorizing a dispatch, authorizing a settled one again and beginning the
  remote call all fail for the worker and generation of a lease that is over, after any further commands.\<close>

theorem lost_lease_stops_mutation:
  assumes "q0 = run_queue h nt cs empty_queue" and "j \<in> set (qu_jobs q0)" and "holds f j" and "q1 = run_queue h nt ds q0"
    and "\<forall>k \<in> set (qu_jobs q1). jq_id k = jq_id j \<longrightarrow> \<not> holds f k" and "q = run_queue h nt es q1"
    and "db_jobs db = map job_view (qu_jobs q)" and "din_job i = jq_id j" and "din_worker i = lf_worker f"
    and "din_generation i = lf_generation f"
  shows "isl (authorizeMissionMutationDispatch h i kind aggregate db) \<and> isl (reauthorizeSettledMissionMutationDispatch h i db) \<and>
    isl (fst (beginMissionMutationRemoteCall h i permitUncertain db))"
proof -
  have keyed: "tables_keyed q0" "tables_keyed q1" using assms(1,4) reach_keyed run_keyed by blast+
  have "lease_over (din_job i) f q"
    unfolding assms(6,8) by (rule lease_over_run[OF keyed(2) held_then_over[OF keyed(1) assms(2,3,4,5)]])
  note lost = over_assertLease[OF this assms(9,10,7)]
  have "isl (authorizeMissionMutationDispatch h i kind aggregate db)"
    unfolding authorizeMissionMutationDispatch_def
    by (rule isl_bind_first[OF lost] isl_ensure_last isl_bind_last)+
  moreover have "isl (reauthorizeSettledMissionMutationDispatch h i db)"
    unfolding reauthorizeSettledMissionMutationDispatch_def
    by (rule isl_bind_first[OF lost] isl_ensure_last isl_bind_last)+
  moreover have "isl (begin_dispatch i permitUncertain a t db)" for a t
    by (simp add: begin_dispatch_def isl_bindR lost)
  then have "isl (fst (beginMissionMutationRemoteCall h i permitUncertain db))"
    by (auto simp: beginMissionMutationRemoteCall_def split: sum.splits prod.splits) (metis sum.disc(2))
  ultimately show ?thesis by blast
qed

text \<open>Claim C11: recovery is exact and complete. With a canonical time and a well-formed scope it never fails; exactly
  the running jobs in scope whose lease has expired change: each is pending and due at once if it has attempts
  left or a delivery of it may have happened, and dead-lettered otherwise, without owner; every other job is
  untouched; and the active reservations made under those leases, and no others, are settled at their maximum,
  so that no expired lease and no reservation under one is left.\<close>

theorem recovery_exact:
  assumes "q = run_queue h nt cs empty_queue" and "recovery_input now tenant"
  shows "\<exists>q'. recoverExpiredJobs h nt now tenant q = Inr (changes (recoverable now tenant) (qu_jobs q), q') \<and>
    list_all2 (\<lambda>j j'. if recoverable now tenant j then recovered_well q now j j' else j' = j) (qu_jobs q) (qu_jobs q') \<and>
    list_all2 (\<lambda>r r'. if abandoned now tenant q r then rv_id r' = rv_id r \<and> rv_status r' = RUnknown \<and> charged_maximum r' \<and>
        rv_maxCost r' = rv_maxCost r else r' = r) (qu_reservations q) (qu_reservations q') \<and>
    list_all (\<lambda>j. \<not> recoverable now tenant j) (qu_jobs q') \<and>
    list_all (\<lambda>r. \<not> abandoned now tenant q' r) (qu_reservations q')"
proof -
  let ?q = "recovered_queue h nt now tenant q"
  have keyed: "tables_keyed q" using assms(1) reach_keyed by blast
  have "recoverExpiredJobs h nt now tenant q = Inr (changes (recoverable now tenant) (qu_jobs q), ?q)"
    using recover_eq[OF keyed] assms(2) by blast
  moreover have "list_all2 (\<lambda>j j'. if recoverable now tenant j then recovered_well q now j j' else j' = j) (qu_jobs q) (qu_jobs ?q)"
    by (simp add: recovered_queue_def update_where_def list_all2_map2 recover_job_well list_all2_refl)
  moreover have "list_all2 (\<lambda>r r'. if abandoned now tenant q r then rv_id r' = rv_id r \<and> rv_status r' = RUnknown \<and> charged_maximum r' \<and>
        rv_maxCost r' = rv_maxCost r else r' = r) (qu_reservations q) (qu_reservations ?q)"
    by (simp add: recovered_queue_def update_where_def list_all2_map2 settled_unknown_def unknown_settlement_def charged_maximum_def
        list_all2_refl)
  moreover have none: "\<not> recoverable now tenant j" if "j \<in> set (qu_jobs ?q)" for j
    using that recovered_not_expired[of now tenant q] by (auto simp: recovered_queue_def update_where_def)
  moreover have "\<not> abandoned now tenant ?q r" for r
  proof
    assume ab: "abandoned now tenant ?q r"
    then obtain j where "j \<in> set (qu_jobs ?q)" "jq_tenant j = rv_tenant r" "lease_expired now j"
      by (auto simp: abandoned_def reserved_under_def exists_row_def list_ex_iff lease_expired_def)
    with none[of j] ab show False by (auto simp: abandoned_def recoverable_def in_scope_def split: option.splits)
  qed
  ultimately show ?thesis by (auto simp: list_all_iff)
qed


section \<open>Claims\<close>

lemma filter_update_le: "distinct js \<Longrightarrow> length (filter P (update_where (\<lambda>x. x = j) f js)) \<le> Suc (length (filter P js))"
proof (induction js)
  case (Cons x js)
  show ?case
  proof (cases "x = j")
    case True
    then have "update_where (\<lambda>x. x = j) f js = js" using Cons.prems by (intro update_where_none) auto
    then show ?thesis by (simp add: update_where_def)
  qed (use Cons in \<open>simp add: update_where_def\<close>)
qed (simp add: update_where_def)

lemma claim_leased:
  assumes "tables_keyed q" and "claimNextJob h nt i q = Inr (Some j', q2)"
  obtains j e rest where "date_plus h (cl_now i) (max 1000 (or_default 60000 (cl_leaseMs i))) = Inr e"
    "recovery_input (cl_now i) (cl_tenant i)"
    "claim_order (filter (claimable i (recovered_queue h nt (cl_now i) (cl_tenant i) q)) (qu_jobs (recovered_queue h nt (cl_now i) (cl_tenant i) q))) =
      j # rest"
    "j \<in> set (qu_jobs (recovered_queue h nt (cl_now i) (cl_tenant i) q))" "claimable i (recovered_queue h nt (cl_now i) (cl_tenant i) q) j"
    "j' = lease_job (cl_worker i) (cl_now i) e j"
    "q2 = put_jobs (update_where (\<lambda>x. x = j) (lease_job (cl_worker i) (cl_now i) e) (qu_jobs (recovered_queue h nt (cl_now i) (cl_tenant i) q)))
      (recovered_queue h nt (cl_now i) (cl_tenant i) q)"
    "tables_keyed (recovered_queue h nt (cl_now i) (cl_tenant i) q)"
proof -
  let ?q1 = "recovered_queue h nt (cl_now i) (cl_tenant i) q"
  obtain e n q1 where e: "date_plus h (cl_now i) (max 1000 (or_default 60000 (cl_leaseMs i))) = Inr e"
    and q1: "recoverExpiredJobs h nt (cl_now i) (cl_tenant i) q = Inr (n, q1)" and cl: "lease_next i e q q1 = (Some j', q2)"
    by (rule claimD[OF assms(2)])
  have r: "recovery_input (cl_now i) (cl_tenant i)" "q1 = ?q1" using recover_eq[OF assms(1)] q1 by auto
  have "exec_queue h nt (QRecover (cl_now i) (cl_tenant i)) q = ?q1" using q1 r(2) by simp
  then have keyed: "tables_keyed ?q1" using exec_keyed[OF assms(1)] by metis
  then have "distinct (map jq_id (qu_jobs q1))" by (simp add: r(2) tables_keyed_def)
  from cl this show ?thesis
  proof (cases rule: lease_next_cases)
    case (leased j rest)
    show ?thesis by (rule that[OF e r(1)]) (use leased keyed in \<open>simp_all add: r(2)\<close>)
  qed simp
qed

text \<open>Claim C10: a claim takes the right job and only that. After recovery it returns nothing only if no job is
  claimable; otherwise it leases a claimable job that comes first by due time, creation and id among the
  claimable ones, changes only its row, and keeps the number of running jobs of its tenant within the limit.\<close>

theorem claim_exact:
  assumes "q = run_queue h nt cs empty_queue" and "claimNextJob h nt i q = Inr (v, q2)"
    and "q1 = recovered_queue h nt (cl_now i) (cl_tenant i) q"
  shows "case v of
      None \<Rightarrow> q2 = q1 \<and> list_all (\<lambda>j. \<not> claimable i q1 j) (qu_jobs q1)
    | Some j' \<Rightarrow> \<exists>j e. j \<in> set (qu_jobs q1) \<and> claimable i q1 j \<and> list_all (\<lambda>k. claimable i q1 k \<longrightarrow> claim_before j k) (qu_jobs q1) \<and>
        date_plus h (cl_now i) (max 1000 (or_default 60000 (cl_leaseMs i))) = Inr e \<and> j' = lease_job (cl_worker i) (cl_now i) e j \<and>
        q2 = put_jobs (update_where (\<lambda>x. x = j) (\<lambda>x. j') (qu_jobs q1)) q1 \<and>
        (case cl_maxRunning i of None \<Rightarrow> True | Some n \<Rightarrow> n = 0 \<or> running_of q2 (jq_tenant j) \<le> n)"
proof -
  have keyed: "tables_keyed q" using assms(1) reach_keyed by blast
  show ?thesis
  proof (cases v)
    case None
    obtain e n p where p: "recoverExpiredJobs h nt (cl_now i) (cl_tenant i) q = Inr (n, p)" and cl: "lease_next i e q p = (None, q2)"
      using claimD[OF assms(2)] None by metis
    have pq: "p = q1" using recover_eq[OF keyed] p assms(3) by simp
    have "distinct (map jq_id (qu_jobs p))"
      using moved_distinct[OF recover_step[OF _ p, THEN conjunct1]] keyed by (simp add: tables_keyed_def)
    with cl show ?thesis by (cases rule: lease_next_cases) (simp_all add: None pq list_all_iff)
  next
    case (Some j')
    obtain j e rest where cl: "date_plus h (cl_now i) (max 1000 (or_default 60000 (cl_leaseMs i))) = Inr e"
      "claim_order (filter (claimable i q1) (qu_jobs q1)) = j # rest" "j \<in> set (qu_jobs q1)" "claimable i q1 j"
      "j' = lease_job (cl_worker i) (cl_now i) e j"
      "q2 = put_jobs (update_where (\<lambda>x. x = j) (lease_job (cl_worker i) (cl_now i) e) (qu_jobs q1)) q1" "tables_keyed q1"
      using claim_leased[OF keyed assms(2)[unfolded Some]] assms(3) by metis
    have first: "list_all (\<lambda>k. claimable i q1 k \<longrightarrow> claim_before j k) (qu_jobs q1)"
      using claim_order_least[OF cl(2)] by (simp add: list_all_iff)
    have row: "q2 = put_jobs (update_where (\<lambda>x. x = j) (\<lambda>x. j') (qu_jobs q1)) q1"
      unfolding cl(6) by (rule arg_cong[where f = "\<lambda>js. put_jobs js q1"], rule update_where_cong) (simp_all add: cl(5))
    have "distinct (qu_jobs q1)" using cl(7) by (auto simp: tables_keyed_def distinct_map)
    then have "running_of q2 (jq_tenant j) \<le> running_of q1 (jq_tenant j) + 1"
      using filter_update_le[of "qu_jobs q1" "\<lambda>x. jq_tenant x = jq_tenant j \<and> jq_status x = ''running''" j "\<lambda>x. j'"]
      unfolding running_of_def row put_simps by linarith
    with cl(4) have "case cl_maxRunning i of None \<Rightarrow> True | Some n \<Rightarrow> n = 0 \<or> running_of q2 (jq_tenant j) \<le> n"
      by (auto simp: claimable_def split: option.splits)
    with cl(1,3,4,5) first row Some show ?thesis by auto
  qed
qed

text \<open>Claim C18: a claimed job can be finished. At any time before its lease ends, the worker that claimed it completes
  the job under its fence with the result it gives; until then the lease also carries the accounting of its
  model calls and the dispatch of its mutations.\<close>

theorem claimed_job_completes:
  assumes "q = run_queue h nt cs empty_queue" and "claimNextJob h nt i q = Inr (Some j, q2)"
    and "canonical_ms (cl_now i) = Some m" and "ms = max 1000 (or_default 60000 (cl_leaseMs i))" and "m + ms < last_ms"
    and "canonical_ms t = Some k" and "k < m + ms" and "f = \<lparr>lf_worker = cl_worker i, lf_generation = jq_generation j\<rparr>"
  shows "fst (completeJob (jq_id j) v t (Some f) q2) \<and>
    findJob (snd (completeJob (jq_id j) v t (Some f) q2)) (jq_id j) = Some (complete_job v t j) \<and>
    model_lease q2 (jq_tenant j) (jq_id j) (cl_worker i) (jq_generation j) t \<and>
    (din_job d = jq_id j \<and> din_tenant d = jq_tenant j \<and> din_worker d = cl_worker i \<and> din_generation d = jq_generation j \<and>
      db_jobs db = map job_view (qu_jobs q2) \<longrightarrow> assertLease d t db = Inr ())"
proof -
  have keyed: "tables_keyed q" using assms(1) reach_keyed by blast
  obtain p j0 e where p: "date_plus h (cl_now i) (max 1000 (or_default 60000 (cl_leaseMs i))) = Inr e"
      "j0 \<in> set (qu_jobs p)" "j = lease_job (cl_worker i) (cl_now i) e j0"
      "q2 = put_jobs (update_where (\<lambda>x. x = j0) (lease_job (cl_worker i) (cl_now i) e) (qu_jobs p)) p"
    by (rule claim_leased[OF keyed assms(2)])
  have e: "e = iso_string (m + ms)" "canonical_ms e = Some (m + ms)" using date_plus_canonical[OF assms(3) _ assms(5)] p(1) assms(4) by auto
  have early: "t < e" using canonical_order[OF assms(6) e(2)] assms(7) by simp
  have "0 \<le> m + ms" using e(2) by (auto simp: canonical_ms_def split: if_splits)
  have "e \<noteq> []" using e(2) by (auto simp: canonical_ms_def canonical_form_def split: if_splits)
  have row: "jq_status j = ''running''" "jq_leaseOwner j = Some (cl_worker i)" "jq_leaseExpiresAt j = Some e"
    by (simp_all add: p(3) lease_job_def)
  have mem: "j \<in> set (qu_jobs q2)" using p(2,3) by (force simp: p(4) update_where_def)
  have "exec_queue h nt (QClaim i) q = q2" using assms(2) by simp
  then have keyed2: "distinct (map jq_id (qu_jobs q2))" using exec_keyed[OF keyed] by (metis tables_keyed_def)
  have same: "x = j" if "x \<in> set (qu_jobs q2)" "jq_id x = jq_id j" for x using distinct_key_eq[OF keyed2 that(1) mem that(2)] .
  let ?P = "\<lambda>x. jq_id x = jq_id j \<and> jq_status x = ''running'' \<and> passes_fence (Some f) t x"
  have P: "?P x \<longleftrightarrow> x = j" if "x \<in> set (qu_jobs q2)" for x
    using same[OF that] row early assms(8) by (auto simp: passes_fence_def holds_lease_def)
  have one: "changes ?P (qu_jobs q2) = 1" by (rule changes_one[OF _ mem]) (use keyed2 P in \<open>auto simp: distinct_map\<close>)
  have up: "update_where ?P (complete_job v t) (qu_jobs q2) = update_where (\<lambda>x. x = j) (complete_job v t) (qu_jobs q2)"
    by (rule update_where_cong) (simp_all add: P)
  have done': "complete_job v t j \<in> set (update_where (\<lambda>x. x = j) (complete_job v t) (qu_jobs q2))" using mem by (force simp: update_where_def)
  have ids: "map jq_id (update_where (\<lambda>x. x = j) (complete_job v t) (qu_jobs q2)) = map jq_id (qu_jobs q2)"
    by (rule map_update_where) (simp add: complete_job_def)
  have cid: "jq_id (complete_job v t j) = jq_id j" by (simp add: complete_job_def)
  have "completeJob (jq_id j) v t (Some f) q2 = (True, put_jobs (update_where (\<lambda>x. x = j) (complete_job v t) (qu_jobs q2)) q2)"
    by (simp only: completeJob_def update_job_def one up refl)
  moreover have "findJob (put_jobs (update_where (\<lambda>x. x = j) (complete_job v t) (qu_jobs q2)) q2) (jq_id j) = Some (complete_job v t j)"
    unfolding findJob_def put_simps using keyed2 by (intro find_key[where k = jq_id, OF _ done']) (simp_all add: ids cid)
  moreover have "List.find (\<lambda>x. jq_id x = jq_id j \<and> jq_tenant x = jq_tenant j) (qu_jobs q2) = Some j"
    by (rule find_key[where k = jq_id, OF keyed2 mem]) simp_all
  then have "model_lease q2 (jq_tenant j) (jq_id j) (cl_worker i) (jq_generation j) t"
    using row early \<open>e \<noteq> []\<close> by (simp add: model_lease_def)
  moreover have "assertLease d t db = Inr ()"
    if "din_job d = jq_id j" "din_tenant d = jq_tenant j" "din_worker d = cl_worker i" "din_generation d = jq_generation j"
      "db_jobs db = map job_view (qu_jobs q2)"
    using mem row early that by (auto simp: assertLease_def ensure_def exists_row_def list_ex_iff job_view_def intro!: bexI[of _ j])
  ultimately show ?thesis by simp
qed

end
