(* ===== verification/AccountingText.thy ===== *)
theory AccountingText
  imports ModelAccounting
begin

text \<open>
  The canonical text of a reservation determines what it shows: two rows with the same digests, under a digest and
  a number text without collisions, agree in every field. Numbers that JSON writes as null are the exception.
\<close>

section \<open>The text of numbers\<close>

definition number_char :: "char \<Rightarrow> bool" where
  "number_char c \<longleftrightarrow> is_digit c \<or> c = CHR ''+'' \<or> c = CHR ''-'' \<or> c = CHR ''.'' \<or> c = CHR ''e''"

text \<open>Different numbers have different texts, of digits, signs, a point and an exponent mark.\<close>

definition number_text_ok :: "number_text \<Rightarrow> bool" where
  "number_text_ok nt \<longleftrightarrow> inj nt \<and> (\<forall>q. list_all number_char (nt q))"

definition atom_char :: "char \<Rightarrow> bool" where
  "atom_char c \<longleftrightarrow> number_char c \<or> c = CHR ''n'' \<or> c = CHR ''u'' \<or> c = CHR ''l''"

text \<open>What follows a value: a comma or the closing brace.\<close>

definition closes :: "string \<Rightarrow> bool" where
  "closes x \<longleftrightarrow> (\<exists>y. x = CHR '','' # y \<or> x = CHR ''}'' # y)"

lemma char_classes:
  "\<not> is_digit (CHR '','')" "\<not> is_digit (CHR ''}'')" "\<not> is_digit (CHR ''n'')" "\<not> is_digit (char_of (34 :: nat))"
  by (simp_all add: is_digit_def)

lemma closes_atom: "closes x \<Longrightarrow> takeWhile atom_char x = [] \<and> dropWhile atom_char x = x"
  by (auto simp: closes_def atom_char_def number_char_def char_classes)

lemma quote_not_atom: "\<not> atom_char (char_of (34 :: nat))"
proof -
  have "(char_of (34 :: nat) :: char) \<noteq> c" if "c \<in> {CHR ''+'', CHR ''-'', CHR ''.'', CHR ''e'', CHR ''n'', CHR ''u'', CHR ''l''}" for c
    using that by (auto dest!: arg_cong[where f = "of_char :: char \<Rightarrow> nat"])
  then show ?thesis by (simp add: atom_char_def number_char_def char_classes)
qed

lemma atoms_prefix:
  assumes "list_all atom_char s" and "list_all atom_char t" and "s @ x = t @ y" and "closes x" and "closes y"
  shows "s = t \<and> x = y"
proof -
  have tw: "takeWhile atom_char (u @ z) = u" if "list_all atom_char u" "closes z" for u z
    using that closes_atom[OF that(2)] by (simp add: list_all_iff takeWhile_append2)
  have "s = t" using tw[OF assms(1,4)] tw[OF assms(2,5)] assms(3) by simp
  with assms(3) show ?thesis by simp
qed

lemma account_text_kind:
  "number_text_ok nt \<Longrightarrow> (\<exists>s. v = AText s) \<or> list_all atom_char (account_text nt v)"
proof (cases v)
  case (ANumber x)
  assume "number_text_ok nt"
  then have "list_all atom_char (nt q)" for q by (auto simp: number_text_ok_def list_all_iff atom_char_def)
  with ANumber show ?thesis by (cases x) (simp_all add: atom_char_def)
qed (simp_all add: atom_char_def)

lemma quote_not_atoms: "list_all atom_char t \<Longrightarrow> closes y \<Longrightarrow> json_quote s @ x \<noteq> t @ y"
proof
  assume t: "list_all atom_char t" "closes y" and eq: "json_quote s @ x = t @ y"
  show False
  proof (cases t)
    case Nil
    then have "char_of (34 :: nat) \<in> {CHR '','', CHR ''}''}" using eq t(2) by (auto simp: closes_def json_quote_def)
    then show False by (auto dest!: arg_cong[where f = "of_char :: char \<Rightarrow> nat"])
  next
    case (Cons c cs)
    then show False using eq t(1) quote_not_atom by (auto simp: json_quote_def)
  qed
qed

lemma account_text_prefix:
  assumes nt: "number_text_ok nt" and "account_text nt v @ x = account_text nt w @ y" and "closes x" and "closes y"
  shows "account_text nt v = account_text nt w \<and> x = y"
proof (cases "(\<exists>s. v = AText s) \<or> (\<exists>s. w = AText s)")
  case True
  have "(\<exists>s t. v = AText s \<and> w = AText t)"
    using True account_text_kind[OF nt, of v] account_text_kind[OF nt, of w] assms(2) quote_not_atoms[OF _ assms(4)]
      quote_not_atoms[OF _ assms(3)] by (metis account_text.simps(2))
  with assms(2) show ?thesis by auto
next
  case False
  then have atoms: "list_all atom_char (account_text nt v)" "list_all atom_char (account_text nt w)"
    using account_text_kind[OF nt] by blast+
  show ?thesis by (rule atoms_prefix[OF atoms assms(2-4)])
qed

section \<open>The text of an object\<close>

lemma fields_prefix:
  assumes nt: "number_text_ok nt"
  defines "f \<equiv> \<lambda>p. json_quote (fst p) @ '':'' @ account_text nt (snd p)"
  shows "map fst fs = map fst gs \<Longrightarrow> join_with '','' (map f fs) @ ''}'' = join_with '','' (map f gs) @ ''}'' \<Longrightarrow>
    map (account_text nt \<circ> snd) fs = map (account_text nt \<circ> snd) gs"
proof (induction fs arbitrary: gs)
  case (Cons p fs)
  obtain q gs' where gs: "gs = q # gs'" and keys: "fst p = fst q" "map fst fs = map fst gs'" using Cons.prems(1) by (cases gs) auto
  let ?r = "\<lambda>xs. if xs = [] then ''}'' else '','' @ join_with '','' (map f xs) @ ''}''"
  have "f p @ ?r fs = f q @ ?r gs'" using Cons.prems(2) by (simp add: gs join_with_Cons)
  then have eq: "account_text nt (snd p) @ ?r fs = account_text nt (snd q) @ ?r gs'" by (simp add: f_def keys(1))
  have "closes (?r xs)" for xs by (simp add: closes_def)
  from account_text_prefix[OF nt eq this this] have vr: "account_text nt (snd p) = account_text nt (snd q)" "?r fs = ?r gs'" by auto
  have "(fs = []) = (gs' = [])" using keys(2) by (metis map_is_Nil_conv)
  with vr(2) have "join_with '','' (map f fs) @ ''}'' = join_with '','' (map f gs') @ ''}''" by (auto split: if_splits)
  from Cons.IH[OF keys(2) this] vr(1) show ?case by (simp add: gs)
qed simp

lemma account_digest_inj:
  assumes "inj (h_sha h)" and "number_text_ok nt" and "map fst fs = map fst gs" and "account_digest h nt fs = account_digest h nt gs"
  shows "map (account_text nt \<circ> snd) fs = map (account_text nt \<circ> snd) gs"
  using assms(4) fields_prefix[OF assms(2,3)] injD[OF assms(1)] by (auto simp: account_digest_def canonical_text_def)

section \<open>The fields of a row\<close>

definition printed :: "jsnum option \<Rightarrow> rat option" where
  "printed v = (case v of Some (Fin q) \<Rightarrow> Some q | _ \<Rightarrow> None)"

lemma json_quote_inj: "json_quote s = json_quote t \<longleftrightarrow> s = t"
  using json_quote_prefix[of s "[]" t "[]"] by simp

lemma null_not_quote: "''null'' \<noteq> json_quote s"
  using quote_not_atom by (auto simp: json_quote_def atom_char_def)

lemma null_not_number: "number_text_ok nt \<Longrightarrow> nt q \<noteq> ''null''"
proof
  assume "number_text_ok nt" "nt q = ''null''"
  then have "list_all number_char ''null''" by (metis number_text_ok_def)
  then have "number_char (CHR ''n'')" by simp
  then show False by (simp add: number_char_def char_classes)
qed

lemma account_text_eq:
  assumes "number_text_ok nt"
  shows "account_text nt (AText s) = account_text nt (AText t) \<longleftrightarrow> s = t"
    and "account_text nt (account_int i) = account_text nt (account_int j) \<longleftrightarrow> i = j"
    and "account_text nt (ANumber (Fin p)) = account_text nt (ANumber (Fin q)) \<longleftrightarrow> p = q"
    and "account_text nt (null_or AText a) = account_text nt (null_or AText b) \<longleftrightarrow> a = b"
    and "account_text nt (null_or account_int k) = account_text nt (null_or account_int l) \<longleftrightarrow> k = l"
    and "account_text nt (null_or (\<lambda>q. ANumber (Fin q)) c) = account_text nt (null_or (\<lambda>q. ANumber (Fin q)) d) \<longleftrightarrow> c = d"
    and "account_text nt (null_or ANumber v) = account_text nt (null_or ANumber w) \<longleftrightarrow> printed v = printed w"
proof -
  have i: "nt p = nt q \<longleftrightarrow> p = q" for p q using assms by (auto simp: number_text_ok_def inj_eq)
  have num: "account_text nt (ANumber x) = (case printed (Some x) of None \<Rightarrow> ''null'' | Some q \<Rightarrow> nt q)" for x
    by (cases x) (simp_all add: printed_def)
  note simps = json_quote_inj null_not_quote null_not_quote[symmetric] null_not_number[OF assms] null_not_number[OF assms, symmetric] i
    null_or_def account_int_def
  show "account_text nt (AText s) = account_text nt (AText t) \<longleftrightarrow> s = t"
    "account_text nt (account_int i) = account_text nt (account_int j) \<longleftrightarrow> i = j"
    "account_text nt (ANumber (Fin p)) = account_text nt (ANumber (Fin q)) \<longleftrightarrow> p = q"
    "account_text nt (null_or AText a) = account_text nt (null_or AText b) \<longleftrightarrow> a = b"
    "account_text nt (null_or account_int k) = account_text nt (null_or account_int l) \<longleftrightarrow> k = l"
    "account_text nt (null_or (\<lambda>q. ANumber (Fin q)) c) = account_text nt (null_or (\<lambda>q. ANumber (Fin q)) d) \<longleftrightarrow> c = d"
    by (auto simp: simps split: option.splits)
  have null: "account_text nt (null_or ANumber v) = (case printed v of None \<Rightarrow> ''null'' | Some q \<Rightarrow> nt q)" for v
    by (cases v) (simp_all add: null_or_def num del: account_text.simps(3), simp add: printed_def)
  show "account_text nt (null_or ANumber v) = account_text nt (null_or ANumber w) \<longleftrightarrow> printed v = printed w"
    unfolding null by (auto simp: simps split: option.splits)
qed

lemma reservation_status_text_inj: "reservation_status_text s = reservation_status_text t \<longleftrightarrow> s = t"
  by (cases s; cases t) simp_all

text \<open>The row with what JSON writes as null read as nothing.\<close>

definition printed_row :: "reservation \<Rightarrow> reservation" where
  "printed_row r = r\<lparr>rv_reportedInput := map_option Fin (printed (rv_reportedInput r)),
     rv_reportedOutput := map_option Fin (printed (rv_reportedOutput r)), rv_reportedTotal := map_option Fin (printed (rv_reportedTotal r)),
     rv_reportedCost := map_option Fin (printed (rv_reportedCost r))\<rparr>"

lemma identity_determined:
  assumes "inj (h_sha h)" and "number_text_ok nt" and "reservationFingerprint h nt r = reservationFingerprint h nt r'"
  shows "rv_requestDigest r = rv_requestDigest r' \<and> rv_maxInput r = rv_maxInput r' \<and> rv_maxOutput r = rv_maxOutput r' \<and>
    rv_maxTotal r = rv_maxTotal r' \<and> rv_maxCost r = rv_maxCost r'"
proof -
  have "map (account_text nt \<circ> snd) (reservation_identity r) = map (account_text nt \<circ> snd) (reservation_identity r')"
    by (rule account_digest_inj[OF assms(1,2)]) (use assms(3) in \<open>simp_all add: reservationFingerprint_def reservation_identity_def\<close>)
  then show ?thesis by (simp add: reservation_identity_def account_text_eq[OF assms(2)] del: account_text.simps)
qed

lemma settlement_determined:
  assumes "inj (h_sha h)" and "number_text_ok nt" and "storedSettlementFingerprint h nt r = storedSettlementFingerprint h nt r'"
    and "rv_requestDigest r = rv_requestDigest r'" and "rv_settlementDigest r = rv_settlementDigest r'"
  shows "printed_row r = printed_row r'"
proof -
  have "map (account_text nt \<circ> snd) (settlement_fields r) = map (account_text nt \<circ> snd) (settlement_fields r')"
    by (rule account_digest_inj[OF assms(1,2)])
      (use assms(3) in \<open>simp_all add: storedSettlementFingerprint_def versionedDigest_def settlement_fields_def\<close>)
  then show ?thesis
    using assms(4,5)
    by (cases r; cases r') (simp add: settlement_fields_def account_text_eq[OF assms(2)] reservation_status_text_inj printed_row_def
        del: account_text.simps)
qed

end
