(* ===== verification/AccountingProperties.thy ===== *)
theory AccountingProperties
  imports JobProperties AccountingText
begin

text \<open>
  What the accounting of model calls promises: a job never commits more than its budget, every row in the table
  verifies and none can be altered unseen, and the agent and the ledger agree on what a call cost.
\<close>

section \<open>Every command moves rows or adds one\<close>

text \<open>The one command that adds a reservation adds it within the budget.\<close>

definition added_within :: "host \<Rightarrow> number_text \<Rightarrow> queue \<Rightarrow> queue \<Rightarrow> bool" where
  "added_within h nt q q' \<longleftrightarrow> (\<exists>r. qu_reservations q' = qu_reservations q @ [r] \<and> fresh_reservation h nt r \<and>
     committed q (rv_tenant r) (rv_job r) + rv_maxCost r \<le> rv_jobBudget r + budget_slack)"

definition moved_or_added :: "host \<Rightarrow> number_text \<Rightarrow> queue \<Rightarrow> queue \<Rightarrow> bool" where
  "moved_or_added h nt q q' \<longleftrightarrow> moved (reservation_move h nt) (qu_reservations q) (qu_reservations q') \<or> added_within h nt q q'"

lemma moved_or_addedI: "moved (reservation_move h nt) (qu_reservations q) (qu_reservations q') \<Longrightarrow> moved_or_added h nt q q'"
  by (simp add: moved_or_added_def)

lemma moved_or_added_same: "qu_reservations q' = qu_reservations q \<Longrightarrow> moved_or_added h nt q q'"
  by (simp add: moved_or_added_def)

lemma update_job_reservations: "update_job P f q = (v, q1) \<Longrightarrow> qu_reservations q1 = qu_reservations q"
  by (auto simp: update_job_def)

lemma reserve_added: "reserveWardenModelCall h nt i q = Inr (r, q') \<Longrightarrow> moved_or_added h nt q q'"
proof (erule reserve_cases)
  assume a: "valid_input i" "r = (new_reservation i)\<lparr>rv_reservationDigest := reservationFingerprint h nt (new_reservation i)\<rparr>"
    "q' = put_reservations (qu_reservations q @ [r]) q" "committed q (rv_tenant r) (rv_job r) + rv_maxCost r \<le> rv_jobBudget r + budget_slack"
  then have "added_within h nt q q'" unfolding added_within_def by (intro exI[of _ r]) (auto simp: fresh_reservation_def)
  then show ?thesis by (simp add: moved_or_added_def)
qed (simp add: moved_or_added_same)

lemma exec_moved_or_added:
  assumes "tables_keyed q"
  shows "moved_or_added h nt q (exec_queue h nt c q)"
proof -
  have keyed: "distinct (map jq_id (qu_jobs q))" "distinct (map rv_id (qu_reservations q))" using assms by (simp_all add: tables_keyed_def)
  show ?thesis
  proof (cases c)
    case (QEnqueue i)
    then show ?thesis by (cases "enqueueJob i q") (auto simp: moved_or_added_same dest: enqueue_step)
  next
    case (QReset i)
    show ?thesis unfolding QReset exec_queue.simps
      by (rule queue_after_cases) (auto simp: moved_or_added_same dest: reset_step[OF keyed(1)])
  next
    case (QRecover now tenant)
    show ?thesis unfolding QRecover exec_queue.simps
      by (rule queue_after_cases) (auto simp: moved_or_added_same dest: recover_step[OF keyed(2)] intro: moved_or_addedI)
  next
    case (QClaim i)
    show ?thesis unfolding QClaim exec_queue.simps
      by (rule queue_after_cases) (auto simp: moved_or_added_same dest: claim_step[OF keyed] intro: moved_or_addedI)
  next
    case (QRenew jid f now ms)
    show ?thesis unfolding QRenew exec_queue.simps
      by (rule queue_after_cases) (auto simp: moved_or_added_same renewJobLease_def bindR_eq_Inr dest: update_job_reservations)
  next
    case (QFail jid e t opts)
    show ?thesis unfolding QFail exec_queue.simps
      by (rule queue_after_cases) (auto simp: moved_or_added_same elim!: failJobD dest: update_job_reservations)
  next
    case (QRetry jid tenant now z d)
    show ?thesis unfolding QRetry exec_queue.simps
      by (rule queue_after_cases) (auto simp: moved_or_added_same retryJob_def bindR_eq_Inr dest: update_job_reservations)
  next
    case (QCancel jid t tenant reason)
    show ?thesis unfolding QCancel exec_queue.simps
      by (rule queue_after_cases) (auto simp: moved_or_added_same cancelJob_def bindR_eq_Inr dest: update_job_reservations)
  next
    case (QReserve i)
    show ?thesis unfolding QReserve exec_queue.simps by (rule queue_after_cases) (auto simp: moved_or_added_same dest: reserve_added)
  next
    case (QSettle i)
    show ?thesis unfolding QSettle exec_queue.simps
      by (rule queue_after_cases) (auto simp: moved_or_added_same dest: settle_step[OF _ keyed(2)] intro: moved_or_addedI)
  next
    case (QSettleFence jid w g t code)
    show ?thesis unfolding QSettleFence exec_queue.simps
      by (rule queue_after_cases) (auto simp: moved_or_added_same dest: settleFence_step[OF keyed(2)] intro: moved_or_addedI)
  qed (simp_all add: moved_or_added_same completeJob_def rescheduleJob_def)
qed

section \<open>The budget\<close>

text \<open>The sum of \<^const>\<open>committed\<close> over a list of rows.\<close>

definition held_sum :: "string \<Rightarrow> string \<Rightarrow> reservation list \<Rightarrow> rat" where
  "held_sum tenant jid rs = sum_list (map held_cost (filter (\<lambda>r. rv_tenant r = tenant \<and> rv_job r = jid) rs))"

lemma committed_sum: "committed q tenant jid = held_sum tenant jid (qu_reservations q)"
  by (simp add: committed_def held_sum_def)

definition same_call :: "reservation \<Rightarrow> reservation \<Rightarrow> bool" where
  "same_call r r' \<longleftrightarrow> rv_tenant r' = rv_tenant r \<and> rv_job r' = rv_job r \<and> rv_jobBudget r' = rv_jobBudget r \<and> held_cost r' \<le> held_cost r"

lemma within_charge: "withinReservation r i \<Longrightarrow> reported_val (flat (ws_costUsd i)) \<le> rv_maxCost r"
  by (simp add: withinReservation_def)

lemma reservation_move_same: "reservation_move h nt r r' \<Longrightarrow> same_call r r'"
  by (erule reservation_moveE)
    (auto simp: same_call_def settled_unknown_def unknown_settlement_def write_settlement_def materializeSettlement_def held_cost_def Let_def
      within_charge)

lemma moves_same: "(reservation_move h nt)\<^sup>*\<^sup>* r r' \<Longrightarrow> same_call r r'"
  by (induction rule: rtranclp_induct) (auto simp: same_call_def dest!: reservation_move_same)

lemma moved_sum: "moved (reservation_move h nt) rs rs' \<Longrightarrow> held_sum tenant jid rs' \<le> held_sum tenant jid rs"
  unfolding moved_def by (induction rule: list_all2_induct) (auto simp: held_sum_def same_call_def add_mono dest!: moves_same)

definition budgets_within :: "string \<Rightarrow> string \<Rightarrow> rat \<Rightarrow> queue \<Rightarrow> bool" where
  "budgets_within tenant jid B q \<longleftrightarrow>
     list_all (\<lambda>r. rv_tenant r = tenant \<and> rv_job r = jid \<longrightarrow> rv_jobBudget r \<le> B) (qu_reservations q)"

lemma moved_budgets:
  assumes "moved (reservation_move h nt) (qu_reservations q) (qu_reservations q')" and "budgets_within tenant jid B q'"
  shows "budgets_within tenant jid B q"
  using assms unfolding moved_def budgets_within_def
  by (induction rule: list_all2_induct) (auto simp: same_call_def dest!: moves_same)

lemma exec_budget:
  assumes "tables_keyed q" and "budgets_within tenant jid B q \<Longrightarrow> committed q tenant jid \<le> B + budget_slack" and "0 \<le> B"
    and "budgets_within tenant jid B (exec_queue h nt c q)"
  shows "committed (exec_queue h nt c q) tenant jid \<le> B + budget_slack"
  using exec_moved_or_added[OF assms(1), of h nt c] unfolding moved_or_added_def
proof (elim disjE)
  assume m: "moved (reservation_move h nt) (qu_reservations q) (qu_reservations (exec_queue h nt c q))"
  show ?thesis using assms(2)[OF moved_budgets[OF m assms(4)]] moved_sum[OF m, of tenant jid] by (simp add: committed_sum)
next
  assume "added_within h nt q (exec_queue h nt c q)"
  then obtain r where r: "qu_reservations (exec_queue h nt c q) = qu_reservations q @ [r]" "fresh_reservation h nt r"
    "committed q (rv_tenant r) (rv_job r) + rv_maxCost r \<le> rv_jobBudget r + budget_slack" by (auto simp: added_within_def)
  have cost: "held_cost r = rv_maxCost r" using r(2) by (auto simp: fresh_reservation_def held_cost_def new_reservation_def)
  show ?thesis
  proof (cases "rv_tenant r = tenant \<and> rv_job r = jid")
    case True
    then have "rv_jobBudget r \<le> B" using assms(4) by (simp add: budgets_within_def r(1))
    with True r(3) show ?thesis by (simp add: committed_sum held_sum_def r(1) cost)
  next
    case False
    then have "budgets_within tenant jid B q" using assms(4) by (simp add: budgets_within_def r(1))
    with False assms(2) show ?thesis by (auto simp: committed_sum held_sum_def r(1))
  qed
qed

lemma run_budget:
  "tables_keyed q \<Longrightarrow> (\<And>B. 0 \<le> B \<Longrightarrow> budgets_within tenant jid B q \<Longrightarrow> committed q tenant jid \<le> B + budget_slack) \<Longrightarrow> 0 \<le> B \<Longrightarrow>
    budgets_within tenant jid B (run_queue h nt cs q) \<Longrightarrow> committed (run_queue h nt cs q) tenant jid \<le> B + budget_slack"
proof (induction cs arbitrary: q)
  case (Cons c cs)
  show ?case unfolding run_queue_def fold_Cons comp_def
  proof (rule Cons.IH[unfolded run_queue_def])
    show "tables_keyed (exec_queue h nt c q)" using Cons.prems(1) by (rule exec_keyed)
    show "budgets_within tenant jid B (fold (exec_queue h nt) cs (exec_queue h nt c q))"
      using Cons.prems(4) by (simp add: run_queue_def)
  qed (use exec_budget[OF Cons.prems(1)] Cons.prems(2,3) in auto)
qed (simp add: run_queue_def)



section \<open>Rows verify\<close>

abbreviation verifies :: "host \<Rightarrow> number_text \<Rightarrow> reservation \<Rightarrow> bool" where
  "verifies h nt r \<equiv> ck_ok (verifyWardenModelReservationIntegrity h nt r)"

lemma row_check_ok [simp]: "ck_ok (row_check b v e) = b"
  by (simp add: row_check_def)

lemma versionedDigest_v2: "starts_with (versionedDigest h nt fs) ''v2:''" "versionedDigest h nt fs \<noteq> []"
  by (simp_all add: versionedDigest_def starts_with_def)

lemma fingerprint_cong:
  "reservationFingerprint h nt (r\<lparr>rv_reservationDigest := d\<rparr>) = reservationFingerprint h nt r"
  "reservationFingerprint h nt (settled_unknown h nt t c r) = reservationFingerprint h nt r"
  "reservationFingerprint h nt (write_settlement s dg r) = reservationFingerprint h nt r"
  by (simp_all add: reservationFingerprint_def reservation_identity_def settled_unknown_def unknown_settlement_def write_settlement_def)

lemma canonical_not_empty: "canonical_ms t \<noteq> None \<Longrightarrow> t \<noteq> []"
  by (auto simp: canonical_ms_def canonical_form_def)

lemma stored_number_text: "account_text nt (null_or ANumber (stored_number v)) = account_text nt (null_or ANumber v)"
  by (simp add: stored_number_def null_or_def)

text \<open>The digest of a settlement is that of the row it is written into.\<close>

lemma canonical_text_cong:
  assumes "map fst fs = map fst gs" and "map (account_text nt \<circ> snd) fs = map (account_text nt \<circ> snd) gs"
  shows "canonical_text nt fs = canonical_text nt gs"
proof -
  have "map (\<lambda>f. json_quote (fst f) @ '':'' @ account_text nt (snd f)) xs =
      map2 (\<lambda>k t. json_quote k @ '':'' @ t) (map fst xs) (map (account_text nt \<circ> snd) xs)" for xs
    by (induction xs) simp_all
  then show ?thesis using assms by (simp only: canonical_text_def)
qed

lemma materialize_frame:
  "rv_id (materializeSettlement r i) = rv_id r" "rv_tenant (materializeSettlement r i) = rv_tenant r"
  "rv_job (materializeSettlement r i) = rv_job r" "rv_run (materializeSettlement r i) = rv_run r"
  "rv_worker (materializeSettlement r i) = rv_worker r" "rv_generation (materializeSettlement r i) = rv_generation r"
  "rv_callIndex (materializeSettlement r i) = rv_callIndex r" "rv_reservationDigest (materializeSettlement r i) = rv_reservationDigest r"
  "rv_provider (materializeSettlement r i) = rv_provider r" "rv_configuredModel (materializeSettlement r i) = rv_configuredModel r"
  "rv_endpointHost (materializeSettlement r i) = rv_endpointHost r" "rv_maxInput (materializeSettlement r i) = rv_maxInput r"
  "rv_maxOutput (materializeSettlement r i) = rv_maxOutput r" "rv_maxTotal (materializeSettlement r i) = rv_maxTotal r"
  "rv_maxCost (materializeSettlement r i) = rv_maxCost r" "rv_jobBudget (materializeSettlement r i) = rv_jobBudget r"
  "rv_reservedAt (materializeSettlement r i) = rv_reservedAt r" "rv_requestDigest (materializeSettlement r i) = rv_requestDigest r"
  by (simp_all add: materializeSettlement_def Let_def)

lemma written_digest:
  "storedSettlementFingerprint h nt (write_settlement (materializeSettlement r i) dg r) = storedSettlementFingerprint h nt (materializeSettlement r i)"
proof -
  have "canonical_text nt (settlement_fields (write_settlement (materializeSettlement r i) dg r)) =
      canonical_text nt (settlement_fields (materializeSettlement r i))"
    by (rule canonical_text_cong)
      (simp_all add: settlement_fields_def write_settlement_def stored_number_text materialize_frame del: account_text.simps)
  then show ?thesis by (simp add: storedSettlementFingerprint_def versionedDigest_def account_digest_def)
qed

lemma unknown_digest:
  "storedSettlementFingerprint h nt (settled_unknown h nt t c r) = storedSettlementFingerprint h nt (unknown_settlement r t c)"
  by (simp add: settled_unknown_def storedSettlementFingerprint_def settlement_fields_def)

text \<open>A row that shows the digest of its identity and, once settled, of itself.\<close>

definition row_sealed :: "host \<Rightarrow> number_text \<Rightarrow> reservation \<Rightarrow> bool" where
  "row_sealed h nt r \<longleftrightarrow> rv_reservationDigest r = reservationFingerprint h nt r \<and>
     (if rv_status r = RActive then rv_settlementDigest r = None \<and> rv_settledAt r = None
      else rv_settlementDigest r = Some (storedSettlementFingerprint h nt r) \<and> (\<exists>t. rv_settledAt r = Some t \<and> t \<noteq> []))"

lemma sealed_verifies: "row_sealed h nt r \<Longrightarrow> verifies h nt r"
  using versionedDigest_v2 by (auto simp: row_sealed_def verifyWardenModelReservationIntegrity_def storedSettlementFingerprint_def split: if_splits)

lemma new_reservation_active: "rv_status (new_reservation i) = RActive" "rv_settlementDigest (new_reservation i) = None"
    "rv_settledAt (new_reservation i) = None"
  by (simp_all add: new_reservation_def)

lemma fresh_sealed: "fresh_reservation h nt r \<Longrightarrow> row_sealed h nt r"
  by (auto simp: fresh_reservation_def row_sealed_def fingerprint_cong new_reservation_active)

lemma move_sealed:
  assumes "reservation_move h nt r r'" and "row_sealed h nt r"
  shows "row_sealed h nt r'"
  using assms(1)
proof (cases rule: reservation_move.cases)
  case (unknown t code)
  then show ?thesis
    using assms(2) canonical_not_empty[of t]
    by (simp add: row_sealed_def fingerprint_cong unknown_digest) (simp add: settled_unknown_def unknown_settlement_def)
next
  case (settled i)
  have "rv_status r' \<noteq> RActive" by (simp add: settled(1) write_settlement_def materializeSettlement_def Let_def)
  then show ?thesis
    using assms(2) settled canonical_not_empty[OF settled(3)]
    by (simp add: row_sealed_def fingerprint_cong written_digest) (simp add: write_settlement_def materializeSettlement_def Let_def)
qed

lemma rows_sealed: "r \<in> set (qu_reservations (run_queue h nt cs empty_queue)) \<Longrightarrow> row_sealed h nt r"
proof -
  have "\<forall>r \<in> set (qu_reservations (fold (exec_queue h nt) cs empty_queue)). row_sealed h nt r"
    by (rule reservations.rows_satisfy[OF fresh_sealed move_sealed empty_keyed]) (simp_all add: empty_queue_def)
  then show "r \<in> set (qu_reservations (run_queue h nt cs empty_queue)) \<Longrightarrow> row_sealed h nt r" by (simp add: run_queue_def)
qed



section \<open>The agent and the ledger\<close>

text \<open>The bounds of a reservation, as the agent asked for them.\<close>

definition bounds_of :: "agent_reservation \<Rightarrow> reservation \<Rightarrow> bool" where
  "bounds_of a r \<longleftrightarrow> rv_maxInput r = num_int (mc_maxInput a) \<and> rv_maxOutput r = num_int (mc_maxOutput a) \<and>
     rv_maxTotal r = num_int (mc_maxTotal a) \<and> rv_maxCost r = num_val (mc_maxCost a)"

lemma bounds_kept: "reservation_move h nt r r' \<Longrightarrow> bounds_of a r \<Longrightarrow> bounds_of a r'"
  by (erule reservation_moveE) (auto simp: bounds_of_def settled_unknown_def unknown_settlement_def write_settlement_def)

lemma num_int_of_int [simp]: "num_int (Fin (of_int k)) = k"
  by (simp add: num_int_def num_val_def)

lemma reserve_bounds:
  assumes "inj (h_sha h)" and "number_text_ok nt" and "tables_keyed q" and "\<forall>r \<in> set (qu_reservations q). row_sealed h nt r"
    and "reserveWardenModelCall h nt (runtime_reservation m now a) q = Inr (r, q1)"
  shows "bounds_of a r \<and> r \<in> set (qu_reservations q1) \<and> rv_id r = mc_id a"
  using assms(5)
proof (cases rule: reserve_cases)
  case replay
  have "reservationFingerprint h nt r = reservationFingerprint h nt (new_reservation (runtime_reservation m now a))"
    using replay(2,4) assms(4) by (metis row_sealed_def)
  from identity_determined[OF assms(1,2) this] have "bounds_of a r"
    by (simp add: bounds_of_def new_reservation_def runtime_reservation_def)
  moreover have "rv_id r = mc_id a"
  proof -
    obtain p where p: "getRow q (mr_tenant m) (mc_id a) = Some p" "r = p"
    proof (cases "getRow q (mr_tenant m) (mc_id a)")
      case None
      then have "q1 \<noteq> q"
        using assms(5) by (auto simp: reserveWardenModelCall_def valid_reservation_eq_Inr ensure_eq_Inr Let_def new_reservation_def
            runtime_reservation_def dest!: arg_cong[where f = "\<lambda>q. length (qu_reservations q)"])
      with replay(1) show ?thesis by simp
    next
      case (Some p)
      have "r = p" using assms(5) Some
        by (auto simp: reserveWardenModelCall_def valid_reservation_eq_Inr ensure_eq_Inr Let_def new_reservation_def runtime_reservation_def)
      with Some that show ?thesis by blast
    qed
    then show ?thesis using getRow_SomeD by blast
  qed
  ultimately show ?thesis using replay by simp
next
  case added
  then show ?thesis by (simp add: bounds_of_def new_reservation_def runtime_reservation_def)
qed

text \<open>The agent's test of the evidence is the ledger's.\<close>

lemma measured_agrees: "hasMeasuredUsage a b t c \<longleftrightarrow> completeMeasured a b t c"
  by (cases a; cases b; cases t; cases c) (auto simp: hasMeasuredUsage_def completeMeasured_def positive_integer_def)

lemma safe_at_most: "is_safe_integer x \<Longrightarrow> num_le x (Fin k) \<longleftrightarrow> num_val x \<le> k"
  by (cases x) (simp_all add: is_safe_integer_def num_val_def)

lemma finite_at_most: "is_finite x \<Longrightarrow> num_le x (Fin k) \<longleftrightarrow> num_val x \<le> k"
  by (cases x) (simp_all add: is_finite_def num_val_def)

lemma within_agrees:
  assumes "bounds_of a r" and "mc_maxInput a = Fin (of_int k)" and "mc_maxOutput a = Fin (of_int l)"
    and "mc_maxTotal a = Fin (of_int n)" and "mc_maxCost a = Fin c"
  shows "measuredSettlement a s \<longleftrightarrow> mo_succeeded s \<and> withinReservation r (runtime_settlement m now rid s)"
proof -
  have b: "rv_maxInput r = k" "rv_maxOutput r = l" "rv_maxTotal r = n" "rv_maxCost r = c"
    using assms by (simp_all add: bounds_of_def num_val_def)
  show ?thesis
  proof (cases "completeMeasured (mo_inputTokens s) (mo_outputTokens s) (mo_totalTokens s) (flat (mo_costUsd s))")
    case True
    then obtain x y t z where v: "mo_inputTokens s = Some x" "mo_outputTokens s = Some y" "mo_totalTokens s = Some t" "flat (mo_costUsd s) = Some z"
      "is_safe_integer x" "is_safe_integer y" "is_safe_integer t" "is_finite z"
      by (auto simp: completeMeasured_def positive_integer_def split: option.splits)
    with True show ?thesis
      by (simp add: measuredSettlement_def withinReservation_def runtime_settlement_def measured_agrees at_most_def reported_val_def assms(2-5) b
          safe_at_most finite_at_most)
  next
    case False
    then show ?thesis by (simp add: measuredSettlement_def withinReservation_def runtime_settlement_def measured_agrees)
  qed
qed

lemma materialize_outcome:
  "rv_status (materializeSettlement r i) = RSucceeded \<longleftrightarrow> ws_succeeded i \<and> withinReservation r i"
  "rv_chargedCost (materializeSettlement r i) =
     Some (if ws_succeeded i \<and> withinReservation r i then reported_val (flat (ws_costUsd i)) else rv_maxCost r)"
  by (simp_all add: materializeSettlement_def Let_def)

text \<open>A successful settlement leaves a row with the outcome and the charge of the evidence.\<close>

lemma settle_outcome:
  assumes "inj (h_sha h)" and "number_text_ok nt" and "tables_keyed q" and "\<forall>r \<in> set (qu_reservations q). row_sealed h nt r"
    and "settleWardenModelCall h nt i q = Inr (v, q1)"
  obtains r r' where "getRow q (ws_tenant i) (ws_reservation i) = Some r" "getRow q1 (ws_tenant i) (ws_reservation i) = Some r'"
    "rv_status r' = rv_status (materializeSettlement r i)" "rv_chargedCost r' = rv_chargedCost (materializeSettlement r i)"
proof -
  have keyed: "distinct (map rv_id (qu_reservations q))" using assms(3) by (simp add: tables_keyed_def)
  from assms(5) keyed show ?thesis
  proof (cases rule: settle_cases)
    case (replay r)
    have sealed: "row_sealed h nt r" using assms(4) getRow_SomeD[OF replay(3)] by blast
    have "settlementFingerprint h nt i \<noteq> storedSettlementFingerprint h nt r"
      by (simp add: settlementFingerprint_def account_digest_def storedSettlementFingerprint_def versionedDigest_def)
    then have same: "storedSettlementFingerprint h nt r = storedSettlementFingerprint h nt (materializeSettlement r i)"
      using replay(4,5) sealed by (auto simp: row_sealed_def same_settlement_def)
    let ?m = "(materializeSettlement r i)\<lparr>rv_settlementDigest := rv_settlementDigest r\<rparr>"
    have "storedSettlementFingerprint h nt r = storedSettlementFingerprint h nt ?m"
      unfolding same by (simp add: storedSettlementFingerprint_def settlement_fields_def)
    then have eq: "printed_row r = printed_row ?m"
      by (rule settlement_determined[OF assms(1,2)]) (simp_all add: materialize_frame)
    have "rv_status r = rv_status ?m" "rv_chargedCost r = rv_chargedCost ?m"
      using arg_cong[OF eq, of rv_status] arg_cong[OF eq, of rv_chargedCost] by (simp_all add: printed_row_def)
    then show ?thesis by (intro that[of r r]) (use replay in simp_all)
  next
    case (written r)
    note row = getRow_SomeD[OF written(1)]
    let ?f = "write_settlement (materializeSettlement r i) (storedSettlementFingerprint h nt (materializeSettlement r i))"
    have "map rv_id (update_where (\<lambda>x. x = r) ?f (qu_reservations q)) = map rv_id (qu_reservations q)"
      by (rule map_update_where) (simp add: write_settlement_def)
    then have "distinct (map rv_id (qu_reservations q1))" using keyed by (simp add: written(9))
    moreover have "?f r \<in> set (qu_reservations q1)" using row by (force simp: written(9) update_where_def)
    moreover have ids: "rv_id (?f r) = ws_reservation i" "rv_tenant (?f r) = ws_tenant i" using row by (simp_all add: write_settlement_def)
    ultimately have "getRow q1 (ws_tenant i) (ws_reservation i) = Some (?f r)"
      unfolding getRow_def by (intro find_key[where k = rv_id]) simp_all
    then show ?thesis by (intro that[of r "?f r"]) (use written(1) in \<open>simp_all add: write_settlement_def\<close>)
  qed
qed

text \<open>Claim C13: the agent and the ledger agree on what a call cost. After the agent reserved a call through its
  worker, and any commands, a settlement that the ledger accepts - for the first time or as a replay of the same
  evidence - answers the agent that the usage was measured and within bounds exactly when the row of the call
  says it succeeded; it is then charged what was reported, and the reserved maximum otherwise.\<close>

theorem agent_ledger_agree:
  assumes "inj (h_sha h)" and "number_text_ok nt" and "q0 = run_queue h nt cs empty_queue" and "mt_accounting t = Some m"
    and "reserveExternalModelCall h nt urlHost t body maxOutput callIndex now q0 = Inr (Some a, q1)"
    and "q = run_queue h nt ds q1" and "settleExternalModelCall h nt m (Some a) s later q = Inr (ok, q')"
  shows "\<exists>r. getRow q' (mr_tenant m) (mc_id a) = Some r \<and> (ok \<longleftrightarrow> rv_status r = RSucceeded) \<and>
    rv_chargedCost r = Some (if ok then reported_val (flat (mo_costUsd s)) else num_val (mc_maxCost a))"
proof -
  obtain endpointHost where a: "a = agent_reservation_of h m t endpointHost body maxOutput callIndex"
    and cost: "is_finite (mr_maxCallCost m)" and res: "runtime_reserve h nt urlHost m now a q0 = Inr q1"
    using assms(4,5) by (auto simp: reserveExternalModelCall_def ensure_eq_Inr bindR_eq_Inr Let_def split: if_splits option.splits)
  obtain r0 where r0: "reserveWardenModelCall h nt (runtime_reservation m now a) q0 = Inr (r0, q1)"
    using res by (auto simp: runtime_reserve_def assertReservationProvenance_def ensure_eq_Inr bindR_eq_Inr split: option.splits)
  have keyed0: "tables_keyed q0" unfolding assms(3) by (rule reach_keyed)
  have q1: "q1 = run_queue h nt (cs @ [QReserve (runtime_reservation m now a)]) empty_queue"
    using r0 by (simp add: run_queue_def assms(3))
  have q: "q = run_queue h nt (cs @ [QReserve (runtime_reservation m now a)] @ ds) empty_queue"
    using assms(6) q1 by (simp add: run_queue_def)
  have keyed: "tables_keyed q1" "tables_keyed q" unfolding q1 q by (rule reach_keyed)+
  have sealed: "\<forall>r \<in> set (qu_reservations p). row_sealed h nt r" if "p = run_queue h nt es empty_queue" for p es
    using rows_sealed that by blast
  have bounds0: "bounds_of a r0" "r0 \<in> set (qu_reservations q1)" "rv_id r0 = mc_id a"
    using reserve_bounds[OF assms(1,2) keyed0 sealed[OF assms(3)] r0] by simp_all
  have bound1: "\<forall>r \<in> set (qu_reservations q1). rv_id r = mc_id a \<longrightarrow> bounds_of a r"
    using bounds0 keyed(1) by (metis distinct_key_eq tables_keyed_def)
  have mem: "mc_id a \<in> rv_id ` set (qu_reservations q1)" using bounds0(2,3) by (metis imageI)
  have "mc_id a \<in> rv_id ` set (qu_reservations q) \<and> (\<forall>r \<in> set (qu_reservations q). rv_id r = mc_id a \<longrightarrow> bounds_of a r)"
    unfolding assms(6) run_queue_def
    by (rule reservations.key_kept[where P = "bounds_of a", OF bounds_kept keyed(1) mem bound1])
  moreover obtain v q2 where st: "settleWardenModelCall h nt (runtime_settlement m later (mc_id a) s) q = Inr (v, q2)" "q' = q2" "ok = measuredSettlement a s"
    using assms(7) by (auto simp: settleExternalModelCall_def runtime_settle_def bindR_eq_Inr)
  obtain r r' where rr: "getRow q (mr_tenant m) (mc_id a) = Some r" "getRow q' (mr_tenant m) (mc_id a) = Some r'"
    "rv_status r' = rv_status (materializeSettlement r (runtime_settlement m later (mc_id a) s))"
    "rv_chargedCost r' = rv_chargedCost (materializeSettlement r (runtime_settlement m later (mc_id a) s))"
    by (rule settle_outcome[OF assms(1,2) keyed(2) sealed[OF q] st(1)]) (simp add: runtime_settlement_def st(2))
  ultimately have br: "bounds_of a r" using getRow_SomeD[OF rr(1)] by blast
  obtain c where c: "mr_maxCallCost m = Fin c" using cost by (auto simp: is_finite_iff)
  have fields: "mc_maxInput a = Fin (of_int (utf8_length body))" "mc_maxOutput a = Fin (of_int maxOutput)"
    "mc_maxTotal a = Fin (of_int (utf8_length body + maxOutput))" "mc_maxCost a = Fin c"
    by (simp_all add: a agent_reservation_of_def Let_def c)
  have "ok \<longleftrightarrow> mo_succeeded s \<and> withinReservation r (runtime_settlement m later (mc_id a) s)"
    unfolding st(3) by (rule within_agrees[OF br fields])
  moreover have "rv_maxCost r = num_val (mc_maxCost a)" using br by (simp add: bounds_of_def)
  ultimately show ?thesis using rr by (auto simp: materialize_outcome runtime_settlement_def)
qed

end
