(* ===== verification/QueueDemo.thy ===== *)
theory QueueDemo
  imports AccountingProperties
begin

text \<open>
  A concrete run of the queue and of the accounting, and each property of them at it: a job is claimed, its call of
  a model reserved and settled; the lease expires, the job is recovered and claimed by another worker.
\<close>

section \<open>Evaluation of dates\<close>

fun pad_i :: "nat \<Rightarrow> int \<Rightarrow> string" where
  "pad_i 0 i = []"
| "pad_i (Suc n) i = pad_i n (i div 10) @ [char_of (48 + i mod 10)]"

lemma nat_str_small: "n < 10 \<Longrightarrow> nat_str n = [char_of (48 + n)]"
  by (subst nat_str.simps) simp

lemma nat_str_big: "\<not> n < 10 \<Longrightarrow> nat_str n = nat_str (n div 10) @ [char_of (48 + n mod 10)]"
  by (subst nat_str.simps) simp

lemma pad_nat: "0 < n \<Longrightarrow> k < 10 ^ n \<Longrightarrow> replicate (n - length (nat_str k)) (CHR ''0'') @ nat_str k = pad_i n (int k)"
proof (induction n arbitrary: k)
  case (Suc n)
  have digit: "char_of (48 + int (k mod 10)) = (char_of (48 + k mod 10) :: char)"
    by (metis char_of_nat of_nat_add of_nat_numeral)
  show ?case
  proof (cases "n = 0")
    case True
    then have "k < 10" using Suc.prems(2) by simp
    then show ?thesis using digit True by (simp add: nat_str_small zmod_int)
  next
    case False
    have less: "k div 10 < 10 ^ n" using Suc.prems(2) by (simp add: less_mult_imp_div_less mult.commute)
    have ih: "pad_i n (int k div 10) = replicate (n - length (nat_str (k div 10))) (CHR ''0'') @ nat_str (k div 10)"
      using Suc.IH[OF _ less] False by (simp add: zdiv_int)
    show ?thesis
    proof (cases "k < 10")
      case True
      have zero: "(char_of (48 :: nat) :: char) = CHR ''0''" by code_simp
      obtain m where "n = Suc m" using False by (cases n) simp_all
      then show ?thesis using True digit ih zero by (simp add: nat_str_small zmod_int replicate_append_same)
    next
      case big: False
      then show ?thesis using digit ih by (simp add: nat_str_big zmod_int)
    qed
  qed
qed simp

lemma pad_code [code]: "pad n i = (if 0 < n \<and> 0 \<le> i \<and> i < 10 ^ n then pad_i n i else
    (let s = nat_str (nat i) in replicate (n - length s) (CHR ''0'') @ s))"
  using pad_nat[of n "nat i"] by (auto simp: pad_def Let_def nat_less_iff)


section \<open>The run\<close>

text \<open>The text of a rational by numerator and denominator, and a digest that has the form of one where the code
  asks for it.\<close>

definition sample_number_text :: number_text where
  "sample_number_text q = int_str (fst (quotient_of q)) @ ''e'' @ int_str (snd (quotient_of q))"

definition call_scope :: string where
  "call_scope = join_with [char_of (0 :: nat)] [''a'', ''j1'', ''r1'', ''w'', ''1'']"

definition sample_sha :: "string \<Rightarrow> string" where
  "sample_sha s = (if s = call_scope then replicate 64 (CHR ''a'') else if s = ''body'' then replicate 64 (CHR ''b'') else CHR ''x'' # s)"

definition queue_host :: host where
  "queue_host = plain_host\<lparr>h_sha := sample_sha\<rparr>"

definition at0 :: string where "at0 = ''2026-01-01T00:00:00.000Z''"
definition at1 :: string where "at1 = ''2026-01-01T00:00:30.000Z''"
definition at2 :: string where "at2 = ''2026-01-01T00:02:00.000Z''"

definition jd_enqueue :: queue_cmd where
  "jd_enqueue = QEnqueue \<lparr>ne_id = ''j1'', ne_tenant = ''a'', ne_type = ''agent.run'', ne_payload = JNull, ne_maxAttempts = None,
     ne_createdAt = at0, ne_availableAt = None\<rparr>"

definition jd_claim :: "string \<Rightarrow> string \<Rightarrow> claim_input" where
  "jd_claim worker now = \<lparr>cl_types = [''agent.run''], cl_tenant = Some ''a'', cl_worker = worker, cl_leaseMs = None, cl_now = now,
     cl_maxRunning = Some 1\<rparr>"

definition jd_pending :: job where
  "jd_pending = \<lparr>jq_id = ''j1'', jq_tenant = ''a'', jq_type = ''agent.run'', jq_payload = JNull, jq_status = ''pending'',
     jq_attempts = 0, jq_maxAttempts = 3, jq_error = None, jq_result = None, jq_createdAt = ''2026-01-01T00:00:00.000Z'',
     jq_startedAt = None, jq_finishedAt = None, jq_leaseOwner = None, jq_leaseExpiresAt = None,
     jq_availableAt = Some ''2026-01-01T00:00:00.000Z'', jq_generation = 0, jq_errorCode = None, jq_lastErrorAt = None,
     jq_deadAt = None, jq_cancelledAt = None\<rparr>"

definition jd_leased :: job where
  "jd_leased = jd_pending\<lparr>jq_status := ''running'', jq_attempts := 1, jq_startedAt := Some ''2026-01-01T00:00:00.000Z'',
     jq_leaseOwner := Some ''w'', jq_leaseExpiresAt := Some ''2026-01-01T00:01:00.000Z'', jq_generation := 1\<rparr>"

definition jd_queue :: "job \<Rightarrow> reservation list \<Rightarrow> queue" where
  "jd_queue j rs = \<lparr>qu_jobs = [j], qu_adaptive = [], qu_candidate = [], qu_reservations = rs\<rparr>"

definition jd_cmds :: "queue_cmd list" where
  "jd_cmds = [jd_enqueue, QClaim (jd_claim ''w'' at0)]"

abbreviation jd_run :: "queue_cmd list \<Rightarrow> queue \<Rightarrow> queue" where
  "jd_run \<equiv> run_queue queue_host sample_number_text"

lemma jd_enqueued: "jd_run [jd_enqueue] empty_queue = jd_queue jd_pending []"
  by code_simp

lemma jd_claimed: "claimNextJob queue_host sample_number_text (jd_claim ''w'' at0) (jd_queue jd_pending []) =
    Inr (Some jd_leased, jd_queue jd_leased [])"
  by code_simp

lemma jd_run_leased: "jd_run jd_cmds empty_queue = jd_queue jd_leased []"
  using jd_enqueued jd_claimed by (simp add: run_queue_def jd_cmds_def)

text \<open>Two minutes later the lease of \<open>w\<close> has expired, and \<open>v\<close> claims the job.\<close>

lemma jd_reclaimed: "case qu_jobs (jd_run [QClaim (jd_claim ''v'' at2)] (jd_queue jd_leased [])) of
    [j] \<Rightarrow> jq_id j = ''j1'' \<and> jq_leaseOwner j = Some ''v'' \<and> jq_generation j = 2 | _ \<Rightarrow> False"
  by code_simp

section \<open>The properties at the run\<close>

definition jd_fence :: lease_fence where
  "jd_fence = \<lparr>lf_worker = ''w'', lf_generation = 1\<rparr>"

definition jd_later :: queue where
  "jd_later = jd_run [QClaim (jd_claim ''v'' at2)] (jd_queue jd_leased [])"

lemma jd_lost: "jd_leased \<in> set (qu_jobs (jd_queue jd_leased []))" "holds jd_fence jd_leased"
    "\<forall>k \<in> set (qu_jobs jd_later). jq_id k = jq_id jd_leased \<longrightarrow> \<not> holds jd_fence k" "jd_later = jd_run [] jd_later"
  using jd_reclaimed
  by (auto simp: jd_queue_def holds_def jd_fence_def jd_leased_def jd_later_def run_queue_def split: list.splits)

theorem lease_loss_final_witness:
  "completeJob ''j1'' JNull at2 (Some jd_fence) jd_later = (False, jd_later)"
  using lease_loss_final[OF jd_run_leased[symmetric] jd_lost(1,2) jd_later_def jd_lost(3,4), of JNull at2]
  by (simp add: jd_leased_def jd_pending_def)

definition jd_dispatch :: dispatch_input where
  "jd_dispatch = \<lparr>din_tenant = ''a'', din_job = ''j1'',
     din_authority = \<lparr>au_mission = ''m'', au_missionRevision = 1, au_missionState = MCreated, au_task = None,
       au_taskRevision = None, au_taskStatus = None, au_repository = ''r'', au_snapshot = ''s'', au_sha = []\<rparr>,
     din_intent = ''i'', din_worker = ''w'', din_generation = 1, din_observedAt = at2\<rparr>"

theorem lost_lease_stops_mutation_witness:
  "isl (authorizeMissionMutationDispatch queue_host jd_dispatch ''pull_request'' ''p1''
     (empty_db\<lparr>db_jobs := map job_view (qu_jobs jd_later)\<rparr>))"
  using lost_lease_stops_mutation[OF jd_run_leased[symmetric] jd_lost(1,2) jd_later_def jd_lost(3,4),
      of "empty_db\<lparr>db_jobs := map job_view (qu_jobs jd_later)\<rparr>" jd_dispatch]
  by (simp add: jd_leased_def jd_pending_def jd_fence_def jd_dispatch_def)

text \<open>The expired job is recovered: pending again, and due.\<close>

theorem recovery_exact_witness:
  "\<exists>q'. recoverExpiredJobs queue_host sample_number_text at2 None (jd_queue jd_leased []) = Inr (1, q') \<and>
    list_all (\<lambda>j. jq_status j = ''pending'' \<and> due at2 j) (qu_jobs q')"
proof -
  have "recovery_input at2 None" by code_simp
  from recovery_exact[OF jd_run_leased[symmetric] this] obtain q' where
    q': "recoverExpiredJobs queue_host sample_number_text at2 None (jd_queue jd_leased []) =
        Inr (changes (recoverable at2 None) (qu_jobs (jd_queue jd_leased [])), q')"
      "list_all2 (\<lambda>j j'. if recoverable at2 None j then recovered_well (jd_queue jd_leased []) at2 j j' else j' = j)
        (qu_jobs (jd_queue jd_leased [])) (qu_jobs q')" by blast
  have r: "recoverable at2 None jd_leased" by code_simp
  then have "changes (recoverable at2 None) (qu_jobs (jd_queue jd_leased [])) = 1" by (simp add: changes_def jd_queue_def)
  moreover have "list_all (\<lambda>j. jq_status j = ''pending'' \<and> due at2 j) (qu_jobs q')"
    using q'(2) r by (auto simp: jd_queue_def list_all2_Cons1 recovered_well_def jd_leased_def jd_pending_def)
  ultimately show ?thesis using q'(1) by auto
qed

theorem claim_exact_witness:
  "\<exists>e. date_plus queue_host at0 60000 = Inr e \<and> jd_leased = lease_job ''w'' at0 e jd_pending"
proof -
  have rec: "recovered_queue queue_host sample_number_text at0 (Some ''a'') (jd_queue jd_pending []) = jd_queue jd_pending []"
    by code_simp
  show ?thesis
    using claim_exact[OF jd_enqueued[symmetric] jd_claimed refl]
    by (simp add: jd_claim_def rec or_default_def) (auto simp: jd_queue_def)
qed

theorem claimed_job_completes_witness:
  "fst (completeJob ''j1'' (JStr ''ok'') at1 (Some jd_fence) (jd_queue jd_leased []))"
proof -
  have m: "canonical_ms at0 = Some 63934444800000" "canonical_ms at1 = Some 63934444830000" by code_simp+
  show ?thesis
    using claimed_job_completes[OF jd_enqueued[symmetric] jd_claimed _ refl _ m(2) _ refl, of 63934444800000 "JStr ''ok''"] m(1)
    by (simp add: jd_claim_def or_default_def last_ms_def jd_fence_def jd_leased_def jd_pending_def)
qed

section \<open>A call of a model\<close>

definition jd_reserve :: reservation_input where
  "jd_reserve = \<lparr>wi_id = ''rv1'', wi_tenant = ''a'', wi_job = ''j1'', wi_run = ''r1'', wi_worker = ''w'', wi_generation = Fin 1,
     wi_callIndex = Fin 1, wi_requestDigest = ''sha256:'' @ replicate 64 (CHR ''b''), wi_provider = ''p'', wi_configuredModel = ''m'',
     wi_endpointHost = ''h'', wi_maxInput = Fin 4, wi_maxOutput = Fin 2, wi_maxTotal = Fin 6, wi_maxCost = Fin 1,
     wi_jobBudget = Fin 2, wi_observedAt = at0\<rparr>"

definition jd_settle :: settlement_input where
  "jd_settle = \<lparr>ws_tenant = ''a'', ws_job = ''j1'', ws_reservation = ''rv1'', ws_worker = ''w'', ws_generation = Fin 1,
     ws_succeeded = True, ws_actualModel = Some (Some ''m''), ws_bodyRequestId = None, ws_headerRequestId = None,
     ws_inputTokens = Some (Fin 4), ws_outputTokens = Some (Fin 1), ws_totalTokens = Some (Fin 5), ws_costUsd = Some (Some (Fin (1 / 2))),
     ws_errorCode = None, ws_observedAt = at1\<rparr>"

lemma jd_reserved: "case qu_reservations (jd_run [QReserve jd_reserve] (jd_queue jd_leased [])) of
    [r] \<Rightarrow> rv_status r = RActive \<and> rv_jobBudget r = 2 \<and> held_cost r = 1 | _ \<Rightarrow> False"
  by code_simp

lemma jd_settled: "case qu_reservations (jd_run [QReserve jd_reserve, QSettle jd_settle] (jd_queue jd_leased [])) of
    [r] \<Rightarrow> rv_status r = RSucceeded \<and> rv_chargedCost r = Some (1 / 2) | _ \<Rightarrow> False"
  by code_simp

lemma jd_run_more: "jd_run (jd_cmds @ cs) empty_queue = jd_run cs (jd_queue jd_leased [])"
  using jd_run_leased by (simp add: run_queue_def)


text \<open>The settled row cannot be given a smaller charge.\<close>

lemma sample_number_text_ok: "number_text_ok sample_number_text"
proof -
  have chars: "list_all number_char (int_str i)" for i
    using nat_str_digits by (auto simp: int_str_def number_char_def list_all_iff)
  have "\<not> is_digit (CHR ''e'')" by (simp add: is_digit_def)
  then have e: "CHR ''e'' \<notin> set (int_str i)" for i
    using nat_str_digits unfolding int_str_def list_all_iff by auto
  have "inj sample_number_text"
  proof (rule injI)
    fix p q assume eq: "sample_number_text p = sample_number_text q"
    have tw: "takeWhile (\<lambda>c. c \<noteq> CHR ''e'') (int_str i @ CHR ''e'' # r) = int_str i" for i r
      using e[of i] by (subst takeWhile_append2) auto
    have "int_str (fst (quotient_of p)) = int_str (fst (quotient_of q))"
      using arg_cong[OF eq, of "takeWhile (\<lambda>c. c \<noteq> CHR ''e'')"] by (simp add: sample_number_text_def tw)
    moreover from this have "int_str (snd (quotient_of p)) = int_str (snd (quotient_of q))"
      using eq by (simp add: sample_number_text_def)
    ultimately have "quotient_of p = quotient_of q" by (simp add: prod_eq_iff)
    then show "p = q" by (rule quotient_of_inject)
  qed
  moreover have "list_all number_char (sample_number_text q)" for q
    using chars by (simp add: sample_number_text_def number_char_def)
  ultimately show ?thesis by (simp add: number_text_ok_def)
qed

lemma queue_host_inj: "inj (h_sha queue_host)"
proof -
  have x: "replicate 64 (CHR ''a'') \<noteq> CHR ''x'' # s" "replicate 64 (CHR ''b'') \<noteq> CHR ''x'' # s" for s
    by (simp_all add: numeral_eq_Suc)
  have "replicate 64 (CHR ''a'') \<noteq> replicate 64 (CHR ''b'')" by (simp add: replicate_eq_replicate)
  with x x[symmetric] show ?thesis by (auto simp: inj_def queue_host_def sample_sha_def)
qed


definition jd_runtime :: model_runtime where
  "jd_runtime = \<lparr>mr_tenant = ''a'', mr_job = ''j1'', mr_run = ''r1'', mr_worker = ''w'', mr_generation = 1, mr_provider = ''p'',
     mr_configuredModel = ''m'', mr_endpoint = ''h'', mr_maxCallCost = Fin 1, mr_jobBudget = Fin 2\<rparr>"

definition jd_task :: model_task where
  "jd_task = \<lparr>mt_allowModelSource = True, mt_accounting = Some jd_runtime, mt_provider = ''p'', mt_model = ''m'', mt_endpoint = ''h''\<rparr>"

definition jd_usage :: agent_settlement where
  "jd_usage = \<lparr>mo_succeeded = True, mo_actualModel = None, mo_bodyRequestId = None, mo_headerRequestId = None,
     mo_inputTokens = Some (Fin 4), mo_outputTokens = Some (Fin 1), mo_totalTokens = Some (Fin 5), mo_costUsd = Some (Some (Fin (1 / 2))),
     mo_errorCode = None\<rparr>"

definition jd_agent_reserve :: "(agent_reservation option \<times> queue) result" where
  "jd_agent_reserve = reserveExternalModelCall queue_host sample_number_text Some jd_task ''body'' 2 1 at0 (jd_queue jd_leased [])"

definition jd_agent_settle :: "(bool \<times> queue) result" where
  "jd_agent_settle = bindR jd_agent_reserve (\<lambda>(a, q). settleExternalModelCall queue_host sample_number_text jd_runtime a jd_usage at1 q)"

lemma jd_agent_ok: "(case jd_agent_reserve of Inr (Some a, q) \<Rightarrow> True | _ \<Rightarrow> False) \<and>
    (case jd_agent_settle of Inr (True, q) \<Rightarrow> True | _ \<Rightarrow> False)"
  by code_simp

theorem agent_ledger_agree_witness:
  "\<exists>a q q' r. jd_agent_reserve = Inr (Some a, q) \<and> jd_agent_settle = Inr (True, q') \<and> getRow q' ''a'' (mc_id a) = Some r \<and>
     rv_status r = RSucceeded \<and> rv_chargedCost r = Some (1 / 2)"
proof -
  obtain a q where a: "jd_agent_reserve = Inr (Some a, q)"
    using jd_agent_ok by (auto split: sum.splits prod.splits option.splits)
  obtain q' where q': "jd_agent_settle = Inr (True, q')"
    using jd_agent_ok by (auto split: sum.splits prod.splits bool.splits)
  have st: "settleExternalModelCall queue_host sample_number_text jd_runtime (Some a) jd_usage at1 q = Inr (True, q')"
    using q' unfolding jd_agent_settle_def a by simp
  have "mt_accounting jd_task = Some jd_runtime" by (simp add: jd_task_def)
  from agent_ledger_agree[OF queue_host_inj sample_number_text_ok jd_run_leased[symmetric] this a[unfolded jd_agent_reserve_def] _ st, of "[]"]
  obtain r where "getRow q' ''a'' (mc_id a) = Some r" "rv_status r = RSucceeded" "rv_chargedCost r = Some (1 / 2)"
    by (auto simp: run_queue_def jd_runtime_def jd_usage_def reported_val_def flat_def num_val_def)
  with a q' show ?thesis by blast
qed

end
