(* ===== verification/Spec2Isabelle.thy ===== *)
theory Spec2Isabelle
  imports Incremental Orchestrator AdapterLifecycle PolicyEnvelope WardenPolicy EGraphSaturate EvidenceProperties MissionReplay
    QueueDemo
begin

text \<open>
  This development models the decision-making core of mendpoint: the parts whose answers the rest of the
  system acts on without looking again. Each theory follows one source file or a few that belong together;
  definitions keep the source's names, errors are values (\<open>Inl\<close> of an error message, or of an error datatype),
  and every operation takes its state and returns the new one.

  \<^bold>\<open>The parts and how they interact.\<close> The call graph (\<open>packages/call-graph\<close>) answers which code a change
  reaches. The agent orchestrator (\<open>packages/orchestrator\<close>) runs the agents of a migration as a graph of handlers. The
  policy packages (\<open>packages/policy\<close>) decide what a run may touch, and the adapter registry
  (\<open>packages/platform\<close>) which adapters may be used. The e-graph (\<open>packages/egraph\<close>) proves rewrites equal. The
  mission control plane (\<open>packages/db/src/mission*.ts\<close>, \<open>trust.ts\<close>) keeps the durable record of a migration:
  its mission row, tasks, exceptions and audit log, and the permits for writes to the remote host. In the
  control plane every operation that changes a mission, a task or a blocking exception first passes the fence
  of \<open>mission-mutation-dispatch-fence.ts\<close>, and every operation that arms or sends a remote write first checks
  its authority against those same rows; the theorems on the composed system are about that interplay. The job
  queue (\<open>packages/db/src/index.ts\<close>) hands the work out under leases, and the accounting of model calls
  (\<open>packages/db/src/warden-model-accounting.ts\<close>), which the agent reaches through the runtime of the worker, bounds
  what a job may spend under the lease it holds.

  \<^bold>\<open>Shared theories.\<close> \<open>Prelude\<close> holds the result type, JavaScript string helpers and association maps;
  \<open>JsNum\<close> numbers that are kept rational, \<open>JsTime\<close> canonical timestamps and their milliseconds, \<open>JsDate\<close> the
  timestamp of a millisecond and the proof that it reads back, \<open>Json\<close> JSON
  values and their text with the proof that the text determines the value. The interfaces are locales:
  \<open>comparator\<close> and \<open>keyed_store\<close> in \<open>Prelude\<close> (sorting by a comparison function; a map in insertion order),
  \<open>lifecycle\<close> in \<open>Lifecycle\<close> (a transition table with a rank, interpreted on the adapter lifecycle and on the
  mission states), and \<open>partition_store\<close> in \<open>UnionFind\<close> (a partial union operation that refines an equivalence
  relation), \<open>content_store\<close> in the mission records and \<open>row_table\<close> in \<open>RowTable\<close> (a table whose rows move by given
  steps and never leave, interpreted on the jobs and the reservations). Their lemmas are proved once and used through the interpretations on the code's model.
  \<open>GraphSearch\<close> holds the level-by-level search that the caller and callee queries share.

  \<^bold>\<open>Call graph.\<close> \<open>CallGraph\<close> has the data model of \<open>types.ts\<close> and the callee resolution of \<open>build.ts\<close>,
  \<open>CallGraphBuild\<close> the assembly and the adjacency index, \<open>CallGraphQuery\<close> the queries of \<open>query.ts\<close>, and
  \<open>Incremental\<close> change detection, the incremental update and its validation (\<open>change-detect.ts\<close>,
  \<open>incremental.ts\<close>, \<open>validate.ts\<close>). The lemmas show that reverse and forward reachability are exact shortest-path
  searches and dual to each other, that subgraphs are closed, that confidence only falls along a path, that
  the incremental update keeps the graph consistent and exactly what it resets; they also exhibit the lost
  call edge. The worklist loops recurse on the nodes not yet visited, so no fuel is involved. Parsing of
  source files is outside: extracted methods and call sites are inputs.

  \<^bold>\<open>Orchestrator.\<close> \<open>Orchestrator\<close> has the runner of \<open>graph.ts\<close>, the product graphs of
  \<open>warden-product-graph.ts\<close> and the plan operations of \<open>plan.ts\<close>. Handlers are a parameter; the step limit of
  the source bounds the run. The lemmas show that a run's trace is a path and that a successful Warden run has
  passed verification and the review gate.

  \<^bold>\<open>Policy.\<close> \<open>Policy\<close> (merge, evaluation, findings of \<open>index.ts\<close>), \<open>PolicyEnvelope\<close> (evaluation, validation and
  canonical form of \<open>policy-envelope.ts\<close>), \<open>WardenPolicy\<close> (layer resolution, simulation and the versioned store
  of \<open>warden-policy.ts\<close>). The lemmas give exact conditions for decisions, the round trip of envelopes,
  and the invariant of reachable stores. \<open>AdapterLifecycle\<close> has \<open>adapter-lifecycle.ts\<close> with the evidence its
  promotion gate demands.

  \<^bold>\<open>E-graph.\<close> \<open>UnionFind\<close> (\<open>union-find.ts\<close>), \<open>EGraph\<close> (terms, nodes, keys, adding, union, facts, rebuilding),
  \<open>EGraphAdd\<close> and \<open>EGraphRebuild\<close> (its invariants), \<open>EGraphMatch\<close> (extraction and e-matching, with the
  reading back of literals) and \<open>EGraphSaturate\<close> (\<open>saturate.ts\<close>, \<open>migration.ts\<close>). Extraction is shown equal to a
  search over the roots alone, its depth bound (the number of classes plus one) to suffice, and its result to
  be a term of the class or the placeholder; saturation is shown to return, and the two ways the placeholder
  goes wrong are exhibited. Loops that need not return are partial functions in the
  option type, and the theorems prove that they do return. The model keeps the object identity the source
  relies on (an e-class is one object under several keys) and the order in which a growing set is iterated.

  \<^bold>\<open>Mission control plane.\<close> \<open>MissionDb\<close> has the rows of the tables as records in a database record, a query
  being a \<open>find\<close> or \<open>filter\<close> and an update \<open>update_where\<close> with its number of changed rows. \<open>DomainEvents\<close> is the
  audit log of \<open>trust.ts\<close>, \<open>Mission\<close> is \<open>mission.ts\<close> with the fence, \<open>MissionTask\<close> is \<open>mission-task.ts\<close>,
  \<open>MissionExceptions\<close> is \<open>mission-exceptions.ts\<close> and \<open>mission-record-content.ts\<close>, \<open>MissionDispatch\<close> is
  \<open>mission-mutation-authority.ts\<close> and \<open>mission-mutation-dispatch.ts\<close>. \<open>MissionWrites\<close> and \<open>ControlWrites\<close>
  characterise every successful operation as one abstract write. \<open>ControlPlane\<close> composes all operations into
  commands, shows that each command is a few steps of an abstract machine, and proves the invariant of that
  machine. On reachable databases: \<open>ControlProperties\<close> shows that an open dispatch acts on a current authority,
  that dispatches follow the state machine of
  \<open>docs/adr/2026-08-26-durable-mission-remote-mutation-dispatch.md\<close>, and that the audit log verifies and is
  append-only; \<open>MissionProperties\<close> the history of missions and optimistic concurrency; \<open>MissionReplay\<close> that the
  audit events of a mission determine its row; \<open>TaskProperties\<close> that the dependency check decides
  reachability, dependencies are acyclic, unfinished missions have a ready task, and rows are well-formed.

  \<^bold>\<open>Mission records.\<close> \<open>MissionRecords\<close> has the durable records beside the control plane: decisions
  (\<open>mission-decisions.ts\<close>), verification evidence (\<open>mission-verification.ts\<close>), artifacts with their lineage
  (\<open>mission-artifacts.ts\<close>) and the timeline (\<open>mission-timeline.ts\<close>); \<open>MissionHandoff\<close> the hand-over of a task to
  a human and back (\<open>mission-handoff.ts\<close>). The four tables share the locale \<open>content_store\<close> (rows under the digest
  of their content, appended with an event), interpreted on each of them in \<open>RecordSteps\<close>, which composes the
  records with the commands of the control plane. On reachable stores \<open>RecordProperties\<close> shows that decision
  chains have one head and that lineage is acyclic and traced exactly, within the bound of 4096 artifacts the
  code sets; \<open>EvidenceProperties\<close> that evidence for changed code is never current and that the timeline
  verifies and is complete.

  \<^bold>\<open>Job queue and model accounting.\<close> \<open>JobRows\<close> has the rows of jobs, deliveries and reservations with leases and
  tenant scopes, \<open>JobQueue\<close> the operations on jobs (\<open>enqueueJob\<close>, \<open>claimNextJob\<close>, \<open>completeJob\<close>, \<open>failJob\<close>,
  \<open>recoverExpiredJobs\<close> and the rest), \<open>ModelAccounting\<close> reserving and settling the cost of a model call and the
  verification of the ledger, \<open>ModelRuntime\<close> their callers in \<open>packages/agent\<close> and \<open>apps/worker\<close>. \<open>QueueSteps\<close> composes
  them into commands, \<open>AccountingSteps\<close> and \<open>QueueSteps\<close> show that every command moves rows of both tables by single
  steps. On reachable queues \<open>JobProperties\<close> shows that rows fit their status, that the loss of a lease is final
  for everything its old holder does, that a claim takes the first claimable job, that recovery clears exactly
  the expired leases, and that backoff is bounded; \<open>AccountingProperties\<close> that no job commits more than its budget,
  that every row of the ledger verifies, and that agent and ledger agree on a call; \<open>AccountingText\<close> that the
  digests determine a row. \<open>QueueDemo\<close> runs the machine on a concrete history. Its loops recurse on lists, so no
  fuel is involved. The summary that recovery returns, the listings for replay fallbacks, and the text of
  numbers, hosts of URLs and generated ids (parameters) are outside; costs are exact rationals.

  \<^bold>\<open>Representation.\<close> A transaction that fails leaves the database as it was; \<open>beginMissionMutationRemoteCall\<close>,
  which commits a revocation on its error path, returns the database in both cases. Operations run outside an
  open transaction. A JSON column is the value its text serialises; integers of rows are unbounded; text is
  compared and sorted by character code, as SQLite does. SHA-256, \<open>Date.parse\<close> and \<open>Number\<close> on other than
  canonical input are parameters of a host record; where a theorem needs a hash without collisions it says so.
  Timestamps are those with years 0 to 9999. Constraints of the schema that the code checks first are not
  repeated; the others are error branches. Seen from the control plane, principals and jobs may change arbitrarily between commands,
  while repositories, snapshots, campaigns and envelopes are only added, as their tables enforce.

  \<^bold>\<open>Not modelled.\<close> Parsing and rendering (source extraction, mermaid and markdown output), the rest of
  \<open>packages/db\<close> (migrations and the accessors of other subsystems), the fix-hint regular expression of the e-graph migration, and everything whose content is
  I/O or calls to models and services: the apps and \<open>agent\<close> beyond their use of the accounting, \<open>transformer\<close>, \<open>pipeline\<close>, \<open>github\<close>, \<open>ops\<close>,
  \<open>generation\<close>, \<open>repair\<close>, \<open>verifier\<close> and the remaining packages.
\<close>

end
